(* ===== verification/Shp_Prelude.thy ===== *)
theory Shp_Prelude
  imports Main "HOL-Library.Word" "HOL-Library.Sublist"
begin

text \<open>
  Shared vocabulary of the Streamhaul development.

  \<^item> machine integers as words (\<open>u8\<close> \dots \<open>u64\<close>; \<open>i16\<close>, \<open>i64\<close> are the same
    words read with \<open>sint\<close>), slices and vectors of bytes as lists, \<open>usize\<close> lengths as \<open>nat\<close>;
  \<^item> Rust's \<open>Result\<close> as a sum with \<open>and_then\<close> for the \<open>?\<close> operator;
  \<^item> the saturating and checked operations of the integer types;
  \<^item> \<open>to_be_bytes\<close> / \<open>from_be_bytes\<close> for every width at once, with both round trips;
  \<^item> range reads of slices (\<open>slice.get(a..b)\<close>) and fields of a fixed-size array.
\<close>

unbundle bit_operations_syntax

subsection \<open>Integers, bytes, results\<close>

type_synonym u8 = "8 word"
type_synonym u16 = "16 word"
type_synonym u32 = "32 word"
type_synonym u64 = "64 word"
type_synonym i16 = "16 word"
type_synonym i64 = "64 word"
type_synonym bytes = "u8 list"

abbreviation Ok :: "'a \<Rightarrow> 'e + 'a" where "Ok \<equiv> Inr"
abbreviation Err :: "'e \<Rightarrow> 'e + 'a" where "Err \<equiv> Inl"

named_theorems codec_simps \<open>definitions and evaluation rules of the wire codecs\<close>
named_theorems sat_simps \<open>the saturating operations read as natural numbers\<close>

definition and_then :: "'e + 'a \<Rightarrow> ('a \<Rightarrow> 'e + 'b) \<Rightarrow> 'e + 'b" where
  "and_then r f = (case r of Inl e \<Rightarrow> Inl e | Inr x \<Rightarrow> f x)"

lemma and_then_Ok [simp]: "and_then (Inr x) f = f x"
  by (simp add: and_then_def)

lemma and_then_Err [simp]: "and_then (Inl e) f = Inl e"
  by (simp add: and_then_def)

lemma and_then_eq_Ok [simp]: "and_then r f = Inr y \<longleftrightarrow> (\<exists>x. r = Inr x \<and> f x = Inr y)"
  by (cases r) (auto simp: and_then_def)

lemma and_then_split:
  "P (and_then r f) \<longleftrightarrow> (\<forall>e. r = Inl e \<longrightarrow> P (Inl e)) \<and> (\<forall>x. r = Inr x \<longrightarrow> P (f x))"
  by (cases r) simp_all

definition ok_or :: "'a option \<Rightarrow> 'e \<Rightarrow> 'e + 'a" where
  "ok_or m e = (case m of None \<Rightarrow> Inl e | Some x \<Rightarrow> Inr x)"

lemma ok_or_simps [simp]: "ok_or None e = Inl e" "ok_or (Some x) e = Inr x"
  by (simp_all add: ok_or_def)

lemma ok_or_eq_Ok [simp]: "ok_or m e = Inr x \<longleftrightarrow> m = Some x"
  by (cases m) simp_all

definition map_err :: "('e \<Rightarrow> 'f) \<Rightarrow> 'e + 'a \<Rightarrow> 'f + 'a" where
  "map_err f r = (case r of Inl e \<Rightarrow> Inl (f e) | Inr x \<Rightarrow> Inr x)"

lemma map_err_simps [simp]: "map_err f (Inl e) = Inl (f e)" "map_err f (Inr x) = Inr x"
  by (simp_all add: map_err_def)

lemma map_err_eq_Ok [simp]: "map_err f r = Inr x \<longleftrightarrow> r = Inr x"
  by (cases r) simp_all

definition is_ok :: "'e + 'a \<Rightarrow> bool" where
  "is_ok r = (case r of Inl _ \<Rightarrow> False | Inr _ \<Rightarrow> True)"

lemma is_ok_simps [simp]: "\<not> is_ok (Inl e)" "is_ok (Inr x)"
  by (simp_all add: is_ok_def)

lemma is_ok_iff: "is_ok r \<longleftrightarrow> (\<exists>x. r = Inr x)"
  by (cases r) simp_all

text \<open>A loop that pushes one result per element and leaves at the first error.\<close>

fun try_map :: "('a \<Rightarrow> 'e + 'b) \<Rightarrow> 'a list \<Rightarrow> 'e + 'b list" where
  "try_map f [] = Inr []"
| "try_map f (x # xs) = and_then (f x) (\<lambda>y. and_then (try_map f xs) (\<lambda>ys. Inr (y # ys)))"

lemma try_map_eq_Ok: "try_map f xs = Inr ys \<longleftrightarrow> map f xs = map Inr ys"
  by (induction xs arbitrary: ys) (auto simp: Cons_eq_map_conv)

lemma try_map_Ok_nth: "try_map f xs = Inr ys \<Longrightarrow> length ys = length xs \<and> (\<forall>i < length xs. f (xs ! i) = Inr (ys ! i))"
  unfolding try_map_eq_Ok by (metis length_map nth_map)

subsection \<open>Saturating and checked arithmetic\<close>

definition sat_add :: "'a::len word \<Rightarrow> 'a word \<Rightarrow> 'a word" where
  "sat_add a b = (if unat a + unat b < 2 ^ LENGTH('a) then a + b else - 1)"

definition sat_sub :: "'a::len word \<Rightarrow> 'a word \<Rightarrow> 'a word" where
  "sat_sub a b = (if a < b then 0 else a - b)"

definition sat_mul :: "'a::len word \<Rightarrow> 'a word \<Rightarrow> 'a word" where
  "sat_mul a b = (if unat a * unat b < 2 ^ LENGTH('a) then a * b else - 1)"

definition checked_add :: "'a::len word \<Rightarrow> 'a word \<Rightarrow> 'a word option" where
  "checked_add a b = (if unat a + unat b < 2 ^ LENGTH('a) then Some (a + b) else None)"

lemma unat_minus_one_word_pow: "unat (- 1 :: 'a::len word) = 2 ^ LENGTH('a) - 1"
  by (simp add: unsigned_minus_1_eq_mask mask_eq_exp_minus_1)

lemma unat_sat_add [sat_simps]:
  "unat (sat_add a (b :: 'a::len word)) = min (2 ^ LENGTH('a) - 1) (unat a + unat b)"
  by (auto simp: sat_add_def unat_word_ariths unat_minus_one_word_pow)

lemma unat_sat_sub [sat_simps]: "unat (sat_sub a (b :: 'a::len word)) = unat a - unat b"
  by (auto simp: sat_sub_def word_less_nat_alt unat_sub word_le_nat_alt)

lemma unat_sat_mul [sat_simps]:
  "unat (sat_mul a (b :: 'a::len word)) = min (2 ^ LENGTH('a) - 1) (unat a * unat b)"
  by (auto simp: sat_mul_def unat_word_ariths unat_minus_one_word_pow)

lemma checked_add_Some:
  "checked_add a b = Some c \<Longrightarrow> unat c = unat a + unat (b :: 'a::len word)"
  by (auto simp: checked_add_def unat_word_ariths split: if_splits)

text \<open>\<open>usize\<close> on a 64-bit target: lengths are natural numbers, sums and products saturate.\<close>

definition usize_max :: nat where
  "usize_max = 2 ^ 64 - 1"

definition usz_add :: "nat \<Rightarrow> nat \<Rightarrow> nat" where
  "usz_add a b = min usize_max (a + b)"

definition usz_mul :: "nat \<Rightarrow> nat \<Rightarrow> nat" where
  "usz_mul a b = min usize_max (a * b)"

lemma usz_add_small [simp]: "a + b \<le> usize_max \<Longrightarrow> usz_add a b = a + b"
  by (simp add: usz_add_def)

text \<open>Signed 64-bit saturating arithmetic, on the two's complement reading.\<close>

definition i64_clamp :: "int \<Rightarrow> int" where
  "i64_clamp k = max (- (2 ^ 63)) (min (2 ^ 63 - 1) k)"

definition i64_sat_add :: "i64 \<Rightarrow> i64 \<Rightarrow> i64" where
  "i64_sat_add a b = word_of_int (i64_clamp (sint a + sint b))"

definition i64_sat_sub :: "i64 \<Rightarrow> i64 \<Rightarrow> i64" where
  "i64_sat_sub a b = word_of_int (i64_clamp (sint a - sint b))"

definition i64_max :: i64 where
  "i64_max = 0x7FFFFFFFFFFFFFFF"

lemma sint_i64_clamp: "sint (word_of_int (i64_clamp k) :: i64) = i64_clamp k"
  by (simp add: signed_of_int signed_take_bit_int_eq_self_iff) (simp add: i64_clamp_def)

lemma sint_i64_bounds: "- (2 ^ 63) \<le> sint (a :: i64)" "sint (a :: i64) < 2 ^ 63"
  using sint_range_size [of a] by (simp_all add: word_size)

lemma sint_i64_of_int: "- (2 ^ 63) \<le> k \<Longrightarrow> k < 2 ^ 63 \<Longrightarrow> sint (word_of_int k :: i64) = k"
  by (simp only: signed_of_int) (simp add: signed_take_bit_int_eq_self)

lemma sint_small_word: "unat (v :: u64) < 2 ^ 63 \<Longrightarrow> sint v = int (unat v)"
proof -
  assume "unat v < 2 ^ 63"
  then have "int (unat v) < int (2 ^ 63)" by (simp only: of_nat_less_iff)
  then have "int (unat v) < 2 ^ 63" by (simp only: of_nat_power of_nat_numeral)
  then have "uint v < 2 ^ 63" by (simp only: of_nat_unat)
  moreover have "- (2 ^ 63) \<le> uint v" using uint_ge_0 [of v] by (rule order.trans [rotated]) simp
  ultimately have "sint (word_of_int (uint v) :: u64) = uint v" by (intro sint_i64_of_int)
  then show ?thesis by (simp only: word_of_int_uint of_nat_unat)
qed

lemma unat_nonneg_word: "0 \<le> sint (v :: u64) \<Longrightarrow> int (unat v) = sint v"
proof -
  assume "0 \<le> sint v"
  moreover have "sint v < 2 ^ 64" using sint_i64_bounds(2) [of v] by (rule less_trans) simp
  ultimately have "take_bit 64 (sint v) = sint v" by (simp add: take_bit_int_eq_self)
  moreover have "uint v = take_bit 64 (sint v)" using uint_sint [of v] by simp
  ultimately show ?thesis by (simp only: of_nat_unat)
qed

lemma sint_i64_sat_add [sat_simps]: "sint (i64_sat_add a b) = i64_clamp (sint a + sint b)"
  by (simp add: i64_sat_add_def sint_i64_clamp)

lemma sint_i64_sat_sub [sat_simps]: "sint (i64_sat_sub a b) = i64_clamp (sint a - sint b)"
  by (simp add: i64_sat_sub_def sint_i64_clamp)

lemma sint_i64_max [sat_simps]: "sint i64_max = 2 ^ 63 - 1"
  by (simp add: i64_max_def)

subsection \<open>Big-endian bytes\<close>

text \<open>
  \<open>to_be n w\<close> is the last \<open>n\<close> bytes of \<open>w.to_be_bytes()\<close>, the whole array when \<open>n\<close> is the
  width in bytes; \<open>from_be\<close> is \<open>from_be_bytes\<close>.
\<close>

fun to_be :: "nat \<Rightarrow> 'a::len word \<Rightarrow> bytes" where
  "to_be 0 w = []"
| "to_be (Suc n) w = to_be n (drop_bit 8 w) @ [ucast w]"

definition from_be :: "bytes \<Rightarrow> 'a::len word" where
  "from_be bs = foldl (\<lambda>acc b. push_bit 8 acc OR ucast b) 0 bs"

lemma length_to_be [simp]: "length (to_be n w) = n"
  by (induction n arbitrary: w) simp_all

lemma from_be_Nil [simp]: "from_be [] = 0"
  by (simp add: from_be_def)

lemma from_be_snoc [simp]: "from_be (bs @ [b]) = push_bit 8 (from_be bs) OR ucast b"
  by (simp add: from_be_def)

lemma bit_u8D: "bit (b :: u8) n \<Longrightarrow> n < 8"
  using bit_imp_le_length [of b n] by simp

lemma from_to_be: "from_be (to_be n w) = (take_bit (8 * n) w :: 'a::len word)"
proof (induction n arbitrary: w)
  case 0
  then show ?case by simp
next
  case (Suc n)
  show ?case
    by (rule bit_word_eqI) (auto simp: Suc.IH bit_simps)
qed

lemma from_be_take_bit: "take_bit (8 * length bs) (from_be bs) = (from_be bs :: 'a::len word)"
proof (induction bs rule: rev_induct)
  case Nil
  then show ?case by simp
next
  case (snoc b bs)
  have *: "bit (from_be bs :: 'a word) n \<Longrightarrow> n < 8 * length bs" for n
    by (subst (asm) snoc [symmetric]) (auto simp: bit_simps)
  show ?case
    by (rule bit_word_eqI) (auto simp: bit_simps dest: * bit_u8D)
qed

lemma bit_from_beD: "bit (from_be bs :: 'a::len word) n \<Longrightarrow> n < 8 * length bs"
  by (subst (asm) from_be_take_bit [symmetric]) (auto simp: bit_simps)

lemma to_from_be:
  "8 * length bs \<le> LENGTH('a) \<Longrightarrow> to_be (length bs) (from_be bs :: 'a::len word) = bs"
proof (induction bs rule: rev_induct)
  case Nil
  then show ?case by simp
next
  case (snoc b bs)
  have 1: "drop_bit 8 (push_bit 8 (from_be bs :: 'a word) OR ucast b) = from_be bs"
    using snoc.prems by (intro bit_word_eqI) (auto simp: bit_simps dest: bit_from_beD bit_u8D)
  have 2: "ucast (push_bit 8 (from_be bs :: 'a word) OR ucast b) = b"
    using snoc.prems by (intro bit_word_eqI) (auto simp: bit_simps)
  show ?case using snoc by (simp add: 1 2 del: drop_bit_or)
qed

lemma to_from_be_len:
  "length bs = n \<Longrightarrow> 8 * n \<le> LENGTH('a) \<Longrightarrow> to_be n (from_be bs :: 'a::len word) = bs"
  using to_from_be [of bs, where 'a = 'a] by simp

lemma take_bit_full_word [simp]: "LENGTH('a) \<le> n \<Longrightarrow> take_bit n (w :: 'a::len word) = w"
  by (rule take_bit_word_eq_self)

lemma take_bit_eq_self_unat: "take_bit n w = w \<longleftrightarrow> unat (w :: 'a::len word) < 2 ^ n"
  by (simp add: word_unat_eq_iff unsigned_take_bit_eq take_bit_nat_eq_self_iff)

lemma bit_lt_of_unat: "unat (w :: 'a::len word) < 2 ^ n \<Longrightarrow> bit w k \<Longrightarrow> k < n"
  by (metis take_bit_eq_self_unat bit_take_bit_iff)

lemma unat_from_be_less: "unat (from_be bs :: 'a::len word) < 2 ^ (8 * length bs)"
  using from_be_take_bit [of bs, where 'a = 'a] by (simp add: take_bit_eq_self_unat)

lemma unat_ucast_up:
  "LENGTH('a) \<le> LENGTH('b) \<Longrightarrow> unat (ucast (x :: 'a::len word) :: 'b::len word) = unat x"
  using less_le_trans [OF unsigned_less [of x, where 'a = nat] power_increasing [of "LENGTH('a)" "LENGTH('b)" 2]]
  by (simp add: unsigned_ucast_eq take_bit_nat_eq_self_iff)

lemma from_be_u16 [simp]: "from_be (to_be 2 w) = (w :: u16)"
  by (simp add: from_to_be)

lemma from_be_u32 [simp]: "from_be (to_be 4 w) = (w :: u32)"
  by (simp add: from_to_be)

lemma from_be_u64 [simp]: "from_be (to_be 8 w) = (w :: u64)"
  by (simp add: from_to_be)

lemma to_be_u16: "length bs = 2 \<Longrightarrow> to_be 2 (from_be bs :: u16) = bs"
  using to_from_be [of bs, where 'a = 16] by simp

lemma to_be_u32: "length bs = 4 \<Longrightarrow> to_be 4 (from_be bs :: u32) = bs"
  using to_from_be [of bs, where 'a = 32] by simp

lemma to_be_u64: "length bs = 8 \<Longrightarrow> to_be 8 (from_be bs :: u64) = bs"
  using to_from_be [of bs, where 'a = 64] by simp

lemma to_be_inj_u64: "to_be 8 a = to_be 8 b \<longleftrightarrow> a = (b :: u64)"
  by (metis from_be_u64)

lemma to_be_inj_u32: "to_be 4 a = to_be 4 b \<longleftrightarrow> a = (b :: u32)"
  by (metis from_be_u32)

lemma from_to_be_cast: "from_be (to_be n (w :: 'a::len word)) = (take_bit (8 * n) (ucast w) :: 'b::len word)"
proof (induction n arbitrary: w)
  case 0
  then show ?case by simp
next
  case (Suc n)
  show ?case
    by (rule bit_word_eqI) (auto simp: Suc.IH bit_simps dest: bit_imp_le_length)
qed

lemma to_be_ucast [simp]:
  "LENGTH('a) \<le> LENGTH('b) \<Longrightarrow> to_be n (ucast (x :: 'a::len word) :: 'b::len word) = to_be n x"
proof (induction n arbitrary: x)
  case 0
  then show ?case by simp
next
  case (Suc n)
  have "drop_bit 8 (ucast x :: 'b word) = ucast (drop_bit 8 x)"
    using Suc.prems by (intro bit_word_eqI) (auto simp: bit_simps dest: bit_imp_le_length)
  moreover have "(ucast (ucast x :: 'b word) :: u8) = ucast x"
    using Suc.prems by (intro bit_word_eqI) (auto simp: bit_simps dest: bit_imp_le_length)
  ultimately show ?case using Suc by simp
qed

lemma drop_to_be: "drop m (to_be (m + n) w) = to_be n w"
  by (induction n arbitrary: w) simp_all

lemma drop_to_be_low [simp]:
  "drop 4 (to_be 8 w) = to_be 4 w" "drop 5 (to_be 8 w) = to_be 3 w" "drop (Suc 0) (to_be 4 w) = to_be 3 w"
  using drop_to_be [of 4 4 w] drop_to_be [of 5 3 w] drop_to_be [of 1 3 w] by simp_all

lemma from_be_zero_Cons [simp]: "from_be (0 # bs) = from_be bs"
  by (simp add: from_be_def)

subsection \<open>Slices\<close>

text \<open>\<open>data.get(a..b)\<close>: \<open>None\<close> unless the range lies in the slice.\<close>

definition get_range :: "nat \<Rightarrow> nat \<Rightarrow> 'a list \<Rightarrow> 'a list option" where
  "get_range a b xs = (if a \<le> b \<and> b \<le> length xs then Some (take (b - a) (drop a xs)) else None)"

definition get_at :: "'a list \<Rightarrow> nat \<Rightarrow> 'a option" where
  "get_at xs i = (if i < length xs then Some (xs ! i) else None)"

lemma get_range_Some_length: "get_range a b xs = Some ys \<Longrightarrow> length ys = b - a \<and> b \<le> length xs"
  by (auto simp: get_range_def split: if_splits)

lemma get_range_append:
  "length pre = a \<Longrightarrow> length mid = b - a \<Longrightarrow> a \<le> b \<Longrightarrow>
    get_range a b (pre @ mid @ post) = Some mid"
  by (simp add: get_range_def)

text \<open>
  \<open>field i n b\<close> is the run of \<open>n\<close> bytes at offset \<open>i\<close>: the bytes a destructuring pattern such
  as \<open>let [a, b0, b1, ..] = arr\<close> binds, or a range read that is known to be in bounds.
\<close>

definition field :: "nat \<Rightarrow> nat \<Rightarrow> 'a list \<Rightarrow> 'a list" where
  "field i n b = take n (drop i b)"

lemma get_range_field: "a \<le> b \<Longrightarrow> b \<le> length xs \<Longrightarrow> get_range a b xs = Some (field a (b - a) xs)"
  by (simp add: get_range_def field_def)

lemma length_field [simp]: "length (field i n b) = min n (length b - i)"
  by (simp add: field_def)

lemma field_append [simp]:
  "field i n (a @ b) = (if i + n \<le> length a then field i n a
     else if length a \<le> i then field (i - length a) n b
     else drop i a @ take (n - (length a - i)) b)"
  by (auto simp: field_def)

lemma field_Cons [simp]:
  "field i n (x # b) =
     (if n = 0 then [] else if i = 0 then x # take (n - 1) b else field (i - 1) n b)"
  by (cases i; cases n) (simp_all add: field_def)

lemma field_whole [simp]: "length b \<le> n \<Longrightarrow> field 0 n b = b"
  by (simp add: field_def)

lemma field_take [simp]: "i + n \<le> k \<Longrightarrow> field i n (take k b) = field i n b"
  by (simp add: field_def take_drop min_def add.commute)

lemma field_join: "j = i + n \<Longrightarrow> field i n b @ field j m b = field i (n + m) b"
  by (simp add: field_def take_add add.commute [of n i])

lemma field_join_append: "j = i + n \<Longrightarrow> field i n b @ field j m b @ r = field i (n + m) b @ r"
  by (simp add: field_join [symmetric, of j])

lemma nth_field_append: "i < length b \<Longrightarrow> b ! i # r = field i 1 b @ r"
  by (simp add: field_def Cons_nth_drop_Suc [symmetric])

lemma nth_field_single: "i < length b \<Longrightarrow> [b ! i] = field i 1 b"
  by (simp add: field_def Cons_nth_drop_Suc [symmetric])

lemmas field_joins = nth_field_append nth_field_single field_join_append field_join

text \<open>The unsigned reading of a byte as a length.\<close>

lemma unat_u8_less: "unat (b :: u8) < 256"
  using unsigned_less [of b, where 'a = nat] by simp

lemma unat_u16_less: "unat (b :: u16) < 65536"
  using unsigned_less [of b, where 'a = nat] by simp

lemma unat_u32_less: "unat (b :: u32) < 2 ^ 32"
  using unsigned_less [of b, where 'a = nat] by simp

lemma unat_u64_less: "unat (b :: u64) < 2 ^ 64"
  using unsigned_less [of b, where 'a = nat] by simp

lemma unat_of_nat_u8: "n < 256 \<Longrightarrow> unat (of_nat n :: u8) = n"
  by (simp add: unat_of_nat take_bit_nat_eq_self)

lemma unat_of_nat_u16: "n < 65536 \<Longrightarrow> unat (of_nat n :: u16) = n"
  by (simp add: unat_of_nat take_bit_nat_eq_self)

lemma unat_of_nat_u32: "n < 2 ^ 32 \<Longrightarrow> unat (of_nat n :: u32) = n"
  by (simp add: unat_of_nat take_bit_nat_eq_self)

lemma unat_of_nat_u64: "n < 2 ^ 64 \<Longrightarrow> unat (of_nat n :: u64) = n"
  by (simp add: unat_of_nat take_bit_nat_eq_self)

lemma of_nat_inj_u64: "m < 2 ^ 64 \<Longrightarrow> n < 2 ^ 64 \<Longrightarrow> of_nat m = (of_nat n :: u64) \<longleftrightarrow> m = n"
  by (metis unat_of_nat_u64)

end
