(* ===== verification/Wire_Codec.thy ===== *)
theory Wire_Codec
  imports Shp_Prelude
begin

text \<open>
  What every fixed-length SHP message shares: the errors of \<open>sh-protocol\<close>
  (\<open>src/crates/sh-protocol/src/error.rs\<close>), the bounds-checked readers of \<open>bits.rs\<close> and
  \<open>file.rs\<close>, and the contract between a message and the code that frames it. The contract is
  the locale \<open>wire_codec\<close>: encoding has the declared length, decoding reads a prefix, reports a
  short buffer as \<open>Truncated\<close> and returns what was encoded. \<open>strict_codec\<close> adds that a message has
  a single encoding. Each message theory interprets one of the two on its own functions.
\<close>

subsection \<open>Protocol errors\<close>

datatype protocol_error =
    Truncated nat nat
  | UnsupportedVersion u8
  | InvalidChannel u8
  | InvalidCodec u8
  | InvalidFrameType u8
  | InvalidPriority u8
  | ReservedBitsSet
  | InvalidEventType u8
  | ControlPayloadTooLarge nat
  | InvalidClipboardFormat u8
  | ClipboardTooLarge nat
  | InvalidClipboardText
  | FrameIdTooLarge u64
  | MonitorIdTooLarge u8
  | CumulativeLostTooLarge u32
  | UnknownVersion u8
  | FileChunkTooLarge u64
  | InvalidFileField u64

subsection \<open>Bounds-checked readers\<close>

text \<open>\<open>take_array::<N>\<close> copies the first \<open>N\<close> bytes or reports truncation.\<close>

definition take_array :: "nat \<Rightarrow> bytes \<Rightarrow> protocol_error + bytes" where
  "take_array n d = (if n \<le> length d then Inr (take n d) else Inl (Truncated n (length d)))"

text \<open>\<open>read_array::<N>\<close> does the same and advances the cursor.\<close>

definition read_array :: "nat \<Rightarrow> bytes \<Rightarrow> protocol_error + (bytes \<times> bytes)" where
  "read_array n cursor = and_then (take_array n cursor) (\<lambda>arr. Inr (arr, drop n cursor))"

text \<open>\<open>bitpack\<close>: OR of values shifted left; \<open>wrapping_shl\<close> takes the shift modulo the width.\<close>

definition bitpack :: "(u8 \<times> nat) list \<Rightarrow> u8" where
  "bitpack parts = foldl (\<lambda>out (v, s). out OR push_bit (s mod 8) v) 0 parts"

lemma take_array_Ok [simp]: "n \<le> length d \<Longrightarrow> take_array n d = Inr (take n d)"
  by (simp add: take_array_def)

lemma take_array_short [simp]: "length d < n \<Longrightarrow> take_array n d = Inl (Truncated n (length d))"
  by (simp add: take_array_def)

lemma take_array_eq_Ok [simp]: "take_array n d = Inr b \<longleftrightarrow> n \<le> length d \<and> b = take n d"
  by (auto simp: take_array_def)

lemma read_array_Ok [simp]: "n \<le> length d \<Longrightarrow> read_array n d = Inr (take n d, drop n d)"
  by (simp add: read_array_def)

lemma read_array_short [simp]: "length d < n \<Longrightarrow> read_array n d = Inl (Truncated n (length d))"
  by (simp add: read_array_def)

lemma read_array_append [simp]: "length a = n \<Longrightarrow> read_array n (a @ r) = Inr (a, r)"
  by simp

lemma bitpack_simps [codec_simps]:
  "bitpack [] = 0"
  "bitpack [(v, s)] = push_bit (s mod 8) v"
  "bitpack [(v, s), (w, t)] = push_bit (s mod 8) v OR push_bit (t mod 8) w"
  "bitpack [(v, s), (w, t), (x, u)] =
     push_bit (s mod 8) v OR push_bit (t mod 8) w OR push_bit (u mod 8) x"
  by (simp_all add: bitpack_def or.assoc)

text \<open>\<open>u8::from(bool)\<close>.\<close>

definition u8_of_bool :: "bool \<Rightarrow> u8" where
  "u8_of_bool b = (if b then 1 else 0)"

lemma u8_of_bool_simps [simp]: "u8_of_bool True = 1" "u8_of_bool False = 0"
  by (simp_all add: u8_of_bool_def)

lemma bit_u8_of_bool [simp]: "bit (u8_of_bool p) n \<longleftrightarrow> p \<and> n = 0"
  by (simp add: u8_of_bool_def bit_simps)

lemma u8_flag_tests [simp]:
  fixes b :: u8
  shows "b AND 1 = 0 \<longleftrightarrow> \<not> bit b 0" "b AND 2 = 0 \<longleftrightarrow> \<not> bit b 1" "b AND 4 = 0 \<longleftrightarrow> \<not> bit b 2"
    "b AND 8 = 0 \<longleftrightarrow> \<not> bit b 3"
  using and_exp_eq_0_iff_not_bit [of b 0] and_exp_eq_0_iff_not_bit [of b 1]
    and_exp_eq_0_iff_not_bit [of b 2] and_exp_eq_0_iff_not_bit [of b 3] by simp_all

text \<open>Equality of bytes, bit by bit.\<close>

lemma u8_eqI:
  fixes a b :: u8
  assumes "bit a 0 = bit b 0" "bit a 1 = bit b 1" "bit a 2 = bit b 2" "bit a 3 = bit b 3"
    "bit a 4 = bit b 4" "bit a 5 = bit b 5" "bit a 6 = bit b 6" "bit a 7 = bit b 7"
  shows "a = b"
proof (rule bit_word_eqI)
  fix n assume "n < LENGTH(8)"
  then have "n = 0 \<or> n = 1 \<or> n = 2 \<or> n = 3 \<or> n = 4 \<or> n = 5 \<or> n = 6 \<or> n = 7" by simp linarith
  then show "bit a n = bit b n" using assms by metis
qed

subsection \<open>The contract of a fixed-length message\<close>

text \<open>
  \<open>norm\<close> is what the wire keeps of a value: the identity, or the value with a timestamp cut to
  its 32 wire bits.
\<close>

locale wire_codec =
  fixes enc :: "'a \<Rightarrow> protocol_error + bytes"
    and dec :: "bytes \<Rightarrow> protocol_error + 'a"
    and len :: nat
    and norm :: "'a \<Rightarrow> 'a"
  assumes enc_length: "enc x = Inr bs \<Longrightarrow> length bs = len"
    and dec_enc: "enc x = Inr bs \<Longrightarrow> dec (bs @ rest) = Inr (norm x)"
    and dec_short: "length d < len \<Longrightarrow> dec d = Inl (Truncated len (length d))"
    and dec_prefix: "len \<le> length d \<Longrightarrow> dec (take len d) = dec d"
begin

lemma dec_enc_exact: "enc x = Inr bs \<Longrightarrow> dec bs = Inr (norm x)"
  using dec_enc [of x bs "[]"] by simp

lemma enc_inj: "enc x = Inr bs \<Longrightarrow> enc y = Inr bs \<Longrightarrow> norm x = norm y"
  by (metis dec_enc_exact Inr_inject)

lemma dec_Ok_length: "dec d = Inr x \<Longrightarrow> len \<le> length d"
  using dec_short [of d] by (metis Inl_Inr_False linorder_not_le)

lemma dec_same_prefix: "len \<le> length d \<Longrightarrow> take len d = take len d' \<Longrightarrow> len \<le> length d' \<Longrightarrow> dec d = dec d'"
  by (metis dec_prefix)

text \<open>A stream of encoded messages decodes message by message.\<close>

lemma dec_stream:
  assumes "map enc xs = map Inr bss" and "i < length xs"
  shows "dec (drop (i * len) (concat bss @ rest)) = Inr (norm (xs ! i))"
proof -
  have n: "length xs = length bss" using assms(1) by (metis length_map)
  have e: "enc (xs ! j) = Inr (bss ! j)" if "j < length xs" for j
    using assms(1) that n by (metis nth_map)
  have c: "length (concat (take k bss)) = k * len" if "k \<le> length bss" for k
    using that
  proof (induction k)
    case 0
    then show ?case by simp
  next
    case (Suc k)
    then have "length (bss ! k) = len" using e [of k] enc_length n by simp
    with Suc show ?case by (simp add: take_Suc_conv_app_nth)
  qed
  have "concat bss = concat (take i bss) @ bss ! i @ concat (drop (Suc i) bss)"
    using assms(2) n by (metis concat.simps(2) concat_append id_take_nth_drop)
  then have "drop (i * len) (concat bss @ rest) = bss ! i @ concat (drop (Suc i) bss) @ rest"
    using c [of i] assms(2) n by simp
  then show ?thesis using dec_enc [OF e [OF assms(2)]] by simp
qed

end

locale strict_codec = wire_codec +
  assumes dec_canonical: "dec d = Inr x \<Longrightarrow> enc x = Inr (take len d)"
begin

lemma dec_inj: "dec d = Inr x \<Longrightarrow> dec d' = Inr x \<Longrightarrow> take len d = take len d'"
  by (metis dec_canonical Inr_inject)

lemma dec_norm: "dec d = Inr x \<Longrightarrow> norm x = x"
  using dec_canonical dec_enc_exact dec_prefix dec_Ok_length by (metis Inr_inject)

lemma dec_image: "(\<exists>x. enc x = Inr bs) \<longleftrightarrow> length bs = len \<and> (\<exists>x. dec bs = Inr x)"
  using dec_enc_exact enc_length dec_canonical by (metis order_refl take_all)

end

end
