(* ===== verification/Shp_Types.thy ===== *)
theory Shp_Types
  imports Shp_Prelude
begin

text \<open>
  The leaf crate \<open>sh-types\<close> (\<open>src/crates/sh-types/src/lib.rs\<close>): channel identifiers with
  their wire byte, the transport kinds, and the saturating \<open>Bitrate\<close>. The floating-point bridge
  of \<open>Bitrate\<close> and the \<open>Display\<close> implementations are not modelled. Clocks are not modelled as
  objects: an operation that reads a clock takes the reading as an argument.
\<close>

subsection \<open>Channels and transports\<close>

datatype channel_id = Video | Audio | Input | Clipboard | File | Control

datatype transport_kind = Quic | Webrtc

definition u8_of_channel :: "channel_id \<Rightarrow> u8" where
  "u8_of_channel c =
     (case c of Video \<Rightarrow> 0 | Audio \<Rightarrow> 1 | Input \<Rightarrow> 2 | Clipboard \<Rightarrow> 3 | File \<Rightarrow> 4 | Control \<Rightarrow> 5)"

text \<open>\<open>ChannelId::try_from\<close>; the error carries the offending byte.\<close>

definition channel_try_from :: "u8 \<Rightarrow> u8 + channel_id" where
  "channel_try_from b =
     (if b = 0 then Inr Video else if b = 1 then Inr Audio else if b = 2 then Inr Input
      else if b = 3 then Inr Clipboard else if b = 4 then Inr File else if b = 5 then Inr Control
      else Inl b)"

lemma channel_try_from_u8 [simp]: "channel_try_from (u8_of_channel c) = Inr c"
  by (cases c) (simp_all add: channel_try_from_def u8_of_channel_def)

lemma channel_try_from_Ok: "channel_try_from b = Inr c \<longleftrightarrow> b = u8_of_channel c"
  by (auto simp: channel_try_from_def u8_of_channel_def split: channel_id.splits if_splits)

lemma channel_try_from_Err: "channel_try_from b = Inl e \<longleftrightarrow> e = b \<and> 5 < b"
proof -
  have "5 < b \<longleftrightarrow> b \<notin> {0, 1, 2, 3, 4, 5}"
    by (auto simp: word_less_nat_alt word_unat_eq_iff)
  then show ?thesis by (auto simp: channel_try_from_def split: if_splits)
qed

lemma u8_of_channel_inj [simp]: "u8_of_channel c = u8_of_channel d \<longleftrightarrow> c = d"
  by (metis channel_try_from_u8 Inr_inject)

lemma u8_of_channel_bound: "unat (u8_of_channel c) < 6"
  by (cases c) (simp_all add: u8_of_channel_def)

subsection \<open>Bitrates\<close>

record bitrate = bps :: u64

definition from_bps :: "u64 \<Rightarrow> bitrate" where
  "from_bps n = \<lparr>bps = n\<rparr>"

definition from_kbps :: "u64 \<Rightarrow> bitrate" where
  "from_kbps n = \<lparr>bps = sat_mul n 1000\<rparr>"

definition from_mbps :: "u64 \<Rightarrow> bitrate" where
  "from_mbps n = \<lparr>bps = sat_mul n 1000000\<rparr>"

definition as_kbps :: "bitrate \<Rightarrow> u64" where
  "as_kbps r = bps r div 1000"

definition as_mbps :: "bitrate \<Rightarrow> u64" where
  "as_mbps r = bps r div 1000000"

definition bitrate_clamp :: "bitrate \<Rightarrow> bitrate \<Rightarrow> bitrate \<Rightarrow> bitrate" where
  "bitrate_clamp r lo hi = (if bps r < bps lo then lo else if bps r > bps hi then hi else r)"

definition bitrate_saturating_add :: "bitrate \<Rightarrow> bitrate \<Rightarrow> bitrate" where
  "bitrate_saturating_add a b = \<lparr>bps = sat_add (bps a) (bps b)\<rparr>"

definition bitrate_saturating_sub :: "bitrate \<Rightarrow> bitrate \<Rightarrow> bitrate" where
  "bitrate_saturating_sub a b = \<lparr>bps = sat_sub (bps a) (bps b)\<rparr>"

lemma as_kbps_from_kbps:
  "unat n * 1000 < 2 ^ 64 \<Longrightarrow> as_kbps (from_kbps n) = n"
  by (simp add: as_kbps_def from_kbps_def unat_div unat_sat_mul word_unat_eq_iff)

lemma bitrate_clamp_range:
  "bps lo \<le> bps hi \<Longrightarrow> bps lo \<le> bps (bitrate_clamp r lo hi) \<and> bps (bitrate_clamp r lo hi) \<le> bps hi"
  by (auto simp: bitrate_clamp_def)

end
