(* ===== verification/Wire_Headers.thy ===== *)
theory Wire_Headers
  imports Wire_Codec Shp_Types
begin

text \<open>
  The fixed-length headers and events of \<open>src/crates/sh-protocol/src\<close>: the 9-byte common header
  (\<open>common.rs\<close>), the 12-byte video header (\<open>video.rs\<close>), the 16-byte input event (\<open>input.rs\<close>)
  and the 25-byte NACK report (\<open>feedback.rs\<close>). Each is a record with an \<open>encode\<close> and a
  \<open>decode\<close>, and each is shown to be a \<open>strict_codec\<close>: decoding an encoding returns the value
  (timestamps cut to 32 bits) whatever follows it in the buffer, a short buffer is reported, and
  every accepted buffer is the one encoding of its value.
\<close>

subsection \<open>Common header\<close>

record flags =
  fragment :: bool
  last_fragment :: bool

record common_header =
  channel :: channel_id
  flags :: flags
  sequence :: u16
  timestamp_us :: u64
  payload_len :: u16

definition SHP_VERSION :: u8 where "SHP_VERSION = 1"
definition COMMON_HEADER_LEN :: nat where "COMMON_HEADER_LEN = 9"
definition VIDEO_HEADER_LEN :: nat where "VIDEO_HEADER_LEN = 12"
definition INPUT_EVENT_LEN :: nat where "INPUT_EVENT_LEN = 16"
definition MAX_FRAME_ID :: u32 where "MAX_FRAME_ID = 0x00FFFFFF"
definition MAX_MONITOR_ID :: u8 where "MAX_MONITOR_ID = 0x0F"

definition channel_from_bits :: "u8 \<Rightarrow> protocol_error + channel_id" where
  "channel_from_bits b = map_err (\<lambda>_. InvalidChannel b) (channel_try_from b)"

definition common_encode :: "common_header \<Rightarrow> bytes" where
  "common_encode h =
     (let flags_bits = bitpack [(u8_of_bool (fragment (flags h)), 1),
                                (u8_of_bool (last_fragment (flags h)), 0)];
          byte0 = bitpack [(SHP_VERSION, 6), (u8_of_channel (channel h), 2), (flags_bits, 0)]
      in [byte0] @ to_be 2 (sequence h) @ drop 4 (to_be 8 (timestamp_us h)) @ to_be 2 (payload_len h))"

definition common_decode :: "bytes \<Rightarrow> protocol_error + common_header" where
  "common_decode d =
     and_then (take_array COMMON_HEADER_LEN d) (\<lambda>b.
       let byte0 = b ! 0; version = drop_bit 6 byte0 in
       if version \<noteq> SHP_VERSION then Err (UnsupportedVersion version)
       else and_then (channel_from_bits (drop_bit 2 byte0 AND 0x0F)) (\<lambda>ch.
         Ok \<lparr>channel = ch,
              flags = \<lparr>fragment = (byte0 AND 2 \<noteq> 0), last_fragment = (byte0 AND 1 \<noteq> 0)\<rparr>,
              sequence = from_be (field 1 2 b),
              timestamp_us = ucast (from_be (field 3 4 b) :: u32),
              payload_len = from_be (field 7 2 b)\<rparr>))"

definition common_norm :: "common_header \<Rightarrow> common_header" where
  "common_norm h = h\<lparr>timestamp_us := take_bit 32 (timestamp_us h)\<rparr>"

lemma u64_low32 [simp]: "(ucast (take_bit 32 (ucast (t :: u64)) :: u32) :: u64) = take_bit 32 t"
  by (rule bit_word_eqI) (auto simp: bit_simps)

lemma u64_low32' [simp]: "(ucast (ucast (t :: u64) :: u32) :: u64) = take_bit 32 t"
  by (rule bit_word_eqI) (auto simp: bit_simps)

text \<open>Byte 0 packs three fields; the two directions on one byte.\<close>

definition common_byte0 :: "channel_id \<Rightarrow> flags \<Rightarrow> u8" where
  "common_byte0 ch f = 64 OR (push_bit 2 (u8_of_channel ch)
     OR (push_bit 1 (u8_of_bool (fragment f)) OR u8_of_bool (last_fragment f)))"

lemma common_encode_bytes:
  "common_encode h = common_byte0 (channel h) (flags h) # to_be 2 (sequence h)
     @ to_be 4 (timestamp_us h) @ to_be 2 (payload_len h)"
  by (simp add: common_encode_def common_byte0_def bitpack_simps SHP_VERSION_def)

lemma common_byte0_fields [simp]:
  "drop_bit 6 (common_byte0 ch f) = 1"
  "channel_from_bits (drop_bit 2 (common_byte0 ch f) AND 0x0F) = Inr ch"
  "bit (common_byte0 ch f) (Suc 0) \<longleftrightarrow> fragment f"
  "bit (common_byte0 ch f) 0 \<longleftrightarrow> last_fragment f"
  by (cases ch; cases "fragment f"; cases "last_fragment f";
      simp add: common_byte0_def u8_of_channel_def channel_from_bits_def channel_try_from_def)+

lemma common_byte0_split:
  fixes b :: u8
  assumes "drop_bit 6 b = 1" and "drop_bit 2 b AND 0x0F = u8_of_channel ch"
  shows "common_byte0 ch \<lparr>fragment = bit b (Suc 0), last_fragment = bit b 0\<rparr> = b"
proof -
  have "(64 :: u8) = push_bit 6 (drop_bit 6 b)" using assms(1) by simp
  then have "common_byte0 ch \<lparr>fragment = bit b (Suc 0), last_fragment = bit b 0\<rparr> =
     push_bit 6 (drop_bit 6 b) OR (push_bit 2 (drop_bit 2 b AND 0x0F)
       OR (push_bit 1 (u8_of_bool (bit b 1)) OR u8_of_bool (bit b 0)))"
    using assms(2) by (simp add: common_byte0_def)
  also have "\<dots> = b"
    by (rule u8_eqI) (simp_all add: bit_simps del: push_bit_Suc)
  finally show ?thesis .
qed

interpretation common_wire: strict_codec "\<lambda>h. Ok (common_encode h)" common_decode COMMON_HEADER_LEN common_norm
proof (unfold_locales, goal_cases)
  case (1 x bs)
  then show ?case by (auto simp: common_encode_bytes COMMON_HEADER_LEN_def)
next
  case (2 x bs rest)
  then show ?case
    by (auto simp: common_encode_bytes common_decode_def COMMON_HEADER_LEN_def Let_def SHP_VERSION_def
        from_to_be_cast common_norm_def)
next
  case (3 d)
  then show ?case by (simp add: common_decode_def)
next
  case (4 d)
  then show ?case by (simp add: common_decode_def)
next
  case (5 d x)
  define b where "b = take COMMON_HEADER_LEN d"
  have n: "length b = 9" and "drop_bit 6 (b ! 0) = 1"
    and ch: "channel_from_bits (drop_bit 2 (b ! 0) AND 0x0F) = Inr (channel x)"
    and x: "flags x = \<lparr>fragment = (b ! 0 AND 2 \<noteq> 0), last_fragment = (b ! 0 AND 1 \<noteq> 0)\<rparr>"
      "sequence x = from_be (field 1 2 b)" "payload_len x = from_be (field 7 2 b)"
      "timestamp_us x = ucast (from_be (field 3 4 b) :: u32)"
    using 5 by (auto simp: common_decode_def COMMON_HEADER_LEN_def Let_def SHP_VERSION_def b_def split: if_splits)
  moreover have "drop_bit 2 (b ! 0) AND 0x0F = u8_of_channel (channel x)"
    using ch by (simp add: channel_from_bits_def channel_try_from_Ok)
  ultimately have "common_byte0 (channel x) (flags x) = b ! 0" by (simp add: common_byte0_split)
  then have "common_encode x = field 0 9 b"
    by (simp add: common_encode_bytes x n to_be_u16 to_be_u32 field_joins del: field_whole)
  then show ?case using n by (simp add: b_def [symmetric])
qed

subsection \<open>Video header\<close>

datatype codec = H264 | H265 | Av1 | Raw
datatype frame_type = Predicted | Idr | IntraRefresh
datatype priority = DropEligible | Normal | High

record video_header =
  frame_id :: u64
  frag_index :: u8
  total_frags :: u8
  vcodec :: codec
  vframe_type :: frame_type
  vpriority :: priority
  monitor_id :: u8
  marker :: bool
  encode_ts_us :: u64

definition codec_to_bits :: "codec \<Rightarrow> u8" where
  "codec_to_bits c = (case c of H264 \<Rightarrow> 0 | H265 \<Rightarrow> 1 | Av1 \<Rightarrow> 2 | Raw \<Rightarrow> 3)"

definition codec_from_bits :: "u8 \<Rightarrow> protocol_error + codec" where
  "codec_from_bits b = (if b = 0 then Ok H264 else if b = 1 then Ok H265 else if b = 2 then Ok Av1
     else if b = 3 then Ok Raw else Err (InvalidCodec b))"

definition frame_type_to_bits :: "frame_type \<Rightarrow> u8" where
  "frame_type_to_bits t = (case t of Predicted \<Rightarrow> 0 | Idr \<Rightarrow> 1 | IntraRefresh \<Rightarrow> 2)"

definition frame_type_from_bits :: "u8 \<Rightarrow> protocol_error + frame_type" where
  "frame_type_from_bits b = (if b = 0 then Ok Predicted else if b = 1 then Ok Idr
     else if b = 2 then Ok IntraRefresh else Err (InvalidFrameType b))"

definition priority_to_bits :: "priority \<Rightarrow> u8" where
  "priority_to_bits p = (case p of DropEligible \<Rightarrow> 0 | Normal \<Rightarrow> 1 | High \<Rightarrow> 2)"

definition priority_from_bits :: "u8 \<Rightarrow> protocol_error + priority" where
  "priority_from_bits b = (if b = 0 then Ok DropEligible else if b = 1 then Ok Normal
     else if b = 2 then Ok High else Err (InvalidPriority b))"

definition video_encode :: "video_header \<Rightarrow> protocol_error + bytes" where
  "video_encode h =
     (if ucast MAX_FRAME_ID < frame_id h then Err (FrameIdTooLarge (frame_id h))
      else if MAX_MONITOR_ID < monitor_id h then Err (MonitorIdTooLarge (monitor_id h))
      else let byte5 = bitpack [(codec_to_bits (vcodec h), 4), (frame_type_to_bits (vframe_type h), 2),
                                (priority_to_bits (vpriority h), 0)];
               byte6 = bitpack [(monitor_id h, 4), (u8_of_bool (marker h), 3)]
           in Ok (drop 5 (to_be 8 (frame_id h)) @ [frag_index h, total_frags h, byte5, byte6, 0]
                @ drop 4 (to_be 8 (encode_ts_us h))))"

definition video_decode :: "bytes \<Rightarrow> protocol_error + video_header" where
  "video_decode d =
     and_then (take_array VIDEO_HEADER_LEN d) (\<lambda>b.
       let byte5 = b ! 5; byte6 = b ! 6 in
       if b ! 7 \<noteq> 0 \<or> byte6 AND 7 \<noteq> 0 then Err ReservedBitsSet
       else and_then (codec_from_bits (drop_bit 4 byte5)) (\<lambda>c.
         and_then (frame_type_from_bits (drop_bit 2 byte5 AND 3)) (\<lambda>t.
         and_then (priority_from_bits (byte5 AND 3)) (\<lambda>p.
         Ok \<lparr>frame_id = ucast (from_be (0 # field 0 3 b) :: u32),
             frag_index = b ! 3, total_frags = b ! 4,
             vcodec = c, vframe_type = t, vpriority = p,
             monitor_id = drop_bit 4 byte6, marker = (byte6 AND 8 \<noteq> 0),
             encode_ts_us = ucast (from_be (field 8 4 b) :: u32)\<rparr>))))"

definition video_norm :: "video_header \<Rightarrow> video_header" where
  "video_norm h = h\<lparr>encode_ts_us := take_bit 32 (encode_ts_us h)\<rparr>"

lemma video_bits_roundtrip [simp]:
  "codec_from_bits (codec_to_bits c) = Inr c"
  "frame_type_from_bits (frame_type_to_bits t) = Inr t"
  "priority_from_bits (priority_to_bits p) = Inr p"
  by (cases c; cases t; cases p;
      simp add: codec_to_bits_def codec_from_bits_def frame_type_to_bits_def frame_type_from_bits_def
        priority_to_bits_def priority_from_bits_def)+

lemma codec_from_bits_Ok: "codec_from_bits b = Inr c \<longleftrightarrow> b = codec_to_bits c"
  by (cases c) (auto simp: codec_to_bits_def codec_from_bits_def)

lemma frame_type_from_bits_Ok: "frame_type_from_bits b = Inr c \<longleftrightarrow> b = frame_type_to_bits c"
  by (cases c) (auto simp: frame_type_to_bits_def frame_type_from_bits_def)

lemma priority_from_bits_Ok: "priority_from_bits b = Inr c \<longleftrightarrow> b = priority_to_bits c"
  by (cases c) (auto simp: priority_to_bits_def priority_from_bits_def)

lemmas video_bits_Ok = codec_from_bits_Ok frame_type_from_bits_Ok priority_from_bits_Ok

definition video_byte5 :: "codec \<Rightarrow> frame_type \<Rightarrow> priority \<Rightarrow> u8" where
  "video_byte5 c t p = push_bit 4 (codec_to_bits c) OR (push_bit 2 (frame_type_to_bits t) OR priority_to_bits p)"

definition video_byte6 :: "u8 \<Rightarrow> bool \<Rightarrow> u8" where
  "video_byte6 m k = push_bit 4 m OR push_bit 3 (u8_of_bool k)"

lemma video_encode_bytes:
  "video_encode h = Inr bs \<longleftrightarrow> frame_id h \<le> 0xFFFFFF \<and> monitor_id h \<le> 15 \<and>
     bs = to_be 3 (frame_id h) @ [frag_index h, total_frags h,
       video_byte5 (vcodec h) (vframe_type h) (vpriority h), video_byte6 (monitor_id h) (marker h), 0]
       @ to_be 4 (encode_ts_us h)"
  by (auto simp: video_encode_def video_byte5_def video_byte6_def bitpack_simps MAX_FRAME_ID_def
      MAX_MONITOR_ID_def Let_def not_less)

lemma video_byte5_fields [simp]:
  "codec_from_bits (drop_bit 4 (video_byte5 c t p)) = Inr c"
  "frame_type_from_bits (drop_bit 2 (video_byte5 c t p) AND 3) = Inr t"
  "priority_from_bits (video_byte5 c t p AND 3) = Inr p"
  by (cases c; cases t; cases p; simp add: video_byte5_def codec_to_bits_def codec_from_bits_def
        frame_type_to_bits_def frame_type_from_bits_def priority_to_bits_def priority_from_bits_def)+

lemma video_byte5_split:
  "codec_to_bits c = drop_bit 4 b \<Longrightarrow> frame_type_to_bits t = drop_bit 2 b AND 3 \<Longrightarrow>
    priority_to_bits p = b AND 3 \<Longrightarrow> video_byte5 c t p = b"
  unfolding video_byte5_def by (rule u8_eqI; simp add: bit_simps)

lemma video_byte6_fields:
  assumes "m \<le> 15"
  shows "drop_bit 4 (video_byte6 m k) = m" "video_byte6 m k AND 7 = 0" "bit (video_byte6 m k) 3 \<longleftrightarrow> k"
proof -
  have "bit m n \<Longrightarrow> n < 4" for n
    using assms bit_lt_of_unat [of m 4 n] by (simp add: word_le_nat_alt)
  from this [of 4] this [of 5] this [of 6] this [of 7]
  show "drop_bit 4 (video_byte6 m k) = m" "video_byte6 m k AND 7 = 0" "bit (video_byte6 m k) 3 \<longleftrightarrow> k"
    unfolding video_byte6_def
    by (auto intro!: u8_eqI simp: bit_simps)
qed

lemma u8_and_7: "b AND 7 = (0 :: u8) \<longleftrightarrow> \<not> bit b 0 \<and> \<not> bit b 1 \<and> \<not> bit b 2"
proof
  assume "b AND 7 = 0"
  then have "\<not> bit (b AND 7) n" for n by simp
  from this [of 0] this [of 1] this [of 2]
  show "\<not> bit b 0 \<and> \<not> bit b 1 \<and> \<not> bit b 2" by (simp add: bit_simps)
qed (auto intro!: u8_eqI simp: bit_simps)

lemma video_byte6_split: "b AND 7 = (0 :: u8) \<Longrightarrow> video_byte6 (drop_bit 4 b) (bit b 3) = b"
  unfolding video_byte6_def by (rule u8_eqI) (simp_all add: bit_simps u8_and_7)

interpretation video_wire: strict_codec video_encode video_decode VIDEO_HEADER_LEN video_norm
proof (unfold_locales, goal_cases)
  case (1 x bs)
  then show ?case by (auto simp: video_encode_bytes VIDEO_HEADER_LEN_def)
next
  case (2 x bs rest)
  have "take_bit 24 (frame_id x) = frame_id x"
    using 2 by (simp add: video_encode_bytes take_bit_eq_self_unat word_le_nat_alt)
  moreover have "(ucast (take_bit 24 (ucast (frame_id x)) :: u32) :: u64) = take_bit 24 (frame_id x)"
    by (rule bit_word_eqI) (auto simp: bit_simps)
  ultimately show ?case using 2
    by (auto simp: video_encode_bytes video_decode_def VIDEO_HEADER_LEN_def Let_def
        from_to_be_cast video_norm_def video_byte6_fields nth_append)
next
  case (3 d)
  then show ?case by (simp add: video_decode_def)
next
  case (4 d)
  then show ?case by (simp add: video_decode_def)
next
  case (5 d x)
  define b where "b = take VIDEO_HEADER_LEN d"
  have n: "length b = 12"
    and bits: "codec_to_bits (vcodec x) = drop_bit 4 (b ! 5)"
      "frame_type_to_bits (vframe_type x) = drop_bit 2 (b ! 5) AND 3"
      "priority_to_bits (vpriority x) = b ! 5 AND 3" "b ! 6 AND 7 = 0" "0 = b ! 7"
    and x: "frame_id x = ucast (from_be (field 0 3 b) :: u32)" "frag_index x = b ! 3" "total_frags x = b ! 4"
      "monitor_id x = drop_bit 4 (b ! 6)" "marker x = bit (b ! 6) 3"
      "encode_ts_us x = ucast (from_be (field 8 4 b) :: u32)"
    using 5 by (auto simp: video_decode_def VIDEO_HEADER_LEN_def Let_def b_def video_bits_Ok split: if_splits)
  have "frame_id x \<le> 0xFFFFFF"
    using unat_from_be_less [of "field 0 3 b", where 'a = 32] n by (simp add: x word_le_nat_alt unat_ucast_up)
  moreover have "monitor_id x \<le> 15"
    using unat_u8_less [of "b ! 6"] by (simp add: x word_le_nat_alt drop_bit_eq_div unat_div)
  ultimately have "video_encode x = Inr (field 0 12 b)"
    unfolding video_encode_bytes x video_byte5_split [OF bits(1-3)] video_byte6_split [OF bits(4)] bits(5)
    using n
    by (simp add: to_from_be_len to_be_u32 field_joins del: field_whole)
  then show ?case using n by (simp add: b_def [symmetric])
qed

subsection \<open>Input event\<close>

datatype event_type = PointerMove | Button | Wheel | Key | Touch | Pen

text \<open>\<open>Modifiers\<close> is a \<open>bitflags\<close> byte built with \<open>from_bits_retain\<close>: the byte itself.\<close>

record input_event =
  event_type :: event_type
  modifiers :: u8
  pointer_x :: u16
  pointer_y :: u16
  button_mask :: u8
  key_code :: u16
  scroll_x :: i16
  scroll_y :: i16
  pressure :: u8

definition event_type_to_u8 :: "event_type \<Rightarrow> u8" where
  "event_type_to_u8 t = (case t of PointerMove \<Rightarrow> 0 | Button \<Rightarrow> 1 | Wheel \<Rightarrow> 2 | Key \<Rightarrow> 3
     | Touch \<Rightarrow> 4 | Pen \<Rightarrow> 5)"

definition event_type_from_u8 :: "u8 \<Rightarrow> protocol_error + event_type" where
  "event_type_from_u8 b = (if b = 0 then Ok PointerMove else if b = 1 then Ok Button
     else if b = 2 then Ok Wheel else if b = 3 then Ok Key else if b = 4 then Ok Touch
     else if b = 5 then Ok Pen else Err (InvalidEventType b))"

definition input_encode :: "input_event \<Rightarrow> bytes" where
  "input_encode e = [event_type_to_u8 (event_type e), modifiers e]
     @ to_be 2 (pointer_x e) @ to_be 2 (pointer_y e) @ [button_mask e] @ to_be 2 (key_code e)
     @ to_be 2 (scroll_x e) @ to_be 2 (scroll_y e) @ [pressure e, 0, 0]"

definition input_decode :: "bytes \<Rightarrow> protocol_error + input_event" where
  "input_decode d =
     and_then (take_array INPUT_EVENT_LEN d) (\<lambda>b.
       if b ! 14 \<noteq> 0 \<or> b ! 15 \<noteq> 0 then Err ReservedBitsSet
       else and_then (event_type_from_u8 (b ! 0)) (\<lambda>ty.
         Ok \<lparr>event_type = ty, modifiers = b ! 1,
             pointer_x = from_be (field 2 2 b), pointer_y = from_be (field 4 2 b),
             button_mask = b ! 6, key_code = from_be (field 7 2 b),
             scroll_x = from_be (field 9 2 b), scroll_y = from_be (field 11 2 b),
             pressure = b ! 13\<rparr>))"

lemma event_type_from_to [simp]: "event_type_from_u8 (event_type_to_u8 t) = Inr t"
  by (cases t) (simp_all add: event_type_to_u8_def event_type_from_u8_def)

lemma event_type_from_u8_Ok: "event_type_from_u8 b = Inr t \<longleftrightarrow> event_type_to_u8 t = b"
  by (cases t) (auto simp: event_type_to_u8_def event_type_from_u8_def)

interpretation input_wire: strict_codec "\<lambda>e. Ok (input_encode e)" input_decode INPUT_EVENT_LEN "\<lambda>e. e"
proof (unfold_locales, goal_cases)
  case (1 x bs)
  then show ?case by (auto simp: input_encode_def INPUT_EVENT_LEN_def)
next
  case (2 x bs rest)
  then have "bs = input_encode x" by simp
  then show ?case
    by (simp add: input_encode_def input_decode_def INPUT_EVENT_LEN_def nth_append)
next
  case (3 d)
  then show ?case by (simp add: input_decode_def)
next
  case (4 d)
  then show ?case by (simp add: input_decode_def)
next
  case (5 d x)
  define b where "b = take INPUT_EVENT_LEN d"
  have n: "length b = 16" and ty: "event_type_to_u8 (event_type x) = b ! 0" and z: "[0, 0] = [b ! 14, b ! 15]"
    and x: "modifiers x = b ! 1" "pointer_x x = from_be (field 2 2 b)" "pointer_y x = from_be (field 4 2 b)"
      "button_mask x = b ! 6" "key_code x = from_be (field 7 2 b)" "scroll_x x = from_be (field 9 2 b)"
      "scroll_y x = from_be (field 11 2 b)" "pressure x = b ! 13"
    using 5 by (auto simp: input_decode_def INPUT_EVENT_LEN_def b_def event_type_from_u8_Ok split: if_splits)
  have "input_encode x = field 0 16 b"
    unfolding input_encode_def x ty z using n by (simp add: to_be_u16 field_joins del: field_whole)
  then show ?case using n by (simp add: b_def [symmetric])
qed

subsection \<open>NACK feedback\<close>

record nack_feedback =
  report_type :: u8
  ssrc :: u32
  highest_seq :: u16
  cumulative_lost :: u32
  fraction_lost :: u8
  jitter_us :: u32
  rtt_us :: u32
  bwe_kbps :: u32
  nack_bitmap :: u16

definition NACK_FEEDBACK_LEN :: nat where "NACK_FEEDBACK_LEN = 25"
definition MAX_CUMULATIVE_LOST :: u32 where "MAX_CUMULATIVE_LOST = 0x00FFFFFF"

definition nack_encode :: "nack_feedback \<Rightarrow> protocol_error + bytes" where
  "nack_encode f =
     (if MAX_CUMULATIVE_LOST < cumulative_lost f then Err (CumulativeLostTooLarge (cumulative_lost f))
      else Ok ([report_type f] @ to_be 4 (ssrc f) @ to_be 2 (highest_seq f)
        @ drop 1 (to_be 4 (cumulative_lost f)) @ [fraction_lost f] @ to_be 4 (jitter_us f)
        @ to_be 4 (rtt_us f) @ to_be 4 (bwe_kbps f) @ to_be 2 (nack_bitmap f)))"

definition nack_decode :: "bytes \<Rightarrow> protocol_error + nack_feedback" where
  "nack_decode d =
     and_then (take_array NACK_FEEDBACK_LEN d) (\<lambda>b.
       Ok \<lparr>report_type = b ! 0, ssrc = from_be (field 1 4 b), highest_seq = from_be (field 5 2 b),
           cumulative_lost = from_be (0 # field 7 3 b), fraction_lost = b ! 10,
           jitter_us = from_be (field 11 4 b), rtt_us = from_be (field 15 4 b),
           bwe_kbps = from_be (field 19 4 b), nack_bitmap = from_be (field 23 2 b)\<rparr>)"

lemma nack_encode_bytes:
  "nack_encode f = Inr bs \<longleftrightarrow> cumulative_lost f \<le> 0xFFFFFF \<and>
     bs = report_type f # to_be 4 (ssrc f) @ to_be 2 (highest_seq f)
        @ to_be 3 (cumulative_lost f) @ fraction_lost f # to_be 4 (jitter_us f)
        @ to_be 4 (rtt_us f) @ to_be 4 (bwe_kbps f) @ to_be 2 (nack_bitmap f)"
  by (auto simp: nack_encode_def MAX_CUMULATIVE_LOST_def not_less)

interpretation nack_wire: strict_codec nack_encode nack_decode NACK_FEEDBACK_LEN "\<lambda>f. f"
proof (unfold_locales, goal_cases)
  case (1 x bs)
  then show ?case by (auto simp: nack_encode_bytes NACK_FEEDBACK_LEN_def)
next
  case (2 x bs rest)
  then have "take_bit 24 (cumulative_lost x) = cumulative_lost x"
    by (simp add: nack_encode_bytes take_bit_eq_self_unat word_le_nat_alt)
  with 2 show ?case
    by (auto simp: nack_encode_bytes nack_decode_def NACK_FEEDBACK_LEN_def nth_append from_to_be)
next
  case (3 d)
  then show ?case by (simp add: nack_decode_def)
next
  case (4 d)
  then show ?case by (simp add: nack_decode_def)
next
  case (5 d x)
  define b where "b = take NACK_FEEDBACK_LEN d"
  have n: "length b = 25"
    and x: "report_type x = b ! 0" "ssrc x = from_be (field 1 4 b)" "highest_seq x = from_be (field 5 2 b)"
      "cumulative_lost x = from_be (field 7 3 b)" "fraction_lost x = b ! 10"
      "jitter_us x = from_be (field 11 4 b)" "rtt_us x = from_be (field 15 4 b)"
      "bwe_kbps x = from_be (field 19 4 b)" "nack_bitmap x = from_be (field 23 2 b)"
    using 5 by (auto simp: nack_decode_def NACK_FEEDBACK_LEN_def b_def)
  have "cumulative_lost x \<le> 0xFFFFFF"
    using unat_from_be_less [of "field 7 3 b", where 'a = 32] n
    by (simp add: x word_le_nat_alt)
  then have "nack_encode x = Inr (field 0 25 b)"
    unfolding nack_encode_bytes x using n
    by (simp add: to_be_u16 to_be_u32 to_from_be_len field_joins del: field_whole)
  then show ?case using n by (simp add: b_def [symmetric])
qed

end
