(* ===== verification/Utf8.thy ===== *)
theory Utf8
  imports Shp_Prelude
begin

text \<open>
  Rust strings. A \<open>char\<close> is its Unicode scalar value, a \<open>str\<close> the list of its scalars, and
  \<open>utf8\<close> the bytes of a \<open>str\<close>. \<open>from_utf8\<close> is the validation that
  \<open>core::str::from_utf8\<close> performs (shortest form only, no surrogates, nothing above
  \<open>U+10FFFF\<close>). The two are inverse to each other, which is what the codecs that carry text
  rely on.
\<close>

type_synonym scalar = nat
type_synonym str = "scalar list"

definition is_scalar :: "scalar \<Rightarrow> bool" where
  "is_scalar c = (c < 0xD800 \<or> (0xE000 \<le> c \<and> c < 0x110000))"

definition is_str :: "str \<Rightarrow> bool" where
  "is_str s = list_all is_scalar s"

definition utf8_char :: "scalar \<Rightarrow> bytes" where
  "utf8_char c =
     (if c < 0x80 then [of_nat c]
      else if c < 0x800 then [of_nat (0xC0 + c div 64), of_nat (0x80 + c mod 64)]
      else if c < 0x10000 then
        [of_nat (0xE0 + c div 4096), of_nat (0x80 + c div 64 mod 64), of_nat (0x80 + c mod 64)]
      else
        [of_nat (0xF0 + c div 262144), of_nat (0x80 + c div 4096 mod 64),
         of_nat (0x80 + c div 64 mod 64), of_nat (0x80 + c mod 64)])"

definition utf8 :: "str \<Rightarrow> bytes" where
  "utf8 s = concat (map utf8_char s)"

definition cont :: "nat \<Rightarrow> bool" where
  "cont x = (0x80 \<le> x \<and> x \<le> 0xBF)"

definition next_char :: "bytes \<Rightarrow> (scalar \<times> bytes) option" where
  "next_char bs =
     (case bs of [] \<Rightarrow> None | b0 # r \<Rightarrow>
        let x0 = unat b0 in
        if x0 < 0x80 then Some (x0, r)
        else if 0xC2 \<le> x0 \<and> x0 \<le> 0xDF then
          (case r of
             b1 # r1 \<Rightarrow>
               if cont (unat b1) then Some ((x0 - 0xC0) * 64 + (unat b1 - 0x80), r1) else None
           | _ \<Rightarrow> None)
        else if 0xE0 \<le> x0 \<and> x0 \<le> 0xEF then
          (case r of
             b1 # b2 # r2 \<Rightarrow>
               if cont (unat b1) \<and> cont (unat b2) \<and> (x0 = 0xE0 \<longrightarrow> 0xA0 \<le> unat b1)
                  \<and> (x0 = 0xED \<longrightarrow> unat b1 \<le> 0x9F)
               then Some ((x0 - 0xE0) * 4096 + (unat b1 - 0x80) * 64 + (unat b2 - 0x80), r2)
               else None
           | _ \<Rightarrow> None)
        else if 0xF0 \<le> x0 \<and> x0 \<le> 0xF4 then
          (case r of
             b1 # b2 # b3 # r3 \<Rightarrow>
               if cont (unat b1) \<and> cont (unat b2) \<and> cont (unat b3)
                  \<and> (x0 = 0xF0 \<longrightarrow> 0x90 \<le> unat b1) \<and> (x0 = 0xF4 \<longrightarrow> unat b1 \<le> 0x8F)
               then Some ((x0 - 0xF0) * 262144 + (unat b1 - 0x80) * 4096
                          + (unat b2 - 0x80) * 64 + (unat b3 - 0x80), r3)
               else None
           | _ \<Rightarrow> None)
        else None)"

lemma next_char_shorter: "next_char bs = Some (c, t) \<Longrightarrow> length t < length bs"
  by (auto simp: next_char_def Let_def split: list.splits if_splits)

function from_utf8 :: "bytes \<Rightarrow> str option" where
  "from_utf8 bs =
     (if bs = [] then Some []
      else case next_char bs of
             None \<Rightarrow> None
           | Some (c, t) \<Rightarrow> map_option (Cons c) (from_utf8 t))"
  by pat_completeness auto
termination
  by (relation "measure length") (auto dest: next_char_shorter)

declare from_utf8.simps [simp del]

lemma from_utf8_Nil [simp]: "from_utf8 [] = Some []"
  by (simp add: from_utf8.simps)

lemma from_utf8_step: "next_char bs = Some (c, t) \<Longrightarrow> from_utf8 bs = map_option (Cons c) (from_utf8 t)"
  by (subst from_utf8.simps) (auto simp: next_char_def)

lemma utf8_Nil [simp]: "utf8 [] = []"
  by (simp add: utf8_def)

lemma utf8_Cons [simp]: "utf8 (c # s) = utf8_char c @ utf8 s"
  by (simp add: utf8_def)

lemma utf8_append [simp]: "utf8 (s @ t) = utf8 s @ utf8 t"
  by (simp add: utf8_def)

lemma is_str_simps [simp]:
  "is_str []" "is_str (c # s) \<longleftrightarrow> is_scalar c \<and> is_str s" "is_str (s @ t) \<longleftrightarrow> is_str s \<and> is_str t"
  by (simp_all add: is_str_def)

lemma length_utf8_char_pos [simp]: "0 < length (utf8_char c)"
  by (simp add: utf8_char_def)

lemma base64_digit:
  obtains p z :: nat where "c = p * 64 + z" "z < 64" "c div 64 = p" "c mod 64 = z"
  by (rule that [of "c div 64" "c mod 64"]) simp_all

lemma base64_digits:
  assumes "z < (64 :: nat)"
  shows "(p * 64 + z) div 64 = p" "(p * 64 + z) mod 64 = z"
  using assms by simp_all

lemma next_char_utf8:
  assumes "is_scalar c"
  shows "next_char (utf8_char c @ rest) = Some (c, rest)"
proof -
  obtain p z where pz: "c = p * 64 + z" "z < 64" "c div 64 = p" "c mod 64 = z"
    by (rule base64_digit)
  obtain q y where qy: "p = q * 64 + y" "y < 64" "p div 64 = q" "p mod 64 = y"
    by (rule base64_digit)
  obtain w x where wx: "q = w * 64 + x" "x < 64" "q div 64 = w" "q mod 64 = x"
    by (rule base64_digit)
  have D: "c div 4096 = q" "c div 262144 = w"
    using div_mult2_eq [of c 64 64] div_mult2_eq [of c 4096 64] pz(3) qy(3) wx(3) by simp_all
  note ev = utf8_char_def next_char_def unat_of_nat_u8 Let_def cont_def
  consider "c < 0x80" | "0x80 \<le> c" "c < 0x800" | "0x800 \<le> c" "c < 0x10000" | "0x10000 \<le> c"
    by linarith
  then show ?thesis
  proof cases
    case 1
    then show ?thesis by (simp add: ev del: of_nat_add)
  next
    case 2
    then have b: "2 \<le> p" "p < 32" using pz(1,2) by linarith+
    have u: "utf8_char c = [of_nat (0xC0 + p), of_nat (0x80 + z)]"
      using 2 by (simp add: utf8_char_def pz(3,4))
    show ?thesis unfolding u using b pz(1,2) by (simp add: ev del: of_nat_add)
  next
    case 3
    then have b: "q < 16" "q = 0 \<longrightarrow> 0x20 \<le> y" "q = 13 \<longrightarrow> y \<le> 0x1F"
      using assms pz(1,2) qy(1,2) unfolding is_scalar_def by auto
    have u: "utf8_char c = [of_nat (0xE0 + q), of_nat (0x80 + y), of_nat (0x80 + z)]"
      using 3 by (simp add: utf8_char_def pz(3,4) qy(3,4) D)
    have c: "q * 4096 + y * 64 + z = c" using pz(1) qy(1) by simp
    show ?thesis unfolding u using b pz(2) qy(2) c by (simp add: ev del: of_nat_add)
  next
    case 4
    then have b: "w \<le> 4" "w = 0 \<longrightarrow> 0x10 \<le> x" "w = 4 \<longrightarrow> x \<le> 0x0F"
      using assms pz(1,2) qy(1,2) wx(1,2) unfolding is_scalar_def by auto
    have u: "utf8_char c =
        [of_nat (0xF0 + w), of_nat (0x80 + x), of_nat (0x80 + y), of_nat (0x80 + z)]"
      using 4 by (simp add: utf8_char_def pz(3,4) qy(3,4) wx(3,4) D)
    have c: "w * 262144 + x * 4096 + y * 64 + z = c" using pz(1) qy(1) wx(1) by simp
    show ?thesis unfolding u using b pz(2) qy(2) wx(2) c by (simp add: ev del: of_nat_add)
  qed
qed

lemma from_utf8_utf8: "is_str s \<Longrightarrow> from_utf8 (utf8 s) = Some s"
  by (induction s) (simp_all add: from_utf8_step [OF next_char_utf8])

lemma utf8_char1: "unat b0 < 0x80 \<Longrightarrow> utf8_char (unat b0) = [b0]" "unat b0 < 0x80 \<Longrightarrow> is_scalar (unat b0)"
  by (simp_all add: utf8_char_def is_scalar_def)

lemma utf8_char2:
  assumes "0xC2 \<le> unat b0" "unat b0 \<le> 0xDF" "cont (unat b1)"
  defines "c \<equiv> (unat b0 - 0xC0) * 64 + (unat b1 - 0x80)"
  shows "utf8_char c = [b0, b1]" "is_scalar c"
proof -
  obtain w where w: "unat b0 = 0xC0 + w" using assms(1) le_Suc_ex [of "0xC0" "unat b0"] by auto
  obtain x where x: "unat b1 = 0x80 + x" using assms(3) le_Suc_ex unfolding cont_def by blast
  have r: "2 \<le> w" "w < 32" "x < 64" using assms(1-3) unfolding cont_def w x by simp_all
  have c: "c = w * 64 + x" by (simp add: c_def w x)
  have d: "c div 64 = w" "c mod 64 = x" "0x80 \<le> c" "c < 0x800"
    using r base64_digits [of x w] unfolding c by simp_all
  have e: "0xC0 + c div 64 = unat b0" "0x80 + c mod 64 = unat b1" unfolding d w x by simp_all
  show "utf8_char c = [b0, b1]" unfolding utf8_char_def e using d by simp
  show "is_scalar c" using d by (simp add: is_scalar_def)
qed

lemma utf8_char3:
  assumes "0xE0 \<le> unat b0" "unat b0 \<le> 0xEF" "cont (unat b1)" "cont (unat b2)"
    "unat b0 = 0xE0 \<longrightarrow> 0xA0 \<le> unat b1" "unat b0 = 0xED \<longrightarrow> unat b1 \<le> 0x9F"
  defines "c \<equiv> (unat b0 - 0xE0) * 4096 + (unat b1 - 0x80) * 64 + (unat b2 - 0x80)"
  shows "utf8_char c = [b0, b1, b2]" "is_scalar c"
proof -
  obtain x where x: "unat b0 = 0xE0 + x" using assms(1) le_Suc_ex by blast
  obtain y where y: "unat b1 = 0x80 + y" using assms(3) le_Suc_ex unfolding cont_def by blast
  obtain z where z: "unat b2 = 0x80 + z" using assms(4) le_Suc_ex unfolding cont_def by blast
  have r: "x < 16" "y < 64" "z < 64" using assms(1-4) unfolding cont_def x y z by simp_all
  have c: "c = x * 4096 + y * 64 + z" by (simp add: c_def x y z)
  have c': "c = (x * 64 + y) * 64 + z" by (simp add: c)
  have d64: "c div 64 = x * 64 + y" and dz: "c mod 64 = z"
    unfolding c' using r(3) by (simp_all only: base64_digits)
  have d: "c div 4096 = x" "c div 64 mod 64 = y" "c mod 64 = z"
    using r d64 dz div_mult2_eq [of c 64 64] by simp_all
  have h: "0x800 \<le> c" "c < 0x10000" using assms(5) r unfolding c x y by auto
  have "x \<le> 12 \<or> x = 13 \<or> 14 \<le> x" by linarith
  then have h3: "c < 0xD800 \<or> 0xE000 \<le> c" using assms(6) r unfolding c x y by auto
  have e: "0xE0 + c div 4096 = unat b0" "0x80 + c div 64 mod 64 = unat b1" "0x80 + c mod 64 = unat b2"
    unfolding d x y z by simp_all
  show "utf8_char c = [b0, b1, b2]" unfolding utf8_char_def e using h by simp
  show "is_scalar c" using h h3 by (auto simp: is_scalar_def)
qed

lemma utf8_char4:
  assumes "0xF0 \<le> unat b0" "unat b0 \<le> 0xF4" "cont (unat b1)" "cont (unat b2)" "cont (unat b3)"
    "unat b0 = 0xF0 \<longrightarrow> 0x90 \<le> unat b1" "unat b0 = 0xF4 \<longrightarrow> unat b1 \<le> 0x8F"
  defines "c \<equiv> (unat b0 - 0xF0) * 262144 + (unat b1 - 0x80) * 4096
                + (unat b2 - 0x80) * 64 + (unat b3 - 0x80)"
  shows "utf8_char c = [b0, b1, b2, b3]" "is_scalar c"
proof -
  obtain w where w: "unat b0 = 0xF0 + w" using assms(1) le_Suc_ex by blast
  obtain x where x: "unat b1 = 0x80 + x" using assms(3) le_Suc_ex unfolding cont_def by blast
  obtain y where y: "unat b2 = 0x80 + y" using assms(4) le_Suc_ex unfolding cont_def by blast
  obtain z where z: "unat b3 = 0x80 + z" using assms(5) le_Suc_ex unfolding cont_def by blast
  have r: "w \<le> 4" "x < 64" "y < 64" "z < 64"
    using assms(1-5) unfolding cont_def w x y z by simp_all
  have c: "c = w * 262144 + x * 4096 + y * 64 + z" by (simp add: c_def w x y z)
  have c': "c = ((w * 64 + x) * 64 + y) * 64 + z" by (simp add: c)
  have d64: "c div 64 = (w * 64 + x) * 64 + y" and dz: "c mod 64 = z"
    unfolding c' using r(4) by (simp_all only: base64_digits)
  have d4096: "c div 4096 = w * 64 + x" using r(3) d64 div_mult2_eq [of c 64 64] base64_digits [of y "w * 64 + x"]
    by simp
  have d: "c div 262144 = w" "c div 4096 mod 64 = x" "c div 64 mod 64 = y" "c mod 64 = z"
    using r d64 dz d4096 div_mult2_eq [of c 4096 64] base64_digits [of y "w * 64 + x"]
    by simp_all
  have h: "0x10000 \<le> c" "c < 0x110000"
    using assms(6,7) r unfolding c w x by auto
  have e: "0xF0 + c div 262144 = unat b0" "0x80 + c div 4096 mod 64 = unat b1"
    "0x80 + c div 64 mod 64 = unat b2" "0x80 + c mod 64 = unat b3"
    unfolding d w x y z by simp_all
  show "utf8_char c = [b0, b1, b2, b3]" unfolding utf8_char_def e using h by simp
  show "is_scalar c" using h by (auto simp: is_scalar_def)
qed

lemma next_char_sound: "next_char bs = Some (c, t) \<Longrightarrow> bs = utf8_char c @ t \<and> is_scalar c"
  by (auto simp: next_char_def Let_def utf8_char1 utf8_char2 utf8_char3 utf8_char4
      split: list.splits if_splits)

lemma utf8_from_utf8: "from_utf8 bs = Some s \<Longrightarrow> utf8 s = bs \<and> is_str s"
proof (induction bs arbitrary: s rule: from_utf8.induct)
  case (1 bs)
  show ?case
  proof (cases "bs = []")
    case True
    with "1.prems" show ?thesis by simp
  next
    case False
    with "1.prems" obtain c t z where n: "next_char bs = Some (c, t)"
      and z: "from_utf8 t = Some z" "s = c # z"
      by (subst (asm) from_utf8.simps) (auto split: option.splits prod.splits)
    from "1.IH" [OF False n refl z(1)] next_char_sound [OF n] z(2) show ?thesis by simp
  qed
qed

subsection \<open>Lossy decoding\<close>

text \<open>
  \<open>String::from_utf8_lossy\<close>: every maximal prefix of a well-formed sequence that is cut short
  (\<open>broken_len\<close> bytes of it) becomes one \<open>U+FFFD\<close>.
\<close>

definition broken_len :: "bytes \<Rightarrow> nat" where
  "broken_len bs =
     (case bs of
        b0 # b1 # r \<Rightarrow>
          let x0 = unat b0; x1 = unat b1 in
          if 0xE0 \<le> x0 \<and> x0 \<le> 0xEF \<and> cont x1 \<and> (x0 = 0xE0 \<longrightarrow> 0xA0 \<le> x1) \<and> (x0 = 0xED \<longrightarrow> x1 \<le> 0x9F) then 2
          else if 0xF0 \<le> x0 \<and> x0 \<le> 0xF4 \<and> cont x1 \<and> (x0 = 0xF0 \<longrightarrow> 0x90 \<le> x1) \<and> (x0 = 0xF4 \<longrightarrow> x1 \<le> 0x8F)
          then (case r of b2 # _ \<Rightarrow> if cont (unat b2) then 3 else 2 | [] \<Rightarrow> 2)
          else 1
      | _ \<Rightarrow> 1)"

lemma broken_len_pos: "0 < broken_len bs"
  by (auto simp: broken_len_def Let_def split: list.splits)

function from_utf8_lossy :: "bytes \<Rightarrow> str" where
  "from_utf8_lossy bs =
     (if bs = [] then []
      else case next_char bs of
             None \<Rightarrow> 0xFFFD # from_utf8_lossy (drop (broken_len bs) bs)
           | Some (c, t) \<Rightarrow> c # from_utf8_lossy t)"
  by pat_completeness auto
termination
  by (relation "measure length") (auto dest: next_char_shorter simp: broken_len_pos)

declare from_utf8_lossy.simps [simp del]

lemma from_utf8_lossy_exact: "from_utf8 bs = Some s \<Longrightarrow> from_utf8_lossy bs = s"
proof (induction bs arbitrary: s rule: from_utf8.induct)
  case (1 bs)
  show ?case
  proof (cases "next_char bs")
    case None
    then show ?thesis using "1.prems" by (subst (asm) from_utf8.simps) (auto simp: from_utf8_lossy.simps split: if_splits)
  next
    case (Some ct)
    obtain c t where ct: "ct = (c, t)" by (cases ct)
    have ne: "bs \<noteq> []" using Some next_char_shorter [of bs c t] ct by auto
    obtain s' where s': "from_utf8 t = Some s'" "s = c # s'"
      using "1.prems" Some ct by (auto simp: from_utf8_step)
    have "from_utf8_lossy t = s'" using "1.IH" [OF ne Some ct [symmetric]] s'(1) by simp
    then show ?thesis using Some ct ne s'(2) by (subst from_utf8_lossy.simps) simp
  qed
qed

lemma from_utf8_lossy_utf8: "is_str s \<Longrightarrow> from_utf8_lossy (utf8 s) = s"
  by (simp add: from_utf8_lossy_exact from_utf8_utf8)

lemma is_str_lossy: "is_str (from_utf8_lossy bs)"
proof (induction bs rule: from_utf8_lossy.induct)
  case (1 bs)
  show ?case
    by (subst from_utf8_lossy.simps)
      (use "1.IH" in \<open>auto simp: is_scalar_def split: option.splits dest: next_char_sound\<close>)
qed

end
