(* ===== verification/Wire_Control.thy ===== *)
theory Wire_Control
  imports Wire_Codec Shp_Types Utf8
begin

text \<open>
  Control-plane messages of \<open>src/crates/sh-protocol/src\<close>: the length-prefixed control frame
  (\<open>control.rs\<close>), the codec capability payload (\<open>capability.rs\<close>), the transport capability
  payload and the transport negotiation (\<open>transport_caps.rs\<close>), the clipboard update
  (\<open>clipboard.rs\<close>) and the table of control-frame kinds (\<open>lib.rs\<close>).
\<close>

subsection \<open>Control frames\<close>

definition CONTROL_HEADER_LEN :: nat where "CONTROL_HEADER_LEN = 3"

record control_frame =
  cf_kind :: u8
  cf_payload :: bytes

definition consumed :: "control_frame \<Rightarrow> nat" where
  "consumed f = usz_add CONTROL_HEADER_LEN (length (cf_payload f))"

definition encode_control :: "u8 \<Rightarrow> bytes \<Rightarrow> protocol_error + bytes" where
  "encode_control kind payload =
     (if length payload < 2 ^ 16
      then Ok ([kind] @ to_be 2 (of_nat (length payload) :: u16) @ payload)
      else Err (ControlPayloadTooLarge (length payload)))"

definition decode_control :: "bytes \<Rightarrow> protocol_error + control_frame option" where
  "decode_control d =
     (case get_range 0 CONTROL_HEADER_LEN d of
        None \<Rightarrow> Ok None
      | Some header \<Rightarrow>
          let len = unat (from_be (field 1 2 header) :: u16);
              total = usz_add CONTROL_HEADER_LEN len
          in case get_range CONTROL_HEADER_LEN total d of
               None \<Rightarrow> Ok None
             | Some payload \<Rightarrow> Ok (Some \<lparr>cf_kind = header ! 0, cf_payload = payload\<rparr>))"

text \<open>
  The reader of a control stream: take frames off the front of the buffer by \<open>consumed\<close> until
  no whole frame is left. The frames and the unread rest are returned.
\<close>

function drain_control :: "bytes \<Rightarrow> control_frame list \<times> bytes" where
  "drain_control d =
     (case decode_control d of
        Inr (Some f) \<Rightarrow> let (fs, rest) = drain_control (drop (consumed f) d) in (f # fs, rest)
      | _ \<Rightarrow> ([], d))"
  by auto

lemma control_len_small [simp]: "usz_add 3 (unat (l :: u16)) = 3 + unat l"
  using unat_u16_less [of l] by (simp add: usize_max_def)

lemma decode_control_Some:
  "decode_control d = Inr (Some f) \<longleftrightarrow>
     (\<exists>rest. d = [cf_kind f] @ to_be 2 (of_nat (length (cf_payload f)) :: u16) @ cf_payload f @ rest)
     \<and> length (cf_payload f) < 2 ^ 16"
  (is "?l \<longleftrightarrow> ?r")
proof
  assume ?l
  define len where "len = (from_be (field 1 2 d) :: u16)"
  have n: "3 + unat len \<le> length d" "3 \<le> length d"
    and f: "cf_kind f = d ! 0" "cf_payload f = field 3 (unat len) d"
    using \<open>?l\<close> by (auto simp: decode_control_def get_range_def CONTROL_HEADER_LEN_def len_def Let_def
        field_def take_drop split: if_splits)
  have "d = field 0 (3 + unat len) d @ drop (3 + unat len) d"
    by (simp add: field_def)
  also have "field 0 (3 + unat len) d = field 0 1 d @ field 1 2 d @ field 3 (unat len) d"
    by (simp add: field_join numeral_3_eq_3)
  also have "field 0 1 d = [d ! 0]" using n by (subst nth_field_single) auto
  also have "field 1 2 d = to_be 2 len"
    using n by (simp add: len_def to_be_u16)
  finally show ?r
    using n unat_u16_less [of len] by (auto simp: f)
next
  assume ?r
  then obtain rest where d: "d = [cf_kind f] @ to_be 2 (of_nat (length (cf_payload f)) :: u16) @ cf_payload f @ rest"
    and l: "length (cf_payload f) < 2 ^ 16" by blast
  show ?l
    using l unfolding d by (simp add: decode_control_def get_range_def CONTROL_HEADER_LEN_def Let_def
        unat_of_nat_u16 usize_max_def)
qed

lemma decode_control_never_Err: "\<exists>r. decode_control d = Inr r"
  by (auto simp: decode_control_def Let_def split: option.split)

lemma consumed_eq: "decode_control d = Inr (Some f) \<Longrightarrow> consumed f = 3 + length (cf_payload f)"
  by (simp add: decode_control_Some consumed_def CONTROL_HEADER_LEN_def usize_max_def)

termination drain_control
proof (relation "measure length", goal_cases)
  case (2 d x f)
  then have "decode_control d = Inr (Some f)" by simp
  then have "consumed f = 3 + length (cf_payload f)" "length d > 0"
    by (auto simp: consumed_eq) (auto simp: decode_control_Some)
  then show ?case by simp
qed simp

declare drain_control.simps [simp del]

lemma encode_control_Ok:
  "encode_control k p = Inr bs \<longleftrightarrow>
     length p < 2 ^ 16 \<and> bs = [k] @ to_be 2 (of_nat (length p) :: u16) @ p"
  by (auto simp: encode_control_def)

lemma decode_encode_control:
  "encode_control k p = Inr bs \<Longrightarrow>
    decode_control (bs @ rest) = Inr (Some \<lparr>cf_kind = k, cf_payload = p\<rparr>)"
  by (simp add: decode_control_Some encode_control_Ok)

lemma decode_control_None:
  "decode_control d = Inr None \<longleftrightarrow> length d < 3 \<or> length d < 3 + unat (from_be (field 1 2 d) :: u16)"
  by (auto simp: decode_control_def get_range_def CONTROL_HEADER_LEN_def Let_def)

lemma drain_control_step:
  "decode_control d = Inr (Some f) \<Longrightarrow>
    drain_control d = (f # fst (drain_control (drop (consumed f) d)), snd (drain_control (drop (consumed f) d)))"
  by (subst drain_control.simps) (simp add: case_prod_beta Let_def)

lemma drain_control_stop: "decode_control d = Inr None \<Longrightarrow> drain_control d = ([], d)"
  by (subst drain_control.simps) simp

lemma drain_encoded:
  assumes "map (\<lambda>f. encode_control (cf_kind f) (cf_payload f)) fs = map Inr bss"
    and "decode_control rest = Inr None"
  shows "drain_control (concat bss @ rest) = (fs, rest)"
  using assms(1)
proof (induction fs arbitrary: bss)
  case Nil
  then show ?case by (simp add: drain_control_stop assms(2))
next
  case (Cons f fs)
  then obtain b bs where bss: "bss = b # bs" and e: "encode_control (cf_kind f) (cf_payload f) = Inr b"
    and IH: "drain_control (concat bs @ rest) = (fs, rest)"
    by (cases bss) auto
  have d: "decode_control (b @ concat bs @ rest) = Inr (Some f)"
    using decode_encode_control [OF e] by simp
  moreover have "consumed f = length b"
    using e consumed_eq [OF d] by (simp add: encode_control_Ok)
  ultimately show ?case
    by (simp add: bss drain_control_step IH)
qed

subsection \<open>Codec capabilities\<close>

record codec_caps_payload =
  hw_encode_mask :: u8
  hw_decode_mask :: u8
  sw_h264_encode_available :: bool
  is_apple :: bool
  is_browser :: bool
  selected_codec :: "u8 option"

definition CODEC_CAPS_LEN :: nat where "CODEC_CAPS_LEN = 4"
definition NO_CODEC_SENTINEL :: u8 where "NO_CODEC_SENTINEL = 0xFF"
definition FLAG_SW_H264 :: u8 where "FLAG_SW_H264 = 1"
definition FLAG_IS_APPLE :: u8 where "FLAG_IS_APPLE = 2"
definition FLAG_IS_BROWSER :: u8 where "FLAG_IS_BROWSER = 4"
definition FLAGS_RESERVED_MASK :: u8 where "FLAGS_RESERVED_MASK = 0xF8"
definition CODEC_MASK_RESERVED :: u8 where "CODEC_MASK_RESERVED = 0xF8"
definition CODEC_DISC_H264 :: u8 where "CODEC_DISC_H264 = 0"
definition CODEC_DISC_H265 :: u8 where "CODEC_DISC_H265 = 1"
definition CODEC_DISC_AV1 :: u8 where "CODEC_DISC_AV1 = 2"

lemmas caps_consts = CODEC_CAPS_LEN_def NO_CODEC_SENTINEL_def FLAG_SW_H264_def FLAG_IS_APPLE_def
  FLAG_IS_BROWSER_def FLAGS_RESERVED_MASK_def CODEC_MASK_RESERVED_def CODEC_DISC_H264_def
  CODEC_DISC_H265_def CODEC_DISC_AV1_def

definition encode_caps :: "codec_caps_payload \<Rightarrow> protocol_error + bytes" where
  "encode_caps p =
     (if hw_encode_mask p AND CODEC_MASK_RESERVED \<noteq> 0 then Err ReservedBitsSet
      else if hw_decode_mask p AND CODEC_MASK_RESERVED \<noteq> 0 then Err ReservedBitsSet
      else and_then (case selected_codec p of
          None \<Rightarrow> Ok NO_CODEC_SENTINEL
        | Some n \<Rightarrow> if n \<in> {CODEC_DISC_H264, CODEC_DISC_H265, CODEC_DISC_AV1} then Ok n
                    else Err (InvalidCodec n)) (\<lambda>selected.
        let flags = 0;
            flags = (if sw_h264_encode_available p then flags OR FLAG_SW_H264 else flags);
            flags = (if is_apple p then flags OR FLAG_IS_APPLE else flags);
            flags = (if is_browser p then flags OR FLAG_IS_BROWSER else flags)
        in Ok [hw_encode_mask p, hw_decode_mask p, flags, selected]))"

definition decode_caps :: "bytes \<Rightarrow> protocol_error + codec_caps_payload" where
  "decode_caps d =
     and_then (take_array CODEC_CAPS_LEN d) (\<lambda>b.
       let enc = b ! 0; dec = b ! 1; flags = b ! 2; selected_raw = b ! 3 in
       if flags AND FLAGS_RESERVED_MASK \<noteq> 0 then Err ReservedBitsSet
       else if enc AND CODEC_MASK_RESERVED \<noteq> 0 \<or> dec AND CODEC_MASK_RESERVED \<noteq> 0 then Err ReservedBitsSet
       else and_then (if selected_raw = NO_CODEC_SENTINEL then Ok None
                      else if selected_raw \<in> {CODEC_DISC_H264, CODEC_DISC_H265, CODEC_DISC_AV1}
                           then Ok (Some selected_raw)
                      else Err (InvalidCodec selected_raw)) (\<lambda>sel.
         Ok \<lparr>hw_encode_mask = enc, hw_decode_mask = dec,
             sw_h264_encode_available = (flags AND FLAG_SW_H264 \<noteq> 0),
             is_apple = (flags AND FLAG_IS_APPLE \<noteq> 0),
             is_browser = (flags AND FLAG_IS_BROWSER \<noteq> 0),
             selected_codec = sel\<rparr>))"

definition caps_flags :: "bool \<Rightarrow> bool \<Rightarrow> bool \<Rightarrow> u8" where
  "caps_flags s a b = u8_of_bool s OR (push_bit 1 (u8_of_bool a) OR push_bit 2 (u8_of_bool b))"

definition sel_byte :: "u8 option \<Rightarrow> u8" where
  "sel_byte s = (case s of None \<Rightarrow> 0xFF | Some n \<Rightarrow> n)"

lemma encode_caps_bytes:
  "encode_caps p = Inr bs \<longleftrightarrow> hw_encode_mask p AND 0xF8 = 0 \<and> hw_decode_mask p AND 0xF8 = 0 \<and>
     selected_codec p \<in> {None, Some 0, Some 1, Some 2} \<and>
     bs = [hw_encode_mask p, hw_decode_mask p,
           caps_flags (sw_h264_encode_available p) (is_apple p) (is_browser p), sel_byte (selected_codec p)]"
  by (cases "sw_h264_encode_available p"; cases "is_apple p"; cases "is_browser p"; cases "selected_codec p")
     (auto simp: encode_caps_def caps_consts caps_flags_def sel_byte_def split: if_splits)

lemma caps_flags_fields [simp]:
  "caps_flags s a b AND 0xF8 = 0" "bit (caps_flags s a b) 0 = s"
  "bit (caps_flags s a b) (Suc 0) = a" "bit (caps_flags s a b) 2 = b"
  by (cases s; cases a; cases b; simp add: caps_flags_def)+

lemma u8_high5: "b AND 0xF8 = (0 :: u8) \<longleftrightarrow>
    \<not> bit b 3 \<and> \<not> bit b 4 \<and> \<not> bit b 5 \<and> \<not> bit b 6 \<and> \<not> bit b 7"
proof
  assume "b AND 0xF8 = 0"
  then have "\<not> bit (b AND 0xF8) n" for n by simp
  from this [of 3] this [of 4] this [of 5] this [of 6] this [of 7]
  show "\<not> bit b 3 \<and> \<not> bit b 4 \<and> \<not> bit b 5 \<and> \<not> bit b 6 \<and> \<not> bit b 7" by (simp add: bit_simps)
qed (auto intro!: u8_eqI simp: bit_simps)

lemma caps_flags_split: "b AND 0xF8 = 0 \<Longrightarrow> caps_flags (bit b 0) (bit b (Suc 0)) (bit b 2) = b"
  unfolding caps_flags_def by (rule u8_eqI) (simp_all add: bit_simps u8_high5 del: push_bit_Suc)

interpretation caps_wire: strict_codec encode_caps decode_caps CODEC_CAPS_LEN "\<lambda>p. p"
proof (unfold_locales, goal_cases)
  case (1 x bs)
  then show ?case by (auto simp: encode_caps_bytes caps_consts)
next
  case (2 x bs rest)
  then show ?case
    by (auto simp: encode_caps_bytes decode_caps_def caps_consts Let_def sel_byte_def)
next
  case (3 d)
  then show ?case by (simp add: decode_caps_def)
next
  case (4 d)
  then show ?case by (simp add: decode_caps_def)
next
  case (5 d x)
  then have "4 \<le> length d" by (auto simp: decode_caps_def caps_consts)
  then obtain a b c e r where d: "d = a # b # c # e # r"
    by (auto simp: numeral_eq_Suc Suc_le_length_iff)
  show ?case
    using 5 caps_flags_split [of c]
    by (auto simp: d decode_caps_def encode_caps_bytes caps_consts Let_def sel_byte_def split: if_splits)
qed

subsection \<open>Transport capabilities and negotiation\<close>

record transport_caps =
  supports_quic :: bool
  supports_webrtc :: bool

datatype negotiation_error = NoCommonTransport transport_caps transport_caps

definition TRANSPORT_CAPS_LEN :: nat where "TRANSPORT_CAPS_LEN = 2"
definition TRANSPORT_CAPS_VERSION :: u8 where "TRANSPORT_CAPS_VERSION = 1"
definition MASK_QUIC :: u8 where "MASK_QUIC = 1"
definition MASK_WEBRTC :: u8 where "MASK_WEBRTC = 2"
definition PREFERENCE_ORDER :: "transport_kind list" where "PREFERENCE_ORDER = [Quic, Webrtc]"

lemmas tcaps_consts = TRANSPORT_CAPS_LEN_def TRANSPORT_CAPS_VERSION_def MASK_QUIC_def MASK_WEBRTC_def

definition encode_transport_caps :: "transport_caps \<Rightarrow> bytes" where
  "encode_transport_caps c =
     (let mask = 0;
          mask = (if supports_quic c then mask OR MASK_QUIC else mask);
          mask = (if supports_webrtc c then mask OR MASK_WEBRTC else mask)
      in [TRANSPORT_CAPS_VERSION, mask])"

definition decode_transport_caps :: "bytes \<Rightarrow> protocol_error + transport_caps" where
  "decode_transport_caps d =
     (if length d < TRANSPORT_CAPS_LEN then Err (Truncated TRANSPORT_CAPS_LEN (length d))
      else let version = d ! 0; mask = d ! 1 in
        if version \<noteq> TRANSPORT_CAPS_VERSION then Err (UnknownVersion version)
        else Ok \<lparr>supports_quic = (mask AND MASK_QUIC \<noteq> 0), supports_webrtc = (mask AND MASK_WEBRTC \<noteq> 0)\<rparr>)"

definition supports :: "transport_caps \<Rightarrow> transport_kind \<Rightarrow> bool" where
  "supports c k = (case k of Quic \<Rightarrow> supports_quic c | Webrtc \<Rightarrow> supports_webrtc c)"

fun negotiate_in :: "transport_kind list \<Rightarrow> transport_caps \<Rightarrow> transport_caps \<Rightarrow> negotiation_error + transport_kind" where
  "negotiate_in [] local peer = Err (NoCommonTransport local peer)"
| "negotiate_in (kind # kinds) local peer =
     (let local_has = supports local kind; peer_has = supports peer kind in
      if local_has \<and> peer_has then Ok kind else negotiate_in kinds local peer)"

definition negotiate :: "transport_caps \<Rightarrow> transport_caps \<Rightarrow> negotiation_error + transport_kind" where
  "negotiate local peer = negotiate_in PREFERENCE_ORDER local peer"

interpretation transport_caps_wire:
  wire_codec "\<lambda>c. Ok (encode_transport_caps c)" decode_transport_caps TRANSPORT_CAPS_LEN "\<lambda>c. c"
proof (unfold_locales, goal_cases)
  case (1 x bs)
  then show ?case by (auto simp: encode_transport_caps_def tcaps_consts)
next
  case (2 x bs rest)
  then show ?case
    by (cases "supports_quic x"; cases "supports_webrtc x")
       (auto simp: encode_transport_caps_def decode_transport_caps_def tcaps_consts Let_def)
next
  case (3 d)
  then show ?case by (simp add: decode_transport_caps_def)
next
  case (4 d)
  then show ?case by (simp add: decode_transport_caps_def tcaps_consts)
qed

lemma negotiate_in_find:
  "negotiate_in ks a b =
     (case find (\<lambda>k. supports a k \<and> supports b k) ks of Some k \<Rightarrow> Ok k | None \<Rightarrow> Err (NoCommonTransport a b))"
  by (induction ks) (simp_all add: Let_def)

lemma negotiate_find:
  "negotiate a b = (case find (\<lambda>k. supports a k \<and> supports b k) PREFERENCE_ORDER of
     Some k \<Rightarrow> Ok k | None \<Rightarrow> Err (NoCommonTransport a b))"
  by (simp add: negotiate_def negotiate_in_find)

lemma negotiate_Ok_iff:
  "negotiate a b = Inr k \<longleftrightarrow> supports a k \<and> supports b k \<and> (k = Webrtc \<longrightarrow> \<not> (supports a Quic \<and> supports b Quic))"
  by (cases k) (auto simp: negotiate_find PREFERENCE_ORDER_def split: if_splits)

lemma negotiate_Err_iff:
  "negotiate a b = Inl e \<longleftrightarrow> e = NoCommonTransport a b \<and> (\<forall>k. \<not> (supports a k \<and> supports b k))"
  by (auto simp: negotiate_find PREFERENCE_ORDER_def split: if_splits) (metis transport_kind.exhaust)+

subsection \<open>Clipboard updates\<close>

datatype clipboard_format = Text

record clipboard_update =
  cu_format :: clipboard_format
  cu_content :: bytes

definition MAX_CLIPBOARD_BYTES :: nat where "MAX_CLIPBOARD_BYTES = 256 * 1024"
definition FORMAT_TEXT :: u8 where "FORMAT_TEXT = 0"

definition format_to_u8 :: "clipboard_format \<Rightarrow> u8" where
  "format_to_u8 f = (case f of Text \<Rightarrow> FORMAT_TEXT)"

definition format_from_u8 :: "u8 \<Rightarrow> protocol_error + clipboard_format" where
  "format_from_u8 b = (if b = FORMAT_TEXT then Ok Text else Err (InvalidClipboardFormat b))"

definition clipboard_text :: "str \<Rightarrow> protocol_error + clipboard_update" where
  "clipboard_text s = (if length (utf8 s) > MAX_CLIPBOARD_BYTES then Err (ClipboardTooLarge (length (utf8 s)))
     else Ok \<lparr>cu_format = Text, cu_content = utf8 s\<rparr>)"

definition as_text :: "clipboard_update \<Rightarrow> str option" where
  "as_text u = (case cu_format u of Text \<Rightarrow> from_utf8 (cu_content u))"

definition clipboard_encode :: "clipboard_update \<Rightarrow> bytes" where
  "clipboard_encode u = format_to_u8 (cu_format u) # cu_content u"

definition clipboard_decode :: "bytes \<Rightarrow> protocol_error + clipboard_update" where
  "clipboard_decode bs =
     (case bs of [] \<Rightarrow> Err (Truncated 1 0)
      | fmt # content \<Rightarrow> and_then (format_from_u8 fmt) (\<lambda>f.
          if length content > MAX_CLIPBOARD_BYTES then Err (ClipboardTooLarge (length content))
          else case f of Text \<Rightarrow>
            if from_utf8 content = None then Err InvalidClipboardText
            else Ok \<lparr>cu_format = f, cu_content = content\<rparr>))"

lemma clipboard_decode_Ok:
  "clipboard_decode bs = Inr u \<longleftrightarrow>
     bs = clipboard_encode u \<and> length (cu_content u) \<le> MAX_CLIPBOARD_BYTES \<and> as_text u \<noteq> None"
  by (cases "cu_format u"; cases bs)
     (auto simp: clipboard_decode_def clipboard_encode_def format_from_u8_def format_to_u8_def as_text_def
       FORMAT_TEXT_def split: clipboard_format.splits if_splits)

lemma clipboard_text_roundtrip:
  "is_str s \<Longrightarrow> clipboard_text s = Inr u \<Longrightarrow>
    clipboard_decode (clipboard_encode u) = Inr u \<and> as_text u = Some s"
  by (auto simp: clipboard_decode_Ok clipboard_text_def as_text_def from_utf8_utf8 split: if_splits)

subsection \<open>The kinds of control frame\<close>

definition KIND_CODEC_CAPS_OFFER :: u8 where "KIND_CODEC_CAPS_OFFER = 0x10"
definition KIND_CODEC_CAPS_ANSWER :: u8 where "KIND_CODEC_CAPS_ANSWER = 0x11"
definition KIND_TRANSPORT_CAPS_OFFER :: u8 where "KIND_TRANSPORT_CAPS_OFFER = 0x20"
definition KIND_TRANSPORT_CAPS_ANSWER :: u8 where "KIND_TRANSPORT_CAPS_ANSWER = 0x21"
definition KIND_FILE_OFFER :: u8 where "KIND_FILE_OFFER = 0x30"
definition KIND_FILE_ACCEPT :: u8 where "KIND_FILE_ACCEPT = 0x31"
definition KIND_FILE_ABORT :: u8 where "KIND_FILE_ABORT = 0x32"
definition KIND_FILE_COMPLETE :: u8 where "KIND_FILE_COMPLETE = 0x33"

definition KINDS :: "u8 list" where
  "KINDS = [KIND_CODEC_CAPS_OFFER, KIND_CODEC_CAPS_ANSWER, KIND_TRANSPORT_CAPS_OFFER,
     KIND_TRANSPORT_CAPS_ANSWER, KIND_FILE_OFFER, KIND_FILE_ACCEPT, KIND_FILE_ABORT, KIND_FILE_COMPLETE]"

lemma KINDS_distinct: "distinct KINDS"
  by (simp add: KINDS_def KIND_CODEC_CAPS_OFFER_def KIND_CODEC_CAPS_ANSWER_def KIND_TRANSPORT_CAPS_OFFER_def
      KIND_TRANSPORT_CAPS_ANSWER_def KIND_FILE_OFFER_def KIND_FILE_ACCEPT_def KIND_FILE_ABORT_def
      KIND_FILE_COMPLETE_def)

end
