(* ===== verification/Wire_File.thy ===== *)
theory Wire_File
  imports Wire_Codec
begin

text \<open>
  The file-transfer messages of \<open>src/crates/sh-protocol/src/file.rs\<close>: offer, accept, abort,
  complete, and the header of a data chunk, read with the sequential cursor \<open>read_array\<close>.
\<close>

definition MAX_FILE_NAME :: nat where "MAX_FILE_NAME = 255"
definition MAX_FILE_CHUNK :: u32 where "MAX_FILE_CHUNK = 1024 * 1024"
definition FILE_CHUNK_HEADER_LEN :: nat where "FILE_CHUNK_HEADER_LEN = 21"
definition FILE_ACCEPT_LEN :: nat where "FILE_ACCEPT_LEN = 16"
definition FILE_ABORT_LEN :: nat where "FILE_ABORT_LEN = 9"
definition FILE_COMPLETE_LEN :: nat where "FILE_COMPLETE_LEN = 9"
definition FILE_OFFER_FIXED_LEN :: nat where "FILE_OFFER_FIXED_LEN = 53"
definition CHUNK_FLAG_LAST :: u8 where "CHUNK_FLAG_LAST = 1"
definition CHUNK_FLAGS_RESERVED :: u8 where "CHUNK_FLAGS_RESERVED = 0xFE"

lemmas file_lens = FILE_CHUNK_HEADER_LEN_def FILE_ACCEPT_LEN_def FILE_ABORT_LEN_def FILE_COMPLETE_LEN_def
  FILE_OFFER_FIXED_LEN_def

definition check_chunk_size :: "u32 \<Rightarrow> protocol_error + unit" where
  "check_chunk_size v = (if v = 0 \<or> v > MAX_FILE_CHUNK then Err (FileChunkTooLarge (ucast v)) else Ok ())"

lemma check_chunk_size_Ok [simp]: "check_chunk_size v = Inr u \<longleftrightarrow> v \<noteq> 0 \<and> v \<le> MAX_FILE_CHUNK"
  by (auto simp: check_chunk_size_def not_less)

subsection \<open>Offer\<close>

text \<open>\<open>sha256\<close> is a \<open>[u8; 32]\<close>: \<open>wf_offer\<close> states its length, which the Rust type carries.\<close>

record file_offer =
  fo_transfer_id :: u64
  fo_total_size :: u64
  fo_chunk_size :: u32
  fo_sha256 :: bytes
  fo_name :: bytes

definition wf_offer :: "file_offer \<Rightarrow> bool" where
  "wf_offer f \<longleftrightarrow> length (fo_sha256 f) = 32"

definition offer_encode :: "file_offer \<Rightarrow> protocol_error + bytes" where
  "offer_encode f =
     and_then (check_chunk_size (fo_chunk_size f)) (\<lambda>_.
     and_then (if length (fo_name f) < 256 then Ok (of_nat (length (fo_name f)) :: u8)
               else Err (InvalidFileField (of_nat (length (fo_name f))))) (\<lambda>name_len.
     Ok (to_be 8 (fo_transfer_id f) @ to_be 8 (fo_total_size f) @ to_be 4 (fo_chunk_size f)
         @ fo_sha256 f @ [name_len] @ fo_name f)))"

definition offer_decode :: "bytes \<Rightarrow> protocol_error + file_offer" where
  "offer_decode d =
     and_then (read_array 8 d) (\<lambda>(tid, c).
     and_then (read_array 8 c) (\<lambda>(total, c).
     and_then (read_array 4 c) (\<lambda>(chunk, c).
     let chunk_size = from_be chunk in
     and_then (check_chunk_size chunk_size) (\<lambda>_.
     and_then (read_array 32 c) (\<lambda>(sha, c).
     and_then (read_array 1 c) (\<lambda>(nl, c).
     let name_len = unat (nl ! 0) in
     and_then (ok_or (get_range 0 name_len c) (Truncated name_len (length c))) (\<lambda>name.
     Ok \<lparr>fo_transfer_id = from_be tid, fo_total_size = from_be total, fo_chunk_size = chunk_size,
         fo_sha256 = sha, fo_name = name\<rparr>)))))))"

lemma offer_decode_encode:
  assumes "offer_encode f = Inr bs" and "wf_offer f"
  shows "offer_decode (bs @ rest) = Inr f"
proof -
  have n: "length (fo_name f) < 256" and c: "fo_chunk_size f \<noteq> 0" "fo_chunk_size f \<le> MAX_FILE_CHUNK"
    and bs: "bs = to_be 8 (fo_transfer_id f) @ to_be 8 (fo_total_size f) @ to_be 4 (fo_chunk_size f)
         @ fo_sha256 f @ [of_nat (length (fo_name f))] @ fo_name f"
    using assms(1) by (auto simp: offer_encode_def split: if_splits)
  show ?thesis
    using n c assms(2) by (simp add: bs offer_decode_def wf_offer_def unat_of_nat_u8 get_range_def check_chunk_size_def not_less Let_def)
qed

lemma offer_decode_Ok:
  assumes "offer_decode d = Inr f"
  shows "wf_offer f \<and> fo_chunk_size f \<noteq> 0 \<and> fo_chunk_size f \<le> MAX_FILE_CHUNK
    \<and> length (fo_name f) \<le> MAX_FILE_NAME
    \<and> offer_encode f = Inr (take (FILE_OFFER_FIXED_LEN + length (fo_name f)) d)"
proof -
  have len: "53 \<le> length d" and nl: "unat (d ! 52) + 53 \<le> length d"
    and f: "f = \<lparr>fo_transfer_id = from_be (field 0 8 d), fo_total_size = from_be (field 8 8 d),
      fo_chunk_size = from_be (field 16 4 d), fo_sha256 = field 20 32 d, fo_name = field 53 (unat (d ! 52)) d\<rparr>"
    and c: "fo_chunk_size f \<noteq> 0" "fo_chunk_size f \<le> MAX_FILE_CHUNK"
    using assms by (auto simp: offer_decode_def read_array_def field_def Let_def get_range_def split: if_splits)
  have "unat (d ! 52) < 256" by (rule unat_u8_less)
  moreover have "take (53 + unat (d ! 52)) d = field 0 (53 + unat (d ! 52)) d" by (simp add: field_def)
  moreover have "\<dots> = field 0 8 d @ field 8 8 d @ field 16 4 d @ field 20 32 d @ [d ! 52] @ field 53 (unat (d ! 52)) d"
    using len by (simp add: nth_field_append field_join_append field_join)
  ultimately show ?thesis
    using c len nl by (auto simp: f wf_offer_def offer_encode_def MAX_FILE_NAME_def file_lens to_be_u64 to_be_u32
        check_chunk_size_def min_def not_less)
qed

subsection \<open>Accept, abort, complete\<close>

record file_accept =
  fa_transfer_id :: u64
  fa_resume_offset :: u64

definition accept_encode :: "file_accept \<Rightarrow> bytes" where
  "accept_encode a = to_be 8 (fa_transfer_id a) @ to_be 8 (fa_resume_offset a)"

definition accept_decode :: "bytes \<Rightarrow> protocol_error + file_accept" where
  "accept_decode d =
     and_then (take_array FILE_ACCEPT_LEN d) (\<lambda>b.
     and_then (read_array 8 b) (\<lambda>(tid, c).
     and_then (read_array 8 c) (\<lambda>(off, c).
     Ok \<lparr>fa_transfer_id = from_be tid, fa_resume_offset = from_be off\<rparr>)))"

datatype abort_code = Declined | IntegrityFailed | InternalError | Unsupported

definition u8_of_abort :: "abort_code \<Rightarrow> u8" where
  "u8_of_abort c = (case c of Declined \<Rightarrow> 0 | IntegrityFailed \<Rightarrow> 1 | InternalError \<Rightarrow> 2 | Unsupported \<Rightarrow> 3)"

definition abort_from_u8 :: "u8 \<Rightarrow> protocol_error + abort_code" where
  "abort_from_u8 v = (if v = 0 then Ok Declined else if v = 1 then Ok IntegrityFailed
     else if v = 2 then Ok InternalError else if v = 3 then Ok Unsupported
     else Err (InvalidFileField (ucast v)))"

record file_abort =
  fb_transfer_id :: u64
  fb_code :: abort_code

definition abort_encode :: "file_abort \<Rightarrow> bytes" where
  "abort_encode a = to_be 8 (fb_transfer_id a) @ [u8_of_abort (fb_code a)]"

definition abort_decode :: "bytes \<Rightarrow> protocol_error + file_abort" where
  "abort_decode d =
     and_then (take_array FILE_ABORT_LEN d) (\<lambda>b.
     and_then (read_array 8 b) (\<lambda>(tid, c).
     and_then (read_array 1 c) (\<lambda>(code, c).
     and_then (abort_from_u8 (code ! 0)) (\<lambda>k.
     Ok \<lparr>fb_transfer_id = from_be tid, fb_code = k\<rparr>))))"

record file_complete =
  fc_transfer_id :: u64
  fc_ok :: bool

definition complete_encode :: "file_complete \<Rightarrow> bytes" where
  "complete_encode a = to_be 8 (fc_transfer_id a) @ [u8_of_bool (fc_ok a)]"

definition complete_decode :: "bytes \<Rightarrow> protocol_error + file_complete" where
  "complete_decode d =
     and_then (take_array FILE_COMPLETE_LEN d) (\<lambda>b.
     and_then (read_array 8 b) (\<lambda>(tid, c).
     and_then (read_array 1 c) (\<lambda>(okb, c).
     and_then (if okb ! 0 = 0 then Ok False else if okb ! 0 = 1 then Ok True
               else Err (InvalidFileField (ucast (okb ! 0)))) (\<lambda>k.
     Ok \<lparr>fc_transfer_id = from_be tid, fc_ok = k\<rparr>))))"

subsection \<open>Chunk header\<close>

record file_chunk_header =
  ch_transfer_id :: u64
  ch_offset :: u64
  ch_len :: u32
  ch_last :: bool

definition chunk_encode :: "file_chunk_header \<Rightarrow> protocol_error + bytes" where
  "chunk_encode h =
     and_then (check_chunk_size (ch_len h)) (\<lambda>_.
     Ok (to_be 8 (ch_transfer_id h) @ to_be 8 (ch_offset h) @ to_be 4 (ch_len h)
         @ [if ch_last h then CHUNK_FLAG_LAST else 0]))"

definition chunk_decode :: "bytes \<Rightarrow> protocol_error + file_chunk_header" where
  "chunk_decode d =
     and_then (take_array FILE_CHUNK_HEADER_LEN d) (\<lambda>b.
     and_then (read_array 8 b) (\<lambda>(tid, c).
     and_then (read_array 8 c) (\<lambda>(off, c).
     and_then (read_array 4 c) (\<lambda>(l, c).
     let len = from_be l in
     and_then (check_chunk_size len) (\<lambda>_.
     and_then (read_array 1 c) (\<lambda>(fl, c).
     let flags = fl ! 0 in
     if flags AND CHUNK_FLAGS_RESERVED \<noteq> 0 then Err ReservedBitsSet
     else Ok \<lparr>ch_transfer_id = from_be tid, ch_offset = from_be off, ch_len = len,
              ch_last = (flags AND CHUNK_FLAG_LAST \<noteq> 0)\<rparr>))))))"

lemma abort_from_u8_Ok: "abort_from_u8 v = Inr c \<longleftrightarrow> u8_of_abort c = v"
  by (cases c) (auto simp: abort_from_u8_def u8_of_abort_def)

lemma abort_from_to [simp]: "abort_from_u8 (u8_of_abort c) = Inr c"
  by (simp add: abort_from_u8_Ok)

lemma chunk_encode_Ok:
  "chunk_encode h = Inr bs \<longleftrightarrow> ch_len h \<noteq> 0 \<and> ch_len h \<le> MAX_FILE_CHUNK \<and>
     bs = to_be 8 (ch_transfer_id h) @ to_be 8 (ch_offset h) @ to_be 4 (ch_len h) @ [u8_of_bool (ch_last h)]"
  by (auto simp: chunk_encode_def CHUNK_FLAG_LAST_def)

interpretation accept_wire: strict_codec "\<lambda>a. Ok (accept_encode a)" accept_decode FILE_ACCEPT_LEN "\<lambda>a. a"
proof (unfold_locales, goal_cases)
  case (5 d x)
  then have "16 \<le> length d" "x = \<lparr>fa_transfer_id = from_be (field 0 8 d), fa_resume_offset = from_be (field 8 8 d)\<rparr>"
    by (auto simp: accept_decode_def file_lens field_def take_drop)
  moreover have "field 0 8 d @ field 8 8 d = take 16 d" by (simp add: field_join) (simp add: field_def)
  ultimately show ?case by (simp add: accept_encode_def file_lens to_be_u64)
qed (auto simp: accept_encode_def accept_decode_def file_lens)

interpretation abort_wire: strict_codec "\<lambda>a. Ok (abort_encode a)" abort_decode FILE_ABORT_LEN "\<lambda>a. a"
proof (unfold_locales, goal_cases)
  case (5 d x)
  then have n: "9 \<le> length d" and x: "fb_transfer_id x = from_be (field 0 8 d)" "u8_of_abort (fb_code x) = d ! 8"
    by (auto simp: abort_decode_def file_lens field_def take_drop abort_from_u8_Ok split: if_splits)
  have "field 0 8 d @ [d ! 8] = take 9 d" using n by (simp add: field_joins) (simp add: field_def)
  with n show ?case by (simp add: abort_encode_def file_lens to_be_u64 x)
qed (auto simp: abort_encode_def abort_decode_def file_lens)

interpretation complete_wire: strict_codec "\<lambda>a. Ok (complete_encode a)" complete_decode FILE_COMPLETE_LEN "\<lambda>a. a"
proof (unfold_locales, goal_cases)
  case (5 d x)
  then have n: "9 \<le> length d" and x: "fc_transfer_id x = from_be (field 0 8 d)" "u8_of_bool (fc_ok x) = d ! 8"
    by (auto simp: complete_decode_def file_lens field_def take_drop split: if_splits)
  have "field 0 8 d @ [d ! 8] = take 9 d" using n by (simp add: field_joins) (simp add: field_def)
  with n show ?case by (simp add: complete_encode_def file_lens to_be_u64 x)
next
  case (2 x bs rest)
  then show ?case by (cases "fc_ok x") (auto simp: complete_encode_def complete_decode_def file_lens simp del: and_then_eq_Ok)
qed (auto simp: complete_encode_def complete_decode_def file_lens)

lemma u8_and_FE: "b AND 0xFE = (0 :: u8) \<longleftrightarrow> b = u8_of_bool (bit b 0)"
proof
  assume "b AND 0xFE = 0"
  then have "\<not> bit (b AND 0xFE) n" for n by simp
  from this [of 1] this [of 2] this [of 3] this [of 4] this [of 5] this [of 6] this [of 7]
  show "b = u8_of_bool (bit b 0)" by (intro u8_eqI) (simp_all add: bit_simps)
next
  assume b: "b = u8_of_bool (bit b 0)"
  show "b AND 0xFE = 0" by (subst b) (auto intro!: u8_eqI simp: bit_simps)
qed

interpretation chunk_wire: strict_codec chunk_encode chunk_decode FILE_CHUNK_HEADER_LEN "\<lambda>h. h"
proof (unfold_locales, goal_cases)
  case (1 x bs)
  then show ?case by (auto simp: chunk_encode_Ok file_lens)
next
  case (2 x bs rest)
  then show ?case
    by (cases "ch_last x")
      (auto simp: chunk_encode_Ok chunk_decode_def file_lens CHUNK_FLAGS_RESERVED_def CHUNK_FLAG_LAST_def Let_def
        check_chunk_size_def)
next
  case (3 d)
  then show ?case by (simp add: chunk_decode_def)
next
  case (4 d)
  then show ?case by (simp add: chunk_decode_def)
next
  case (5 d x)
  then have n: "21 \<le> length d" and x: "ch_transfer_id x = from_be (field 0 8 d)" "ch_offset x = from_be (field 8 8 d)"
    "ch_len x = from_be (field 16 4 d)" "u8_of_bool (ch_last x) = d ! 20" "ch_len x \<noteq> 0" "ch_len x \<le> MAX_FILE_CHUNK"
    by (auto simp: chunk_decode_def file_lens field_def take_drop Let_def CHUNK_FLAGS_RESERVED_def
        CHUNK_FLAG_LAST_def u8_and_FE split: if_splits)
  have "field 0 8 d @ field 8 8 d @ field 16 4 d @ [d ! 20] = take 21 d"
    using n by (simp add: field_joins) (simp add: field_def)
  with n x(5,6) show ?case by (simp add: chunk_encode_Ok file_lens to_be_u64 to_be_u32 x(1-4))
qed

end
