(* ===== verification/Caps_Mask.thy ===== *)
theory Caps_Mask
  imports Shp_Prelude
begin

text \<open>
  The capability mask of \<open>src/crates/sh-core/src/authz/capabilities.rs\<close>: a \<open>bitflags\<close> set over
  \<open>u32\<close>, with the operations of it that the authorizer, the grant certificates and the file
  receiver use.
\<close>

type_synonym capabilities = u32

definition VIEW :: capabilities where "VIEW = 1"
definition CONTROL :: capabilities where "CONTROL = 2"
definition CLIPBOARD :: capabilities where "CLIPBOARD = 4"
definition FILE :: capabilities where "FILE = 8"
definition AUDIO :: capabilities where "AUDIO = 16"
definition ELEVATION :: capabilities where "ELEVATION = 32"

lemmas cap_bits = VIEW_def CONTROL_def CLIPBOARD_def FILE_def AUDIO_def ELEVATION_def

definition all_caps :: capabilities where
  "all_caps = VIEW OR CONTROL OR CLIPBOARD OR FILE OR AUDIO OR ELEVATION"

definition contains :: "capabilities \<Rightarrow> capabilities \<Rightarrow> bool" where
  "contains c r \<longleftrightarrow> c AND r = r"

definition from_bits_truncate :: "u32 \<Rightarrow> capabilities" where
  "from_bits_truncate raw = raw AND all_caps"

lemma all_caps_eq: "all_caps = 63"
  by (simp add: all_caps_def cap_bits)

lemma contains_bits: "contains c r \<longleftrightarrow> (\<forall>n. bit r n \<longrightarrow> bit c n)"
  unfolding contains_def by (metis bit_and_iff bit_word_eqI)

lemma contains_and: "contains (a AND b) r \<longleftrightarrow> contains a r \<and> contains b r"
  by (auto simp: contains_bits bit_and_iff)

lemma contains_refl [simp]: "contains c c"
  by (simp add: contains_def)

lemma contains_trans: "contains a b \<Longrightarrow> contains b c \<Longrightarrow> contains a c"
  by (auto simp: contains_bits)

lemma contains_truncate: "contains raw (from_bits_truncate raw)"
  by (auto simp: contains_bits from_bits_truncate_def bit_and_iff)

lemma truncate_known: "contains all_caps (from_bits_truncate raw)"
  by (auto simp: contains_bits from_bits_truncate_def bit_and_iff)

lemma truncate_id: "contains all_caps c \<Longrightarrow> from_bits_truncate c = c"
  by (rule bit_word_eqI) (auto simp: contains_bits from_bits_truncate_def bit_and_iff)

end
