(* ===== verification/File_Transfer.thy ===== *)
theory File_Transfer
  imports Wire_File Utf8 Caps_Mask
begin

text \<open>
  Sender and receiver of a file transfer, \<open>src/crates/sh-core/src/file.rs\<close>. Both are records
  with one definition per method; a method that takes \<open>&mut self\<close> returns the new record next to
  its result, because the Rust object keeps its mutations when the method returns an error.

  SHA-256 comes from a crate outside the sources: it is the parameter \<open>sha\<close>. The incremental
  hasher is modelled by the bytes fed to it so far, and \<open>finalize\<close> applies \<open>sha\<close> to them.
\<close>

datatype file_error =
    CapabilityDenied
  | NameRejected string
  | ResumeBeyondSize u64 u64
  | TooLarge u64 u64
  | UnknownTransfer u64 u64
  | OffsetMismatch u64 u64
  | ChunkBeyondSize u64 u32 u64
  | LenMismatch u32 nat
  | LastChunkNotAtEnd u64 u64
  | InvalidChunkSize u32
  | FileIntegrityFailed
  | Framing protocol_error

text \<open>\<open>data.len() as u64\<close>.\<close>

definition len64 :: "'a list \<Rightarrow> u64" where
  "len64 xs = of_nat (length xs)"

text \<open>\<open>char::is_control\<close>: the general category Cc.\<close>

definition is_control :: "scalar \<Rightarrow> bool" where
  "is_control c \<longleftrightarrow> c \<le> 0x1F \<or> (0x7F \<le> c \<and> c \<le> 0x9F)"

definition sanitize_name :: "bytes \<Rightarrow> file_error + str" where
  "sanitize_name name =
     (if name = [] then Err (NameRejected ''empty'')
      else if length name > MAX_FILE_NAME then Err (NameRejected ''too long'')
      else case from_utf8 name of
        None \<Rightarrow> Err (NameRejected ''not UTF-8'')
      | Some s \<Rightarrow>
          if 0x2F \<in> set s \<or> 0x5C \<in> set s then Err (NameRejected ''contains a path separator'')
          else if list_ex is_control s then Err (NameRejected ''contains a control character'')
          else if s = [0x2E, 0x2E] \<or> s = [0x2E] then Err (NameRejected ''path traversal'')
          else Ok s)"

subsection \<open>Sender\<close>

record file_sender =
  fs_transfer_id :: u64
  fs_name :: bytes
  fs_data :: bytes
  fs_chunk_size :: u32
  fs_sha256 :: bytes
  fs_cursor :: u64

definition sender_new :: "(bytes \<Rightarrow> bytes) \<Rightarrow> u64 \<Rightarrow> bytes \<Rightarrow> bytes \<Rightarrow> u32 \<Rightarrow> file_error + file_sender" where
  "sender_new sha tid name data chunk_size =
     and_then (sanitize_name name) (\<lambda>_.
     if chunk_size = 0 \<or> chunk_size > MAX_FILE_CHUNK then Err (InvalidChunkSize chunk_size)
     else Ok \<lparr>fs_transfer_id = tid, fs_name = name, fs_data = data, fs_chunk_size = chunk_size,
              fs_sha256 = sha data, fs_cursor = 0\<rparr>)"

definition offer :: "file_sender \<Rightarrow> file_offer" where
  "offer s = \<lparr>fo_transfer_id = fs_transfer_id s, fo_total_size = len64 (fs_data s),
     fo_chunk_size = fs_chunk_size s, fo_sha256 = fs_sha256 s, fo_name = fs_name s\<rparr>"

definition on_accept :: "file_sender \<Rightarrow> file_accept \<Rightarrow> file_sender \<times> (file_error + unit)" where
  "on_accept s a =
     (if fa_transfer_id a \<noteq> fs_transfer_id s
      then (s, Err (UnknownTransfer (fa_transfer_id a) (fs_transfer_id s)))
      else if fa_resume_offset a > len64 (fs_data s)
      then (s, Err (ResumeBeyondSize (fa_resume_offset a) (len64 (fs_data s))))
      else (s\<lparr>fs_cursor := fa_resume_offset a\<rparr>, Ok ()))"

definition next_chunk :: "file_sender \<Rightarrow> file_sender \<times> (file_error + bytes option)" where
  "next_chunk s =
     (let total = len64 (fs_data s) in
      if fs_cursor s \<ge> total then (s, Ok None)
      else
        let start = unat (fs_cursor s);
            remaining = length (fs_data s) - start;
            chunk = unat (fs_chunk_size s);
            take_n = min remaining chunk;
            take_len = (if take_n < 2 ^ 32 then of_nat take_n else fs_chunk_size s);
            end_n = usz_add start take_n;
            payload = (case get_range start end_n (fs_data s) of Some p \<Rightarrow> p | None \<Rightarrow> []);
            lastc = ((of_nat end_n :: u64) \<ge> total)
        in case chunk_encode \<lparr>ch_transfer_id = fs_transfer_id s, ch_offset = fs_cursor s,
                              ch_len = take_len, ch_last = lastc\<rparr> of
             Inl e \<Rightarrow> (s, Err (Framing e))
           | Inr header \<Rightarrow> (s\<lparr>fs_cursor := of_nat end_n\<rparr>, Ok (Some (header @ payload))))"

definition is_done :: "file_sender \<Rightarrow> bool" where
  "is_done s \<longleftrightarrow> fs_cursor s \<ge> len64 (fs_data s)"

subsection \<open>Receiver\<close>

record file_receiver =
  fr_transfer_id :: u64
  fr_total_size :: u64
  fr_expected_sha :: bytes
  fr_hasher :: bytes
  fr_received :: bytes
  fr_cap :: u64

definition accept_offer ::
  "capabilities \<Rightarrow> file_offer \<Rightarrow> bytes \<Rightarrow> u64 \<Rightarrow> file_error + (file_receiver \<times> file_accept)" where
  "accept_offer caps off already cap =
     (if \<not> contains caps FILE then Err CapabilityDenied
      else and_then (sanitize_name (fo_name off)) (\<lambda>_.
        if fo_total_size off > cap then Err (TooLarge (fo_total_size off) cap)
        else let resume = len64 already in
          if resume > fo_total_size off then Err (ResumeBeyondSize resume (fo_total_size off))
          else Ok (\<lparr>fr_transfer_id = fo_transfer_id off, fr_total_size = fo_total_size off,
                    fr_expected_sha = fo_sha256 off, fr_hasher = already, fr_received = already,
                    fr_cap = cap\<rparr>,
                   \<lparr>fa_transfer_id = fo_transfer_id off, fa_resume_offset = resume\<rparr>)))"

definition on_chunk :: "file_receiver \<Rightarrow> bytes \<Rightarrow> file_receiver \<times> (file_error + bool)" where
  "on_chunk r frame =
     (case get_range 0 FILE_CHUNK_HEADER_LEN frame of
        None \<Rightarrow> (r, Err (Framing (Truncated FILE_CHUNK_HEADER_LEN (length frame))))
      | Some header_bytes \<Rightarrow>
        (case chunk_decode header_bytes of
           Inl e \<Rightarrow> (r, Err (Framing e))
         | Inr h \<Rightarrow>
           let payload = drop FILE_CHUNK_HEADER_LEN frame;
               expected = len64 (fr_received r);
               end_o = sat_add (ch_offset h) (ucast (ch_len h)) in
           if ch_transfer_id h \<noteq> fr_transfer_id r
           then (r, Err (UnknownTransfer (ch_transfer_id h) (fr_transfer_id r)))
           else if unat (ch_len h) \<noteq> length payload then (r, Err (LenMismatch (ch_len h) (length payload)))
           else if ch_offset h \<noteq> expected then (r, Err (OffsetMismatch expected (ch_offset h)))
           else if end_o > fr_total_size r
           then (r, Err (ChunkBeyondSize (ch_offset h) (ch_len h) (fr_total_size r)))
           else if end_o > fr_cap r then (r, Err (TooLarge end_o (fr_cap r)))
           else if ch_last h \<and> end_o \<noteq> fr_total_size r
           then (r, Err (LastChunkNotAtEnd end_o (fr_total_size r)))
           else let r' = r\<lparr>fr_hasher := fr_hasher r @ payload, fr_received := fr_received r @ payload\<rparr>
                in (r', Ok (len64 (fr_received r') \<ge> fr_total_size r'))))"

definition finish :: "(bytes \<Rightarrow> bytes) \<Rightarrow> file_receiver \<Rightarrow> file_error + (bytes \<times> file_complete)" where
  "finish sha r =
     (let digest = sha (fr_hasher r);
          ok = (digest = fr_expected_sha r \<and> len64 (fr_received r) = fr_total_size r);
          complete = \<lparr>fc_transfer_id = fr_transfer_id r, fc_ok = ok\<rparr>
      in if \<not> ok then Err FileIntegrityFailed else Ok (fr_received r, complete))"

definition bytes_received :: "file_receiver \<Rightarrow> u64" where
  "bytes_received r = len64 (fr_received r)"

definition is_complete :: "file_receiver \<Rightarrow> bool" where
  "is_complete r \<longleftrightarrow> len64 (fr_received r) \<ge> fr_total_size r"

subsection \<open>Running a transfer\<close>

text \<open>
  The receiver fed with a list of frames, and a whole transfer over the wire: the offer and the
  accept are encoded and decoded, then chunks are pumped until the sender has none left. The fuel
  of \<open>pump\<close> bounds the number of chunks; \<open>None\<close> means it ran out.
\<close>

definition recv_all :: "file_receiver \<Rightarrow> bytes list \<Rightarrow> file_receiver" where
  "recv_all r frames = foldl (\<lambda>r f. fst (on_chunk r f)) r frames"

fun pump :: "nat \<Rightarrow> file_sender \<Rightarrow> file_receiver \<Rightarrow> (file_error + file_receiver) option" where
  "pump 0 s r = None"
| "pump (Suc fuel) s r =
     (case next_chunk s of
        (s', Inl e) \<Rightarrow> Some (Err e)
      | (s', Inr None) \<Rightarrow> Some (Ok r)
      | (s', Inr (Some frame)) \<Rightarrow>
          (case on_chunk r frame of
             (r', Inl e) \<Rightarrow> Some (Err e)
           | (r', Inr _) \<Rightarrow> pump fuel s' r'))"

definition transfer ::
  "nat \<Rightarrow> (bytes \<Rightarrow> bytes) \<Rightarrow> capabilities \<Rightarrow> u64 \<Rightarrow> bytes \<Rightarrow> file_sender
     \<Rightarrow> (file_error + (bytes \<times> file_complete)) option" where
  "transfer fuel sha caps cap already s =
     (case map_err Framing (and_then (offer_encode (offer s)) offer_decode) of
        Inl e \<Rightarrow> Some (Err e)
      | Inr off \<Rightarrow>
     (case accept_offer caps off already cap of
        Inl e \<Rightarrow> Some (Err e)
      | Inr (r, a) \<Rightarrow>
     (case map_err Framing (accept_decode (accept_encode a)) of
        Inl e \<Rightarrow> Some (Err e)
      | Inr a' \<Rightarrow>
     (case on_accept s a' of
        (s', Inl e) \<Rightarrow> Some (Err e)
      | (s', Inr _) \<Rightarrow> map_option (\<lambda>res. and_then res (finish sha)) (pump fuel s' r)))))"

subsection \<open>Lemmas\<close>

lemma unat_len64: "length xs < 2 ^ 64 \<Longrightarrow> unat (len64 xs) = length xs"
  by (simp add: len64_def unat_of_nat_u64)

lemma sanitize_name_Ok:
  "sanitize_name name = Inr s \<longleftrightarrow> name \<noteq> [] \<and> length name \<le> MAX_FILE_NAME \<and> from_utf8 name = Some s
     \<and> 0x2F \<notin> set s \<and> 0x5C \<notin> set s \<and> (\<forall>c \<in> set s. \<not> is_control c) \<and> s \<noteq> [0x2E, 0x2E] \<and> s \<noteq> [0x2E]"
  by (auto simp: sanitize_name_def list_ex_iff split: option.splits if_splits)

lemma on_chunk_Err: "snd (on_chunk r f) = Inl e \<Longrightarrow> fst (on_chunk r f) = r"
  by (auto simp: on_chunk_def Let_def split: option.splits sum.splits if_splits)

lemma on_chunk_Ok:
  assumes "on_chunk r f = (r', Inr b)"
  shows "\<exists>h payload. f = take 21 f @ payload \<and> chunk_decode f = Inr h
    \<and> ch_transfer_id h = fr_transfer_id r \<and> unat (ch_len h) = length payload
    \<and> ch_offset h = len64 (fr_received r)
    \<and> sat_add (ch_offset h) (ucast (ch_len h)) \<le> fr_total_size r
    \<and> (ch_last h \<longrightarrow> sat_add (ch_offset h) (ucast (ch_len h)) = fr_total_size r)
    \<and> r' = r\<lparr>fr_hasher := fr_hasher r @ payload, fr_received := fr_received r @ payload\<rparr>
    \<and> b = is_complete r'"
proof -
  from assms have "21 \<le> length f"
    by (auto simp: on_chunk_def get_range_def FILE_CHUNK_HEADER_LEN_def split: if_splits)
  moreover from this have "chunk_decode (take 21 f) = chunk_decode f"
    using chunk_wire.dec_prefix by (simp add: FILE_CHUNK_HEADER_LEN_def)
  ultimately show ?thesis
    using assms
    by (intro exI [where x = "case chunk_decode f of Inr h \<Rightarrow> h"] exI [where x = "drop 21 f"])
       (auto simp: on_chunk_def get_range_def FILE_CHUNK_HEADER_LEN_def Let_def is_complete_def not_less
        split: sum.splits if_splits)
qed

text \<open>What the receiver maintains, whatever frames arrive.\<close>

definition recv_inv :: "bytes \<Rightarrow> file_offer \<Rightarrow> u64 \<Rightarrow> file_receiver \<Rightarrow> bool" where
  "recv_inv already off cap r \<longleftrightarrow>
     fr_transfer_id r = fo_transfer_id off \<and> fr_total_size r = fo_total_size off \<and> fr_expected_sha r = fo_sha256 off
     \<and> fr_cap r = cap \<and> fr_total_size r \<le> cap \<and> fr_hasher r = fr_received r
     \<and> prefix already (fr_received r) \<and> length (fr_received r) \<le> unat (fr_total_size r)"

lemma accept_offer_inv:
  "accept_offer caps off already cap = Inr (r, a) \<Longrightarrow> length already < 2 ^ 64 \<Longrightarrow> recv_inv already off cap r"
  by (auto simp: accept_offer_def recv_inv_def Let_def word_le_nat_alt word_less_nat_alt unat_len64 not_less
      split: if_splits)

lemma on_chunk_inv:
  assumes "recv_inv already off cap r" and "cap \<noteq> - 1"
  shows "recv_inv already off cap (fst (on_chunk r f))"
proof (cases "on_chunk r f")
  case (Pair r' res)
  show ?thesis
  proof (cases res)
    case (Inl e)
    with Pair have "r' = r" using on_chunk_Err [of r f e] by simp
    with Pair assms show ?thesis by simp
  next
    case (Inr b)
    with Pair have "on_chunk r f = (r', Inr b)" by simp
    from on_chunk_Ok [OF this] obtain h :: file_chunk_header and payload where h: "unat (ch_len h) = length payload" "ch_offset h = len64 (fr_received r)"
        "sat_add (ch_offset h) (ucast (ch_len h)) \<le> fr_total_size r"
      and r': "r' = r\<lparr>fr_hasher := fr_hasher r @ payload, fr_received := fr_received r @ payload\<rparr>"
      by blast
    have le: "length (fr_received r) \<le> unat (fr_total_size r)" "unat (fr_total_size r) \<le> unat cap"
      using assms(1) by (auto simp: recv_inv_def word_le_nat_alt)
    have "unat cap \<noteq> unat (- 1 :: u64)" using assms(2) by (simp add: word_unat_eq_iff)
    then have "unat cap < 2 ^ 64 - 1" using unat_u64_less [of cap] by (simp add: unat_minus_one_word_pow)
    with le have "length (fr_received r) < 2 ^ 64" by linarith
    then have "min (2 ^ 64 - 1) (length (fr_received r) + length payload) \<le> unat (fr_total_size r)"
      using h by (simp add: word_le_nat_alt unat_sat_add unat_len64 unat_ucast_up)
    with le \<open>unat cap < _\<close> have "length (fr_received r) + length payload \<le> unat (fr_total_size r)" by linarith
    with assms(1) Pair show ?thesis by (auto simp: r' recv_inv_def)
  qed
qed

lemma recv_all_inv: "recv_inv already off cap r \<Longrightarrow> cap \<noteq> - 1 \<Longrightarrow> recv_inv already off cap (recv_all r frames)"
  by (induction frames arbitrary: r) (simp_all add: recv_all_def on_chunk_inv)

lemma finish_Ok:
  "finish sha r = Inr (d, c) \<longleftrightarrow> d = fr_received r \<and> sha (fr_hasher r) = fr_expected_sha r
     \<and> len64 (fr_received r) = fr_total_size r \<and> c = \<lparr>fc_transfer_id = fr_transfer_id r, fc_ok = True\<rparr>"
  by (auto simp: finish_def Let_def)

text \<open>One chunk of an honest transfer moves both ends from byte \<open>n\<close> to byte \<open>m\<close>.\<close>

definition sender_at :: "bytes \<Rightarrow> nat \<Rightarrow> file_sender \<Rightarrow> bool" where
  "sender_at data n s \<longleftrightarrow> fs_data s = data \<and> length data < 2 ^ 64 \<and> n \<le> length data \<and> fs_cursor s = of_nat n
     \<and> fs_chunk_size s \<noteq> 0 \<and> fs_chunk_size s \<le> MAX_FILE_CHUNK"

definition receiver_at :: "bytes \<Rightarrow> nat \<Rightarrow> u64 \<Rightarrow> file_receiver \<Rightarrow> bool" where
  "receiver_at data n tid r \<longleftrightarrow> fr_transfer_id r = tid \<and> fr_total_size r = len64 data \<and> fr_total_size r \<le> fr_cap r
     \<and> fr_hasher r = take n data \<and> fr_received r = take n data"

definition chunk_frame :: "u64 \<Rightarrow> bytes \<Rightarrow> nat \<Rightarrow> nat \<Rightarrow> bytes" where
  "chunk_frame tid data n m = to_be 8 tid @ to_be 8 (of_nat n :: u64) @ to_be 4 (of_nat (m - n) :: u32)
     @ [u8_of_bool (m = length data)] @ take (m - n) (drop n data)"

lemma chunk_bounds: "(c :: u32) \<noteq> 0 \<Longrightarrow> c \<le> MAX_FILE_CHUNK \<Longrightarrow> 0 < unat c \<and> unat c \<le> 1048576"
  by (simp add: MAX_FILE_CHUNK_def word_le_nat_alt unat_gt_0)

lemma next_chunk_step:
  assumes "sender_at data n s" and "n < length data"
  defines "m \<equiv> min (length data) (n + unat (fs_chunk_size s))"
  shows "next_chunk s = (s\<lparr>fs_cursor := of_nat m\<rparr>, Inr (Some (chunk_frame (fs_transfer_id s) data n m)))"
    and "n < m" and "m \<le> length data" and "m - n \<le> 1048576"
proof -
  have s: "fs_data s = data" "fs_cursor s = of_nat n" and l: "length data < 2 ^ 64"
    and c: "0 < unat (fs_chunk_size s)" "unat (fs_chunk_size s) \<le> 1048576"
    using assms(1) chunk_bounds by (auto simp: sender_at_def)
  show nm: "n < m" "m \<le> length data" and le: "m - n \<le> 1048576" using c assms(2) by (auto simp: m_def)
  have un: "unat (of_nat n :: u64) = n" "unat (of_nat m :: u64) = m" "unat (len64 data) = length data"
    using l assms(2) nm(2) by (simp_all add: unat_of_nat_u64 unat_len64)
  have m: "min (length data - n) (unat (fs_chunk_size s)) = m - n" by (auto simp: m_def)
  have end_n: "usz_add n (m - n) = m" using nm l by (simp add: usz_add_def usize_max_def)
  have len: "unat (of_nat (m - n) :: u32) = m - n" using le by (simp add: unat_of_nat_u32)
  have "\<not> fs_cursor s \<ge> len64 (fs_data s)" using assms(2) by (simp add: s word_le_nat_alt un)
  moreover have lastc: "(len64 data \<le> of_nat m) = (m = length data)"
    using nm(2) by (auto simp: word_le_nat_alt un)
  have "chunk_encode \<lparr>ch_transfer_id = fs_transfer_id s, ch_offset = of_nat n, ch_len = of_nat (m - n),
      ch_last = (len64 data \<le> of_nat m)\<rparr> =
    Inr (to_be 8 (fs_transfer_id s) @ to_be 8 (of_nat n :: u64) @ to_be 4 (of_nat (m - n) :: u32)
       @ [u8_of_bool (m = length data)])"
    unfolding lastc
    using le nm len by (auto simp: chunk_encode_Ok MAX_FILE_CHUNK_def word_le_nat_alt unat_gt_0 [symmetric] simp del: of_nat_diff)
  moreover have "get_range n m data = Some (take (m - n) (drop n data))"
    using nm by (simp add: get_range_def)
  ultimately show "next_chunk s = (s\<lparr>fs_cursor := of_nat m\<rparr>, Inr (Some (chunk_frame (fs_transfer_id s) data n m)))"
    using le by (simp add: next_chunk_def s un m end_n Let_def chunk_frame_def del: of_nat_diff)
qed

lemma on_chunk_step:
  assumes "receiver_at data n tid r" and "n < m" and "m \<le> length data" and "length data < 2 ^ 64"
    and "m - n \<le> 1048576"
  shows "on_chunk r (chunk_frame tid data n m) =
     (r\<lparr>fr_hasher := take m data, fr_received := take m data\<rparr>, Inr (m = length data))"
proof -
  define h where "h = \<lparr>ch_transfer_id = tid, ch_offset = (of_nat n :: u64), ch_len = (of_nat (m - n) :: u32),
      ch_last = (m = length data)\<rparr>"
  define hb where "hb = to_be 8 tid @ to_be 8 (of_nat n :: u64) @ to_be 4 (of_nat (m - n) :: u32)
       @ [u8_of_bool (m = length data)]"
  have len: "unat (of_nat (m - n) :: u32) = m - n" using assms(5) by (simp add: unat_of_nat_u32)
  then have "chunk_encode h = Inr hb"
    using assms(2,5) by (auto simp: chunk_encode_Ok h_def hb_def MAX_FILE_CHUNK_def word_le_nat_alt unat_gt_0 [symmetric] simp del: of_nat_diff)
  then have dec: "chunk_decode hb = Inr h" by (rule chunk_wire.dec_enc_exact)
  have hl: "length hb = 21" by (simp add: hb_def)
  have un: "unat (of_nat n :: u64) = n" "unat (len64 data) = length data" "unat (len64 (take m data)) = m"
    using assms by (simp_all add: unat_of_nat_u64 unat_len64)
  have r: "fr_received r = take n data" "fr_hasher r = take n data" "fr_total_size r = len64 data"
    "fr_total_size r \<le> fr_cap r" "fr_transfer_id r = tid"
    using assms(1) by (auto simp: receiver_at_def)
  have e: "unat (sat_add (of_nat n :: u64) (ucast (of_nat (m - n) :: u32))) = m"
    using assms(2-4) by (simp add: unat_sat_add un unat_ucast_up len del: of_nat_diff)
  have tm: "take n data @ take (m - n) (drop n data) = take m data"
    using assms(2) take_add [of n "m - n" data] by simp
  have "len64 (take n data) = of_nat n" using assms by (simp add: len64_def)
  then have "on_chunk r (hb @ take (m - n) (drop n data)) =
     (r\<lparr>fr_hasher := take m data, fr_received := take m data\<rparr>, Inr (m = length data))"
    using assms(2,3) e r(4)
    by (auto simp: on_chunk_def get_range_def FILE_CHUNK_HEADER_LEN_def hl dec h_def Let_def r len tm
        word_le_nat_alt word_less_nat_alt un word_unat_eq_iff simp del: of_nat_diff)
  then show ?thesis by (simp add: hb_def chunk_frame_def)
qed

lemma pump_completes:
  assumes "sender_at data n s" and "receiver_at data n (fs_transfer_id s) r" and "length data - n < fuel"
  shows "\<exists>r'. pump fuel s r = Some (Inr r') \<and> receiver_at data (length data) (fs_transfer_id s) r'
    \<and> fr_expected_sha r' = fr_expected_sha r"
  using assms
proof (induction fuel arbitrary: n s r)
  case 0
  then show ?case by simp
next
  case (Suc fuel)
  show ?case
  proof (cases "n < length data")
    case True
    define m where "m = min (length data) (n + unat (fs_chunk_size s))"
    note st = next_chunk_step [OF Suc.prems(1) True, folded m_def]
    have l: "length data < 2 ^ 64" using Suc.prems(1) by (simp add: sender_at_def)
    note rt = on_chunk_step [OF Suc.prems(2) st(2,3) l st(4)]
    let ?s = "s\<lparr>fs_cursor := of_nat m\<rparr>" and ?r = "r\<lparr>fr_hasher := take m data, fr_received := take m data\<rparr>"
    have "sender_at data m ?s" "receiver_at data m (fs_transfer_id ?s) ?r"
      using Suc.prems(1,2) st(3) by (auto simp: sender_at_def receiver_at_def)
    moreover have "length data - m < fuel" using Suc.prems(3) st(2,3) by linarith
    ultimately show ?thesis using Suc.IH [of m ?s ?r] by (simp add: st(1) rt)
  next
    case False
    then have n: "n = length data" using Suc.prems(1) by (simp add: sender_at_def)
    then have "next_chunk s = (s, Inr None)" using Suc.prems(1)
      by (simp add: next_chunk_def sender_at_def len64_def)
    with Suc.prems(2) n show ?thesis by simp
  qed
qed

subsection \<open>Properties\<close>

text \<open>
  C2. A transfer between an honest sender and receiver completes and delivers the file. For any file
  that fits the receiver's cap, any chunk size, and any prefix the receiver already holds, running
  the protocol over its wire encodings (offer, accept, then chunks until the sender is exhausted)
  ends with the receiver holding exactly the sender's bytes and reporting success; one round
  more than there are bytes is enough fuel.
\<close>

theorem transfer_delivers:
  assumes "sender_new sha tid name data chunk_size = Inr s"
    and "length (sha data) = 32" and "length data < 2 ^ 64"
    and "contains caps FILE" and "length data \<le> unat cap"
    and "k \<le> length data" and "length data < fuel"
  shows "transfer fuel sha caps cap (take k data) s =
     Some (Inr (data, \<lparr>fc_transfer_id = tid, fc_ok = True\<rparr>))"
proof -
  have s: "s = \<lparr>fs_transfer_id = tid, fs_name = name, fs_data = data, fs_chunk_size = chunk_size,
      fs_sha256 = sha data, fs_cursor = 0\<rparr>"
    and c: "chunk_size \<noteq> 0" "chunk_size \<le> MAX_FILE_CHUNK" and nm: "\<exists>x. sanitize_name name = Inr x"
    using assms(1) by (auto simp: sender_new_def not_less split: if_splits)
  have nl: "length name < 256" using nm by (auto simp: sanitize_name_Ok MAX_FILE_NAME_def)
  obtain bs where bs: "offer_encode (offer s) = Inr bs"
    using c nl by (auto simp: offer_encode_def offer_def s check_chunk_size_def)
  have "offer_decode bs = Inr (offer s)"
    using offer_decode_encode [OF bs, of "[]"] assms(2) by (simp add: wf_offer_def offer_def s)
  moreover define r where "r = \<lparr>fr_transfer_id = tid, fr_total_size = len64 data, fr_expected_sha = sha data,
      fr_hasher = take k data, fr_received = take k data, fr_cap = cap\<rparr>"
  define a where "a = \<lparr>fa_transfer_id = tid, fa_resume_offset = (of_nat k :: u64)\<rparr>"
  have un: "unat (len64 data) = length data" "unat (of_nat k :: u64) = k" "len64 (take k data) = of_nat k"
    using assms(3,6) by (simp_all add: unat_len64 unat_of_nat_u64) (simp add: len64_def)
  have "accept_offer caps (offer s) (take k data) cap = Inr (r, a)"
    using assms(4-6) nm by (auto simp: accept_offer_def offer_def s r_def a_def un Let_def word_less_nat_alt)
  moreover have "accept_decode (accept_encode a) = Inr a"
    using accept_wire.dec_enc_exact [of a] by simp
  moreover have "on_accept s a = (s\<lparr>fs_cursor := of_nat k\<rparr>, Inr ())"
    using assms(6) by (simp add: on_accept_def s a_def un word_less_nat_alt)
  moreover have "sender_at data k (s\<lparr>fs_cursor := of_nat k\<rparr>)"
    using assms(3,6) c by (simp add: sender_at_def s)
  moreover have "receiver_at data k (fs_transfer_id (s\<lparr>fs_cursor := of_nat k\<rparr>)) r"
    using assms(5) by (simp add: receiver_at_def r_def word_le_nat_alt un s)
  moreover have "length data - k < fuel" using assms(7) by simp
  ultimately obtain r' where "pump fuel (s\<lparr>fs_cursor := of_nat k\<rparr>) r = Some (Inr r')"
    "receiver_at data (length data) tid r'" "fr_expected_sha r' = sha data"
    using pump_completes [of data k "s\<lparr>fs_cursor := of_nat k\<rparr>" r fuel] by (auto simp: s r_def)
  then show ?thesis
    using bs \<open>offer_decode bs = _\<close> \<open>accept_offer _ _ _ _ = _\<close> \<open>accept_decode _ = _\<close> \<open>on_accept s a = _\<close>
    by (auto simp: transfer_def receiver_at_def finish_def)
qed

theorem transfer_delivers_witness:
  "sender_new (\<lambda>_. replicate 32 0) 7 [0x61] [1, 2, 3] 2 =
     Inr \<lparr>fs_transfer_id = 7, fs_name = [0x61], fs_data = [1, 2, 3], fs_chunk_size = 2,
          fs_sha256 = replicate 32 0, fs_cursor = 0\<rparr>
   \<and> transfer 4 (\<lambda>_. replicate 32 0) 0x0F 100 (take 1 [1, 2, 3])
      \<lparr>fs_transfer_id = 7, fs_name = [0x61], fs_data = [1, 2, 3], fs_chunk_size = 2,
       fs_sha256 = replicate 32 0, fs_cursor = 0\<rparr> =
     Some (Inr ([1, 2, 3], \<lparr>fc_transfer_id = 7, fc_ok = True\<rparr>))"
proof -
  have "sender_new (\<lambda>_. replicate 32 0) 7 [0x61] [1, 2, 3] 2 =
     Inr \<lparr>fs_transfer_id = 7, fs_name = [0x61], fs_data = [1, 2, 3], fs_chunk_size = 2,
          fs_sha256 = replicate 32 0, fs_cursor = 0\<rparr>"
    by code_simp
  with transfer_delivers [OF this, of "0x0F" 100 1 4] show ?thesis
    by (simp add: contains_def FILE_def)
qed

text \<open>
  C3. No peer can make the receiver store more than the offered size or its cap, or store bytes in the
  wrong place. Whatever frames arrive after an accepted offer, the buffer extends the bytes the
  receiver started with, stays within the offered size and the cap, and \<open>finish\<close> succeeds only
  when the buffer has exactly the offered length and digest. The cap is below \<open>u64::MAX\<close>,
  where \<open>saturating_add\<close> would hide an overrun.
\<close>

theorem receiver_bounded:
  assumes "accept_offer caps off already cap = Inr (r, a)"
    and "length already < 2 ^ 64" and "cap \<noteq> - 1"
  shows "contains caps FILE
    \<and> prefix already (fr_received (recv_all r frames))
    \<and> length (fr_received (recv_all r frames)) \<le> unat (fo_total_size off)
    \<and> fo_total_size off \<le> cap
    \<and> (\<forall>d c. finish sha (recv_all r frames) = Inr (d, c) \<longrightarrow>
         d = fr_received (recv_all r frames) \<and> sha d = fo_sha256 off \<and> length d = unat (fo_total_size off))"
proof -
  have inv: "recv_inv already off cap (recv_all r frames)"
    using recv_all_inv accept_offer_inv assms by blast
  moreover have "contains caps FILE" using assms(1) by (auto simp: accept_offer_def split: if_splits)
  moreover have "length d = unat (fo_total_size off)"
    if "finish sha (recv_all r frames) = Inr (d, c)" for d c
    using that inv unat_u64_less [of "fo_total_size off"] unat_len64 [of d]
    by (auto simp: finish_Ok recv_inv_def)
  ultimately show ?thesis by (auto simp: recv_inv_def finish_Ok)
qed

text \<open>A resumed transfer: a stray frame is dropped, the last chunk is taken, a second copy of it is not, and the file is complete.\<close>

definition demo_receiver :: "bytes \<Rightarrow> file_receiver" where
  "demo_receiver d = \<lparr>fr_transfer_id = 7, fr_total_size = 3, fr_expected_sha = [1, 2, 3], fr_hasher = d, fr_received = d, fr_cap = 100\<rparr>"

definition demo_chunk :: bytes where
  "demo_chunk = to_be 8 (7 :: u64) @ to_be 8 (1 :: u64) @ to_be 4 (2 :: u32) @ [1] @ [2, 3]"

lemma demo_chunk_taken:
  "fst (on_chunk (demo_receiver [1]) demo_chunk) = demo_receiver [1, 2, 3]"
  "fst (on_chunk (demo_receiver [1, 2, 3]) demo_chunk) = demo_receiver [1, 2, 3]"
proof -
  let ?h = "\<lparr>ch_transfer_id = 7, ch_offset = 1, ch_len = 2, ch_last = True\<rparr>"
  let ?b = "to_be 8 (7 :: u64) @ to_be 8 (1 :: u64) @ to_be 4 (2 :: u32) @ [1 :: u8]"
  have e: "chunk_encode ?h = Inr ?b" by (simp add: chunk_encode_Ok MAX_FILE_CHUNK_def word_le_nat_alt)
  have d: "chunk_decode ?b = Inr ?h" using chunk_wire.dec_enc_exact [OF e] by simp
  have g: "get_range 0 FILE_CHUNK_HEADER_LEN demo_chunk = Some ?b" "drop FILE_CHUNK_HEADER_LEN demo_chunk = [2, 3]"
    by (simp_all add: get_range_def FILE_CHUNK_HEADER_LEN_def demo_chunk_def)
  show "fst (on_chunk (demo_receiver [1]) demo_chunk) = demo_receiver [1, 2, 3]"
    "fst (on_chunk (demo_receiver [1, 2, 3]) demo_chunk) = demo_receiver [1, 2, 3]"
    unfolding on_chunk_def g option.case d sum.case
    by (simp_all add: demo_receiver_def len64_def sat_add_def word_less_nat_alt Let_def)
qed

theorem receiver_bounded_witness:
  "accept_offer 8 \<lparr>fo_transfer_id = 7, fo_total_size = 3, fo_chunk_size = 1, fo_sha256 = [1, 2, 3], fo_name = [0x61]\<rparr> [1] 100 =
       Inr (demo_receiver [1], \<lparr>fa_transfer_id = 7, fa_resume_offset = 1\<rparr>)
   \<and> recv_all (demo_receiver [1]) [[5], demo_chunk, demo_chunk] = demo_receiver [1, 2, 3]
   \<and> (\<exists>d c. finish (\<lambda>x. x) (demo_receiver [1, 2, 3]) = Inr (d, c) \<and> prefix [1] d \<and> length d = 3)"
proof -
  have o: "accept_offer 8 \<lparr>fo_transfer_id = 7, fo_total_size = 3, fo_chunk_size = 1, fo_sha256 = [1, 2, 3], fo_name = [0x61]\<rparr> [1] 100 =
       Inr (demo_receiver [1], \<lparr>fa_transfer_id = 7, fa_resume_offset = 1\<rparr>)"
    by code_simp
  have r: "recv_all (demo_receiver [1]) [[5], demo_chunk, demo_chunk] = demo_receiver [1, 2, 3]"
  proof -
    have "fst (on_chunk (demo_receiver [1]) [5]) = demo_receiver [1]" by (simp add: on_chunk_def get_range_def FILE_CHUNK_HEADER_LEN_def)
    then show ?thesis by (simp add: recv_all_def demo_chunk_taken)
  qed
  have "\<exists>c. finish (\<lambda>x. x) (demo_receiver [1, 2, 3]) = Inr ([1, 2, 3], c)"
    by (simp add: finish_def demo_receiver_def len64_def)
  then show ?thesis using receiver_bounded [OF o, of "[[5], demo_chunk, demo_chunk]" "\<lambda>x. x", unfolded r] o r by auto
qed

end
