(* ===== verification/Ord_Map.thy ===== *)
theory Ord_Map
  imports Shp_Prelude
begin

text \<open>
  \<open>std::collections::BTreeMap\<close> as the sources use it: a finite map iterated in key order. The
  locale \<open>ordered_map\<close> states the contract (what \<open>get\<close>, \<open>insert\<close>, \<open>remove\<close>, \<open>len\<close> and
  \<open>keys().next()\<close> promise) and proves what the bounded buffers built on it need; the
  interpretation provides it with association lists sorted by key.
\<close>

type_synonym ('k, 'v) omap = "('k \<times> 'v) list"

definition om_get :: "('k, 'v) omap \<Rightarrow> 'k \<Rightarrow> 'v option" where
  "om_get m k = map_of m k"

fun om_insert :: "'k::linorder \<Rightarrow> 'v \<Rightarrow> ('k, 'v) omap \<Rightarrow> ('k, 'v) omap" where
  "om_insert k v [] = [(k, v)]"
| "om_insert k v ((k', v') # m) =
     (if k < k' then (k, v) # (k', v') # m
      else if k = k' then (k, v) # m
      else (k', v') # om_insert k v m)"

definition om_remove :: "'k \<Rightarrow> ('k, 'v) omap \<Rightarrow> ('k, 'v) omap" where
  "om_remove k m = filter (\<lambda>p. fst p \<noteq> k) m"

definition om_first :: "('k, 'v) omap \<Rightarrow> 'k option" where
  "om_first m = (case m of [] \<Rightarrow> None | p # _ \<Rightarrow> Some (fst p))"

definition om_invar :: "('k::linorder, 'v) omap \<Rightarrow> bool" where
  "om_invar m \<longleftrightarrow> sorted_wrt (<) (map fst m)"

locale ordered_map =
  fixes empty :: 'm
    and get :: "'m \<Rightarrow> 'k::linorder \<Rightarrow> 'v option"
    and insert :: "'k \<Rightarrow> 'v \<Rightarrow> 'm \<Rightarrow> 'm"
    and remove :: "'k \<Rightarrow> 'm \<Rightarrow> 'm"
    and len :: "'m \<Rightarrow> nat"
    and first :: "'m \<Rightarrow> 'k option"
    and invar :: "'m \<Rightarrow> bool"
  assumes get_empty: "get empty k = None"
    and get_insert: "invar m \<Longrightarrow> get (insert k v m) = (get m)(k \<mapsto> v)"
    and get_remove: "invar m \<Longrightarrow> get (remove k m) = (get m)(k := None)"
    and len_card: "invar m \<Longrightarrow> len m = card (dom (get m))"
    and finite_dom: "invar m \<Longrightarrow> finite (dom (get m))"
    and first_min: "invar m \<Longrightarrow> first m = (if dom (get m) = {} then None else Some (Min (dom (get m))))"
    and invar_empty: "invar empty"
    and invar_insert: "invar m \<Longrightarrow> invar (insert k v m)"
    and invar_remove: "invar m \<Longrightarrow> invar (remove k m)"
begin

lemma len_insert: "invar m \<Longrightarrow> len (insert k v m) = (if get m k = None then Suc (len m) else len m)"
  by (auto simp: len_card invar_insert get_insert finite_dom card_insert_if domIff)

lemma len_remove: "invar m \<Longrightarrow> len (remove k m) = (if get m k = None then len m else len m - 1)"
  by (auto simp: len_card invar_remove get_remove finite_dom domIff)

lemma first_in_dom: "invar m \<Longrightarrow> first m = Some k \<Longrightarrow> get m k \<noteq> None"
  using Min_in [OF finite_dom [of m]] by (auto simp: first_min split: if_splits)

lemma first_None: "invar m \<Longrightarrow> first m = None \<longleftrightarrow> len m = 0"
  by (auto simp: first_min len_card finite_dom)

text \<open>Making room before an insertion, the way the bounded buffers do it.\<close>

definition make_room :: "nat \<Rightarrow> 'k \<Rightarrow> 'm \<Rightarrow> 'm" where
  "make_room cap k m =
     (if get m k = None \<and> cap \<le> len m then (case first m of None \<Rightarrow> m | Some o' \<Rightarrow> remove o' m) else m)"

lemma make_room_invar: "invar m \<Longrightarrow> invar (make_room cap k m)"
  by (auto simp: make_room_def invar_remove split: option.split)

lemma make_room_get: "invar m \<Longrightarrow> get (make_room cap k m) k = get m k"
  by (auto simp: make_room_def get_remove split: option.split)

lemma make_room_len:
  assumes "invar m" and "len m \<le> cap" and "0 < cap" and "get m k = None"
  shows "len (make_room cap k m) < cap"
proof (cases "cap \<le> len m")
  case True
  then obtain o' where "first m = Some o'" using assms(1,3) first_None [of m] by (cases "first m") auto
  with assms True first_in_dom [of m o'] show ?thesis by (auto simp: make_room_def len_remove)
qed (use assms in \<open>auto simp: make_room_def\<close>)

lemma make_room_other: "invar m \<Longrightarrow> get (make_room cap k m) j = Some v \<Longrightarrow> get m j = Some v"
  by (auto simp: make_room_def get_remove split: option.splits if_splits)

end

lemma om_get_insert: "om_get (om_insert k v m) = (om_get m)(k \<mapsto> v)"
  by (induction k v m rule: om_insert.induct) (auto simp: om_get_def fun_eq_iff)

lemma om_get_remove: "om_get (om_remove k m) = (om_get m)(k := None)"
  by (induction m) (auto simp: om_get_def om_remove_def fun_eq_iff)

lemma om_keys_insert: "set (map fst (om_insert k v m)) = insert k (set (map fst m))"
  by (induction k v m rule: om_insert.induct) auto

lemma om_invar_insert: "om_invar m \<Longrightarrow> om_invar (om_insert k v m)"
  unfolding om_invar_def
proof (induction k v m rule: om_insert.induct)
  case (2 k v k' v' m)
  then show ?case using om_keys_insert [of k v m] by (auto simp del: set_map)
qed simp

lemma om_invar_remove: "om_invar m \<Longrightarrow> om_invar (om_remove k m)"
  by (auto simp: om_invar_def om_remove_def sorted_wrt_map intro: sorted_wrt_filter)

lemma om_dom: "dom (om_get m) = fst ` set m"
  by (simp add: om_get_def [abs_def] dom_map_of_conv_image_fst)

lemma om_first_min: "om_invar m \<Longrightarrow> om_first m = (if dom (om_get m) = {} then None else Some (Min (dom (om_get m))))"
  by (cases m) (auto simp: om_first_def om_dom om_invar_def intro!: Min_insert2 [symmetric] less_imp_le)

interpretation om: ordered_map "[]" om_get om_insert om_remove length om_first om_invar
proof (unfold_locales, goal_cases)
  case (4 m)
  then have "distinct (map fst m)" by (auto simp: om_invar_def strict_sorted_iff)
  then show ?case by (metis om_dom distinct_card length_map set_map)
next
  case (6 m)
  then show ?case by (rule om_first_min)
qed (auto simp: om_get_insert om_get_remove om_invar_insert om_invar_remove om_dom, auto simp: om_get_def om_invar_def)

end
