(* ===== verification/Packetize.thy ===== *)
theory Packetize
  imports Wire_Headers Ord_Map "HOL-Library.Multiset"
begin

text \<open>
  Fragmentation of encoded video frames into datagrams and their reassembly,
  \<open>src/crates/sh-core/src/packetize.rs\<close>. \<open>fragment_frame\<close> and \<open>ingest\<close> follow the Rust functions; the
  reassembler's \<open>BTreeMap\<close> is an ordered map of frame buffers.
\<close>

datatype packetize_error =
    TooManyFragments nat
  | PacketizeProtocol protocol_error
  | PayloadTooLarge
  | DatagramTooSmall nat

record encoded_packet =
  ep_data :: bytes
  ep_codec :: codec
  ep_frame_id :: u64
  ep_capture_ts_us :: u64
  ep_frame_type :: frame_type

subsection \<open>Fragmentation\<close>

definition div_ceil :: "nat \<Rightarrow> nat \<Rightarrow> nat" where
  "div_ceil a b = (if a mod b = 0 then a div b else a div b + 1)"

definition num_frags :: "encoded_packet \<Rightarrow> nat \<Rightarrow> nat" where
  "num_frags p chunk_size = (if ep_data p = [] then 1 else div_ceil (length (ep_data p)) chunk_size)"

definition frag_chunk :: "encoded_packet \<Rightarrow> nat \<Rightarrow> nat \<Rightarrow> bytes" where
  "frag_chunk p chunk_size i =
     (let start_n = usz_mul i chunk_size;
          end_n = min (usz_mul (usz_add i 1) chunk_size) (length (ep_data p))
      in take (end_n - start_n) (drop start_n (ep_data p)))"

text \<open>One iteration of the loop over the fragments.\<close>

definition fragment_one ::
  "encoded_packet \<Rightarrow> u16 \<Rightarrow> nat \<Rightarrow> nat \<Rightarrow> nat \<Rightarrow> packetize_error + bytes" where
  "fragment_one p seq_start chunk_size n i =
     (let total = (of_nat n :: u8);
          frame_id_masked = ep_frame_id p AND ucast MAX_FRAME_ID;
          ts = ep_capture_ts_us p AND 0xFFFFFFFF;
          chunk = frag_chunk p chunk_size i;
          is_last = (usz_add i 1 = n);
          seq_offset = (if i < 2 ^ 16 then (of_nat i :: u16) else - 1);
          pl = usz_add VIDEO_HEADER_LEN (length chunk)
      in if \<not> pl < 2 ^ 16 then Err PayloadTooLarge
         else if \<not> i < 256 then Err (TooManyFragments i)
         else and_then (map_err PacketizeProtocol (video_encode
             \<lparr>frame_id = frame_id_masked, frag_index = of_nat i, total_frags = total,
              vcodec = ep_codec p, vframe_type = ep_frame_type p, vpriority = High,
              monitor_id = 0, marker = is_last, encode_ts_us = ts\<rparr>)) (\<lambda>video_bytes.
           Ok (common_encode
             \<lparr>channel = Video, flags = \<lparr>fragment = (total > 1), last_fragment = is_last\<rparr>,
              sequence = seq_start + seq_offset, timestamp_us = ts, payload_len = of_nat pl\<rparr>
             @ video_bytes @ chunk)))"

definition fragment_frame :: "encoded_packet \<Rightarrow> u16 \<Rightarrow> nat \<Rightarrow> packetize_error + bytes list" where
  "fragment_frame p seq_start max_datagram =
     (let combined_header = usz_add COMMON_HEADER_LEN VIDEO_HEADER_LEN in
      if max_datagram \<le> combined_header then Err (DatagramTooSmall max_datagram)
      else let chunk_size = max_datagram - combined_header;
               n = num_frags p chunk_size
        in if n > 255 then Err (TooManyFragments n)
           else try_map (fragment_one p seq_start chunk_size n) [0..<n])"

subsection \<open>Reassembly\<close>

definition MAX_BUFFERED_FRAMES :: nat where "MAX_BUFFERED_FRAMES = 32"

record frame_buffer =
  fb_slots :: "bytes option list"
  fb_total_frags :: u8
  fb_received :: nat
  fb_codec :: codec
  fb_frame_type :: frame_type
  fb_frame_id :: u64
  fb_capture_ts_us :: u64

type_synonym reassembler = "(u32, frame_buffer) omap"

definition reassembler_new :: reassembler where
  "reassembler_new = []"

definition frame_key :: "video_header \<Rightarrow> u32" where
  "frame_key v = (let x = frame_id v AND ucast MAX_FRAME_ID in if unat x < 2 ^ 32 then ucast x else MAX_FRAME_ID)"

definition evict_oldest :: "u32 \<Rightarrow> reassembler \<Rightarrow> reassembler" where
  "evict_oldest key bufs =
     (if om_get bufs key = None \<and> length bufs \<ge> MAX_BUFFERED_FRAMES
      then (case om_first bufs of None \<Rightarrow> bufs | Some oldest \<Rightarrow> om_remove oldest bufs)
      else bufs)"

definition new_buffer :: "common_header \<Rightarrow> video_header \<Rightarrow> frame_buffer" where
  "new_buffer c v = \<lparr>fb_slots = replicate (unat (total_frags v)) None, fb_total_frags = total_frags v,
     fb_received = 0, fb_codec = vcodec v, fb_frame_type = vframe_type v, fb_frame_id = frame_id v,
     fb_capture_ts_us = timestamp_us c\<rparr>"

text \<open>\<open>slots.into_iter().flatten()\<close> concatenated.\<close>

fun flatten_slots :: "bytes option list \<Rightarrow> bytes" where
  "flatten_slots [] = []"
| "flatten_slots (None # xs) = flatten_slots xs"
| "flatten_slots (Some c # xs) = c @ flatten_slots xs"

definition ingest_fragment ::
  "reassembler \<Rightarrow> u32 \<Rightarrow> frame_buffer \<Rightarrow> video_header \<Rightarrow> bytes \<Rightarrow> reassembler \<times> encoded_packet option" where
  "ingest_fragment bufs key buf v datagram =
     (let i = unat (frag_index v); header_total = usz_add COMMON_HEADER_LEN VIDEO_HEADER_LEN in
      if total_frags v \<noteq> fb_total_frags buf then (bufs, None)
      else if frag_index v \<ge> fb_total_frags buf then (bufs, None)
      else if (case get_at (fb_slots buf) i of None \<Rightarrow> False | Some s \<Rightarrow> s \<noteq> None) then (bufs, None)
      else if length datagram < header_total then (bufs, None)
      else if i < length (fb_slots buf) then
        let buf' = buf\<lparr>fb_slots := (fb_slots buf)[i := Some (drop header_total datagram)],
                       fb_received := usz_add (fb_received buf) 1\<rparr>
        in if fb_received buf' = unat (fb_total_frags buf')
           then (om_remove key bufs, Some \<lparr>ep_data = flatten_slots (fb_slots buf'), ep_codec = fb_codec buf',
                   ep_frame_id = fb_frame_id buf', ep_capture_ts_us = fb_capture_ts_us buf',
                   ep_frame_type = fb_frame_type buf'\<rparr>)
           else (om_insert key buf' bufs, None)
      else (bufs, None))"

definition ingest :: "reassembler \<Rightarrow> bytes \<Rightarrow> reassembler \<times> encoded_packet option" where
  "ingest bufs datagram =
     (case common_decode datagram of
        Inl _ \<Rightarrow> (bufs, None)
      | Inr common \<Rightarrow>
        if channel common \<noteq> Video then (bufs, None)
        else (case video_decode (drop COMMON_HEADER_LEN datagram) of
          Inl _ \<Rightarrow> (bufs, None)
        | Inr v \<Rightarrow>
          if total_frags v = 0 then (bufs, None)
          else if frag_index v \<ge> total_frags v then (bufs, None)
          else let key = frame_key v;
                   bufs1 = evict_oldest key bufs;
                   bufs2 = (case om_get bufs1 key of None \<Rightarrow> om_insert key (new_buffer common v) bufs1
                                                 | Some _ \<Rightarrow> bufs1)
            in (case om_get bufs2 key of
                  None \<Rightarrow> (bufs2, None)
                | Some buf \<Rightarrow> ingest_fragment bufs2 key buf v datagram)))"

fun ingest_all :: "reassembler \<Rightarrow> bytes list \<Rightarrow> reassembler \<times> encoded_packet option list" where
  "ingest_all bufs [] = (bufs, [])"
| "ingest_all bufs (d # ds) =
     (let (b1, out) = ingest bufs d; (b2, outs) = ingest_all b1 ds in (b2, out # outs))"

subsection \<open>What a fragment holds\<close>

definition frag_common :: "encoded_packet \<Rightarrow> u16 \<Rightarrow> nat \<Rightarrow> nat \<Rightarrow> nat \<Rightarrow> common_header" where
  "frag_common p seq cs n i =
     \<lparr>channel = Video, flags = \<lparr>fragment = ((of_nat n :: u8) > 1), last_fragment = (i + 1 = n)\<rparr>,
      sequence = seq + of_nat i, timestamp_us = take_bit 32 (ep_capture_ts_us p),
      payload_len = of_nat (12 + length (frag_chunk p cs i))\<rparr>"

definition frag_video :: "encoded_packet \<Rightarrow> nat \<Rightarrow> nat \<Rightarrow> video_header" where
  "frag_video p n i =
     \<lparr>frame_id = take_bit 24 (ep_frame_id p), frag_index = of_nat i, total_frags = of_nat n,
      vcodec = ep_codec p, vframe_type = ep_frame_type p, vpriority = High,
      monitor_id = 0, marker = (i + 1 = n), encode_ts_us = take_bit 32 (ep_capture_ts_us p)\<rparr>"

lemma and_mask_24: "(x :: u64) AND ucast MAX_FRAME_ID = take_bit 24 x"
proof -
  have "(ucast MAX_FRAME_ID :: u64) = mask 24" by (simp add: MAX_FRAME_ID_def mask_eq_exp_minus_1)
  then show ?thesis by (metis take_bit_eq_mask)
qed

lemma and_mask_32: "(x :: u64) AND 0xFFFFFFFF = take_bit 32 x"
proof -
  have "(0xFFFFFFFF :: u64) = mask 32" by (simp add: mask_eq_exp_minus_1)
  then show ?thesis by (metis take_bit_eq_mask)
qed

lemma usz_add_byte: "i \<le> 255 \<Longrightarrow> usz_add i 1 = i + 1"
  by (simp add: usz_add_def usize_max_def)

lemma fragment_one_Ok:
  assumes "fragment_one p seq cs n i = Inr d" and "i < n" and "n \<le> 255"
  obtains vb where "video_encode (frag_video p n i) = Inr vb"
    and "d = common_encode (frag_common p seq cs n i) @ vb @ frag_chunk p cs i"
proof -
  have i: "i < 2 ^ 16" "i < 256" "usz_add i 1 = i + 1" "i + 1 \<noteq> 0" using assms(2,3) usz_add_byte [of i] by auto
  have pl: "usz_add 12 (length (frag_chunk p cs i)) < 2 ^ 16"
    using assms(1) by (auto simp: fragment_one_def Let_def VIDEO_HEADER_LEN_def split: if_splits)
  then have "usz_add 12 (length (frag_chunk p cs i)) = 12 + length (frag_chunk p cs i)"
    by (auto simp: usz_add_def usize_max_def min_def split: if_splits)
  with that assms(1) i show thesis
    by (auto simp: fragment_one_def Let_def VIDEO_HEADER_LEN_def and_mask_24 and_mask_32 frag_video_def
        frag_common_def split: if_splits)
qed

lemma fragment_frame_Ok:
  assumes "fragment_frame p seq mx = Inr frags"
  defines "cs \<equiv> mx - 21" and "n \<equiv> num_frags p (mx - 21)"
  shows "0 < cs" "0 < n" "n \<le> 255" "length frags = n" "\<forall>i < n. fragment_one p seq cs n i = Inr (frags ! i)"
proof -
  have h: "usz_add COMMON_HEADER_LEN VIDEO_HEADER_LEN = 21"
    by (simp add: usz_add_def usize_max_def COMMON_HEADER_LEN_def VIDEO_HEADER_LEN_def)
  show cs: "0 < cs" and n: "n \<le> 255"
    using assms(1) by (auto simp: fragment_frame_def h Let_def cs_def n_def split: if_splits)
  have "try_map (fragment_one p seq cs n) [0..<n] = Inr frags"
    using assms(1) by (auto simp: fragment_frame_def h Let_def cs_def n_def split: if_splits)
  from try_map_Ok_nth [OF this]
  show "length frags = n" "\<forall>i < n. fragment_one p seq cs n i = Inr (frags ! i)" by auto
  have "0 < div_ceil a cs" if "0 < a" for a
    using that cs by (auto simp: div_ceil_def div_greater_zero_iff dest: mod_eq_self_iff_div_eq_0 [THEN iffD2])
  then show "0 < n" by (simp add: n_def num_frags_def cs_def)
qed

text \<open>The chunks tile the frame.\<close>

lemma div_ceil_bounds:
  assumes "0 < (b :: nat)"
  shows "a \<le> div_ceil a b * b" and "i < div_ceil a b \<Longrightarrow> i * b < a"
proof -
  have eq: "a = a div b * b + a mod b" by simp
  show "a \<le> div_ceil a b * b"
  proof (cases "a mod b = 0")
    case False
    then have "div_ceil a b * b = a div b * b + b" by (simp add: div_ceil_def)
    then show ?thesis using mod_less_divisor [OF assms, of a] eq by linarith
  qed (use eq in \<open>simp add: div_ceil_def\<close>)
  show "i * b < a" if "i < div_ceil a b"
  proof (cases "a mod b = 0")
    case True
    then have "i < a div b" using that by (simp add: div_ceil_def)
    then show ?thesis by (metis assms True eq add.right_neutral mult_less_mono1)
  next
    case False
    then have "i * b \<le> a div b * b" using that by (simp add: div_ceil_def)
    then show ?thesis using False eq by linarith
  qed
qed

lemma frag_chunk_eq:
  assumes "i < num_frags p cs" and "0 < cs" and "length (ep_data p) < 2 ^ 64" and "num_frags p cs \<le> 255"
  shows "frag_chunk p cs i = take cs (drop (i * cs) (ep_data p))" and "i * cs \<le> length (ep_data p)"
proof -
  let ?l = "length (ep_data p)"
  show le: "i * cs \<le> ?l"
    using assms(1,2) div_ceil_bounds(2) [of cs i ?l] by (auto simp: num_frags_def split: if_splits)
  have 1: "usz_mul i cs = i * cs" using le assms(3) by (simp add: usz_mul_def usize_max_def)
  have 2: "min (usz_mul (usz_add i 1) cs) ?l = min (i * cs + cs) ?l"
    using assms(1,3,4) usz_add_byte [of i] by (simp add: usz_mul_def usize_max_def)
  show "frag_chunk p cs i = take cs (drop (i * cs) (ep_data p))"
    unfolding frag_chunk_def Let_def 1 2 using le by (auto simp: min_def)
qed

lemma chunks_tile:
  assumes "0 < cs" and "length (ep_data p) < 2 ^ 64" and "num_frags p cs \<le> 255"
  shows "concat (map (frag_chunk p cs) [0..<num_frags p cs]) = ep_data p"
proof -
  have "concat (map (frag_chunk p cs) [0..<k]) = take (k * cs) (ep_data p)" if "k \<le> num_frags p cs" for k
    using that
  proof (induction k)
    case (Suc k)
    then show ?case using assms by (simp add: frag_chunk_eq take_add add.commute [of cs])
  qed simp
  moreover have "length (ep_data p) \<le> num_frags p cs * cs"
    using div_ceil_bounds(1) [OF assms(1), of "length (ep_data p)"] by (simp add: num_frags_def)
  ultimately show ?thesis by simp
qed

subsection \<open>Reassembling a frame\<close>

definition partial :: "encoded_packet \<Rightarrow> nat \<Rightarrow> nat \<Rightarrow> nat set \<Rightarrow> frame_buffer" where
  "partial p cs n S =
     \<lparr>fb_slots = map (\<lambda>i. if i \<in> S then Some (frag_chunk p cs i) else None) [0..<n],
      fb_total_frags = of_nat n, fb_received = card S, fb_codec = ep_codec p,
      fb_frame_type = ep_frame_type p, fb_frame_id = take_bit 24 (ep_frame_id p),
      fb_capture_ts_us = take_bit 32 (ep_capture_ts_us p)\<rparr>"

definition packet_norm :: "encoded_packet \<Rightarrow> encoded_packet" where
  "packet_norm p = p\<lparr>ep_frame_id := take_bit 24 (ep_frame_id p), ep_capture_ts_us := take_bit 32 (ep_capture_ts_us p)\<rparr>"

definition packet_key :: "encoded_packet \<Rightarrow> u32" where
  "packet_key p = ucast (take_bit 24 (ep_frame_id p))"

lemma frame_key_frag [simp]: "frame_key (frag_video p n i) = packet_key p"
proof -
  have "unat (take_bit 24 (ep_frame_id p)) < 2 ^ 24"
    using take_bit_eq_self_unat [of 24 "take_bit 24 (ep_frame_id p)"] by simp
  then show ?thesis by (simp add: frame_key_def frag_video_def and_mask_24 packet_key_def Let_def)
qed

lemma ingest_frag:
  assumes "fragment_one p seq cs n i = Inr d" and "i < n" and "n \<le> 255"
  shows "ingest bufs d =
     (let bufs1 = evict_oldest (packet_key p) bufs;
          bufs2 = (case om_get bufs1 (packet_key p) of
              None \<Rightarrow> om_insert (packet_key p) (new_buffer (frag_common p seq cs n i) (frag_video p n i)) bufs1
            | Some _ \<Rightarrow> bufs1)
      in case om_get bufs2 (packet_key p) of
           None \<Rightarrow> (bufs2, None)
         | Some buf \<Rightarrow> ingest_fragment bufs2 (packet_key p) buf (frag_video p n i) d)"
proof -
  obtain vb where vb: "video_encode (frag_video p n i) = Inr vb"
    and d: "d = common_encode (frag_common p seq cs n i) @ vb @ frag_chunk p cs i"
    using fragment_one_Ok [OF assms] .
  have "common_norm (frag_common p seq cs n i) = frag_common p seq cs n i"
    by (simp add: common_norm_def frag_common_def)
  then have "common_decode d = Inr (frag_common p seq cs n i)"
    using common_wire.dec_enc [of "frag_common p seq cs n i", OF refl, of "vb @ frag_chunk p cs i"] d by simp
  moreover have "video_norm (frag_video p n i) = frag_video p n i"
    by (simp add: video_norm_def frag_video_def)
  then have "video_decode (drop COMMON_HEADER_LEN d) = Inr (frag_video p n i)"
    using video_wire.dec_enc [OF vb, of "frag_chunk p cs i"] d common_wire.enc_length [OF refl] by simp
  moreover have "channel (frag_common p seq cs n i) = Video" by (simp add: frag_common_def)
  moreover have "total_frags (frag_video p n i) \<noteq> 0" "\<not> frag_index (frag_video p n i) \<ge> total_frags (frag_video p n i)"
    using assms(2,3) by (simp_all add: frag_video_def word_le_nat_alt unat_of_nat_u8 word_unat_eq_iff)
  ultimately show ?thesis by (simp add: ingest_def Let_def)
qed

lemma flatten_Some: "flatten_slots (map (\<lambda>i. Some (f i)) xs) = concat (map f xs)"
  by (induction xs) simp_all

lemma slots_update:
  "i < n \<Longrightarrow> (map (\<lambda>j. if j \<in> S then Some (f j) else None) [0..<n])[i := Some (f i)] =
     map (\<lambda>j. if j \<in> insert i S then Some (f j) else None) [0..<n]"
  by (rule nth_equalityI) (auto simp: nth_list_update)

lemma ingest_fragment_step:
  assumes "fragment_one p seq cs n i = Inr d" and "i < n" and "n \<le> 255"
    and "S \<subseteq> {0..<n}" and "i \<notin> S"
  shows "ingest_fragment bufs (packet_key p) (partial p cs n S) (frag_video p n i) d =
     (if Suc (card S) = n
      then (om_remove (packet_key p) bufs,
            Some (packet_norm p\<lparr>ep_data := concat (map (frag_chunk p cs) [0..<n])\<rparr>))
      else (om_insert (packet_key p) (partial p cs n (insert i S)) bufs, None))"
proof -
  obtain vb where vb: "video_encode (frag_video p n i) = Inr vb"
    and d: "d = common_encode (frag_common p seq cs n i) @ vb @ frag_chunk p cs i"
    using fragment_one_Ok [OF assms(1-3)] .
  have lens: "length (common_encode (frag_common p seq cs n i)) = 9" "length vb = 12"
    using common_wire.enc_length [OF refl] video_wire.enc_length [OF vb]
    by (simp_all add: COMMON_HEADER_LEN_def VIDEO_HEADER_LEN_def)
  then have d21: "drop 21 d = frag_chunk p cs i" "\<not> length d < 21" by (simp_all add: d)
  have h: "usz_add COMMON_HEADER_LEN VIDEO_HEADER_LEN = 21"
    by (simp add: usz_add_def usize_max_def COMMON_HEADER_LEN_def VIDEO_HEADER_LEN_def)
  have fin: "finite S" using assms(4) finite_subset by blast
  have card: "card S \<le> n" "usz_add (card S) 1 = Suc (card S)" "card (insert i S) = Suc (card S)"
    using card_mono [OF _ assms(4)] assms(3,5) fin usz_add_byte [of "card S"] by auto
  have un: "unat (of_nat i :: u8) = i" "unat (of_nat n :: u8) = n"
    using assms(2,3) by (simp_all add: unat_of_nat_u8)
  have full: "insert i S = {0..<n}" if "Suc (card S) = n"
    using that card assms(2,4) by (intro card_subset_eq) auto
  show ?thesis
  proof (cases "Suc (card S) = n")
    case True
    have "j = i \<or> j \<in> S" if "j < n" for j using full [OF True] that by (metis atLeastLessThan_iff insert_iff le0)
    then have "map (\<lambda>j. if j = i \<or> j \<in> S then Some (frag_chunk p cs j) else None) [0..<n] =
        map (\<lambda>j. Some (frag_chunk p cs j)) [0..<n]"
      by (intro map_cong) auto
    then have "flatten_slots (map (\<lambda>j. if j = i \<or> j \<in> S then Some (frag_chunk p cs j) else None) [0..<n]) =
        concat (map (frag_chunk p cs) [0..<n])"
      by (simp only: flatten_Some)
    then show ?thesis using True assms(2,5) un card
      by (simp add: ingest_fragment_def partial_def frag_video_def h d21 get_at_def slots_update word_le_nat_alt
          flatten_Some packet_norm_def)
  next
    case False
    then show ?thesis using assms(2,5) un card
      by (simp add: ingest_fragment_def partial_def frag_video_def h d21 get_at_def slots_update word_le_nat_alt)
  qed
qed

lemma om_remove_insert [simp]: "om_remove k (om_insert k v m) = om_remove k m"
  by (induction k v m rule: om_insert.induct) (simp_all add: om_remove_def)

lemma om_remove_absent: "om_get m k = None \<Longrightarrow> om_remove k m = m"
  by (auto simp: om_remove_def om_get_def map_of_eq_None_iff intro!: filter_True)

lemma evict_oldest_present: "om_get bufs key = Some b \<Longrightarrow> evict_oldest key bufs = bufs"
  by (simp add: evict_oldest_def)

lemma evict_oldest_room: "evict_oldest key bufs = om.make_room MAX_BUFFERED_FRAMES key bufs"
  by (simp add: evict_oldest_def om.make_room_def)

lemma new_buffer_partial: "n \<le> 255 \<Longrightarrow> new_buffer (frag_common p seq cs n i) (frag_video p n i) = partial p cs n {}"
  by (simp add: new_buffer_def frag_common_def frag_video_def partial_def unat_of_nat_u8 map_replicate_const)

lemma ingest_all_partial:
  assumes "\<forall>i < n. fragment_one p seq cs n i = Inr (frags ! i)" and "n \<le> 255"
    and "distinct js" and "js \<noteq> []" and "set js \<inter> S = {}" and "set js \<union> S = {0..<n}"
    and "om_get bufs (packet_key p) = Some (partial p cs n S)"
  shows "ingest_all bufs (map (nth frags) js) =
     (om_remove (packet_key p) bufs, replicate (length js - 1) None
        @ [Some (packet_norm p\<lparr>ep_data := concat (map (frag_chunk p cs) [0..<n])\<rparr>)])"
  using assms(3-7)
proof (induction js arbitrary: S bufs)
  case (Cons j js)
  have j: "j < n" "j \<notin> S" and S: "S \<subseteq> {0..<n}" using Cons.prems by auto
  have fin: "finite S" using S finite_subset by blast
  have "card {0..<n} = card (set (j # js)) + card S"
    unfolding Cons.prems(4) [symmetric] by (rule card_Un_disjoint) (use fin Cons.prems(3) in auto)
  then have n: "n = Suc (length js) + card S" using Cons.prems(1) by (simp add: distinct_card)
  have step: "ingest bufs (frags ! j) = ingest_fragment bufs (packet_key p) (partial p cs n S) (frag_video p n j) (frags ! j)"
    using ingest_frag [of p seq cs n j "frags ! j" bufs] assms(1,2) j Cons.prems(5)
    by (simp add: evict_oldest_present)
  show ?case
  proof (cases js)
    case Nil
    then show ?thesis
      using step ingest_fragment_step [of p seq cs n j "frags ! j" S bufs] assms(1,2) j S n by simp
  next
    case (Cons k ks)
    let ?b = "om_insert (packet_key p) (partial p cs n (insert j S)) bufs"
    have "ingest bufs (frags ! j) = (?b, None)"
      using step ingest_fragment_step [of p seq cs n j "frags ! j" S bufs] assms(1,2) j S n Cons by simp
    moreover have "ingest_all ?b (map (nth frags) js) = (om_remove (packet_key p) ?b, replicate (length js - 1) None
        @ [Some (packet_norm p\<lparr>ep_data := concat (map (frag_chunk p cs) [0..<n])\<rparr>)])"
      using Cons Cons.prems by (intro Cons.IH [of "insert j S"]) (auto simp: om_get_insert)
    ultimately show ?thesis using Cons by simp
  qed
qed simp

lemma mset_map_split:
  "mset ys = image_mset f (mset xs) \<Longrightarrow> \<exists>xs'. mset xs' = mset xs \<and> ys = map f xs'"
proof (induction ys arbitrary: xs)
  case (Cons y ys)
  then have "y \<in># image_mset f (mset xs)" by (simp add: Cons.prems [symmetric] del: set_image_mset)
  then obtain x where x: "x \<in> set xs" "y = f x" by auto
  obtain xs1 where xs1: "mset xs = add_mset x (mset xs1)"
    using x(1) by (metis insert_DiffM mset_remove1 set_mset_mset)
  then have "mset ys = image_mset f (mset xs1)" using Cons.prems x(2) by simp
  from Cons.IH [OF this] obtain zs where "mset zs = mset xs1" "ys = map f zs" by blast
  then show ?case using x(2) xs1 by (intro exI [of _ "x # zs"]) simp
qed simp

subsection \<open>The invariant of the reassembler\<close>

definition buf_inv :: "frame_buffer \<Rightarrow> bool" where
  "buf_inv b \<longleftrightarrow> length (fb_slots b) = unat (fb_total_frags b)
     \<and> fb_received b = length (filter (\<lambda>s. s \<noteq> None) (fb_slots b)) \<and> fb_received b < unat (fb_total_frags b)"

definition reas_inv :: "reassembler \<Rightarrow> bool" where
  "reas_inv bufs \<longleftrightarrow> om_invar bufs \<and> length bufs \<le> MAX_BUFFERED_FRAMES
     \<and> (\<forall>k b. om_get bufs k = Some b \<longrightarrow> buf_inv b)"

lemma filter_update_Some:
  "i < length xs \<Longrightarrow> xs ! i = None \<Longrightarrow>
    length (filter (\<lambda>s. s \<noteq> None) (xs[i := Some c])) = Suc (length (filter (\<lambda>s. s \<noteq> None) xs))"
  by (induction xs arbitrary: i) (auto split: nat.split_asm simp: nth_Cons list_update_def)

lemma reas_inv_insert:
  "reas_inv bufs \<Longrightarrow> om_get bufs k \<noteq> None \<or> length bufs < MAX_BUFFERED_FRAMES \<Longrightarrow> buf_inv b \<Longrightarrow>
    reas_inv (om_insert k b bufs)"
  by (auto simp: reas_inv_def om_invar_insert om_get_insert om.len_insert)

lemma reas_inv_remove: "reas_inv bufs \<Longrightarrow> reas_inv (om_remove k bufs)"
  by (auto simp: reas_inv_def om_invar_remove om_get_remove om.len_remove split: if_splits)

lemma reas_inv_evict: "reas_inv bufs \<Longrightarrow> reas_inv (evict_oldest k bufs)"
  by (auto simp: evict_oldest_def reas_inv_remove split: option.split)

lemma evict_oldest_len:
  "reas_inv bufs \<Longrightarrow> om_get (evict_oldest k bufs) k = None \<Longrightarrow> length (evict_oldest k bufs) < MAX_BUFFERED_FRAMES"
  unfolding evict_oldest_room reas_inv_def
  by (rule om.make_room_len) (auto simp: om.make_room_get MAX_BUFFERED_FRAMES_def)

lemma reas_inv_ingest_fragment:
  assumes "reas_inv bufs" and "om_get bufs key \<noteq> None" and "length (fb_slots buf) = unat (fb_total_frags buf)"
    and "fb_received buf = length (filter (\<lambda>s. s \<noteq> None) (fb_slots buf))"
  shows "reas_inv (fst (ingest_fragment bufs key buf v d))"
proof -
  have le: "fb_received buf < 256"
    using assms(3,4) unat_u8_less [of "fb_total_frags buf"] length_filter_le [of "\<lambda>s. s \<noteq> None" "fb_slots buf"]
    by linarith
  then have add: "usz_add (fb_received buf) 1 = Suc (fb_received buf)"
    by (simp add: usz_add_def usize_max_def)
  let ?i = "unat (frag_index v)" and ?h = "usz_add COMMON_HEADER_LEN VIDEO_HEADER_LEN"
  let ?b = "buf\<lparr>fb_slots := (fb_slots buf)[?i := Some (drop ?h d)], fb_received := Suc (fb_received buf)\<rparr>"
  have "buf_inv ?b" if "?i < length (fb_slots buf)" "fb_slots buf ! ?i = None"
      "Suc (fb_received buf) \<noteq> unat (fb_total_frags buf)"
  proof -
    have "length (filter (\<lambda>s. s \<noteq> None) (fb_slots ?b)) = Suc (fb_received buf)"
      using filter_update_Some [OF that(1,2)] assms(4) by simp
    moreover have "\<dots> \<le> unat (fb_total_frags buf)"
      using length_filter_le [of "\<lambda>s. s \<noteq> None" "fb_slots ?b"] calculation assms(3) by simp
    ultimately show ?thesis using that(3) assms(3) by (simp add: buf_inv_def)
  qed
  then have "reas_inv (om_insert key ?b bufs)" if "?i < length (fb_slots buf)" "fb_slots buf ! ?i = None"
      "Suc (fb_received buf) \<noteq> unat (fb_total_frags buf)"
    using that reas_inv_insert [OF assms(1)] assms(2) by blast
  then show ?thesis
    using assms(1) reas_inv_remove [OF assms(1)] add
    by (auto simp: ingest_fragment_def Let_def get_at_def split: if_splits option.splits)
qed

lemma reas_inv_ingest: "reas_inv bufs \<Longrightarrow> reas_inv (fst (ingest bufs d))"
proof -
  assume inv: "reas_inv bufs"
  have "reas_inv (fst (let bufs1 = evict_oldest k bufs;
          bufs2 = (case om_get bufs1 k of None \<Rightarrow> om_insert k (new_buffer c v) bufs1 | Some _ \<Rightarrow> bufs1)
       in case om_get bufs2 k of None \<Rightarrow> (bufs2, None) | Some buf \<Rightarrow> ingest_fragment bufs2 k buf v d))"
    if "total_frags v \<noteq> 0" for k c v
  proof -
    note e = reas_inv_evict [OF inv, of k]
    have nb: "buf_inv (new_buffer c v)"
      using that by (auto simp: buf_inv_def new_buffer_def unat_gt_0)
    show ?thesis
    proof (cases "om_get (evict_oldest k bufs) k")
      case None
      then have "reas_inv (om_insert k (new_buffer c v) (evict_oldest k bufs))"
        using e nb reas_inv_insert evict_oldest_len [OF inv] by blast
      then show ?thesis using None nb
        by (simp add: om_get_insert reas_inv_ingest_fragment buf_inv_def)
    next
      case (Some b)
      then have "buf_inv b" using e by (auto simp: reas_inv_def)
      then show ?thesis using Some e by (simp add: reas_inv_ingest_fragment buf_inv_def)
    qed
  qed
  then show ?thesis using inv
    by (auto simp: ingest_def Let_def split: sum.splits)
qed

lemma reas_inv_ingest_all: "reas_inv bufs \<Longrightarrow> reas_inv (fst (ingest_all bufs ds))"
  by (induction ds arbitrary: bufs) (auto simp: case_prod_beta Let_def reas_inv_ingest)

subsection \<open>Properties\<close>

text \<open>
  C7. Fragmentation and reassembly are inverse, in any delivery order. If \<open>fragment_frame\<close>
  succeeds, then feeding its datagrams in any order to a reassembler that holds nothing for
  that frame yields no frame until the last one, and then exactly the frame that was sent, its
  id cut to 24 bits and its timestamp to 32. The other buffers are kept, except the oldest
  when the buffer was full.
\<close>

theorem reassemble_any_order:
  assumes "fragment_frame p seq mx = Inr frags" and "length (ep_data p) < 2 ^ 64"
    and "mset ds = mset frags"
    and "om_get bufs (packet_key p) = None" and "om_invar bufs"
  shows "ingest_all bufs ds =
     (evict_oldest (packet_key p) bufs, replicate (length frags - 1) None @ [Some (packet_norm p)])"
proof -
  define cs where "cs = mx - 21"
  define n where "n = num_frags p cs"
  note fr = fragment_frame_Ok [OF assms(1), folded cs_def, folded n_def]
  have "mset ds = image_mset (nth frags) (mset [0..<n])"
    using assms(3) fr(4) by (metis map_nth mset_map)
  then obtain js where js: "mset js = mset [0..<n]" "ds = map (nth frags) js"
    using mset_map_split by blast
  then have d: "distinct js" "set js = {0..<n}" "length js = n"
    by (metis mset_eq_imp_distinct_iff distinct_upt, metis mset_eq_setD set_upt, metis size_mset length_upt minus_nat.diff_0)
  then obtain k ks where k: "js = k # ks" using fr(2) by (cases js) auto
  define e where "e = evict_oldest (packet_key p) bufs"
  define b where "b = om_insert (packet_key p) (partial p cs n {}) e"
  have get_e: "om_get e (packet_key p) = None"
    using om.make_room_get [OF assms(5)] assms(4) by (simp add: e_def evict_oldest_room)
  have get_b: "om_get b (packet_key p) = Some (partial p cs n {})" by (simp add: b_def om_get_insert)
  have "k < n" using d(2) k by auto
  then have "ingest bufs (frags ! k) = ingest b (frags ! k)"
    using ingest_frag [of p seq cs n k "frags ! k"] fr(3,5) get_e get_b
    by (simp add: e_def [symmetric] new_buffer_partial b_def [symmetric] evict_oldest_present)
  then have "ingest_all bufs ds = ingest_all b ds" by (simp add: js(2) k)
  also have "\<dots> = (om_remove (packet_key p) b, replicate (length js - 1) None
        @ [Some (packet_norm p\<lparr>ep_data := concat (map (frag_chunk p cs) [0..<n])\<rparr>)])"
    unfolding js(2) by (rule ingest_all_partial [OF fr(5,3)]) (use d fr(2) get_b in auto)
  also have "om_remove (packet_key p) b = e" by (simp add: b_def om_remove_absent get_e)
  also have "concat (map (frag_chunk p cs) [0..<n]) = ep_data p"
    unfolding n_def by (rule chunks_tile) (use fr assms(2) in \<open>auto simp: n_def\<close>)
  finally show ?thesis by (simp add: e_def d(3) fr(4) packet_norm_def)
qed

theorem reassemble_any_order_witness:
  "\<exists>frags. fragment_frame \<lparr>ep_data = [1, 2, 3], ep_codec = H264, ep_frame_id = 5, ep_capture_ts_us = 9,
       ep_frame_type = Idr\<rparr> 100 23 = Inr frags \<and> length frags = 2
     \<and> ingest_all reassembler_new (rev frags) = ([], [None, Some \<lparr>ep_data = [1, 2, 3], ep_codec = H264,
       ep_frame_id = 5, ep_capture_ts_us = 9, ep_frame_type = Idr\<rparr>])"
proof -
  let ?p = "\<lparr>ep_data = [1, 2, 3], ep_codec = H264, ep_frame_id = 5, ep_capture_ts_us = 9, ep_frame_type = Idr\<rparr>"
  obtain a b where ab: "fragment_frame ?p 100 23 = Inr [a, b]"
    by (simp add: fragment_frame_def usz_add_def usize_max_def COMMON_HEADER_LEN_def VIDEO_HEADER_LEN_def
        num_frags_def div_ceil_def Let_def upt_rec fragment_one_def frag_chunk_def usz_mul_def video_encode_def
        MAX_FRAME_ID_def MAX_MONITOR_ID_def)
  have "ingest_all reassembler_new (rev [a, b]) =
      (evict_oldest (packet_key ?p) reassembler_new, replicate (length [a, b] - 1) None @ [Some (packet_norm ?p)])"
    by (rule reassemble_any_order [OF ab]) (simp_all add: reassembler_new_def om_get_def om_invar_def)
  moreover have "evict_oldest (packet_key ?p) reassembler_new = []"
    by (simp add: evict_oldest_def reassembler_new_def om_first_def)
  moreover have "packet_norm ?p = ?p" by (simp add: packet_norm_def)
  ultimately show ?thesis using ab by (intro exI [of _ "[a, b]"]) simp
qed

text \<open>
  C8. The reassembler is bounded whatever arrives. After any sequence of datagrams, well-formed or
  hostile, at most 32 frames are buffered; each has as many slots as its fragment count, counts
  its filled slots correctly, and is still missing at least one fragment.
\<close>

theorem reassembler_bounded:
  "reas_inv (fst (ingest_all reassembler_new ds))"
  by (rule reas_inv_ingest_all) (simp add: reas_inv_def reassembler_new_def om_invar_def om_get_def)

end
