(* ===== verification/Crypto_Error.thy ===== *)
theory Crypto_Error
  imports Shp_Prelude
begin

text \<open>The error type of \<open>sh-crypto\<close>, \<open>src/crates/sh-crypto/src/error.rs\<close>.\<close>

datatype crypto_error =
    BadSignature
  | UntrustedPeer
  | MalformedKey string
  | MalformedSignature string
  | Backend string
  | MalformedBindCert string
  | NoiseStaticMismatch
  | DtlsBindingMissing
  | BindCertExpired
  | BindCertNotYetValid
  | HandshakeFailed string
  | Downgrade
  | SasMismatch
  | PakeConfirmationFailed
  | PairingCodeExpired
  | MalformedPakeMessage string
  | ReTrustAfterRevoke
  | AeadFailure
  | ReplayedFrame
  | EpochTooFarAhead
  | NonceExhausted
  | MalformedChannelFrame string
  | MalformedUgc string
  | UgcBadSignature
  | UgcWrongGrantee
  | UgcExpired
  | UgcRevoked

end
