(* ===== verification/Ratchet.thy ===== *)
theory Ratchet
  imports Crypto_Error Ord_Map
begin

text \<open>
  The per-channel key ratchet of \<open>src/crates/sh-crypto/src/channel_crypto.rs\<close> (\<open>RatchetChain\<close>).
  HKDF and the AEAD come from crates outside the sources: they are the fields of the parameter
  \<open>crypto\<close>. \<open>hkdf_total\<close> and \<open>aead_correct\<close> state what their documentation promises.
\<close>

subsection \<open>Cryptographic primitives as parameters\<close>

text \<open>
  \<open>c_extract ikm\<close> is \<open>Hkdf::<Sha256>::extract(None, ikm)\<close>; \<open>c_from_prk\<close> tells whether
  \<open>Hkdf::from_prk\<close> accepts a key; \<open>c_expand prk info n\<close> is \<open>expand\<close> into \<open>n\<close> bytes;
  \<open>c_seal\<close> and \<open>c_open\<close> are \<open>ChaCha20Poly1305\<close> with key, nonce, associated data and message.
\<close>

record crypto =
  c_extract :: "bytes \<Rightarrow> bytes"
  c_from_prk :: "bytes \<Rightarrow> bool"
  c_expand :: "bytes \<Rightarrow> bytes \<Rightarrow> nat \<Rightarrow> bytes option"
  c_seal :: "bytes \<Rightarrow> bytes \<Rightarrow> bytes \<Rightarrow> bytes \<Rightarrow> bytes option"
  c_open :: "bytes \<Rightarrow> bytes \<Rightarrow> bytes \<Rightarrow> bytes \<Rightarrow> bytes option"

definition hkdf_total :: "crypto \<Rightarrow> bool" where
  "hkdf_total cr \<longleftrightarrow> (\<forall>ikm. length (c_extract cr ikm) = 32)
     \<and> (\<forall>prk. length prk = 32 \<longrightarrow> c_from_prk cr prk)
     \<and> (\<forall>prk info n. length prk = 32 \<longrightarrow> n \<le> 255 * 32 \<longrightarrow>
          (\<exists>k. c_expand cr prk info n = Some k \<and> length k = n))"

text \<open>The longest message ChaCha20-Poly1305 takes (RFC 8439, section 2.8).\<close>

definition AEAD_P_MAX :: nat where "AEAD_P_MAX = 274877906880"

definition aead_correct :: "crypto \<Rightarrow> bool" where
  "aead_correct cr \<longleftrightarrow> (\<forall>k n a m. length k = 32 \<longrightarrow> length n = 12 \<longrightarrow> length m \<le> AEAD_P_MAX \<longrightarrow>
     (\<exists>c. c_seal cr k n a m = Some c \<and> length c = length m + 16 \<and> c_open cr k n a c = Some m))"

text \<open>The bytes of a byte-string literal.\<close>

definition ascii :: "string \<Rightarrow> bytes" where
  "ascii s = map of_char s"

text \<open>
  An instance of the parameters, with which concrete inputs are evaluated: the expansion is the
  info string cut or padded to size, and the tag of a message is the first half of the key.
\<close>

definition plain_crypto :: crypto where
  "plain_crypto = \<lparr>c_extract = \<lambda>ikm. take 32 (ikm @ replicate 32 0),
     c_from_prk = \<lambda>prk. length prk \<ge> 32,
     c_expand = \<lambda>prk info n. Some (take n (drop 18 info @ replicate n 0)),
     c_seal = \<lambda>k n a m. Some (m @ take 16 k),
     c_open = \<lambda>k n a c. if 16 \<le> length c \<and> drop (length c - 16) c = take 16 k
       then Some (take (length c - 16) c) else None\<rparr>"

lemma plain_crypto_total: "hkdf_total plain_crypto"
  by (auto simp: hkdf_total_def plain_crypto_def min_def)

lemma plain_crypto_correct: "aead_correct plain_crypto"
  by (simp add: aead_correct_def plain_crypto_def)

subsection \<open>The chain\<close>

definition GEN_WINDOW :: u32 where "GEN_WINDOW = 2"
definition GEN_AHEAD_LIMIT :: u32 where "GEN_AHEAD_LIMIT = 2"
definition RATCHET_LABEL :: bytes where "RATCHET_LABEL = ascii ''shp ratchet v1''"

record ratchet_chain =
  rc_max_gen :: u32
  rc_live_keys :: "(u32, bytes) omap"

definition from_base_key :: "bytes \<Rightarrow> ratchet_chain" where
  "from_base_key base = \<lparr>rc_max_gen = 0, rc_live_keys = om_insert 0 base []\<rparr>"

definition derive_next_key :: "crypto \<Rightarrow> bytes \<Rightarrow> crypto_error + bytes" where
  "derive_next_key cr current =
     (let prk = c_extract cr current in
      if \<not> c_from_prk cr prk then Err AeadFailure
      else ok_or (c_expand cr prk RATCHET_LABEL 32) AeadFailure)"

definition retain_from :: "u32 \<Rightarrow> (u32, bytes) omap \<Rightarrow> (u32, bytes) omap" where
  "retain_from lo m = filter (\<lambda>p. fst p \<ge> lo) m"

text \<open>The loop that \<open>get_or_advance_to\<close> and \<open>commit_advance_to\<close> share.\<close>

function commit_advance_to :: "crypto \<Rightarrow> ratchet_chain \<Rightarrow> u32 \<Rightarrow> ratchet_chain \<times> (crypto_error + unit)" where
  "commit_advance_to cr c gen =
     (if rc_max_gen c < gen then
        let next_gen = sat_add (rc_max_gen c) 1 in
        case om_get (rc_live_keys c) (rc_max_gen c) of
          None \<Rightarrow> (c, Err AeadFailure)
        | Some current \<Rightarrow>
          (case derive_next_key cr current of
             Inl e \<Rightarrow> (c, Err e)
           | Inr next_key \<Rightarrow>
             commit_advance_to cr
               \<lparr>rc_max_gen = next_gen,
                rc_live_keys = retain_from (sat_sub next_gen GEN_WINDOW)
                  (om_insert next_gen next_key (rc_live_keys c))\<rparr> gen)
      else (c, Ok ()))"
  by auto
termination
proof (relation "measure (\<lambda>(cr, c, gen). unat gen - unat (rc_max_gen c))", goal_cases)
  case (2 cr c gen)
  then show ?case using unat_u32_less [of gen]
    by (simp add: word_less_nat_alt unat_sat_add)
qed simp

declare commit_advance_to.simps [simp del]

definition get_or_advance_to :: "crypto \<Rightarrow> ratchet_chain \<Rightarrow> u32 \<Rightarrow> ratchet_chain \<times> (crypto_error + bytes)" where
  "get_or_advance_to cr c gen =
     (let floor = sat_sub (rc_max_gen c) GEN_WINDOW;
          ahead_limit = sat_add (rc_max_gen c) GEN_AHEAD_LIMIT in
      if gen < floor then (c, Err ReplayedFrame)
      else if gen > ahead_limit then (c, Err (MalformedChannelFrame ''generation too far ahead''))
      else case commit_advance_to cr c gen of
        (c', Inl e) \<Rightarrow> (c', Err e)
      | (c', Inr _) \<Rightarrow> (c', ok_or (om_get (rc_live_keys c') gen) AeadFailure))"

fun derive_steps :: "crypto \<Rightarrow> nat \<Rightarrow> bytes \<Rightarrow> crypto_error + bytes" where
  "derive_steps cr 0 current = Ok current"
| "derive_steps cr (Suc n) current = and_then (derive_next_key cr current) (derive_steps cr n)"

definition derive_key_transient :: "crypto \<Rightarrow> ratchet_chain \<Rightarrow> u32 \<Rightarrow> crypto_error + bytes" where
  "derive_key_transient cr c gen =
     (let floor = sat_sub (rc_max_gen c) GEN_WINDOW;
          ahead_limit = sat_add (rc_max_gen c) GEN_AHEAD_LIMIT in
      if gen < floor then Err ReplayedFrame
      else if gen > ahead_limit then Err (MalformedChannelFrame ''generation too far ahead'')
      else case om_get (rc_live_keys c) gen of
        Some key \<Rightarrow> Ok key
      | None \<Rightarrow>
        and_then (ok_or (om_get (rc_live_keys c) (rc_max_gen c)) AeadFailure) (\<lambda>anchor.
          derive_steps cr (unat (sat_sub gen (rc_max_gen c))) anchor))"

subsection \<open>What the chain holds\<close>

text \<open>The key of a generation, as iterated derivation from the base key.\<close>

fun chain_key :: "crypto \<Rightarrow> bytes \<Rightarrow> nat \<Rightarrow> bytes" where
  "chain_key cr base 0 = base"
| "chain_key cr base (Suc g) = (case derive_next_key cr (chain_key cr base g) of Inr k \<Rightarrow> k | Inl _ \<Rightarrow> [])"

definition ratchet_inv :: "crypto \<Rightarrow> bytes \<Rightarrow> ratchet_chain \<Rightarrow> bool" where
  "ratchet_inv cr base c \<longleftrightarrow> om_invar (rc_live_keys c) \<and> length base = 32 \<and>
     (\<forall>g. om_get (rc_live_keys c) g =
        (if sat_sub (rc_max_gen c) GEN_WINDOW \<le> g \<and> g \<le> rc_max_gen c
         then Some (chain_key cr base (unat g)) else None))"

lemma derive_next_key_Ok:
  assumes "hkdf_total cr"
  obtains k where "derive_next_key cr x = Inr k" "length k = 32"
proof -
  have "length (c_extract cr x) = 32" "c_from_prk cr (c_extract cr x)"
    and "\<exists>k. c_expand cr (c_extract cr x) RATCHET_LABEL 32 = Some k \<and> length k = 32"
    using assms by (auto simp: hkdf_total_def)
  with that show thesis by (auto simp: derive_next_key_def Let_def)
qed

lemma chain_key_Suc:
  "hkdf_total cr \<Longrightarrow> derive_next_key cr (chain_key cr base g) = Inr (chain_key cr base (Suc g))"
  by (rule derive_next_key_Ok [of cr "chain_key cr base g"]) simp_all

lemma chain_key_length: "hkdf_total cr \<Longrightarrow> length base = 32 \<Longrightarrow> length (chain_key cr base g) = 32"
proof (cases g)
  case (Suc n)
  assume "hkdf_total cr"
  then show ?thesis by (rule derive_next_key_Ok [of cr "chain_key cr base n"]) (simp add: Suc)
qed simp

lemma derive_steps_chain:
  "hkdf_total cr \<Longrightarrow> derive_steps cr n (chain_key cr base g) = Inr (chain_key cr base (g + n))"
proof (induction n arbitrary: g)
  case (Suc n)
  then show ?case using Suc.IH [of "Suc g"] by (simp add: chain_key_Suc del: chain_key.simps(2))
qed simp

lemma om_get_retain: "om_get (retain_from lo m) g = (if lo \<le> g then om_get m g else None)"
  by (induction m) (auto simp: retain_from_def om_get_def)

lemma om_invar_retain: "om_invar m \<Longrightarrow> om_invar (retain_from lo m)"
  by (auto simp: om_invar_def retain_from_def sorted_wrt_map intro: sorted_wrt_filter)

lemma ratchet_inv_base: "length base = 32 \<Longrightarrow> ratchet_inv cr base (from_base_key base)"
  by (auto simp: ratchet_inv_def from_base_key_def om_invar_def om_get_def sat_sub_def word_le_nat_alt
      word_less_nat_alt GEN_WINDOW_def word_unat_eq_iff)

lemma ratchet_inv_get:
  assumes "ratchet_inv cr base c"
  shows "om_get (rc_live_keys c) g =
    (if unat (rc_max_gen c) - 2 \<le> unat g \<and> unat g \<le> unat (rc_max_gen c)
     then Some (chain_key cr base (unat g)) else None)"
  using assms by (simp add: ratchet_inv_def word_le_nat_alt unat_sat_sub GEN_WINDOW_def)

lemma ratchet_inv_step:
  assumes "hkdf_total cr" and "ratchet_inv cr base c" and "unat (rc_max_gen c) < 2 ^ 32 - 1"
  defines "g' \<equiv> sat_add (rc_max_gen c) 1"
  shows "ratchet_inv cr base \<lparr>rc_max_gen = g', rc_live_keys = retain_from (sat_sub g' GEN_WINDOW)
    (om_insert g' (chain_key cr base (unat g')) (rc_live_keys c))\<rparr>"
    and "unat g' = unat (rc_max_gen c) + 1"
proof -
  show g': "unat g' = unat (rc_max_gen c) + 1" using assms(3) by (simp add: g'_def unat_sat_add)
  have inv: "om_invar (rc_live_keys c)" "length base = 32" using assms(2) by (auto simp: ratchet_inv_def)
  show "ratchet_inv cr base \<lparr>rc_max_gen = g', rc_live_keys = retain_from (sat_sub g' GEN_WINDOW)
    (om_insert g' (chain_key cr base (unat g')) (rc_live_keys c))\<rparr>"
    unfolding ratchet_inv_def
    using inv ratchet_inv_get [OF assms(2)] g'
    by (auto simp: om_invar_retain om_invar_insert om_get_retain om_get_insert word_le_nat_alt unat_sat_sub
        GEN_WINDOW_def word_unat_eq_iff)
qed

lemma commit_advance_inv:
  assumes "hkdf_total cr" and "ratchet_inv cr base c"
  shows "\<exists>c'. commit_advance_to cr c gen = (c', Inr ()) \<and> ratchet_inv cr base c'
    \<and> rc_max_gen c' = max (rc_max_gen c) gen"
  using assms(2)
proof (induction "unat gen - unat (rc_max_gen c)" arbitrary: c rule: less_induct)
  case less
  show ?case
  proof (cases "rc_max_gen c < gen")
    case True
    define g' where "g' = sat_add (rc_max_gen c) 1"
    define c1 where "c1 = \<lparr>rc_max_gen = g', rc_live_keys = retain_from (sat_sub g' GEN_WINDOW)
      (om_insert g' (chain_key cr base (unat g')) (rc_live_keys c))\<rparr>"
    have lt: "unat (rc_max_gen c) < 2 ^ 32 - 1"
      using True unat_u32_less [of gen] by (simp add: word_less_nat_alt)
    note st = ratchet_inv_step [OF assms(1) less.prems lt, folded g'_def, folded c1_def]
    have key: "om_get (rc_live_keys c) (rc_max_gen c) = Some (chain_key cr base (unat (rc_max_gen c)))"
      by (simp add: ratchet_inv_get [OF less.prems])
    have "commit_advance_to cr c gen = commit_advance_to cr c1 gen"
      using True by (subst commit_advance_to.simps)
        (simp add: key chain_key_Suc [OF assms(1)] g'_def [symmetric] c1_def st(2) Let_def del: chain_key.simps(2))
    moreover have "unat gen - unat (rc_max_gen c1) < unat gen - unat (rc_max_gen c)"
      using True st(2) by (simp add: c1_def word_less_nat_alt)
    from less.hyps [OF this st(1)] obtain c' where "commit_advance_to cr c1 gen = (c', Inr ())"
        "ratchet_inv cr base c'" "rc_max_gen c' = max (rc_max_gen c1) gen" by blast
    moreover from True st(2) have "max (rc_max_gen c1) gen = max (rc_max_gen c) gen"
      by (auto simp: max_def c1_def word_le_nat_alt word_less_nat_alt word_unat_eq_iff)
    ultimately show ?thesis by auto
  next
    case False
    then show ?thesis using less.prems
      by (subst commit_advance_to.simps) (simp add: max_absorb1)
  qed
qed

lemma derive_key_transient_spec:
  assumes "hkdf_total cr" and "ratchet_inv cr base c"
  shows "derive_key_transient cr c gen =
    (if unat gen < unat (rc_max_gen c) - 2 then Inl ReplayedFrame
     else if unat gen > min (2 ^ 32 - 1) (unat (rc_max_gen c) + 2)
     then Inl (MalformedChannelFrame ''generation too far ahead'')
     else Inr (chain_key cr base (unat gen)))"
proof (cases "unat gen \<le> unat (rc_max_gen c)")
  case True
  then show ?thesis
    by (auto simp: derive_key_transient_def ratchet_inv_get [OF assms(2)] Let_def word_less_nat_alt
        unat_sat_sub unat_sat_add GEN_WINDOW_def GEN_AHEAD_LIMIT_def)
next
  case False
  then have "unat (rc_max_gen c) + unat (sat_sub gen (rc_max_gen c)) = unat gen" by (simp add: unat_sat_sub)
  then show ?thesis using False derive_steps_chain [OF assms(1), of "unat (sat_sub gen (rc_max_gen c))" base "unat (rc_max_gen c)"]
    by (auto simp: derive_key_transient_def ratchet_inv_get [OF assms(2)] Let_def word_less_nat_alt
        unat_sat_sub unat_sat_add GEN_WINDOW_def GEN_AHEAD_LIMIT_def)
qed

lemma get_or_advance_spec:
  assumes "hkdf_total cr" and "ratchet_inv cr base c"
    and "unat (rc_max_gen c) - 2 \<le> unat gen" and "unat gen \<le> unat (rc_max_gen c) + 2"
  shows "\<exists>c'. get_or_advance_to cr c gen = (c', Inr (chain_key cr base (unat gen))) \<and> ratchet_inv cr base c'
    \<and> rc_max_gen c' = max (rc_max_gen c) gen"
proof -
  obtain c' where c': "commit_advance_to cr c gen = (c', Inr ())" "ratchet_inv cr base c'"
      "rc_max_gen c' = max (rc_max_gen c) gen"
    using commit_advance_inv [OF assms(1,2)] by blast
  have "\<not> gen < sat_sub (rc_max_gen c) GEN_WINDOW" "\<not> gen > sat_add (rc_max_gen c) GEN_AHEAD_LIMIT"
    using assms(3,4) unat_u32_less [of gen]
    by (auto simp: word_less_nat_alt unat_sat_sub unat_sat_add GEN_WINDOW_def GEN_AHEAD_LIMIT_def)
  moreover have "om_get (rc_live_keys c') gen = Some (chain_key cr base (unat gen))"
    using c'(3) assms(3) by (auto simp: ratchet_inv_get [OF c'(2)] max_def word_le_nat_alt)
  ultimately show ?thesis using c' by (simp add: get_or_advance_to_def Let_def)
qed

end
