(* ===== verification/Replay_Window.thy ===== *)
theory Replay_Window
  imports Crypto_Error
begin

text \<open>
  The anti-replay window of \<open>src/crates/sh-crypto/src/channel_crypto.rs\<close>: a 1024-bit sliding
  bitmap of sixteen \<open>u64\<close> words. \<open>check\<close>, \<open>accept\<close> and \<open>shift_bits\<close> follow the code word for
  word, in-place loops included. The locale \<open>replay_filter\<close> is what the channel code needs of it
  (a refusal is permanent and an accepted number is refused), and the lemmas at the end give the
  exact set of numbers the window refuses.
\<close>

subsection \<open>The contract\<close>

locale replay_filter =
  fixes refused :: "'w \<Rightarrow> u64 \<Rightarrow> bool"
    and accept :: "'w \<Rightarrow> u64 \<Rightarrow> 'w"
    and invar :: "'w \<Rightarrow> bool"
  assumes accept_invar: "invar w \<Longrightarrow> \<not> refused w s \<Longrightarrow> invar (accept w s)"
    and accept_refuses: "invar w \<Longrightarrow> \<not> refused w s \<Longrightarrow> refused (accept w s) s"
    and accept_keeps: "invar w \<Longrightarrow> \<not> refused w s \<Longrightarrow> refused w t \<Longrightarrow> refused (accept w s) t"
begin

text \<open>The numbers that pass when \<open>ss\<close> arrive in order, and the window afterwards.\<close>

fun passed :: "'w \<Rightarrow> u64 list \<Rightarrow> u64 list" where
  "passed w [] = []"
| "passed w (s # ss) = (if refused w s then passed w ss else s # passed (accept w s) ss)"

fun after :: "'w \<Rightarrow> u64 list \<Rightarrow> 'w" where
  "after w [] = w"
| "after w (s # ss) = (if refused w s then after w ss else after (accept w s) ss)"

lemma passed_not_refused: "invar w \<Longrightarrow> s \<in> set (passed w ss) \<Longrightarrow> \<not> refused w s"
proof (induction ss arbitrary: w)
  case (Cons t ss)
  show ?case
  proof (cases "refused w t")
    case False
    then consider "s = t" | "\<not> refused (accept w t) s"
      using Cons accept_invar by auto
    then show ?thesis using False accept_keeps Cons.prems(1) by metis
  qed (use Cons in auto)
qed simp

lemma passed_distinct: "invar w \<Longrightarrow> distinct (passed w ss)"
  by (induction ss arbitrary: w) (auto simp: accept_invar dest: passed_not_refused [rotated] accept_refuses)

lemma after_invar: "invar w \<Longrightarrow> invar (after w ss)"
  by (induction ss arbitrary: w) (auto simp: accept_invar)

lemma after_keeps: "invar w \<Longrightarrow> refused w t \<Longrightarrow> refused (after w ss) t"
  by (induction ss arbitrary: w) (auto simp: accept_invar accept_keeps)

lemma after_refuses_passed: "invar w \<Longrightarrow> s \<in> set (passed w ss) \<Longrightarrow> refused (after w ss) s"
  by (induction ss arbitrary: w) (auto simp: accept_invar accept_refuses after_keeps)

end

subsection \<open>The window\<close>

definition REPLAY_WINDOW :: nat where "REPLAY_WINDOW = 1024"
definition REPLAY_WINDOW_WORDS :: nat where "REPLAY_WINDOW_WORDS = REPLAY_WINDOW div 64"

record replay_window =
  rw_high :: u64
  rw_bits :: "u64 list"
  rw_initialized :: bool

definition replay_new :: replay_window where
  "replay_new = \<lparr>rw_high = 0, rw_bits = replicate REPLAY_WINDOW_WORDS 0, rw_initialized = False\<rparr>"

definition replay_check :: "replay_window \<Rightarrow> u64 \<Rightarrow> crypto_error + unit" where
  "replay_check w seq =
     (if \<not> rw_initialized w then Ok ()
      else let floor = sat_sub (rw_high w) (of_nat (REPLAY_WINDOW - 1)) in
        if seq < floor then Err ReplayedFrame
        else if seq \<le> rw_high w then
          let offset = sat_sub (rw_high w) seq;
              word = unat (offset div 64);
              b = unat (offset mod 64)
          in (case get_at (rw_bits w) word of
                Some x \<Rightarrow> if drop_bit b x AND 1 = 1 then Err ReplayedFrame else Ok ()
              | None \<Rightarrow> Ok ())
        else Ok ())"

text \<open>\<open>get_mut(i)\<close> followed by an assignment: nothing happens out of range.\<close>

definition set_at :: "'a list \<Rightarrow> nat \<Rightarrow> 'a \<Rightarrow> 'a list" where
  "set_at xs i x = xs[i := x]"

definition word_slide :: "nat \<Rightarrow> u64 list \<Rightarrow> nat \<Rightarrow> u64 list" where
  "word_slide word_shift bits i =
     (if i \<ge> word_shift
      then set_at bits i (case get_at bits (i - word_shift) of Some x \<Rightarrow> x | None \<Rightarrow> 0)
      else set_at bits i 0)"

definition bit_slide :: "nat \<Rightarrow> nat \<Rightarrow> u64 list \<Rightarrow> nat \<Rightarrow> u64 list" where
  "bit_slide bit_shift anti_shift bits i =
     (let shifted = push_bit bit_shift (case get_at bits i of Some x \<Rightarrow> x | None \<Rightarrow> 0);
          carry = (if i > 0 then drop_bit anti_shift (case get_at bits (i - 1) of Some x \<Rightarrow> x | None \<Rightarrow> 0) else 0)
      in set_at bits i (shifted OR carry))"

definition shift_bits :: "u64 list \<Rightarrow> u64 \<Rightarrow> u64 list" where
  "shift_bits bits n =
     (let word_shift = unat (n div 64);
          bit_shift = unat (n mod 64);
          bits1 = (if word_shift > 0
                   then foldl (word_slide word_shift) bits (rev [0..<REPLAY_WINDOW_WORDS]) else bits)
      in if bit_shift > 0
         then foldl (bit_slide bit_shift (64 - bit_shift)) bits1 (rev [0..<REPLAY_WINDOW_WORDS])
         else bits1)"

definition mark :: "u64 list \<Rightarrow> nat \<Rightarrow> u64 \<Rightarrow> u64 list" where
  "mark bits i m = (case get_at bits i of Some x \<Rightarrow> set_at bits i (x OR m) | None \<Rightarrow> bits)"

definition replay_accept :: "replay_window \<Rightarrow> u64 \<Rightarrow> replay_window" where
  "replay_accept w seq =
     (if \<not> rw_initialized w
      then w\<lparr>rw_initialized := True, rw_high := seq, rw_bits := mark (rw_bits w) 0 1\<rparr>
      else if seq > rw_high w then
        let shift = sat_sub seq (rw_high w);
            bits = (if shift \<ge> of_nat REPLAY_WINDOW then map (\<lambda>_. 0) (rw_bits w)
                    else shift_bits (rw_bits w) shift)
        in w\<lparr>rw_high := seq, rw_bits := mark bits 0 1\<rparr>
      else let offset = sat_sub (rw_high w) seq
        in w\<lparr>rw_bits := mark (rw_bits w) (unat (offset div 64)) (push_bit (unat (offset mod 64)) 1)\<rparr>)"

subsection \<open>The bitmap as a set of offsets\<close>

definition lbit :: "u64 list \<Rightarrow> nat \<Rightarrow> bool" where
  "lbit bits i \<longleftrightarrow> bit (bits ! (i div 64)) (i mod 64)"

text \<open>An in-place loop from the top down whose body reads only entries not yet written.\<close>

lemma foldl_rev_loop:
  assumes "\<And>i b. i < n \<Longrightarrow> length b = m \<Longrightarrow> g b i = b[i := f i b]"
    and "\<And>i b b'. i < n \<Longrightarrow> length b = m \<Longrightarrow> length b' = m \<Longrightarrow> (\<And>j. j \<le> i \<Longrightarrow> b ! j = b' ! j) \<Longrightarrow> f i b = f i b'"
    and "n \<le> m" and "length b = m"
  shows "foldl g b (rev [0..<n]) = map (\<lambda>i. f i b) [0..<n] @ drop n b"
  using assms
proof (induction n arbitrary: b)
  case 0
  show ?case by simp
next
  case (Suc n)
  let ?b = "b[n := f n b]"
  have "foldl g b (rev [0..<Suc n]) = foldl g ?b (rev [0..<n])"
    using Suc.prems(1) [of n b] Suc.prems(4) by simp
  also have "\<dots> = map (\<lambda>i. f i ?b) [0..<n] @ drop n ?b"
  proof (rule Suc.IH)
    show "g b i = b[i := f i b]" if "i < n" "length b = m" for i b
      using Suc.prems(1) that by simp
    show "f i b = f i b'" if "i < n" "length b = m" "length b' = m" "\<And>j. j \<le> i \<Longrightarrow> b ! j = b' ! j" for i b b'
      by (rule Suc.prems(2)) (use that in \<open>simp_all only: less_SucI\<close>)
  qed (use Suc.prems(3,4) in simp_all)
  also have "map (\<lambda>i. f i ?b) [0..<n] = map (\<lambda>i. f i b) [0..<n]"
  proof (rule map_cong [OF refl])
    fix i assume "i \<in> set [0..<n]"
    then have i: "i < n" by simp
    show "f i ?b = f i b"
      by (rule Suc.prems(2)) (use i Suc.prems(4) in simp_all)
  qed
  also have "drop n ?b = f n b # drop (Suc n) b"
    using Suc.prems(3,4) by (subst Cons_nth_drop_Suc [symmetric]) simp_all
  finally show ?case by simp
qed

lemma word_slide_loop:
  assumes "length bits = 16"
  shows "foldl (word_slide k) bits (rev [0..<16]) = map (\<lambda>i. if k \<le> i then bits ! (i - k) else 0) [0..<16]"
proof -
  have "foldl (word_slide k) bits (rev [0..<16]) =
      map (\<lambda>i. if k \<le> i then bits ! (i - k) else 0) [0..<16] @ drop 16 bits"
    by (rule foldl_rev_loop [where m = 16 and f = "\<lambda>i b. if k \<le> i then b ! (i - k) else 0"])
      (use assms in \<open>simp_all add: word_slide_def set_at_def get_at_def less_imp_diff_less\<close>)
  then show ?thesis using assms by (simp del: upt_Suc)
qed

lemma bit_slide_loop:
  assumes "length bits = 16"
  shows "foldl (bit_slide k a) bits (rev [0..<16]) =
     map (\<lambda>i. push_bit k (bits ! i) OR (if i > 0 then drop_bit a (bits ! (i - 1)) else 0)) [0..<16]"
proof -
  have "foldl (bit_slide k a) bits (rev [0..<16]) =
      map (\<lambda>i. push_bit k (bits ! i) OR (if i > 0 then drop_bit a (bits ! (i - 1)) else 0)) [0..<16] @ drop 16 bits"
    by (rule foldl_rev_loop [where m = 16
          and f = "\<lambda>i b. push_bit k (b ! i) OR (if i > 0 then drop_bit a (b ! (i - 1)) else 0)"])
      (use assms in \<open>auto simp: bit_slide_def set_at_def get_at_def Let_def\<close>)
  then show ?thesis using assms by (simp del: upt_Suc)
qed

lemma lbit_word_slide:
  assumes "i < 1024"
  shows "lbit (map (\<lambda>i. if k \<le> i then bits ! (i - k) else 0) [0..<16]) i \<longleftrightarrow> 64 * k \<le> i \<and> lbit bits (i - 64 * k)"
proof -
  have q: "i div 64 < 16" using assms by simp
  have "64 * k \<le> i \<longleftrightarrow> k \<le> i div 64" by (simp add: less_eq_div_iff_mult_less_eq mult.commute)
  moreover have "(i - 64 * k) div 64 = i div 64 - k" "64 * k \<le> i \<Longrightarrow> (i - 64 * k) mod 64 = i mod 64"
    by (simp add: div_mult_self1_is_m, metis le_add_diff_inverse mod_mult_self2 add.commute)
  ultimately show ?thesis using q by (simp add: lbit_def)
qed

lemma lbit_bit_slide:
  assumes "i < 1024" and "k < 64"
  shows "lbit (map (\<lambda>i. push_bit k (bits ! i) OR (if i > 0 then drop_bit (64 - k) (bits ! (i - 1)) else 0)) [0..<16]) i
    \<longleftrightarrow> k \<le> i \<and> lbit bits (i - k)"
proof -
  define q r where "q = i div 64" and "r = i mod 64"
  have i: "i = 64 * q + r" and r: "r < 64" and q: "q < 16" using assms(1) by (auto simp: q_def r_def)
  show ?thesis
  proof (cases "k \<le> r")
    case True
    then have "i - k = 64 * q + (r - k)" using i by simp
    then have "(i - k) div 64 = q" "(i - k) mod 64 = r - k" using r by simp_all
    moreover have "\<not> bit (drop_bit (64 - k) x) r" for x :: u64
      using True assms(2) bit_imp_le_length [of x "64 - k + r"] by (auto simp: bit_drop_bit_eq)
    ultimately show ?thesis using True r q i
      by (simp add: lbit_def q_def [symmetric] r_def [symmetric] bit_or_iff bit_push_bit_iff)
  next
    case False
    show ?thesis
    proof (cases "q = 0")
      case True
      then show ?thesis using False r i
        by (simp add: lbit_def q_def [symmetric] r_def [symmetric] bit_push_bit_iff)
    next
      case q0: False
      have "i - k = 64 * (q - 1) + (64 - k + r)"
        using i q0 False assms(2) by (cases q) auto
      moreover have "64 - k + r < 64" using False assms(2) by linarith
      ultimately have "(i - k) div 64 = q - 1" "(i - k) mod 64 = 64 - k + r" by auto
      then show ?thesis using False q0 r q i assms(2)
        by (auto simp: lbit_def q_def [symmetric] r_def [symmetric] bit_or_iff bit_push_bit_iff bit_drop_bit_eq)
    qed
  qed
qed

lemma shift_bits_length: "length bits = 16 \<Longrightarrow> length (shift_bits bits n) = 16"
  by (simp add: shift_bits_def REPLAY_WINDOW_WORDS_def REPLAY_WINDOW_def word_slide_loop bit_slide_loop Let_def
      del: upt_Suc)

lemma lbit_shift_bits:
  assumes "length bits = 16" and "i < 1024"
  shows "lbit (shift_bits bits n) i \<longleftrightarrow> unat n \<le> i \<and> lbit bits (i - unat n)"
proof -
  define k where "k = unat (n div 64)"
  define r where "r = unat (n mod 64)"
  have r: "r < 64" by (simp add: r_def unat_mod)
  have n: "unat n = 64 * k + r" by (simp add: k_def r_def unat_div unat_mod)
  define b1 where "b1 = (if k > 0 then map (\<lambda>i. if k \<le> i then bits ! (i - k) else 0) [0..<16] else bits)"
  have len: "length b1 = 16" by (simp add: b1_def assms(1) del: upt_Suc)
  have l1: "lbit b1 j \<longleftrightarrow> 64 * k \<le> j \<and> lbit bits (j - 64 * k)" if "j < 1024" for j
    using lbit_word_slide [OF that, of k bits] by (auto simp: b1_def)
  have "(if k > 0 then foldl (word_slide k) bits (rev [0..<16]) else bits) = b1"
    by (simp add: b1_def word_slide_loop [OF assms(1)] del: upt_Suc)
  then have "shift_bits bits n = (if r > 0 then foldl (bit_slide r (64 - r)) b1 (rev [0..<16]) else b1)"
    by (auto simp: shift_bits_def REPLAY_WINDOW_WORDS_def REPLAY_WINDOW_def Let_def k_def [symmetric] r_def [symmetric]
        simp del: upt_Suc split: if_splits)
  then have "shift_bits bits n = (if r > 0 then map (\<lambda>i. push_bit r (b1 ! i) OR
      (if i > 0 then drop_bit (64 - r) (b1 ! (i - 1)) else 0)) [0..<16] else b1)"
    unfolding bit_slide_loop [OF len] .
  then have "lbit (shift_bits bits n) i \<longleftrightarrow> r \<le> i \<and> lbit b1 (i - r)"
    using lbit_bit_slide [OF assms(2) r, of b1] by auto
  also have "\<dots> \<longleftrightarrow> r \<le> i \<and> 64 * k \<le> i - r \<and> lbit bits (i - r - 64 * k)"
    using l1 [of "i - r"] assms(2) by auto
  also have "\<dots> \<longleftrightarrow> unat n \<le> i \<and> lbit bits (i - unat n)"
    unfolding n by (auto simp: diff_diff_left add.commute)
  finally show ?thesis .
qed

lemma mark_length [simp]: "length (mark bits i m) = length bits"
  by (simp add: mark_def set_at_def split: option.split)

lemma lbit_mark:
  assumes "length bits = 16" and "j < 1024" and "i < 1024"
  shows "lbit (mark bits (j div 64) (push_bit (j mod 64) 1)) i \<longleftrightarrow> i = j \<or> lbit bits i"
proof -
  have j: "j div 64 < 16" "j mod 64 < 64" using assms(2) by auto
  have eq: "i = j \<longleftrightarrow> i div 64 = j div 64 \<and> i mod 64 = j mod 64"
    by (metis div_mult_mod_eq)
  have "lbit (mark bits (j div 64) (push_bit (j mod 64) 1)) i \<longleftrightarrow>
      bit (bits[j div 64 := bits ! (j div 64) OR push_bit (j mod 64) 1] ! (i div 64)) (i mod 64)"
    using j assms(1) by (simp add: lbit_def mark_def set_at_def get_at_def)
  also have "\<dots> \<longleftrightarrow> i = j \<or> lbit bits i"
    using j assms(1,3) by (auto simp: eq lbit_def nth_list_update bit_or_iff bit_push_bit_iff bit_1_iff bit_exp_iff)
  finally show ?thesis .
qed

lemma lbit_mark0: "length bits = 16 \<Longrightarrow> i < 1024 \<Longrightarrow> lbit (mark bits 0 1) i \<longleftrightarrow> i = 0 \<or> lbit bits i"
  using lbit_mark [of bits 0 i] by simp

subsection \<open>Refinement: the window tracks the set of accepted numbers\<close>

text \<open>
  \<open>tracks w A\<close>: the window \<open>w\<close> represents the accepted numbers \<open>A\<close>, of which it remembers
  the largest and, exactly, those less than 1024 below it.
\<close>

definition tracks :: "replay_window \<Rightarrow> nat set \<Rightarrow> bool" where
  "tracks w A \<longleftrightarrow> length (rw_bits w) = 16 \<and> finite A \<and>
     (if rw_initialized w
      then A \<noteq> {} \<and> unat (rw_high w) = Max A
           \<and> (\<forall>i < 1024. i \<le> unat (rw_high w) \<longrightarrow> lbit (rw_bits w) i = (unat (rw_high w) - i \<in> A))
      else A = {} \<and> (\<forall>i < 1024. \<not> lbit (rw_bits w) i))"

definition refuses :: "nat set \<Rightarrow> nat \<Rightarrow> bool" where
  "refuses A s \<longleftrightarrow> A \<noteq> {} \<and> (s \<in> A \<or> s + 1024 \<le> Max A)"

lemma tracks_new: "tracks replay_new {}"
  by (simp add: tracks_def replay_new_def REPLAY_WINDOW_WORDS_def REPLAY_WINDOW_def lbit_def)

lemma bit_test: "(drop_bit b x AND 1 = 1) = bit (x :: u64) b"
proof -
  have "drop_bit b x AND 1 = of_bool (bit x b)"
    by (simp add: and_one_eq mod2_eq_if even_drop_bit_iff_not_bit)
  then show ?thesis by simp
qed

lemma tracks_check:
  assumes "tracks w A"
  shows "replay_check w s = (if refuses A (unat s) then Inl ReplayedFrame else Inr ())"
proof (cases "rw_initialized w")
  case False
  with assms show ?thesis by (simp add: replay_check_def tracks_def refuses_def)
next
  case True
  let ?h = "unat (rw_high w)"
  have A: "A \<noteq> {}" "finite A" "?h = Max A" "length (rw_bits w) = 16"
    and b: "\<And>i. i < 1024 \<Longrightarrow> i \<le> ?h \<Longrightarrow> lbit (rw_bits w) i = (?h - i \<in> A)"
    using assms True by (auto simp: tracks_def)
  have fl: "s < sat_sub (rw_high w) (of_nat (REPLAY_WINDOW - 1)) \<longleftrightarrow> unat s + 1024 \<le> ?h"
    by (auto simp: word_less_nat_alt unat_sat_sub REPLAY_WINDOW_def)
  show ?thesis
  proof (cases "unat s + 1024 \<le> ?h")
    case True
    then show ?thesis using \<open>rw_initialized w\<close> A fl by (simp add: replay_check_def refuses_def Let_def)
  next
    case low: False
    show ?thesis
    proof (cases "s \<le> rw_high w")
      case True
      define o' where "o' = ?h - unat s"
      have o': "o' < 1024" "o' \<le> ?h" "?h - o' = unat s"
        using low True by (auto simp: o'_def word_le_nat_alt)
      then have "get_at (rw_bits w) (o' div 64) = Some (rw_bits w ! (o' div 64))"
        using A by (simp add: get_at_def)
      moreover have "unat (sat_sub (rw_high w) s div 64) = o' div 64" "unat (sat_sub (rw_high w) s mod 64) = o' mod 64"
        by (simp_all add: unat_div unat_mod unat_sat_sub o'_def)
      ultimately have "replay_check w s = (if lbit (rw_bits w) o' then Inl ReplayedFrame else Inr ())"
        using \<open>rw_initialized w\<close> low True fl by (simp add: replay_check_def Let_def bit_test lbit_def)
      then show ?thesis using b [OF o'(1,2)] o'(3) A low by (simp add: refuses_def)
    next
      case False
      then have "unat s \<notin> A" using A Max_ge [of A "unat s"] by (auto simp: word_le_nat_alt)
      then show ?thesis using False low fl \<open>rw_initialized w\<close> A
        by (simp add: replay_check_def Let_def refuses_def)
    qed
  qed
qed

lemma tracks_accept_first:
  assumes "tracks w A" and "\<not> rw_initialized w"
  shows "tracks (replay_accept w s) (insert (unat s) A)"
proof -
  have "A = {}" "length (rw_bits w) = 16" "\<And>i. i < 1024 \<Longrightarrow> \<not> lbit (rw_bits w) i"
    using assms by (auto simp: tracks_def)
  then show ?thesis using assms(2) by (auto simp: tracks_def replay_accept_def lbit_mark0)
qed

lemma tracks_accept_new_high:
  assumes "tracks w A" and "rw_initialized w" and "rw_high w < s"
  shows "tracks (replay_accept w s) (insert (unat s) A)"
proof -
  define d where "d = unat s - unat (rw_high w)"
  have A: "A \<noteq> {}" "finite A" "unat (rw_high w) = Max A" "length (rw_bits w) = 16"
    and b: "\<And>i. i < 1024 \<Longrightarrow> i \<le> unat (rw_high w) \<Longrightarrow> lbit (rw_bits w) i = (unat (rw_high w) - i \<in> A)"
    using assms(1,2) by (auto simp: tracks_def)
  have h: "unat (rw_high w) < unat s" using assms(3) by (simp add: word_less_nat_alt)
  have gt: "x \<notin> A" if "unat (rw_high w) < x" for x using that A Max_ge [of A x] by auto
  have sh: "unat (sat_sub s (rw_high w)) = d" by (simp add: unat_sat_sub d_def)
  define bits where "bits = (if sat_sub s (rw_high w) \<ge> of_nat REPLAY_WINDOW then map (\<lambda>_. 0) (rw_bits w)
      else shift_bits (rw_bits w) (sat_sub s (rw_high w)))"
  have len: "length bits = 16" using A(4) by (simp add: bits_def shift_bits_length)
  have lb: "lbit bits i \<longleftrightarrow> d \<le> i \<and> lbit (rw_bits w) (i - d)" if "i < 1024" for i
    using that A(4) by (auto simp: bits_def word_le_nat_alt sh REPLAY_WINDOW_def lbit_shift_bits)
       (auto simp: lbit_def)
  have acc: "replay_accept w s = w\<lparr>rw_high := s, rw_bits := mark bits 0 1\<rparr>"
    using assms(2,3) by (simp add: replay_accept_def bits_def Let_def)
  have "lbit (mark bits 0 1) i = (unat s - i \<in> insert (unat s) A)" if "i < 1024" "i \<le> unat s" for i
  proof (cases "d \<le> i")
    case True
    then have "unat s - i = unat (rw_high w) - (i - d)" using h that by (auto simp: d_def)
    moreover have "i - d \<le> unat (rw_high w)" using that h by (auto simp: d_def)
    moreover have "i \<noteq> 0" using True h by (auto simp: d_def)
    ultimately show ?thesis
      using that b [of "i - d"] True h by (auto simp: lbit_mark0 [OF len] lb)
  next
    case False
    then have "unat (rw_high w) < unat s - i" using h that by (auto simp: d_def)
    then show ?thesis using that False gt [of "unat s - i"] by (auto simp: lbit_mark0 [OF len] lb)
  qed
  moreover have "Max (insert (unat s) A) = unat s" using A h by simp
  ultimately show ?thesis using A assms(2) len by (simp add: tracks_def acc)
qed

lemma tracks_accept_old:
  assumes "tracks w A" and "rw_initialized w" and "s \<le> rw_high w" and "\<not> refuses A (unat s)"
  shows "tracks (replay_accept w s) (insert (unat s) A)"
proof -
  define d where "d = unat (rw_high w) - unat s"
  have A: "A \<noteq> {}" "finite A" "unat (rw_high w) = Max A" "length (rw_bits w) = 16"
    and b: "\<And>i. i < 1024 \<Longrightarrow> i \<le> unat (rw_high w) \<Longrightarrow> lbit (rw_bits w) i = (unat (rw_high w) - i \<in> A)"
    using assms(1,2) by (auto simp: tracks_def)
  have h: "unat s \<le> unat (rw_high w)" using assms(3) by (simp add: word_le_nat_alt)
  have d: "d < 1024" using assms(4) A h by (auto simp: refuses_def d_def)
  have acc: "replay_accept w s = w\<lparr>rw_bits := mark (rw_bits w) (d div 64) (push_bit (d mod 64) 1)\<rparr>"
    using assms(2,3) by (simp add: replay_accept_def Let_def unat_div unat_mod unat_sat_sub d_def)
  have "lbit (mark (rw_bits w) (d div 64) (push_bit (d mod 64) 1)) i = (unat (rw_high w) - i \<in> insert (unat s) A)"
    if "i < 1024" "i \<le> unat (rw_high w)" for i
    unfolding lbit_mark [OF A(4) d that(1)] using that h b [OF that] by (auto simp: d_def)
  moreover have "Max (insert (unat s) A) = Max A" using A h by (simp add: max_absorb2)
  ultimately show ?thesis using A assms(2) by (simp add: tracks_def acc)
qed

lemma tracks_accept:
  "tracks w A \<Longrightarrow> \<not> refuses A (unat s) \<Longrightarrow> tracks (replay_accept w s) (insert (unat s) A)"
  by (metis tracks_accept_first tracks_accept_new_high tracks_accept_old not_le)

lemma refuses_insert: "finite A \<Longrightarrow> refuses A t \<Longrightarrow> refuses (insert s A) t"
  by (auto simp: refuses_def max_def intro: le_trans)

definition replay_refused :: "replay_window \<Rightarrow> u64 \<Rightarrow> bool" where
  "replay_refused w s \<longleftrightarrow> replay_check w s \<noteq> Inr ()"

lemma tracks_refused: "tracks w A \<Longrightarrow> replay_refused w s \<longleftrightarrow> refuses A (unat s)"
  by (simp add: replay_refused_def tracks_check)

definition window_ok :: "replay_window \<Rightarrow> bool" where
  "window_ok w \<longleftrightarrow> (\<exists>A. tracks w A)"

lemma window_ok_new: "window_ok replay_new"
  unfolding window_ok_def using tracks_new by blast

interpretation replay: replay_filter replay_refused replay_accept window_ok
proof (unfold_locales, goal_cases)
  case (1 w s)
  then show ?case using tracks_accept tracks_refused unfolding window_ok_def by blast
next
  case (2 w s)
  then obtain A where A: "tracks w A" "\<not> refuses A (unat s)" using tracks_refused unfolding window_ok_def by blast
  show ?case using tracks_refused [OF tracks_accept [OF A]] by (simp add: refuses_def)
next
  case (3 w s t)
  then obtain A where A: "tracks w A" "\<not> refuses A (unat s)" "refuses A (unat t)"
    using tracks_refused unfolding window_ok_def by blast
  moreover have "finite A" using A(1) by (simp add: tracks_def)
  ultimately show ?case using tracks_refused [OF tracks_accept [OF A(1,2)]] refuses_insert by blast
qed

text \<open>A whole run: which numbers pass, and the window they leave.\<close>

lemma tracks_after:
  "tracks w A \<Longrightarrow> tracks (replay.after w ss) (A \<union> unat ` set (replay.passed w ss))"
proof (induction ss arbitrary: w A)
  case (Cons s ss)
  show ?case
  proof (cases "replay_refused w s")
    case False
    then have "tracks (replay_accept w s) (insert (unat s) A)"
      using Cons.prems tracks_accept tracks_refused by blast
    from Cons.IH [OF this] False show ?thesis by simp
  qed (use Cons in simp)
qed simp

text \<open>The same run written over the code's functions: each number is checked, then accepted.\<close>

fun offer_all :: "replay_window \<Rightarrow> u64 list \<Rightarrow> replay_window \<times> u64 list" where
  "offer_all w [] = (w, [])"
| "offer_all w (s # ss) =
     (case replay_check w s of
        Inl _ \<Rightarrow> offer_all w ss
      | Inr _ \<Rightarrow> (let (w', acc) = offer_all (replay_accept w s) ss in (w', s # acc)))"

lemma offer_all_eq: "offer_all w ss = (replay.after w ss, replay.passed w ss)"
  by (induction ss arbitrary: w) (auto simp: replay_refused_def split: sum.split)

subsection \<open>Properties\<close>

text \<open>
  C6. The replay window is exact. Offer any sequence of numbers, in any order, to a fresh window,
  accepting each one that passes the check. Then no number is accepted twice, and the window
  refuses exactly the numbers it accepted and those at least 1024 below the largest one: every
  number inside the window that was not accepted still passes.
\<close>

theorem replay_window_exact:
  "distinct (snd (offer_all replay_new ss))
    \<and> replay_check (fst (offer_all replay_new ss)) s =
      (let A = unat ` set (snd (offer_all replay_new ss)) in
       if A \<noteq> {} \<and> (unat s \<in> A \<or> unat s + 1024 \<le> Max A) then Inl ReplayedFrame else Inr ())"
proof -
  have "tracks (fst (offer_all replay_new ss)) (unat ` set (snd (offer_all replay_new ss)))"
    using tracks_after [OF tracks_new, of ss] by (simp add: offer_all_eq)
  from tracks_check [OF this, of s] replay.passed_distinct [OF window_ok_new, of ss] show ?thesis
    by (auto simp: refuses_def offer_all_eq Let_def)
qed

end
