(* ===== verification/Channel_Crypto.thy ===== *)
theory Channel_Crypto
  imports Ratchet Replay_Window Shp_Types
begin

text \<open>
  The channel encryption of \<open>src/crates/sh-crypto/src/channel_crypto.rs\<close>: frame headers,
  per-channel state (ratchet, replay window, counters), epochs, and the session operations
  \<open>seal\<close>, \<open>open\<close>, \<open>rekey\<close>, \<open>close_grace_period\<close> and \<open>zeroize_all\<close>, together with the exporter
  of \<open>noise.rs\<close> that roots the key schedule. Methods that take \<open>&mut self\<close> return the new
  state next to the result, on the error paths too. The clock is an argument.
\<close>

subsection \<open>Frame header\<close>

definition CHANNEL_MAGIC :: u8 where "CHANNEL_MAGIC = 0x53"
definition CHANNEL_HDR_VERSION :: u8 where "CHANNEL_HDR_VERSION = 0x01"
definition CHANNEL_HEADER_LEN :: nat where "CHANNEL_HEADER_LEN = 24"
definition REKEY_MSG_LIMIT :: u64 where "REKEY_MSG_LIMIT = 1048576"
definition REKEY_TIME_LIMIT_SECS :: i64 where "REKEY_TIME_LIMIT_SECS = 900"
definition RATCHET_INTERVAL :: u64 where "RATCHET_INTERVAL = 16384"
definition SEQ_HARD_LIMIT :: u64 where "SEQ_HARD_LIMIT = push_bit 63 1"
definition GEN_HARD_LIMIT :: u32 where "GEN_HARD_LIMIT = - 1 - 1"
definition DIR_I2R :: u8 where "DIR_I2R = 0x00"
definition DIR_R2I :: u8 where "DIR_R2I = 0x01"
definition CHAN_LABEL :: bytes where "CHAN_LABEL = ascii ''shp chan v1''"
definition AAD_PREFIX :: bytes where "AAD_PREFIX = ascii ''shp aead v1''"

datatype direction = I2R | R2I

definition wire_byte :: "direction \<Rightarrow> u8" where
  "wire_byte d = (case d of I2R \<Rightarrow> DIR_I2R | R2I \<Rightarrow> DIR_R2I)"

definition from_wire :: "u8 \<Rightarrow> crypto_error + direction" where
  "from_wire b = (if b = DIR_I2R then Ok I2R else if b = DIR_R2I then Ok R2I
     else Err (MalformedChannelFrame ''unknown direction byte''))"

definition dir_idx :: "direction \<Rightarrow> nat" where
  "dir_idx d = (case d of I2R \<Rightarrow> 0 | R2I \<Rightarrow> 1)"

record channel_frame_header =
  h_channel :: channel_id
  h_direction :: direction
  h_epoch :: u64
  h_generation :: u32
  h_seq :: u64

definition header_parse :: "bytes \<Rightarrow> crypto_error + channel_frame_header" where
  "header_parse b =
     (if b ! 0 \<noteq> CHANNEL_MAGIC then Err (MalformedChannelFrame ''bad magic byte'')
      else if b ! 1 \<noteq> CHANNEL_HDR_VERSION then Err (MalformedChannelFrame ''bad header version'')
      else and_then (map_err (\<lambda>_. MalformedChannelFrame ''unknown channel id'') (channel_try_from (b ! 2))) (\<lambda>ch.
        and_then (from_wire (b ! 3)) (\<lambda>d.
        Ok \<lparr>h_channel = ch, h_direction = d, h_epoch = from_be (field 4 8 b),
            h_generation = from_be (field 12 4 b), h_seq = from_be (field 16 8 b)\<rparr>)))"

definition header_encode :: "channel_frame_header \<Rightarrow> bytes" where
  "header_encode h = [CHANNEL_MAGIC, CHANNEL_HDR_VERSION, u8_of_channel (h_channel h), wire_byte (h_direction h)]
     @ to_be 8 (h_epoch h) @ to_be 4 (h_generation h) @ to_be 8 (h_seq h)"

definition header_aad :: "channel_frame_header \<Rightarrow> bytes" where
  "header_aad h = AAD_PREFIX @ header_encode h"

definition build_nonce :: "u32 \<Rightarrow> u64 \<Rightarrow> bytes" where
  "build_nonce generation seq = to_be 4 generation @ to_be 8 seq"

subsection \<open>State\<close>

record channel_state =
  cs_ratchet :: ratchet_chain
  cs_replay :: replay_window
  cs_next_seq :: u64
  cs_frames_sealed :: u64
  cs_current_gen :: u32

definition channel_state_new :: "bytes \<Rightarrow> channel_state" where
  "channel_state_new base = \<lparr>cs_ratchet = from_base_key base, cs_replay = replay_new, cs_next_seq = 0,
     cs_frames_sealed = 0, cs_current_gen = 0\<rparr>"

record epoch_keys =
  ek_epoch :: u64
  ek_states :: "channel_state list"
  ek_started_at_secs :: i64

definition state_idx :: "channel_id \<Rightarrow> direction \<Rightarrow> nat" where
  "state_idx ch d = unat (u8_of_channel ch) * 2 + dir_idx d"

definition ek_get :: "epoch_keys \<Rightarrow> channel_id \<Rightarrow> direction \<Rightarrow> channel_state option" where
  "ek_get e ch d = get_at (ek_states e) (state_idx ch d)"

definition ek_put :: "epoch_keys \<Rightarrow> channel_id \<Rightarrow> direction \<Rightarrow> channel_state \<Rightarrow> epoch_keys" where
  "ek_put e ch d st = e\<lparr>ek_states := (ek_states e)[state_idx ch d := st]\<rparr>"

datatype handshake_role = Initiator | Responder

record session_keys =
  sk_prk :: bytes
  sk_role :: handshake_role
  sk_current :: epoch_keys
  sk_prior :: "epoch_keys option"
  sk_msgs_this_epoch :: u64

definition send_direction :: "session_keys \<Rightarrow> direction" where
  "send_direction k = (case sk_role k of Initiator \<Rightarrow> I2R | Responder \<Rightarrow> R2I)"

definition current_epoch :: "session_keys \<Rightarrow> u64" where
  "current_epoch k = ek_epoch (sk_current k)"

subsection \<open>Key schedule\<close>

definition noise_session_prk :: "crypto \<Rightarrow> bytes \<Rightarrow> bytes" where
  "noise_session_prk cr handshake_hash = c_extract cr handshake_hash"

definition export_keying_material :: "crypto \<Rightarrow> bytes \<Rightarrow> bytes \<Rightarrow> bytes \<Rightarrow> nat \<Rightarrow> crypto_error + bytes" where
  "export_keying_material cr prk label context n =
     (if \<not> c_from_prk cr prk then Err (HandshakeFailed ''invalid PRK for HKDF export'')
      else if \<not> length label < 2 ^ 32 then Err (HandshakeFailed ''label exceeds u32 length limit'')
      else if \<not> length context < 2 ^ 32 then Err (HandshakeFailed ''context exceeds u32 length limit'')
      else let info = to_be 4 (of_nat (length label) :: u32) @ label
                      @ to_be 4 (of_nat (length context) :: u32) @ context
        in ok_or (c_expand cr prk info n) (HandshakeFailed ''HKDF expand failed for keying material export''))"

definition epoch_context :: "nat \<Rightarrow> nat \<Rightarrow> u64 \<Rightarrow> bytes" where
  "epoch_context ch_idx dir_i epoch = [of_nat ch_idx, of_nat dir_i] @ to_be 8 epoch"

definition derive_epoch_keys :: "crypto \<Rightarrow> bytes \<Rightarrow> u64 \<Rightarrow> i64 \<Rightarrow> crypto_error + epoch_keys" where
  "derive_epoch_keys cr prk epoch clock_now =
     and_then (try_map (\<lambda>(c, d).
         and_then (export_keying_material cr prk CHAN_LABEL (epoch_context c d epoch) 32) (\<lambda>key.
           Ok (channel_state_new key)))
       (concat (map (\<lambda>c. map (Pair c) [0..<2]) [0..<6]))) (\<lambda>states.
     Ok \<lparr>ek_epoch = epoch, ek_states = states, ek_started_at_secs = clock_now\<rparr>)"

definition from_outcome :: "crypto \<Rightarrow> bytes \<Rightarrow> handshake_role \<Rightarrow> i64 \<Rightarrow> crypto_error + session_keys" where
  "from_outcome cr prk role now =
     and_then (derive_epoch_keys cr prk 0 now) (\<lambda>current.
     Ok \<lparr>sk_prk = prk, sk_role = role, sk_current = current, sk_prior = None, sk_msgs_this_epoch = 0\<rparr>)"

subsection \<open>Sealing\<close>

definition ratchet_if_due :: "crypto \<Rightarrow> channel_state \<Rightarrow> channel_state \<times> (crypto_error + unit)" where
  "ratchet_if_due cr st =
     (if cs_frames_sealed st > 0 \<and> cs_frames_sealed st mod RATCHET_INTERVAL = 0 then
        (case checked_add (cs_current_gen st) 1 of
           None \<Rightarrow> (st, Err NonceExhausted)
         | Some next_gen \<Rightarrow>
           if next_gen \<ge> GEN_HARD_LIMIT then (st, Err NonceExhausted)
           else (case get_or_advance_to cr (cs_ratchet st) next_gen of
                   (r, Inl e) \<Rightarrow> (st\<lparr>cs_ratchet := r\<rparr>, Err e)
                 | (r, Inr _) \<Rightarrow> (st\<lparr>cs_ratchet := r, cs_current_gen := next_gen\<rparr>, Ok ())))
      else (st, Ok ()))"

definition put_current :: "session_keys \<Rightarrow> channel_id \<Rightarrow> direction \<Rightarrow> channel_state \<Rightarrow> session_keys" where
  "put_current k ch d st = k\<lparr>sk_current := ek_put (sk_current k) ch d st\<rparr>"

definition seal :: "crypto \<Rightarrow> session_keys \<Rightarrow> channel_id \<Rightarrow> bytes \<Rightarrow> session_keys \<times> (crypto_error + bytes)" where
  "seal cr k ch plaintext =
     (let send_dir = send_direction k; epoch = ek_epoch (sk_current k) in
      case ek_get (sk_current k) ch send_dir of
        None \<Rightarrow> (k, Err AeadFailure)
      | Some st \<Rightarrow>
        if cs_next_seq st \<ge> SEQ_HARD_LIMIT then (k, Err NonceExhausted)
        else (case ratchet_if_due cr st of
          (st1, Inl e) \<Rightarrow> (put_current k ch send_dir st1, Err e)
        | (st1, Inr _) \<Rightarrow>
          let generation = cs_current_gen st1; seq = cs_next_seq st1;
              header = \<lparr>h_channel = ch, h_direction = send_dir, h_epoch = epoch,
                        h_generation = generation, h_seq = seq\<rparr>
          in case get_or_advance_to cr (cs_ratchet st1) generation of
               (r, Inl _) \<Rightarrow> (put_current k ch send_dir (st1\<lparr>cs_ratchet := r\<rparr>), Err AeadFailure)
             | (r, Inr key) \<Rightarrow>
               (case c_seal cr key (build_nonce generation seq) (header_aad header) plaintext of
                  None \<Rightarrow> (put_current k ch send_dir (st1\<lparr>cs_ratchet := r\<rparr>), Err AeadFailure)
                | Some ciphertext \<Rightarrow>
                  ((put_current k ch send_dir
                      (st1\<lparr>cs_ratchet := r, cs_next_seq := sat_add (cs_next_seq st1) 1,
                           cs_frames_sealed := sat_add (cs_frames_sealed st1) 1\<rparr>))
                     \<lparr>sk_msgs_this_epoch := sat_add (sk_msgs_this_epoch k) 1\<rparr>,
                   Ok (header_encode header @ ciphertext)))))"

subsection \<open>Opening\<close>

definition open_with_epoch ::
  "crypto \<Rightarrow> epoch_keys \<Rightarrow> direction \<Rightarrow> channel_frame_header \<Rightarrow> bytes \<Rightarrow> epoch_keys \<times> (crypto_error + bytes)" where
  "open_with_epoch cr e recv_dir h frame =
     (case ek_get e (h_channel h) recv_dir of
        None \<Rightarrow> (e, Err AeadFailure)
      | Some st \<Rightarrow>
        (case replay_check (cs_replay st) (h_seq h) of
           Inl er \<Rightarrow> (e, Err er)
         | Inr _ \<Rightarrow>
           (case derive_key_transient cr (cs_ratchet st) (h_generation h) of
              Inl _ \<Rightarrow> (e, Err AeadFailure)
            | Inr key \<Rightarrow>
              (case c_open cr key (build_nonce (h_generation h) (h_seq h)) (header_aad h)
                     (drop CHANNEL_HEADER_LEN frame) of
                 None \<Rightarrow> (e, Err AeadFailure)
               | Some plaintext \<Rightarrow>
                 (case commit_advance_to cr (cs_ratchet st) (h_generation h) of
                    (r, Inl _) \<Rightarrow> (ek_put e (h_channel h) recv_dir (st\<lparr>cs_ratchet := r\<rparr>), Err AeadFailure)
                  | (r, Inr _) \<Rightarrow>
                    (ek_put e (h_channel h) recv_dir
                       (st\<lparr>cs_ratchet := r, cs_replay := replay_accept (cs_replay st) (h_seq h)\<rparr>),
                     Ok plaintext))))))"

definition open_dispatch ::
  "crypto \<Rightarrow> session_keys \<Rightarrow> i64 \<Rightarrow> channel_frame_header \<Rightarrow> bytes \<Rightarrow> session_keys \<times> (crypto_error + bytes)" where
  "open_dispatch cr k now h frame =
     (let recv_dir = h_direction h; cur = ek_epoch (sk_current k) in
      if h_epoch h > sat_add cur 1 then (k, Err EpochTooFarAhead)
      else if h_epoch h = sat_add cur 1 then
        (case derive_epoch_keys cr (sk_prk k) (h_epoch h) now of
           Inl e \<Rightarrow> (k, Err e)
         | Inr candidate \<Rightarrow>
           (case open_with_epoch cr candidate recv_dir h frame of
              (_, Inl e) \<Rightarrow> (k, Err e)
            | (candidate', Inr plaintext) \<Rightarrow>
              (k\<lparr>sk_current := candidate', sk_prior := Some (sk_current k), sk_msgs_this_epoch := 0\<rparr>,
               Ok plaintext)))
      else if h_epoch h < cur \<and> h_epoch h = sat_sub cur 1 then
        (case sk_prior k of
           None \<Rightarrow> (k, Err AeadFailure)
         | Some prior \<Rightarrow>
           (let (prior', res) = open_with_epoch cr prior recv_dir h frame in (k\<lparr>sk_prior := Some prior'\<rparr>, res)))
      else if h_epoch h < cur then (k, Err AeadFailure)
      else (let (current', res) = open_with_epoch cr (sk_current k) recv_dir h frame
            in (k\<lparr>sk_current := current'\<rparr>, res)))"

definition open_frame ::
  "crypto \<Rightarrow> session_keys \<Rightarrow> i64 \<Rightarrow> channel_id \<Rightarrow> bytes \<Rightarrow> session_keys \<times> (crypto_error + bytes)" where
  "open_frame cr k now ch frame =
     (if length frame < usz_add CHANNEL_HEADER_LEN 16 then (k, Err (MalformedChannelFrame ''frame too short''))
      else case header_parse (take CHANNEL_HEADER_LEN frame) of
        Inl e \<Rightarrow> (k, Err e)
      | Inr h \<Rightarrow>
        if h_channel h \<noteq> ch then (k, Err (MalformedChannelFrame ''channel id mismatch''))
        else if h_direction h = send_direction k then (k, Err (MalformedChannelFrame ''reflected direction''))
        else open_dispatch cr k now h frame)"

subsection \<open>Rekeying and wiping\<close>

definition needs_rekey :: "session_keys \<Rightarrow> i64 \<Rightarrow> bool" where
  "needs_rekey k now =
     (if sk_msgs_this_epoch k \<ge> REKEY_MSG_LIMIT then True
      else let elapsed = max 0 (sint (i64_sat_sub now (ek_started_at_secs (sk_current k))))
        in elapsed \<ge> sint REKEY_TIME_LIMIT_SECS)"

definition rekey :: "crypto \<Rightarrow> session_keys \<Rightarrow> i64 \<Rightarrow> session_keys \<times> (crypto_error + unit)" where
  "rekey cr k now =
     (let new_epoch = sat_add (ek_epoch (sk_current k)) 1 in
      case derive_epoch_keys cr (sk_prk k) new_epoch now of
        Inl e \<Rightarrow> (k, Err e)
      | Inr new_keys \<Rightarrow>
        (k\<lparr>sk_current := new_keys, sk_prior := Some (sk_current k), sk_msgs_this_epoch := 0\<rparr>, Ok ()))"

definition close_grace_period :: "session_keys \<Rightarrow> session_keys" where
  "close_grace_period k = k\<lparr>sk_prior := None\<rparr>"

definition zeroize_epoch_keys :: "epoch_keys \<Rightarrow> epoch_keys" where
  "zeroize_epoch_keys e =
     e\<lparr>ek_states := map (\<lambda>st. st\<lparr>cs_ratchet := (cs_ratchet st)\<lparr>rc_live_keys := []\<rparr>\<rparr>) (ek_states e)\<rparr>"

definition zeroize_all :: "session_keys \<Rightarrow> session_keys" where
  "zeroize_all k = k\<lparr>sk_current := zeroize_epoch_keys (sk_current k), sk_prior := None,
     sk_prk := replicate (length (sk_prk k)) 0\<rparr>"

end
