(* ===== verification/Channel_Security.thy ===== *)
theory Channel_Security
  imports Channel_Crypto
begin

text \<open>
  What the channel encryption guarantees. The operations of a session are run as a list; the
  lemmas follow the send counters (no header, hence no nonce, is used twice), the replay windows
  across epochs (no frame is delivered twice), and the key chains of two peers that share a root
  key (what one seals the other opens, and a frame that fails leaves no trace).
\<close>

subsection \<open>Running a session\<close>

datatype session_op =
    OpSeal channel_id bytes
  | OpOpen i64 channel_id bytes
  | OpRekey i64
  | OpCloseGrace
  | OpZeroize

datatype session_event = Sealed bytes | Opened bytes bytes | Quiet

fun session_step :: "crypto \<Rightarrow> session_keys \<Rightarrow> session_op \<Rightarrow> session_keys \<times> session_event" where
  "session_step cr k (OpSeal ch pt) =
     (case seal cr k ch pt of (k', Inr f) \<Rightarrow> (k', Sealed f) | (k', Inl _) \<Rightarrow> (k', Quiet))"
| "session_step cr k (OpOpen now ch f) =
     (case open_frame cr k now ch f of (k', Inr m) \<Rightarrow> (k', Opened f m) | (k', Inl _) \<Rightarrow> (k', Quiet))"
| "session_step cr k (OpRekey now) = (fst (rekey cr k now), Quiet)"
| "session_step cr k OpCloseGrace = (close_grace_period k, Quiet)"
| "session_step cr k OpZeroize = (zeroize_all k, Quiet)"

fun run_session :: "crypto \<Rightarrow> session_keys \<Rightarrow> session_op list \<Rightarrow> session_keys \<times> session_event list" where
  "run_session cr k [] = (k, [])"
| "run_session cr k (x # xs) =
     (let (k1, ev) = session_step cr k x; (k2, evs) = run_session cr k1 xs in (k2, ev # evs))"

fun sealed_frames :: "session_event list \<Rightarrow> bytes list" where
  "sealed_frames [] = []"
| "sealed_frames (Sealed f # evs) = f # sealed_frames evs"
| "sealed_frames (_ # evs) = sealed_frames evs"

fun opened_frames :: "session_event list \<Rightarrow> bytes list" where
  "opened_frames [] = []"
| "opened_frames (Opened f m # evs) = f # opened_frames evs"
| "opened_frames (_ # evs) = opened_frames evs"

text \<open>The channel, epoch and sequence number a frame claims.\<close>

definition frame_slot :: "bytes \<Rightarrow> (channel_id \<times> u64 \<times> u64) option" where
  "frame_slot f = (case header_parse (take CHANNEL_HEADER_LEN f) of
     Inr h \<Rightarrow> Some (h_channel h, h_epoch h, h_seq h) | Inl _ \<Rightarrow> None)"

subsection \<open>Headers and state access\<close>

lemma from_wire_byte [simp]: "from_wire (wire_byte d) = Inr d"
  by (cases d) (simp_all add: from_wire_def wire_byte_def DIR_I2R_def DIR_R2I_def)

lemma from_wire_Ok: "from_wire b = Inr d \<longleftrightarrow> wire_byte d = b"
  by (cases d) (auto simp: from_wire_def wire_byte_def DIR_I2R_def DIR_R2I_def)

lemma header_encode_length [simp]: "length (header_encode h) = 24"
  by (simp add: header_encode_def)

lemma header_parse_encode [simp]: "header_parse (header_encode h) = Inr h"
  by (simp add: header_parse_def header_encode_def)

lemma header_parse_canonical:
  assumes "header_parse b = Inr h" and "length b = 24"
  shows "header_encode h = b"
proof -
  have x: "CHANNEL_MAGIC = b ! 0" "CHANNEL_HDR_VERSION = b ! 1" "u8_of_channel (h_channel h) = b ! 2"
    "wire_byte (h_direction h) = b ! 3" "h_epoch h = from_be (field 4 8 b)"
    "h_generation h = from_be (field 12 4 b)" "h_seq h = from_be (field 16 8 b)"
    using assms(1) by (auto simp: header_parse_def channel_try_from_Ok from_wire_Ok split: if_splits)
  have "header_encode h = field 0 24 b"
    unfolding header_encode_def x using assms(2) by (simp add: to_be_u64 to_be_u32 field_joins del: field_whole)
  then show ?thesis using assms(2) by simp
qed

lemma state_idx_less: "state_idx ch d < 12"
  by (cases ch; cases d) (simp_all add: state_idx_def u8_of_channel_def dir_idx_def)

lemma state_idx_inj [simp]: "state_idx ch d = state_idx ch' d' \<longleftrightarrow> ch = ch' \<and> d = d'"
  by (cases ch; cases d; cases ch'; cases d') (simp_all add: state_idx_def u8_of_channel_def dir_idx_def)

lemma ek_get_put:
  "ek_get e ch d = Some st0 \<Longrightarrow>
    ek_get (ek_put e ch d st) ch' d' = (if ch' = ch \<and> d' = d then Some st else ek_get e ch' d')"
  by (auto simp: ek_get_def ek_put_def get_at_def nth_list_update split: if_splits)

lemma ek_put_simps [simp]: "ek_epoch (ek_put e ch d st) = ek_epoch e" "length (ek_states (ek_put e ch d st)) = length (ek_states e)"
  by (simp_all add: ek_put_def)

lemma ek_put_same: "ek_get e ch d = Some st \<Longrightarrow> ek_put e ch d st = e"
  by (auto simp: ek_get_def ek_put_def get_at_def list_update_id split: if_splits)

lemma put_current_simps [simp]:
  "sk_prk (put_current k ch d st) = sk_prk k" "sk_role (put_current k ch d st) = sk_role k"
  "sk_current (put_current k ch d st) = ek_put (sk_current k) ch d st"
  "sk_prior (put_current k ch d st) = sk_prior k"
  "send_direction (put_current k ch d st) = send_direction k"
  by (simp_all add: put_current_def send_direction_def)

lemma send_direction_cong: "sk_role k = sk_role k' \<Longrightarrow> send_direction k = send_direction k'"
  by (simp add: send_direction_def)

subsection \<open>The send counters\<close>

definition nseq :: "session_keys \<Rightarrow> channel_id \<Rightarrow> nat option" where
  "nseq k c = map_option (\<lambda>st. unat (cs_next_seq st)) (ek_get (sk_current k) c (send_direction k))"

lemma ratchet_if_due_keeps:
  "ratchet_if_due cr st = (st1, r) \<Longrightarrow> cs_next_seq st1 = cs_next_seq st \<and> cs_replay st1 = cs_replay st"
  by (auto simp: ratchet_if_due_def split: if_splits option.splits prod.splits sum.splits)

lemma nseq_put:
  assumes "ek_get (sk_current k) ch (send_direction k) = Some st0"
  shows "nseq (put_current k ch (send_direction k) st) c =
    (if c = ch then Some (unat (cs_next_seq st)) else nseq k c)"
  using assms by (simp add: nseq_def ek_get_put [OF assms])

lemma nseq_upd [simp]: "nseq (k\<lparr>sk_msgs_this_epoch := m\<rparr>) c = nseq k c"
  by (simp add: nseq_def send_direction_def)

lemma seal_Err_effect:
  assumes "seal cr k ch pt = (k', Inl e)"
  shows "sk_role k' = sk_role k \<and> sk_prk k' = sk_prk k \<and> sk_prior k' = sk_prior k
    \<and> ek_epoch (sk_current k') = ek_epoch (sk_current k) \<and> nseq k' c = nseq k c"
proof (cases "ek_get (sk_current k) ch (send_direction k)")
  case None
  with assms show ?thesis by (simp add: seal_def Let_def)
next
  case (Some st)
  have same: "nseq (put_current k ch (send_direction k) st1) c = nseq k c"
    if "cs_next_seq st1 = cs_next_seq st" for st1
    using nseq_put [OF Some, of st1 c] that Some by (auto simp: nseq_def)
  show ?thesis
    using assms Some
    by (auto simp: seal_def Let_def same split: if_splits prod.splits sum.splits option.splits
        dest: ratchet_if_due_keeps)
qed

lemma seal_Ok_effect:
  assumes "seal cr k ch pt = (k', Inr f)"
  obtains h ct st where "f = header_encode h @ ct" "h_channel h = ch" "h_direction h = send_direction k"
    "h_epoch h = ek_epoch (sk_current k)" "nseq k ch = Some (unat (h_seq h))" "h_seq h < SEQ_HARD_LIMIT"
    "nseq k' = (nseq k)(ch \<mapsto> unat (h_seq h) + 1)"
    "sk_role k' = sk_role k" "sk_prk k' = sk_prk k" "sk_prior k' = sk_prior k"
    "ek_epoch (sk_current k') = ek_epoch (sk_current k)"
proof (cases "ek_get (sk_current k) ch (send_direction k)")
  case None
  with assms show thesis by (simp add: seal_def Let_def)
next
  case (Some st)
  obtain st1 where r1: "ratchet_if_due cr st = (st1, Inr ())" and lim: "cs_next_seq st < SEQ_HARD_LIMIT"
    using assms Some by (auto simp: seal_def Let_def split: if_splits prod.splits sum.splits)
  define h where "h = \<lparr>h_channel = ch, h_direction = send_direction k, h_epoch = ek_epoch (sk_current k),
      h_generation = cs_current_gen st1, h_seq = cs_next_seq st1\<rparr>"
  obtain r key where r2: "get_or_advance_to cr (cs_ratchet st1) (cs_current_gen st1) = (r, Inr key)"
    using assms Some r1 lim by (auto simp: seal_def Let_def not_le [symmetric] split: if_splits prod.splits sum.splits)
  obtain ct where ct: "c_seal cr key (build_nonce (cs_current_gen st1) (cs_next_seq st1)) (header_aad h) pt = Some ct"
    using assms Some r1 r2 lim
    by (auto simp: seal_def Let_def h_def not_le [symmetric] split: if_splits option.splits)
  have seq: "cs_next_seq st1 = cs_next_seq st" using ratchet_if_due_keeps [OF r1] by simp
  let ?st2 = "st1\<lparr>cs_ratchet := r, cs_next_seq := sat_add (cs_next_seq st1) 1,
    cs_frames_sealed := sat_add (cs_frames_sealed st1) 1\<rparr>"
  have k': "k' = (put_current k ch (send_direction k) ?st2)\<lparr>sk_msgs_this_epoch := sat_add (sk_msgs_this_epoch k) 1\<rparr>"
    and f: "f = header_encode h @ ct"
    using assms Some r1 r2 ct lim
    by (auto simp: seal_def Let_def h_def not_le [symmetric] split: if_splits)
  have "unat (sat_add (cs_next_seq st) 1) = unat (cs_next_seq st) + 1"
    using lim by (simp add: unat_sat_add word_less_nat_alt SEQ_HARD_LIMIT_def)
  then have "nseq k' c = ((nseq k)(ch \<mapsto> unat (h_seq h) + 1)) c" for c
    by (simp add: k' nseq_put [OF Some] seq h_def)
  moreover have "nseq k ch = Some (unat (h_seq h))" using Some by (simp add: nseq_def h_def seq)
  ultimately show thesis
    using that [of h ct] f lim by (auto simp: h_def k' seq fun_eq_iff)
qed

text \<open>Opening changes only receive-side state, or moves to the next epoch.\<close>

lemma open_with_epoch_effect:
  assumes "open_with_epoch cr e d h frame = (e', res)"
  shows "ek_epoch e' = ek_epoch e \<and> length (ek_states e') = length (ek_states e)
    \<and> (d' \<noteq> d \<longrightarrow> ek_get e' c d' = ek_get e c d')"
proof (cases "ek_get e (h_channel h) d")
  case (Some st)
  show ?thesis
    using assms Some ek_get_put [OF Some]
    by (auto simp: open_with_epoch_def split: sum.splits option.splits prod.splits)
qed (use assms in \<open>simp add: open_with_epoch_def\<close>)

lemma open_with_epoch_epoch: "open_with_epoch cr e d h frame = (e', res) \<Longrightarrow> ek_epoch e' = ek_epoch e"
  using open_with_epoch_effect by blast

lemma derive_epoch_keys_epoch: "derive_epoch_keys cr prk ep now = Inr e \<Longrightarrow> ek_epoch e = ep"
  by (auto simp: derive_epoch_keys_def)

lemma open_frame_effect:
  assumes "open_frame cr k now ch f = (k', res)"
  shows "sk_role k' = sk_role k \<and> sk_prk k' = sk_prk k
    \<and> (ek_epoch (sk_current k') = ek_epoch (sk_current k) \<and> (\<forall>c. nseq k' c = nseq k c)
       \<or> ek_epoch (sk_current k') = sat_add (ek_epoch (sk_current k)) 1)"
proof -
  consider "k' = k"
    | h where "h_direction h \<noteq> send_direction k" "open_dispatch cr k now h f = (k', res)"
    using assms by (auto simp: open_frame_def split: if_splits sum.splits)
  then show ?thesis
  proof cases
    case (2 h)
    have cur: "nseq (k\<lparr>sk_current := e'\<rparr>) c = nseq k c" if "open_with_epoch cr (sk_current k) (h_direction h) h f = (e', r)" for e' r c
      using open_with_epoch_effect [OF that, of "send_direction k" c] 2(1)
      by (simp add: nseq_def send_direction_def)
    have prior: "nseq (k\<lparr>sk_prior := p\<rparr>) c = nseq k c" for p c by (simp add: nseq_def send_direction_def)
    have nxt: "ek_epoch e2 = ep" if "derive_epoch_keys cr (sk_prk k) ep now = Inr e1"
      "open_with_epoch cr e1 (h_direction h) h f = (e2, r)" for e1 e2 ep r
      using that open_with_epoch_epoch derive_epoch_keys_epoch by metis
    show ?thesis
    proof (cases "h_epoch h = sat_add (ek_epoch (sk_current k)) 1")
      case True
      then consider (failed) "k' = k" | (moved) e1 e2 m where
          "derive_epoch_keys cr (sk_prk k) (h_epoch h) now = Inr e1"
          "open_with_epoch cr e1 (h_direction h) h f = (e2, Inr m)"
          "k' = k\<lparr>sk_current := e2, sk_prior := Some (sk_current k), sk_msgs_this_epoch := 0\<rparr>"
        using 2(2) by (auto simp: open_dispatch_def Let_def split: sum.splits prod.splits)
      then show ?thesis
      proof cases
        case moved
        then show ?thesis using nxt [OF moved(1,2)] True by simp
      qed simp
    next
      case False
      obtain e2 r2 where c: "open_with_epoch cr (sk_current k) (h_direction h) h f = (e2, r2)" by (meson surj_pair)
      show ?thesis using 2(2) False cur [OF c] open_with_epoch_epoch [OF c] prior
        by (auto simp: open_dispatch_def Let_def c split: if_splits option.splits prod.splits)
    qed
  qed simp
qed

lemma rekey_effect:
  "rekey cr k now = (k', res) \<Longrightarrow> sk_role k' = sk_role k \<and> sk_prk k' = sk_prk k \<and>
    (k' = k \<or> ek_epoch (sk_current k') = sat_add (ek_epoch (sk_current k)) 1)"
  by (auto simp: rekey_def Let_def split: sum.splits dest: derive_epoch_keys_epoch)

lemma nseq_zeroize: "nseq (zeroize_all k) c = nseq k c"
  by (simp add: nseq_def zeroize_all_def zeroize_epoch_keys_def ek_get_def get_at_def send_direction_def)

lemma nseq_close: "nseq (close_grace_period k) c = nseq k c"
  by (simp add: nseq_def close_grace_period_def send_direction_def)

text \<open>Every step keeps the epoch and the counters, seals one frame, or enters the next epoch.\<close>

lemma session_step_send:
  assumes "session_step cr k x = (k', ev)"
  shows "sk_role k' = sk_role k \<and>
    ((ek_epoch (sk_current k') = ek_epoch (sk_current k) \<and> (\<forall>c. nseq k' c = nseq k c) \<and> sealed_frames [ev] = [])
     \<or> (ek_epoch (sk_current k') = sat_add (ek_epoch (sk_current k)) 1 \<and> sealed_frames [ev] = [])
     \<or> (ek_epoch (sk_current k') = ek_epoch (sk_current k) \<and> (\<exists>h ct. ev = Sealed (header_encode h @ ct)
          \<and> h_epoch h = ek_epoch (sk_current k) \<and> nseq k (h_channel h) = Some (unat (h_seq h))
          \<and> nseq k' = (nseq k)(h_channel h \<mapsto> unat (h_seq h) + 1))))"
proof (cases x)
  case (OpSeal ch pt)
  show ?thesis
  proof (cases "seal cr k ch pt")
    case (Pair k1 res)
    show ?thesis
    proof (cases res)
      case (Inl e)
      then show ?thesis using assms OpSeal Pair seal_Err_effect [of cr k ch pt k1 e] by auto
    next
      case (Inr f)
      with Pair have "seal cr k ch pt = (k1, Inr f)" by simp
      then show ?thesis
        by (rule seal_Ok_effect) (use assms OpSeal Pair Inr in auto)
    qed
  qed
next
  case (OpOpen now ch f)
  obtain k1 res where o: "open_frame cr k now ch f = (k1, res)" by (meson surj_pair)
  then have "k' = k1" "sealed_frames [ev] = []" using assms OpOpen by (auto split: sum.splits)
  then show ?thesis using open_frame_effect [OF o] by blast
next
  case (OpRekey now)
  obtain k1 res where o: "rekey cr k now = (k1, res)" by (meson surj_pair)
  then have "k' = k1" "sealed_frames [ev] = []" using assms OpRekey by auto
  then show ?thesis using rekey_effect [OF o] by blast
next
  case OpCloseGrace
  then have "k' = close_grace_period k" "sealed_frames [ev] = []" using assms by auto
  then show ?thesis by (simp add: nseq_close) (simp add: close_grace_period_def)
next
  case OpZeroize
  then have "k' = zeroize_all k" "sealed_frames [ev] = []" using assms by auto
  then show ?thesis by (simp add: nseq_zeroize) (simp add: zeroize_all_def zeroize_epoch_keys_def)
qed

text \<open>
  \<open>sent_before k S\<close>: every slot of \<open>S\<close> lies in an earlier epoch, or in the current one below
  the channel's counter.
\<close>

definition sent_before :: "session_keys \<Rightarrow> (channel_id \<times> u64 \<times> u64) set \<Rightarrow> bool" where
  "sent_before k S \<longleftrightarrow> (\<forall>(c, ep, q) \<in> S. ep < ek_epoch (sk_current k)
     \<or> ep = ek_epoch (sk_current k) \<and> (\<exists>n. nseq k c = Some n \<and> unat q < n))"

lemma frame_slot_encode: "frame_slot (header_encode h @ ct) = Some (h_channel h, h_epoch h, h_seq h)"
  by (simp add: frame_slot_def CHANNEL_HEADER_LEN_def)

lemma epoch_succ: "unat ep < 2 ^ 64 - 1 \<Longrightarrow> unat (sat_add ep (1 :: u64)) = unat ep + 1"
  by (simp add: unat_sat_add)

lemma sent_before_step:
  assumes "session_step cr k x = (k', ev)" and "sent_before k S" and "unat (ek_epoch (sk_current k)) < 2 ^ 64 - 1"
  shows "\<exists>S1. map frame_slot (sealed_frames [ev]) = map Some S1 \<and> distinct S1 \<and> set S1 \<inter> S = {}
    \<and> sent_before k' (S \<union> set S1) \<and> unat (ek_epoch (sk_current k')) \<le> unat (ek_epoch (sk_current k)) + 1"
proof -
  from session_step_send [OF assms(1)] consider
      (same) "ek_epoch (sk_current k') = ek_epoch (sk_current k)" "\<forall>c. nseq k' c = nseq k c" "sealed_frames [ev] = []"
    | (epoch) "ek_epoch (sk_current k') = sat_add (ek_epoch (sk_current k)) 1" "sealed_frames [ev] = []"
    | (sealed) h ct where "ek_epoch (sk_current k') = ek_epoch (sk_current k)" "ev = Sealed (header_encode h @ ct)"
        "h_epoch h = ek_epoch (sk_current k)" "nseq k (h_channel h) = Some (unat (h_seq h))"
        "nseq k' = (nseq k)(h_channel h \<mapsto> unat (h_seq h) + 1)"
    by blast
  then show ?thesis
  proof cases
    case same
    then show ?thesis using assms(2) by (intro exI [of _ "[]"]) (auto simp: sent_before_def)
  next
    case epoch
    then show ?thesis using assms(2) epoch_succ [OF assms(3)]
      by (intro exI [of _ "[]"]) (fastforce simp: sent_before_def word_less_nat_alt)
  next
    case sealed
    let ?s = "(h_channel h, h_epoch h, h_seq h)"
    have "?s \<notin> S" using assms(2) sealed(3,4) by (auto simp: sent_before_def)
    moreover have "sent_before k' (S \<union> {?s})"
      using assms(2) sealed(1,3-5) by (fastforce simp: sent_before_def)
    ultimately show ?thesis using sealed(1,2) by (intro exI [of _ "[?s]"]) (simp add: frame_slot_encode)
  qed
qed

lemma sealed_frames_Cons: "sealed_frames (ev # evs) = sealed_frames [ev] @ sealed_frames evs"
  by (cases ev) simp_all

lemma opened_frames_Cons: "opened_frames (ev # evs) = opened_frames [ev] @ opened_frames evs"
  by (cases ev) simp_all

lemma run_session_Cons:
  "session_step cr k x = (k1, ev) \<Longrightarrow> snd (run_session cr k (x # xs)) = ev # snd (run_session cr k1 xs)"
  by (simp add: case_prod_beta)

text \<open>
  A ledger of frame slots: an invariant \<open>Inv\<close> of the session and the slots used so far, which
  every step keeps while it adds only new slots. Sealing and opening each keep one.
\<close>

locale slot_ledger =
  fixes cr :: crypto
    and Inv :: "session_keys \<Rightarrow> (channel_id \<times> u64 \<times> u64) set \<Rightarrow> bool"
    and sel :: "session_event list \<Rightarrow> bytes list"
  assumes sel_Nil: "sel [] = []"
    and sel_Cons: "sel (ev # evs) = sel [ev] @ sel evs"
    and ledger_step: "\<lbrakk>session_step cr k x = (k', ev); Inv k S; unat (ek_epoch (sk_current k)) < 2 ^ 64 - 1\<rbrakk> \<Longrightarrow>
      \<exists>S1. map frame_slot (sel [ev]) = map Some S1 \<and> distinct S1 \<and> set S1 \<inter> S = {}
        \<and> Inv k' (S \<union> set S1) \<and> unat (ek_epoch (sk_current k')) \<le> unat (ek_epoch (sk_current k)) + 1"
begin

lemma run_slots:
  assumes "Inv k S" and "unat (ek_epoch (sk_current k)) + length xs < 2 ^ 64"
  shows "\<exists>S1. map frame_slot (sel (snd (run_session cr k xs))) = map Some S1 \<and> distinct S1 \<and> set S1 \<inter> S = {}"
  using assms
proof (induction xs arbitrary: k S)
  case Nil
  then show ?case by (simp add: sel_Nil)
next
  case (Cons x xs)
  obtain k1 ev where st: "session_step cr k x = (k1, ev)" by (meson surj_pair)
  have lt: "unat (ek_epoch (sk_current k)) < 2 ^ 64 - 1" using Cons.prems(2) by simp
  obtain S1 where S1: "map frame_slot (sel [ev]) = map Some S1" "distinct S1" "set S1 \<inter> S = {}"
      "Inv k1 (S \<union> set S1)" "unat (ek_epoch (sk_current k1)) \<le> unat (ek_epoch (sk_current k)) + 1"
    using ledger_step [OF st Cons.prems(1) lt] by blast
  have le: "unat (ek_epoch (sk_current k1)) + length xs < 2 ^ 64" using S1(5) Cons.prems(2) by simp
  obtain S2 where S2: "map frame_slot (sel (snd (run_session cr k1 xs))) = map Some S2" "distinct S2"
      "set S2 \<inter> (S \<union> set S1) = {}"
    using Cons.IH [OF S1(4)] le by blast
  have "sel (snd (run_session cr k (x # xs))) = sel [ev] @ sel (snd (run_session cr k1 xs))"
    unfolding run_session_Cons [OF st] by (rule sel_Cons)
  then have "map frame_slot (sel (snd (run_session cr k (x # xs)))) = map Some (S1 @ S2)"
    using S1(1) S2(1) by simp
  moreover have "distinct (S1 @ S2)" "set (S1 @ S2) \<inter> S = {}" using S1(2,3) S2(2,3) by auto
  ultimately show ?case by blast
qed

lemma run_slots_fresh:
  assumes "Inv k {}" and "unat (ek_epoch (sk_current k)) + length xs < 2 ^ 64"
  shows "distinct (map frame_slot (sel (snd (run_session cr k xs))))"
    and "None \<notin> set (map frame_slot (sel (snd (run_session cr k xs))))"
proof -
  obtain S1 where S1: "map frame_slot (sel (snd (run_session cr k xs))) = map Some S1" "distinct S1"
    using run_slots [OF assms] by blast
  then show "distinct (map frame_slot (sel (snd (run_session cr k xs))))" by (simp add: distinct_map)
  show "None \<notin> set (map frame_slot (sel (snd (run_session cr k xs))))" unfolding S1(1) by auto
qed

end

interpretation sent: slot_ledger cr sent_before sealed_frames for cr
  by unfold_locales (simp, rule sealed_frames_Cons, rule sent_before_step)

subsection \<open>The replay windows across epochs\<close>

definition ek_refuses :: "epoch_keys \<Rightarrow> channel_id \<Rightarrow> direction \<Rightarrow> u64 \<Rightarrow> bool" where
  "ek_refuses e c d q \<longleftrightarrow> (\<exists>st. ek_get e c d = Some st \<and> replay_refused (cs_replay st) q)"

definition ek_tracks :: "epoch_keys \<Rightarrow> bool" where
  "ek_tracks e \<longleftrightarrow> (\<forall>c d st. ek_get e c d = Some st \<longrightarrow> window_ok (cs_replay st))"

definition ek_replays :: "epoch_keys \<Rightarrow> channel_id \<Rightarrow> direction \<Rightarrow> replay_window option" where
  "ek_replays e c d = map_option cs_replay (ek_get e c d)"

lemma ek_refuses_alt: "ek_refuses e c d q \<longleftrightarrow> (\<exists>w. ek_replays e c d = Some w \<and> replay_refused w q)"
  by (auto simp: ek_refuses_def ek_replays_def)

lemma ek_tracks_alt: "ek_tracks e \<longleftrightarrow> (\<forall>c d w. ek_replays e c d = Some w \<longrightarrow> window_ok w)"
  by (auto simp: ek_tracks_def ek_replays_def)

lemma ek_replays_put:
  "ek_get e ch d = Some st0 \<Longrightarrow>
    ek_replays (ek_put e ch d st) = (\<lambda>c d'. if c = ch \<and> d' = d then Some (cs_replay st) else ek_replays e c d')"
  by (auto simp: ek_replays_def ek_get_put fun_eq_iff)

lemma ek_replays_put_same:
  "ek_get e ch d = Some st0 \<Longrightarrow> cs_replay st = cs_replay st0 \<Longrightarrow> ek_replays (ek_put e ch d st) = ek_replays e"
  by (auto simp: ek_replays_put fun_eq_iff) (auto simp: ek_replays_def)

lemma open_with_epoch_replay:
  assumes "open_with_epoch cr e d h f = (e', res)" and "ek_tracks e"
  shows "ek_tracks e' \<and> (ek_refuses e c d' q \<longrightarrow> ek_refuses e' c d' q)
    \<and> (\<forall>m. res = Inr m \<longrightarrow> \<not> ek_refuses e (h_channel h) d (h_seq h) \<and> ek_refuses e' (h_channel h) d (h_seq h))"
proof (cases "ek_get e (h_channel h) d")
  case (Some st)
  have A: "window_ok (cs_replay st)" using assms(2) Some by (simp add: ek_tracks_def)
  consider (same) "ek_replays e' = ek_replays e" "\<exists>er. res = Inl er"
    | (acc) r where "replay_check (cs_replay st) (h_seq h) = Inr ()"
      "e' = ek_put e (h_channel h) d (st\<lparr>cs_ratchet := r, cs_replay := replay_accept (cs_replay st) (h_seq h)\<rparr>)"
    using assms(1) Some ek_replays_put_same [OF Some]
    by (auto simp: open_with_epoch_def split: sum.splits option.splits prod.splits)
  then show ?thesis
  proof cases
    case same
    then show ?thesis using assms(2) by (auto simp: ek_tracks_alt ek_refuses_alt)
  next
    case acc
    define w' where "w' = replay_accept (cs_replay st) (h_seq h)"
    have nr: "\<not> replay_refused (cs_replay st) (h_seq h)" using acc(1) by (simp add: replay_refused_def)
    have w': "window_ok w'" "replay_refused w' (h_seq h)"
      and keep: "replay_refused (cs_replay st) t \<Longrightarrow> replay_refused w' t" for t
      using A nr replay.accept_invar replay.accept_refuses replay.accept_keeps unfolding w'_def by blast+
    have R: "ek_replays e' c d' = (if c = h_channel h \<and> d' = d then Some w' else ek_replays e c d')" for c d'
      by (simp add: acc(2) ek_replays_put [OF Some] w'_def)
    have old: "ek_replays e (h_channel h) d = Some (cs_replay st)" by (simp add: ek_replays_def Some)
    have "ek_tracks e'" using assms(2) w'(1) unfolding ek_tracks_alt R by (metis option.inject)
    moreover have "ek_refuses e' c d' q" if "ek_refuses e c d' q"
      using that keep old unfolding ek_refuses_alt R by (metis option.inject)
    moreover have "\<not> ek_refuses e (h_channel h) d (h_seq h)" "ek_refuses e' (h_channel h) d (h_seq h)"
      using old nr w'(2) by (simp_all add: ek_refuses_alt R)
    ultimately show ?thesis by blast
  qed
qed (use assms in \<open>auto simp: open_with_epoch_def\<close>)

lemma derive_epoch_keys_fresh:
  assumes "derive_epoch_keys cr prk ep now = Inr e" and "ek_get e c d = Some st"
  shows "\<exists>base. st = channel_state_new base"
proof -
  let ?f = "\<lambda>(c, d). and_then (export_keying_material cr prk CHAN_LABEL (epoch_context c d ep) 32) (\<lambda>key.
      Ok (channel_state_new key))"
  have f: "try_map ?f (concat (map (\<lambda>c. map (Pair c) [0..<2]) [0..<6])) = Inr (ek_states e)"
    using assms(1) by (auto simp: derive_epoch_keys_def simp del: upt_Suc)
  have new: "\<exists>base. st = channel_state_new base" if "?f x = Inr st" for x st
    using that by (cases x) auto
  have "state_idx c d < length (ek_states e)" "st = ek_states e ! state_idx c d"
    using assms(2) by (auto simp: ek_get_def get_at_def split: if_splits)
  with try_map_Ok_nth [OF f] new show ?thesis by metis
qed

lemma derive_epoch_keys_tracks: "derive_epoch_keys cr prk ep now = Inr e \<Longrightarrow> ek_tracks e"
  by (auto simp: ek_tracks_def channel_state_new_def window_ok_new dest!: derive_epoch_keys_fresh)

definition recv_direction :: "session_keys \<Rightarrow> direction" where
  "recv_direction k = (case sk_role k of Initiator \<Rightarrow> R2I | Responder \<Rightarrow> I2R)"

lemma recv_direction_iff: "d = recv_direction k \<longleftrightarrow> d \<noteq> send_direction k"
  by (cases d; cases "sk_role k") (simp_all add: recv_direction_def send_direction_def)

text \<open>
  \<open>delivered k S\<close>: the windows of the live epochs are sound, the prior epoch is the one before
  the current one, and every delivered slot of a live epoch is refused by that epoch.
\<close>

definition delivered :: "session_keys \<Rightarrow> (channel_id \<times> u64 \<times> u64) set \<Rightarrow> bool" where
  "delivered k S \<longleftrightarrow> ek_tracks (sk_current k)
     \<and> (\<forall>p. sk_prior k = Some p \<longrightarrow> ek_tracks p \<and> unat (ek_epoch p) + 1 = unat (ek_epoch (sk_current k)))
     \<and> (\<forall>(c, ep, q) \<in> S. ep \<le> ek_epoch (sk_current k)
          \<and> (ep = ek_epoch (sk_current k) \<longrightarrow> ek_refuses (sk_current k) c (recv_direction k) q)
          \<and> (\<forall>p. sk_prior k = Some p \<longrightarrow> ep = ek_epoch p \<longrightarrow> ek_refuses p c (recv_direction k) q))"

lemma deliveredI:
  assumes "ek_tracks (sk_current k)"
    and "\<And>p. sk_prior k = Some p \<Longrightarrow> ek_tracks p \<and> unat (ek_epoch p) + 1 = unat (ek_epoch (sk_current k))"
    and "\<And>c ep q. (c, ep, q) \<in> S \<Longrightarrow> ep \<le> ek_epoch (sk_current k)"
    and "\<And>c q. (c, ek_epoch (sk_current k), q) \<in> S \<Longrightarrow> ek_refuses (sk_current k) c (recv_direction k) q"
    and "\<And>p c q. sk_prior k = Some p \<Longrightarrow> (c, ek_epoch p, q) \<in> S \<Longrightarrow> ek_refuses p c (recv_direction k) q"
  shows "delivered k S"
  unfolding delivered_def using assms by blast

lemma deliveredD:
  assumes "delivered k S"
  shows "ek_tracks (sk_current k)"
    and "sk_prior k = Some p \<Longrightarrow> ek_tracks p" "sk_prior k = Some p \<Longrightarrow> unat (ek_epoch p) + 1 = unat (ek_epoch (sk_current k))"
    and "(c, ep, q) \<in> S \<Longrightarrow> ep \<le> ek_epoch (sk_current k)"
    and "(c, ek_epoch (sk_current k), q) \<in> S \<Longrightarrow> ek_refuses (sk_current k) c (recv_direction k) q"
    and "sk_prior k = Some p \<Longrightarrow> (c, ek_epoch p, q) \<in> S \<Longrightarrow> ek_refuses p c (recv_direction k) q"
  using assms unfolding delivered_def by auto

text \<open>Same windows, same prior epoch: nothing is lost.\<close>

lemma delivered_cong:
  assumes "delivered k S" and "sk_role k' = sk_role k"
    and "ek_epoch (sk_current k') = ek_epoch (sk_current k)" and "ek_replays (sk_current k') = ek_replays (sk_current k)"
    and "sk_prior k' = sk_prior k \<or> sk_prior k' = None"
  shows "delivered k' S"
proof (rule deliveredI)
  have rd: "recv_direction k' = recv_direction k" using assms(2) by (simp add: recv_direction_def)
  show "ek_tracks (sk_current k')" using deliveredD(1) [OF assms(1)] assms(4) by (simp add: ek_tracks_alt)
  show "ek_tracks p \<and> unat (ek_epoch p) + 1 = unat (ek_epoch (sk_current k'))" if "sk_prior k' = Some p" for p
    using that deliveredD(2,3) [OF assms(1), of p] assms(3,5) by auto
  show "ep \<le> ek_epoch (sk_current k')" if "(c, ep, q) \<in> S" for c ep q
    using that deliveredD(4) [OF assms(1)] assms(3) by auto
  show "ek_refuses (sk_current k') c (recv_direction k') q" if "(c, ek_epoch (sk_current k'), q) \<in> S" for c q
    using that deliveredD(5) [OF assms(1)] assms(3,4) rd by (simp add: ek_refuses_alt)
  show "ek_refuses p c (recv_direction k') q" if "sk_prior k' = Some p" "(c, ek_epoch p, q) \<in> S" for p c q
    using that deliveredD(6) [OF assms(1)] assms(5) rd by auto
qed

lemma seal_replays:
  "ek_replays (sk_current (fst (seal cr k ch pt))) = ek_replays (sk_current k)"
proof (cases "ek_get (sk_current k) ch (send_direction k)")
  case None
  then show ?thesis by (simp add: seal_def Let_def)
next
  case (Some st)
  have "ek_replays (ek_put (sk_current k) ch (send_direction k) st1) = ek_replays (sk_current k)"
    if "cs_replay st1 = cs_replay st" for st1
    using ek_replays_put_same [OF Some that] .
  then show ?thesis using Some ratchet_if_due_keeps [of cr st]
    by (auto simp: seal_def Let_def split: prod.split sum.split option.split)
qed

lemma seal_fields:
  "sk_role (fst (seal cr k ch pt)) = sk_role k"
  "ek_epoch (sk_current (fst (seal cr k ch pt))) = ek_epoch (sk_current k)"
  "sk_prior (fst (seal cr k ch pt)) = sk_prior k"
  by (simp_all add: seal_def Let_def split: prod.split sum.split option.split)

text \<open>Entering the next epoch: the current windows become the prior ones.\<close>

lemma delivered_next_epoch:
  assumes "delivered k S" and "unat (ek_epoch (sk_current k)) < 2 ^ 64 - 1" and "ek_tracks e"
    and "ek_epoch e = sat_add (ek_epoch (sk_current k)) 1"
    and "\<And>c q. (c, ek_epoch e, q) \<in> S' \<Longrightarrow> ek_refuses e c (recv_direction k) q"
    and "\<And>c ep q. (c, ep, q) \<in> S' \<Longrightarrow> (c, ep, q) \<in> S \<or> ep = ek_epoch e"
  shows "delivered (k\<lparr>sk_current := e, sk_prior := Some (sk_current k), sk_msgs_this_epoch := m\<rparr>) S'"
proof -
  have ep: "unat (ek_epoch e) = unat (ek_epoch (sk_current k)) + 1" using epoch_succ [OF assms(2)] assms(4) by simp
  show ?thesis
  proof (rule deliveredI, goal_cases)
    case (3 c ep q)
    then show ?case using assms(6) [of c ep q] deliveredD(4) [OF assms(1), of c ep q] ep
      by (auto simp: word_le_nat_alt)
  next
    case (5 p c q)
    then have "p = sk_current k" by simp
    with 5 ep assms(6) have "(c, ek_epoch (sk_current k), q) \<in> S" by fastforce
    then show ?case using deliveredD(5) [OF assms(1)] \<open>p = _\<close> by (simp add: recv_direction_def)
  qed (use assms ep deliveredD(1) [OF assms(1)] in \<open>auto simp: recv_direction_def\<close>)
qed

lemma rekey_delivered:
  assumes "delivered k S" and "unat (ek_epoch (sk_current k)) < 2 ^ 64 - 1"
  shows "delivered (fst (rekey cr k now)) S"
proof (cases "derive_epoch_keys cr (sk_prk k) (sat_add (ek_epoch (sk_current k)) 1) now")
  case (Inr e)
  have e: "ek_epoch e = sat_add (ek_epoch (sk_current k)) 1" "ek_tracks e"
    using derive_epoch_keys_epoch [OF Inr] derive_epoch_keys_tracks [OF Inr] by auto
  have "(c, ek_epoch e, q) \<notin> S" for c q
    using deliveredD(4) [OF assms(1), of c "ek_epoch e" q] epoch_succ [OF assms(2)] e(1)
    by (auto simp: word_le_nat_alt)
  then show ?thesis using delivered_next_epoch [OF assms e(2,1), of S 0] by (simp add: rekey_def Inr)
qed (use assms in \<open>simp add: rekey_def\<close>)

text \<open>One open under the current keys, and one under the keys of the prior epoch.\<close>

lemma open_current_delivered:
  assumes "delivered k S" and "open_with_epoch cr (sk_current k) (recv_direction k) h f = (e', res)"
    and "h_epoch h = ek_epoch (sk_current k)"
  shows "delivered (k\<lparr>sk_current := e'\<rparr>) S"
    and "res = Inr m \<Longrightarrow> (h_channel h, h_epoch h, h_seq h) \<notin> S
      \<and> delivered (k\<lparr>sk_current := e'\<rparr>) (insert (h_channel h, h_epoch h, h_seq h) S)"
proof -
  note D = deliveredD [OF assms(1)]
  note R = open_with_epoch_replay [OF assms(2) D(1)]
  have ep: "ek_epoch e' = ek_epoch (sk_current k)" using open_with_epoch_epoch [OF assms(2)] .
  have new: "delivered (k\<lparr>sk_current := e'\<rparr>) T"
    if T: "\<And>c ep q. (c, ep, q) \<in> T \<Longrightarrow> (c, ep, q) \<in> S
      \<or> ep = ek_epoch (sk_current k) \<and> ek_refuses e' c (recv_direction k) q" for T
  proof (rule deliveredI, goal_cases)
    case (3 c ep q)
    then show ?case using T [OF 3] D(4) ep by auto
  next
    case (4 c q)
    then show ?case using T [of c "ek_epoch (sk_current k)" q] D(5) R ep by (auto simp: recv_direction_def)
  next
    case (5 p c q)
    then have "sk_prior k = Some p" by simp
    with 5 T [of c "ek_epoch p" q] D(3,6) show ?case by (fastforce simp: recv_direction_def)
  qed (use D R ep in auto)
  show "delivered (k\<lparr>sk_current := e'\<rparr>) S" by (rule new) simp
  show "(h_channel h, h_epoch h, h_seq h) \<notin> S \<and> delivered (k\<lparr>sk_current := e'\<rparr>) (insert (h_channel h, h_epoch h, h_seq h) S)"
    if "res = Inr m"
    using that R D(5) assms(3) by (auto intro!: new)
qed

lemma open_prior_delivered:
  assumes "delivered k S" and "sk_prior k = Some p"
    and "open_with_epoch cr p (recv_direction k) h f = (p', res)" and "h_epoch h = ek_epoch p"
  shows "delivered (k\<lparr>sk_prior := Some p'\<rparr>) S"
    and "res = Inr m \<Longrightarrow> (h_channel h, h_epoch h, h_seq h) \<notin> S
      \<and> delivered (k\<lparr>sk_prior := Some p'\<rparr>) (insert (h_channel h, h_epoch h, h_seq h) S)"
proof -
  note D = deliveredD [OF assms(1)]
  note R = open_with_epoch_replay [OF assms(3) D(2) [OF assms(2)]]
  have ep: "ek_epoch p' = ek_epoch p" using open_with_epoch_epoch [OF assms(3)] .
  have lt: "ek_epoch p < ek_epoch (sk_current k)" using D(3) [OF assms(2)] by (simp add: word_less_nat_alt)
  have new: "delivered (k\<lparr>sk_prior := Some p'\<rparr>) T"
    if T: "\<And>c ep q. (c, ep, q) \<in> T \<Longrightarrow> (c, ep, q) \<in> S
      \<or> ep = ek_epoch p \<and> ek_refuses p' c (recv_direction k) q" for T
  proof (rule deliveredI, goal_cases)
    case (3 c ep q)
    then show ?case using T [OF 3] D(4) lt by auto
  next
    case (4 c q)
    then show ?case using T [of c "ek_epoch (sk_current k)" q] D(5) lt by (auto simp: recv_direction_def)
  next
    case (5 p2 c q)
    then have "p2 = p'" by simp
    with 5 T [of c "ek_epoch p" q] D(6) [OF assms(2)] R ep show ?case by (auto simp: recv_direction_def)
  qed (use D(1) D(3) [OF assms(2)] R ep in auto)
  show "delivered (k\<lparr>sk_prior := Some p'\<rparr>) S" by (rule new) simp
  show "(h_channel h, h_epoch h, h_seq h) \<notin> S \<and> delivered (k\<lparr>sk_prior := Some p'\<rparr>) (insert (h_channel h, h_epoch h, h_seq h) S)"
    if "res = Inr m"
    using that R D(6) [OF assms(2)] assms(4) by (auto intro!: new)
qed

lemma open_next_delivered:
  assumes "delivered k S" and "unat (ek_epoch (sk_current k)) < 2 ^ 64 - 1"
    and "h_epoch h = sat_add (ek_epoch (sk_current k)) 1"
    and "derive_epoch_keys cr (sk_prk k) (h_epoch h) now = Inr e"
    and "open_with_epoch cr e (recv_direction k) h f = (e', Inr m)"
  shows "(h_channel h, h_epoch h, h_seq h) \<notin> S
    \<and> delivered (k\<lparr>sk_current := e', sk_prior := Some (sk_current k), sk_msgs_this_epoch := 0\<rparr>)
        (insert (h_channel h, h_epoch h, h_seq h) S)"
proof -
  note R = open_with_epoch_replay [OF assms(5) derive_epoch_keys_tracks [OF assms(4)]]
  have ep: "ek_epoch e' = h_epoch h"
    using open_with_epoch_epoch [OF assms(5)] derive_epoch_keys_epoch [OF assms(4)] by simp
  have new: "(c, h_epoch h, q) \<notin> S" for c q
    using deliveredD(4) [OF assms(1), of c "h_epoch h" q] epoch_succ [OF assms(2)] assms(3)
    by (auto simp: word_le_nat_alt)
  then show ?thesis
    using R ep assms(3) by (auto intro!: delivered_next_epoch [OF assms(1,2)])
qed

lemma open_dispatch_cases:
  assumes "open_dispatch cr k now h f = (k', res)"
  obtains (err) e where "k' = k" "res = Inl e"
    | (nxt) e e' m where "h_epoch h = sat_add (ek_epoch (sk_current k)) 1"
        "derive_epoch_keys cr (sk_prk k) (h_epoch h) now = Inr e"
        "open_with_epoch cr e (h_direction h) h f = (e', Inr m)" "res = Inr m"
        "k' = k\<lparr>sk_current := e', sk_prior := Some (sk_current k), sk_msgs_this_epoch := 0\<rparr>"
    | (prior) p p' where "h_epoch h < ek_epoch (sk_current k)" "h_epoch h = sat_sub (ek_epoch (sk_current k)) 1"
        "sk_prior k = Some p" "open_with_epoch cr p (h_direction h) h f = (p', res)" "k' = k\<lparr>sk_prior := Some p'\<rparr>"
    | (cur) cur' where "h_epoch h \<le> sat_add (ek_epoch (sk_current k)) 1" "h_epoch h \<noteq> sat_add (ek_epoch (sk_current k)) 1"
        "ek_epoch (sk_current k) \<le> h_epoch h"
        "open_with_epoch cr (sk_current k) (h_direction h) h f = (cur', res)" "k' = k\<lparr>sk_current := cur'\<rparr>"
proof -
  let ?c = "ek_epoch (sk_current k)"
  consider (a) "h_epoch h > sat_add ?c 1" | (b) "h_epoch h = sat_add ?c 1"
    | (c) "h_epoch h < sat_add ?c 1" "h_epoch h < ?c" "h_epoch h = sat_sub ?c 1"
    | (d) "h_epoch h < sat_add ?c 1" "h_epoch h < ?c" "h_epoch h \<noteq> sat_sub ?c 1"
    | (e) "h_epoch h < sat_add ?c 1" "\<not> h_epoch h < ?c"
    by (metis linorder_less_linear)
  then show thesis
  proof cases
    case a
    then show thesis using assms err by (auto simp: open_dispatch_def Let_def)
  next
    case b
    then show thesis using assms err nxt
      by (auto simp: open_dispatch_def Let_def split: sum.splits prod.splits)
  next
    case c
    then have nb: "h_epoch h \<noteq> sat_add ?c 1" "\<not> h_epoch h > sat_add ?c 1" by auto
    show thesis
    proof (cases "sk_prior k")
      case (Some p)
      then show thesis using assms prior [of p] c(2,3) nb
        by (auto simp: open_dispatch_def Let_def split: prod.splits)
    qed (use assms err c(2,3) nb in \<open>auto simp: open_dispatch_def Let_def\<close>)
  next
    case d
    then have nb: "h_epoch h \<noteq> sat_add ?c 1" "\<not> h_epoch h > sat_add ?c 1" by auto
    then show thesis using assms err d(2,3) by (auto simp: open_dispatch_def Let_def)
  next
    case e
    then have nb: "h_epoch h \<noteq> sat_add ?c 1" "\<not> h_epoch h > sat_add ?c 1" by auto
    obtain cur' r where o: "open_with_epoch cr (sk_current k) (h_direction h) h f = (cur', r)" by (meson surj_pair)
    have "k' = k\<lparr>sk_current := cur'\<rparr>" "res = r" using assms nb e(2) o by (auto simp: open_dispatch_def Let_def)
    then show thesis using cur [of cur'] o nb e by simp
  qed
qed

lemma open_frame_cases:
  assumes "open_frame cr k now ch f = (k', res)"
  obtains (refused) e where "k' = k" "res = Inl e"
    | (disp) h where "frame_slot f = Some (h_channel h, h_epoch h, h_seq h)" "h_direction h = recv_direction k"
        "h_channel h = ch" "header_parse (take CHANNEL_HEADER_LEN f) = Inr h" "length f \<ge> 40"
        "open_dispatch cr k now h f = (k', res)"
proof (cases "header_parse (take CHANNEL_HEADER_LEN f)")
  case (Inl e)
  then show thesis using assms refused by (auto simp: open_frame_def split: if_splits)
next
  case (Inr h)
  then show thesis using assms refused disp [of h]
    by (auto simp: open_frame_def frame_slot_def recv_direction_iff CHANNEL_HEADER_LEN_def usz_add_def usize_max_def
        split: if_splits)
qed

lemma open_frame_delivered:
  assumes "open_frame cr k now ch f = (k', res)" and "delivered k S" and "unat (ek_epoch (sk_current k)) < 2 ^ 64 - 1"
  shows "(\<exists>e. res = Inl e) \<and> delivered k' S
    \<or> (\<exists>m s. res = Inr m \<and> frame_slot f = Some s \<and> s \<notin> S \<and> delivered k' (insert s S))"
  using assms(1)
proof (cases rule: open_frame_cases)
  case (disp h)
  let ?s = "(h_channel h, h_epoch h, h_seq h)"
  from disp(6) show ?thesis
  proof (cases rule: open_dispatch_cases)
    case nxt
    then show ?thesis using open_next_delivered [OF assms(2,3) nxt(1,2)] disp(1,2) by simp
  next
    case (prior p p')
    have "unat (ek_epoch p) = unat (ek_epoch (sk_current k)) - 1"
      using deliveredD(3) [OF assms(2) prior(3)] by simp
    moreover have "unat (h_epoch h) = unat (ek_epoch (sk_current k)) - 1"
      using prior(1) unfolding prior(2) by (simp add: unat_sat_sub)
    ultimately have "h_epoch h = ek_epoch p" by (simp add: word_unat_eq_iff)
    then show ?thesis
      using open_prior_delivered [OF assms(2) prior(3) prior(4) [unfolded disp(2)]] disp(1) prior(5) by (cases res) auto
  next
    case (cur cur')
    have "h_epoch h = ek_epoch (sk_current k)"
      using cur(1-3) epoch_succ [OF assms(3)] by (simp add: word_le_nat_alt word_unat_eq_iff)
    then show ?thesis
      using open_current_delivered [OF assms(2) cur(4) [unfolded disp(2)]] disp(1) cur(5) by (cases res) auto
  qed (use assms(2) in auto)
qed (use assms(2) in auto)

lemma session_step_delivered:
  assumes "session_step cr k x = (k', ev)" and "delivered k S" and "unat (ek_epoch (sk_current k)) < 2 ^ 64 - 1"
  shows "\<exists>S1. map frame_slot (opened_frames [ev]) = map Some S1 \<and> distinct S1 \<and> set S1 \<inter> S = {}
    \<and> delivered k' (S \<union> set S1) \<and> unat (ek_epoch (sk_current k')) \<le> unat (ek_epoch (sk_current k)) + 1"
proof -
  have le: "unat (ek_epoch (sk_current k')) \<le> unat (ek_epoch (sk_current k)) + 1"
    using session_step_send [OF assms(1)] epoch_succ [OF assms(3)] by auto
  have quiet: ?thesis if "delivered k' S" "opened_frames [ev] = []"
    using that le by (intro exI [of _ "[]"]) simp
  show ?thesis
  proof (cases x)
    case (OpSeal ch pt)
    have "k' = fst (seal cr k ch pt)" "opened_frames [ev] = []"
      using assms(1) OpSeal by (auto split: prod.splits sum.splits)
    then show ?thesis using delivered_cong [OF assms(2), of k'] by (intro quiet) (simp_all add: seal_fields seal_replays)
  next
    case (OpOpen now ch f)
    obtain k1 res where o: "open_frame cr k now ch f = (k1, res)" by (meson surj_pair)
    from open_frame_delivered [OF o assms(2,3)] consider (err) e where "res = Inl e" "delivered k1 S"
      | (ok) m s where "res = Inr m" "frame_slot f = Some s" "s \<notin> S" "delivered k1 (insert s S)" by blast
    then show ?thesis
    proof cases
      case err
      then show ?thesis using assms(1) OpOpen o by (intro quiet) auto
    next
      case ok
      then show ?thesis using assms(1) OpOpen o le by (intro exI [of _ "[s]"]) auto
    qed
  next
    case (OpRekey now)
    then show ?thesis using assms(1) rekey_delivered [OF assms(2,3)] by (intro quiet) auto
  next
    case OpCloseGrace
    then have "k' = close_grace_period k" "opened_frames [ev] = []" using assms(1) by auto
    then show ?thesis
      using delivered_cong [OF assms(2), of k'] by (intro quiet) (simp_all add: close_grace_period_def)
  next
    case OpZeroize
    then have "k' = zeroize_all k" "opened_frames [ev] = []" using assms(1) by auto
    moreover have "ek_replays (zeroize_epoch_keys e) = ek_replays e" for e
      by (auto simp: ek_replays_def fun_eq_iff zeroize_epoch_keys_def ek_get_def get_at_def)
    ultimately show ?thesis
      using delivered_cong [OF assms(2), of k']
      by (intro quiet) (simp_all add: zeroize_all_def, simp add: zeroize_epoch_keys_def)
  qed
qed

interpretation received: slot_ledger cr delivered opened_frames for cr
  by unfold_locales (simp, rule opened_frames_Cons, rule session_step_delivered)

lemma from_outcome_fields:
  assumes "from_outcome cr prk role now = Inr k"
  shows "derive_epoch_keys cr prk 0 now = Inr (sk_current k)" "sk_prk k = prk" "sk_role k = role"
    "sk_prior k = None" "ek_epoch (sk_current k) = 0" "sk_msgs_this_epoch k = 0"
  using assms derive_epoch_keys_epoch [of cr prk 0 now] by (auto simp: from_outcome_def)

lemma from_outcome_sent: "sent_before k {}"
  by (simp add: sent_before_def)

lemma from_outcome_delivered: "from_outcome cr prk role now = Inr k \<Longrightarrow> delivered k {}"
  using from_outcome_fields [of cr prk role now k] by (auto simp: delivered_def intro: derive_epoch_keys_tracks)

text \<open>The key a channel direction starts an epoch with.\<close>

definition base_key :: "crypto \<Rightarrow> bytes \<Rightarrow> channel_id \<Rightarrow> direction \<Rightarrow> u64 \<Rightarrow> bytes" where
  "base_key cr prk c d ep =
     (case export_keying_material cr prk CHAN_LABEL (epoch_context (unat (u8_of_channel c)) (dir_idx d) ep) 32 of
        Inr k \<Rightarrow> k | Inl _ \<Rightarrow> [])"

lemma export_Ok:
  assumes "hkdf_total cr" and "length prk = 32"
  shows "\<exists>k. export_keying_material cr prk CHAN_LABEL (epoch_context i j ep) 32 = Inr k \<and> length k = 32"
proof -
  have "\<exists>k. c_expand cr prk info 32 = Some k \<and> length k = 32" and "c_from_prk cr prk" for info
    using assms by (auto simp: hkdf_total_def)
  then show ?thesis
    by (fastforce simp: export_keying_material_def Let_def CHAN_LABEL_def ascii_def epoch_context_def)
qed

lemma base_key_length: "hkdf_total cr \<Longrightarrow> length prk = 32 \<Longrightarrow> length (base_key cr prk c d ep) = 32"
  using export_Ok [of cr prk "unat (u8_of_channel c)" "dir_idx d" ep] by (auto simp: base_key_def)

lemma try_map_total: "(\<And>x. x \<in> set xs \<Longrightarrow> f x = Inr (g x)) \<Longrightarrow> try_map f xs = Inr (map g xs)"
  by (induction xs) auto

lemma derive_epoch_keys_Ok:
  assumes "hkdf_total cr" and "length prk = 32"
  obtains e where "derive_epoch_keys cr prk ep now = Inr e" "ek_epoch e = ep" "length (ek_states e) = 12"
    "\<And>c d. ek_get e c d = Some (channel_state_new (base_key cr prk c d ep))"
proof -
  let ?f = "\<lambda>(c, d). and_then (export_keying_material cr prk CHAN_LABEL (epoch_context c d ep) 32) (\<lambda>key.
      Ok (channel_state_new key))"
  let ?k = "\<lambda>(c, d). channel_state_new (case export_keying_material cr prk CHAN_LABEL (epoch_context c d ep) 32 of Inr k \<Rightarrow> k | Inl _ \<Rightarrow> [])"
  define xs where "xs = concat (map (\<lambda>c. map (Pair c) [0..<2]) [0..<6])"
  have xs: "xs = [(0, 0), (0, 1), (1, 0), (1, 1), (2, 0), (2, 1), (3, 0), (3, 1), (4, 0), (4, 1), (5, 0), (5, 1)]"
    by (simp add: xs_def upt_rec)
  have "?f x = Inr (?k x)" for x
    using export_Ok [OF assms, of "fst x" "snd x" ep] by (auto simp: case_prod_beta)
  then have tm: "try_map ?f xs = Inr (map ?k xs)" by (intro try_map_total) simp
  let ?e = "\<lparr>ek_epoch = ep, ek_states = map ?k xs, ek_started_at_secs = now\<rparr>"
  have "derive_epoch_keys cr prk ep now = Inr ?e"
    using tm by (simp add: derive_epoch_keys_def xs_def [symmetric])
  moreover have "ek_get ?e c d = Some (channel_state_new (base_key cr prk c d ep))" for c d
    by (cases c; cases d) (simp_all add: ek_get_def get_at_def state_idx_def u8_of_channel_def dir_idx_def xs base_key_def)
  ultimately show thesis using that [of ?e] by (simp add: xs)
qed

lemma from_outcome_Ok:
  assumes "hkdf_total cr" and "length prk = 32"
  shows "\<exists>k. from_outcome cr prk role now = Inr k"
  by (rule derive_epoch_keys_Ok [OF assms, of 0 now]) (simp add: from_outcome_def)

subsection \<open>No slot is sealed or delivered twice\<close>

text \<open>
  C4. A session never seals two frames with the same channel, epoch and sequence number, whatever
  sequence of seal, open, rekey, grace-period and wipe calls it executes and whatever the peer
  sends. Channel, direction and epoch select the key chain and generation and sequence number form
  the nonce, so no nonce is used twice under one key.
\<close>

theorem sealed_slots_distinct:
  assumes "from_outcome cr prk role now = Inr k" and "length ops < 2 ^ 64"
  shows "let fs = sealed_frames (snd (run_session cr k ops))
    in distinct (map frame_slot fs) \<and> None \<notin> set (map frame_slot fs)"
  using sent.run_slots_fresh [OF from_outcome_sent, of k ops cr] assms from_outcome_fields(5) [OF assms(1)]
  by (simp add: Let_def)

text \<open>
  C5. No frame slot is delivered twice: over any sequence of session calls, the frames that \<open>open\<close>
  accepts carry pairwise different channel, epoch and sequence numbers, across replays, reordering,
  epoch changes and the grace period of the prior epoch.
\<close>

theorem opened_slots_distinct:
  assumes "from_outcome cr prk role now = Inr k" and "length ops < 2 ^ 64"
  shows "let fs = opened_frames (snd (run_session cr k ops))
    in distinct (map frame_slot fs) \<and> None \<notin> set (map frame_slot fs)"
  using received.run_slots_fresh [OF from_outcome_delivered [OF assms(1)], of ops] assms(2) from_outcome_fields(5) [OF assms(1)]
  by (simp add: Let_def)

theorem sealed_slots_distinct_witness:
  "\<exists>k. from_outcome plain_crypto (replicate 32 7) Initiator 0 = Inr k
    \<and> (let fs = sealed_frames (snd (run_session plain_crypto k
             [OpSeal Control [1], OpSeal Control [2], OpRekey 5, OpSeal Control [1]]))
       in distinct (map frame_slot fs) \<and> None \<notin> set (map frame_slot fs))"
proof -
  obtain k where k: "from_outcome plain_crypto (replicate 32 7) Initiator 0 = Inr k"
    using from_outcome_Ok [OF plain_crypto_total, of "replicate 32 7" Initiator 0] by auto
  show ?thesis by (intro exI [of _ k] conjI k sealed_slots_distinct [OF k]) simp
qed

theorem opened_slots_distinct_witness:
  "\<exists>k. from_outcome plain_crypto (replicate 32 7) Responder 0 = Inr k
    \<and> (let fs = opened_frames (snd (run_session plain_crypto k
             (replicate 2 (OpOpen 0 Control (header_encode \<lparr>h_channel = Control, h_direction = I2R, h_epoch = 0,
                h_generation = 0, h_seq = 0\<rparr> @ [9] @ take 16 (base_key plain_crypto (replicate 32 7) Control I2R 0))))))
       in distinct (map frame_slot fs) \<and> None \<notin> set (map frame_slot fs))"
proof -
  obtain k where k: "from_outcome plain_crypto (replicate 32 7) Responder 0 = Inr k"
    using from_outcome_Ok [OF plain_crypto_total, of "replicate 32 7" Responder 0] by auto
  show ?thesis by (intro exI [of _ k] conjI k opened_slots_distinct [OF k]) simp
qed

end
