(* ===== verification/Channel_Delivery.thy ===== *)
theory Channel_Delivery
  imports Channel_Security
begin

text \<open>
  What the channel encryption delivers: the key invariant of a session, that an \<open>open\<close> which fails
  leaves the session as it was, that two peers which share a root key and exchange messages in
  order read exactly what the other sealed (through ratchet steps and epoch changes on both
  sides), and what is left after \<open>zeroize_all\<close>.
\<close>

subsection \<open>The key invariant\<close>

text \<open>Every chain holds the keys of its generation window, derived from the base key of its slot.\<close>

definition epoch_inv :: "crypto \<Rightarrow> bytes \<Rightarrow> epoch_keys \<Rightarrow> bool" where
  "epoch_inv cr prk e \<longleftrightarrow> length (ek_states e) = 12 \<and>
     (\<forall>c d st. ek_get e c d = Some st \<longrightarrow> ratchet_inv cr (base_key cr prk c d (ek_epoch e)) (cs_ratchet st)
        \<and> window_ok (cs_replay st))"

definition sender_inv :: "session_keys \<Rightarrow> bool" where
  "sender_inv k \<longleftrightarrow> (\<forall>c st. ek_get (sk_current k) c (send_direction k) = Some st \<longrightarrow>
     cs_current_gen st = rc_max_gen (cs_ratchet st) \<and> unat (rc_max_gen (cs_ratchet st)) \<le> unat (cs_next_seq st))"

definition keys_ok :: "crypto \<Rightarrow> session_keys \<Rightarrow> bool" where
  "keys_ok cr k \<longleftrightarrow> length (sk_prk k) = 32 \<and> epoch_inv cr (sk_prk k) (sk_current k)
     \<and> (\<forall>p. sk_prior k = Some p \<longrightarrow> epoch_inv cr (sk_prk k) p)"

definition keys_inv :: "crypto \<Rightarrow> session_keys \<Rightarrow> bool" where
  "keys_inv cr k \<longleftrightarrow> keys_ok cr k \<and> sender_inv k"

lemma epoch_inv_get:
  assumes "epoch_inv cr prk e"
  obtains st where "ek_get e c d = Some st" "ratchet_inv cr (base_key cr prk c d (ek_epoch e)) (cs_ratchet st)"
    "window_ok (cs_replay st)"
proof -
  have "ek_get e c d = Some (ek_states e ! state_idx c d)"
    using assms state_idx_less [of c d] by (simp add: epoch_inv_def ek_get_def get_at_def)
  then show thesis using assms that by (simp add: epoch_inv_def)
qed

lemma epoch_inv_put:
  assumes "epoch_inv cr prk e" and "ratchet_inv cr (base_key cr prk c d (ek_epoch e)) (cs_ratchet st)"
    and "window_ok (cs_replay st)"
  shows "epoch_inv cr prk (ek_put e c d st)"
proof -
  obtain st0 where st0: "ek_get e c d = Some st0" using epoch_inv_get [OF assms(1)] .
  show ?thesis using assms by (auto simp: epoch_inv_def ek_get_put [OF st0] split: if_splits)
qed

lemma epoch_inv_fresh:
  assumes "hkdf_total cr" and "length prk = 32"
  obtains e where "derive_epoch_keys cr prk ep now = Inr e" "epoch_inv cr prk e" "ek_epoch e = ep"
    "\<And>c d. ek_get e c d = Some (channel_state_new (base_key cr prk c d ep))"
proof (rule derive_epoch_keys_Ok [OF assms, of ep now])
  fix e
  assume e: "derive_epoch_keys cr prk ep now = Inr e" "ek_epoch e = ep" "length (ek_states e) = 12"
    "\<And>c d. ek_get e c d = Some (channel_state_new (base_key cr prk c d ep))"
  have "epoch_inv cr prk e"
    using e(2,3) by (simp add: epoch_inv_def e(4) channel_state_new_def ratchet_inv_base base_key_length [OF assms] window_ok_new)
  then show thesis using that e by blast
qed

lemma fresh_epoch_keys_inv:
  assumes "hkdf_total cr" and "length (sk_prk k) = 32" and "derive_epoch_keys cr (sk_prk k) ep now = Inr e"
    and "sk_current k = e" and "\<And>p. sk_prior k = Some p \<Longrightarrow> epoch_inv cr (sk_prk k) p"
  shows "keys_inv cr k"
proof (rule epoch_inv_fresh [OF assms(1,2), of ep now])
  fix e'
  assume e': "derive_epoch_keys cr (sk_prk k) ep now = Inr e'" "epoch_inv cr (sk_prk k) e'" "ek_epoch e' = ep"
    "\<And>c d. ek_get e' c d = Some (channel_state_new (base_key cr (sk_prk k) c d ep))"
  then have "sk_current k = e'" using assms(3,4) by simp
  then show ?thesis using e' assms(2,5)
    by (auto simp: keys_inv_def keys_ok_def sender_inv_def channel_state_new_def from_base_key_def)
qed

lemma next_epoch_keys_inv:
  assumes "hkdf_total cr" and "keys_inv cr k" and "derive_epoch_keys cr (sk_prk k) ep now = Inr e"
  shows "keys_inv cr (k\<lparr>sk_current := e, sk_prior := Some (sk_current k), sk_msgs_this_epoch := m\<rparr>)"
  by (rule fresh_epoch_keys_inv [OF assms(1), where ep = ep and now = now and e = e])
    (use assms(2,3) in \<open>auto simp: keys_inv_def keys_ok_def\<close>)

subsection \<open>Opening keeps the invariant, and a failure changes nothing\<close>

lemma open_with_epoch_inv:
  assumes "hkdf_total cr" and "epoch_inv cr prk e" and "open_with_epoch cr e d h f = (e', res)"
  shows "epoch_inv cr prk e'" and "res = Inl er \<Longrightarrow> e' = e"
proof -
  obtain st where st: "ek_get e (h_channel h) d = Some st"
      "ratchet_inv cr (base_key cr prk (h_channel h) d (ek_epoch e)) (cs_ratchet st)" "window_ok (cs_replay st)"
    using epoch_inv_get [OF assms(2)] .
  obtain r where r: "commit_advance_to cr (cs_ratchet st) (h_generation h) = (r, Inr ())"
      "ratchet_inv cr (base_key cr prk (h_channel h) d (ek_epoch e)) r"
    using commit_advance_inv [OF assms(1) st(2)] by blast
  have w: "window_ok (replay_accept (cs_replay st) (h_seq h))" if "replay_check (cs_replay st) (h_seq h) = Inr ()"
    using replay.accept_invar [OF st(3)] that by (simp add: replay_refused_def)
  consider (same) "e' = e" | (acc) m where "res = Inr m" "replay_check (cs_replay st) (h_seq h) = Inr ()"
      "e' = ek_put e (h_channel h) d (st\<lparr>cs_ratchet := r, cs_replay := replay_accept (cs_replay st) (h_seq h)\<rparr>)"
    using assms(3) st(1) r(1)
    by (auto simp: open_with_epoch_def split: sum.splits option.splits)
  then show "epoch_inv cr prk e'"
    by cases (use assms(2) r(2) w in \<open>auto intro: epoch_inv_put\<close>)
  show "e' = e" if "res = Inl er"
    using that assms(3) st(1) r(1) by (auto simp: open_with_epoch_def split: sum.splits option.splits)
qed

lemma sender_inv_cong:
  "sender_inv k \<Longrightarrow> sk_role k' = sk_role k \<Longrightarrow>
    (\<And>c. ek_get (sk_current k') c (send_direction k) = ek_get (sk_current k) c (send_direction k)) \<Longrightarrow> sender_inv k'"
  unfolding sender_inv_def using send_direction_cong by metis

lemma open_frame_keys_ok:
  assumes "hkdf_total cr" and "keys_ok cr k" and "open_frame cr k now ch f = (k', res)"
  shows "keys_ok cr k' \<and> (\<forall>er. res = Inl er \<longrightarrow> k' = k)"
  using assms(3)
proof (cases rule: open_frame_cases)
  case (disp h)
  have K: "length (sk_prk k) = 32" "epoch_inv cr (sk_prk k) (sk_current k)"
      "\<And>p. sk_prior k = Some p \<Longrightarrow> epoch_inv cr (sk_prk k) p"
    using assms(2) by (auto simp: keys_ok_def)
  from disp(6) show ?thesis
  proof (cases rule: open_dispatch_cases)
    case (nxt e e' m)
    have "epoch_inv cr (sk_prk k) e"
      by (rule epoch_inv_fresh [OF assms(1) K(1), of "h_epoch h" now]) (use nxt(2) in simp)
    then show ?thesis using open_with_epoch_inv(1) [OF assms(1) _ nxt(3)] K nxt(4) by (simp add: keys_ok_def nxt(5))
  next
    case (prior p p')
    have "keys_ok cr k'" using open_with_epoch_inv(1) [OF assms(1) K(3) [OF prior(3)] prior(4)] K
      by (simp add: keys_ok_def prior(5))
    then show ?thesis using open_with_epoch_inv(2) [OF assms(1) K(3) [OF prior(3)] prior(4)] prior(3,5) by auto
  next
    case (cur cur')
    have "keys_ok cr k'" using open_with_epoch_inv(1) [OF assms(1) K(2) cur(4)] K
      by (simp add: keys_ok_def cur(5))
    then show ?thesis using open_with_epoch_inv(2) [OF assms(1) K(2) cur(4)] cur(5) by auto
  qed (use assms(2) in auto)
qed (use assms(2) in auto)

lemma open_frame_keys_inv:
  assumes "hkdf_total cr" and "keys_inv cr k" and "open_frame cr k now ch f = (k', res)"
  shows "keys_inv cr k'"
proof -
  have K: "keys_ok cr k" "sender_inv k" using assms(2) by (auto simp: keys_inv_def)
  have "sender_inv k'" using assms(3)
  proof (cases rule: open_frame_cases)
    case (disp h)
    have dir: "send_direction k \<noteq> h_direction h" using disp(2) recv_direction_iff by metis
    have other: "ek_get e' c (send_direction k) = ek_get e c (send_direction k)"
      if "open_with_epoch cr e (h_direction h) h f = (e', r)" for e e' r c
      using open_with_epoch_effect [OF that] dir by blast
    from disp(6) show ?thesis
    proof (cases rule: open_dispatch_cases)
      case (nxt e e' m)
      let ?k = "k\<lparr>sk_current := e, sk_prior := Some (sk_current k), sk_msgs_this_epoch := 0\<rparr>"
      have si: "sender_inv ?k" using next_epoch_keys_inv [OF assms(1,2) nxt(2)] by (simp add: keys_inv_def)
      show ?thesis
        by (rule sender_inv_cong [OF si]) (simp_all add: nxt(5) other [OF nxt(3)] send_direction_def [of ?k] send_direction_def [symmetric])
    next
      case (cur cur')
      show ?thesis by (rule sender_inv_cong [OF K(2)]) (simp_all add: cur(5) other [OF cur(4)])
    qed (use K(2) in \<open>auto intro: sender_inv_cong\<close>)
  qed (use K(2) in simp)
  then show ?thesis using open_frame_keys_ok [OF assms(1) K(1) assms(3)] by (simp add: keys_inv_def)
qed

subsection \<open>Sealing\<close>

lemma ratchet_if_due_spec:
  assumes "hkdf_total cr" and "ratchet_inv cr base (cs_ratchet st)"
    and "cs_current_gen st = rc_max_gen (cs_ratchet st)"
  shows "ratchet_if_due cr st = (st, Inl NonceExhausted) \<and> unat (cs_current_gen st) \<ge> 2 ^ 32 - 3
    \<or> (\<exists>r g. ratchet_if_due cr st = (st\<lparr>cs_ratchet := r, cs_current_gen := g\<rparr>, Inr ())
        \<and> ratchet_inv cr base r \<and> rc_max_gen r = g
        \<and> (g = cs_current_gen st \<or> unat g = unat (cs_current_gen st) + 1 \<and> cs_frames_sealed st > 0))"
proof (cases "cs_frames_sealed st > 0 \<and> cs_frames_sealed st mod RATCHET_INTERVAL = 0")
  case due: True
  show ?thesis
  proof (cases "unat (cs_current_gen st) \<ge> 2 ^ 32 - 3")
    case True
    then have "checked_add (cs_current_gen st) 1 = None \<or>
        (\<exists>n. checked_add (cs_current_gen st) 1 = Some n \<and> n \<ge> GEN_HARD_LIMIT)"
      by (auto simp: checked_add_def GEN_HARD_LIMIT_def word_le_nat_alt unat_word_ariths)
    then show ?thesis using due True by (auto simp: ratchet_if_due_def)
  next
    case False
    define g where "g = cs_current_gen st + 1"
    have g: "unat g = unat (cs_current_gen st) + 1" "checked_add (cs_current_gen st) 1 = Some g" "\<not> g \<ge> GEN_HARD_LIMIT"
      using False by (auto simp: g_def checked_add_def GEN_HARD_LIMIT_def word_le_nat_alt unat_word_ariths)
    have le: "unat (rc_max_gen (cs_ratchet st)) - 2 \<le> unat g" "unat g \<le> unat (rc_max_gen (cs_ratchet st)) + 2"
      using g(1) assms(3) by auto
    obtain r where r: "get_or_advance_to cr (cs_ratchet st) g = (r, Inr (chain_key cr base (unat g)))"
        "ratchet_inv cr base r" "rc_max_gen r = max (rc_max_gen (cs_ratchet st)) g"
      using get_or_advance_spec [OF assms(1,2) le] by blast
    have "rc_max_gen r = g" using r(3) g(1) assms(3) by (simp add: max_def word_le_nat_alt)
    then show ?thesis using due g r(1,2) by (auto simp: ratchet_if_due_def)
  qed
next
  case False
  then have "ratchet_if_due cr st = (st\<lparr>cs_ratchet := cs_ratchet st, cs_current_gen := cs_current_gen st\<rparr>, Inr ())"
    by (simp only: ratchet_if_due_def if_not_P) simp
  then show ?thesis using assms(2,3)
    by (intro disjI2 exI [of _ "cs_ratchet st"] exI [of _ "cs_current_gen st"]) simp
qed

lemma build_nonce_length [simp]: "length (build_nonce g q) = 12"
  by (simp add: build_nonce_def)

lemma seal_succeeds:
  assumes "hkdf_total cr" and "aead_correct cr" and "keys_inv cr k" and "length pt \<le> AEAD_P_MAX"
    and st: "ek_get (sk_current k) ch (send_direction k) = Some st" and lim: "unat (cs_next_seq st) < 2 ^ 32 - 3"
  obtains h ct st' where
    "seal cr k ch pt = ((put_current k ch (send_direction k) st')\<lparr>sk_msgs_this_epoch := sat_add (sk_msgs_this_epoch k) 1\<rparr>,
       Inr (header_encode h @ ct))"
    "h_channel h = ch" "h_direction h = send_direction k" "h_epoch h = ek_epoch (sk_current k)" "h_seq h = cs_next_seq st"
    "h_generation h = cs_current_gen st \<or> unat (h_generation h) = unat (cs_current_gen st) + 1" "length ct = length pt + 16"
    "c_open cr (chain_key cr (base_key cr (sk_prk k) ch (send_direction k) (h_epoch h)) (unat (h_generation h)))
       (build_nonce (h_generation h) (h_seq h)) (header_aad h) ct = Some pt"
    "cs_current_gen st' = h_generation h" "rc_max_gen (cs_ratchet st') = h_generation h"
    "ratchet_inv cr (base_key cr (sk_prk k) ch (send_direction k) (h_epoch h)) (cs_ratchet st')"
    "unat (cs_next_seq st') = unat (cs_next_seq st) + 1" "cs_replay st' = cs_replay st"
proof -
  define base where "base = base_key cr (sk_prk k) ch (send_direction k) (ek_epoch (sk_current k))"
  have inv: "ratchet_inv cr base (cs_ratchet st)" "cs_current_gen st = rc_max_gen (cs_ratchet st)"
      "unat (rc_max_gen (cs_ratchet st)) \<le> unat (cs_next_seq st)"
    using assms(3) st by (auto simp: keys_inv_def keys_ok_def epoch_inv_def sender_inv_def base_def)
  obtain r1 g where r1: "ratchet_if_due cr st = (st\<lparr>cs_ratchet := r1, cs_current_gen := g\<rparr>, Inr ())"
      "ratchet_inv cr base r1" "rc_max_gen r1 = g" "g = cs_current_gen st \<or> unat g = unat (cs_current_gen st) + 1"
    using ratchet_if_due_spec [OF assms(1) inv(1,2)] inv(2,3) lim by auto
  obtain r where r: "get_or_advance_to cr r1 g = (r, Inr (chain_key cr base (unat g)))" "ratchet_inv cr base r" "rc_max_gen r = g"
    using get_or_advance_spec [OF assms(1) r1(2), of g] r1(3) by auto
  define h where "h = \<lparr>h_channel = ch, h_direction = send_direction k, h_epoch = ek_epoch (sk_current k),
      h_generation = g, h_seq = cs_next_seq st\<rparr>"
  have "length (chain_key cr base (unat g)) = 32"
    using chain_key_length [OF assms(1)] r(2) by (auto simp: ratchet_inv_def)
  then obtain ct where ct: "c_seal cr (chain_key cr base (unat g)) (build_nonce g (cs_next_seq st)) (header_aad h) pt = Some ct"
      "length ct = length pt + 16" "c_open cr (chain_key cr base (unat g)) (build_nonce g (cs_next_seq st)) (header_aad h) ct = Some pt"
    using assms(2,4) unfolding aead_correct_def by (metis build_nonce_length)
  define st' where "st' = st\<lparr>cs_current_gen := g, cs_ratchet := r, cs_next_seq := sat_add (cs_next_seq st) 1,
      cs_frames_sealed := sat_add (cs_frames_sealed st) 1\<rparr>"
  have "\<not> cs_next_seq st \<ge> SEQ_HARD_LIMIT" using lim by (simp add: SEQ_HARD_LIMIT_def word_le_nat_alt)
  then have "seal cr k ch pt = ((put_current k ch (send_direction k) st')\<lparr>sk_msgs_this_epoch := sat_add (sk_msgs_this_epoch k) 1\<rparr>,
       Inr (header_encode h @ ct))"
    using st r1(1) r(1) ct(1) by (simp add: seal_def Let_def h_def st'_def)
  moreover have "unat (sat_add (cs_next_seq st) 1) = unat (cs_next_seq st) + 1" using lim by (simp add: unat_sat_add)
  ultimately show thesis
    using that [of st' h ct] r1(4) r(2,3) ct(2,3) by (simp add: st'_def h_def base_def)
qed

lemma put_current_keys_inv:
  assumes "keys_inv cr k" and "ratchet_inv cr (base_key cr (sk_prk k) ch (send_direction k) (ek_epoch (sk_current k))) (cs_ratchet st)"
    and "window_ok (cs_replay st)" and "cs_current_gen st = rc_max_gen (cs_ratchet st)"
    and "unat (rc_max_gen (cs_ratchet st)) \<le> unat (cs_next_seq st)"
  shows "keys_inv cr ((put_current k ch (send_direction k) st)\<lparr>sk_msgs_this_epoch := m\<rparr>)"
proof -
  have K: "length (sk_prk k) = 32" "epoch_inv cr (sk_prk k) (sk_current k)" "sender_inv k"
      "\<And>p. sk_prior k = Some p \<Longrightarrow> epoch_inv cr (sk_prk k) p"
    using assms(1) by (auto simp: keys_inv_def keys_ok_def)
  obtain st0 where st0: "ek_get (sk_current k) ch (send_direction k) = Some st0" using epoch_inv_get [OF K(2)] .
  have "sender_inv ((put_current k ch (send_direction k) st)\<lparr>sk_msgs_this_epoch := m\<rparr>)"
    using K(3) assms(4,5) send_direction_cong [of "(put_current k ch (send_direction k) st)\<lparr>sk_msgs_this_epoch := m\<rparr>" k]
    by (simp add: sender_inv_def ek_get_put [OF st0])
  then show ?thesis using K epoch_inv_put [OF K(2) assms(2,3)] by (simp add: keys_inv_def keys_ok_def)
qed

subsection \<open>Two peers in step\<close>

text \<open>
  \<open>linked a b\<close>: on every channel \<open>b\<close>'s receive chain stands at the generation \<open>a\<close> seals with, and
  \<open>b\<close> has accepted only numbers below \<open>a\<close>'s counter.
\<close>

definition linked :: "session_keys \<Rightarrow> session_keys \<Rightarrow> bool" where
  "linked a b \<longleftrightarrow> (\<forall>c st st'. ek_get (sk_current a) c (send_direction a) = Some st \<longrightarrow>
     ek_get (sk_current b) c (send_direction a) = Some st' \<longrightarrow>
     rc_max_gen (cs_ratchet st') = rc_max_gen (cs_ratchet st)
     \<and> (\<exists>A. tracks (cs_replay st') A \<and> (\<forall>q \<in> A. q < unat (cs_next_seq st))))"

definition sent_atmost :: "nat \<Rightarrow> session_keys \<Rightarrow> bool" where
  "sent_atmost n k \<longleftrightarrow> (\<forall>c st. ek_get (sk_current k) c (send_direction k) = Some st \<longrightarrow> unat (cs_next_seq st) \<le> n)"

definition in_step :: "crypto \<Rightarrow> nat \<Rightarrow> session_keys \<Rightarrow> session_keys \<Rightarrow> bool" where
  "in_step cr n a b \<longleftrightarrow> keys_inv cr a \<and> keys_inv cr b \<and> sk_prk a = sk_prk b \<and> sk_role a \<noteq> sk_role b
     \<and> ek_epoch (sk_current a) = ek_epoch (sk_current b) \<and> linked a b \<and> linked b a
     \<and> sent_atmost n a \<and> sent_atmost n b \<and> unat (ek_epoch (sk_current a)) \<le> n"

lemma in_step_sym: "in_step cr n a b \<Longrightarrow> in_step cr n b a"
  by (auto simp: in_step_def)

lemma in_step_mono: "in_step cr n a b \<Longrightarrow> n \<le> m \<Longrightarrow> in_step cr m a b"
  by (fastforce simp: in_step_def sent_atmost_def)

lemma opposite_direction: "sk_role a \<noteq> sk_role b \<Longrightarrow> send_direction a = recv_direction b"
  by (cases "sk_role a"; cases "sk_role b") (simp_all add: send_direction_def recv_direction_def)

lemma open_with_epoch_succeeds:
  assumes "hkdf_total cr" and "epoch_inv cr prk e" and st: "ek_get e (h_channel h) d = Some st"
    and "h_epoch h = ek_epoch e"
    and "h_generation h = rc_max_gen (cs_ratchet st) \<or> unat (h_generation h) = unat (rc_max_gen (cs_ratchet st)) + 1"
    and "replay_check (cs_replay st) (h_seq h) = Inr ()"
    and "c_open cr (chain_key cr (base_key cr prk (h_channel h) d (h_epoch h)) (unat (h_generation h)))
       (build_nonce (h_generation h) (h_seq h)) (header_aad h) (drop CHANNEL_HEADER_LEN f) = Some pt"
  obtains r where "open_with_epoch cr e d h f =
      (ek_put e (h_channel h) d (st\<lparr>cs_ratchet := r, cs_replay := replay_accept (cs_replay st) (h_seq h)\<rparr>), Inr pt)"
    "rc_max_gen r = h_generation h"
proof -
  let ?base = "base_key cr prk (h_channel h) d (ek_epoch e)"
  have inv: "ratchet_inv cr ?base (cs_ratchet st)" using assms(2) st by (simp add: epoch_inv_def)
  have "derive_key_transient cr (cs_ratchet st) (h_generation h) = Inr (chain_key cr ?base (unat (h_generation h)))"
    using assms(5) unat_u32_less [of "h_generation h"] by (auto simp: derive_key_transient_spec [OF assms(1) inv])
  moreover obtain r where "commit_advance_to cr (cs_ratchet st) (h_generation h) = (r, Inr ())"
      "rc_max_gen r = max (rc_max_gen (cs_ratchet st)) (h_generation h)"
    using commit_advance_inv [OF assms(1) inv] by blast
  moreover have "max (rc_max_gen (cs_ratchet st)) (h_generation h) = h_generation h"
    using assms(5) by (auto simp: max_def word_le_nat_alt)
  ultimately show thesis using that [of r] st assms(4,6,7) by (simp add: open_with_epoch_def)
qed

text \<open>Opening a frame under the current keys, and under the next epoch's keys.\<close>

lemma open_frame_current:
  assumes "h_channel h = ch" and "h_direction h = recv_direction k" and "16 \<le> length ct"
    and "h_epoch h = ek_epoch (sk_current k)" and "unat (ek_epoch (sk_current k)) < 2 ^ 64 - 1"
    and "open_with_epoch cr (sk_current k) (h_direction h) h (header_encode h @ ct) = (e', Inr pt)"
  shows "open_frame cr k now ch (header_encode h @ ct) = (k\<lparr>sk_current := e'\<rparr>, Inr pt)"
proof -
  have "h_direction h \<noteq> send_direction k" using assms(2) recv_direction_iff by metis
  moreover have "ek_epoch (sk_current k) < sat_add (ek_epoch (sk_current k)) 1"
    using epoch_succ [OF assms(5)] by (simp add: word_less_nat_alt)
  then have "\<not> sat_add (ek_epoch (sk_current k)) 1 < ek_epoch (sk_current k)"
      "ek_epoch (sk_current k) \<noteq> sat_add (ek_epoch (sk_current k)) 1" by auto
  ultimately show ?thesis using assms
    by (simp add: open_frame_def open_dispatch_def Let_def CHANNEL_HEADER_LEN_def usz_add_def usize_max_def)
qed

lemma open_frame_next:
  assumes "h_channel h = ch" and "h_direction h = recv_direction k" and "16 \<le> length ct"
    and "h_epoch h = sat_add (ek_epoch (sk_current k)) 1"
    and "derive_epoch_keys cr (sk_prk k) (h_epoch h) now = Inr e"
    and "open_with_epoch cr e (h_direction h) h (header_encode h @ ct) = (e', Inr pt)"
  shows "open_frame cr k now ch (header_encode h @ ct) =
    (k\<lparr>sk_current := e', sk_prior := Some (sk_current k), sk_msgs_this_epoch := 0\<rparr>, Inr pt)"
proof -
  have "h_direction h \<noteq> send_direction k" using assms(2) recv_direction_iff by metis
  then show ?thesis using assms
    by (simp add: open_frame_def open_dispatch_def Let_def CHANNEL_HEADER_LEN_def usz_add_def usize_max_def)
qed

lemma linkedD:
  assumes "linked a b" and "ek_get (sk_current a) c (send_direction a) = Some st"
    and "ek_get (sk_current b) c (send_direction a) = Some sr"
  shows "rc_max_gen (cs_ratchet sr) = rc_max_gen (cs_ratchet st)"
    and "\<exists>A. tracks (cs_replay sr) A \<and> (\<forall>q \<in> A. q < unat (cs_next_seq st))"
  using assms unfolding linked_def by blast+

lemma linked_after_message:
  assumes "linked a b" and st: "ek_get (sk_current a) ch (send_direction a) = Some st"
    and sr: "ek_get (sk_current b) ch (send_direction a) = Some sr"
    and "\<not> refuses A (unat q)" and "tracks (cs_replay sr) A" and "\<forall>t \<in> A. t < unat (cs_next_seq st)"
    and "q = cs_next_seq st" and "unat (cs_next_seq st') = unat q + 1" and "rc_max_gen (cs_ratchet st') = rc_max_gen r"
  shows "linked ((put_current a ch (send_direction a) st')\<lparr>sk_msgs_this_epoch := m\<rparr>)
    (b\<lparr>sk_current := ek_put (sk_current b) ch (send_direction a) (sr\<lparr>cs_ratchet := r, cs_replay := replay_accept (cs_replay sr) q\<rparr>)\<rparr>)"
proof -
  have sd: "send_direction ((put_current a ch (send_direction a) st')\<lparr>sk_msgs_this_epoch := m\<rparr>) = send_direction a"
    by (simp add: send_direction_def)
  have "tracks (replay_accept (cs_replay sr) q) (insert (unat q) A)" using tracks_accept [OF assms(5,4)] .
  then have "\<exists>A. tracks (replay_accept (cs_replay sr) q) A \<and> (\<forall>t \<in> A. t < unat (cs_next_seq st'))"
    using assms(6-8) by (intro exI [of _ "insert (unat q) A"]) auto
  note new = this
  show ?thesis unfolding linked_def sd
  proof (intro allI impI)
    fix c x y
    assume "ek_get (sk_current ((put_current a ch (send_direction a) st')\<lparr>sk_msgs_this_epoch := m\<rparr>)) c (send_direction a) = Some x"
      and "ek_get (sk_current (b\<lparr>sk_current := ek_put (sk_current b) ch (send_direction a)
        (sr\<lparr>cs_ratchet := r, cs_replay := replay_accept (cs_replay sr) q\<rparr>)\<rparr>)) c (send_direction a) = Some y"
    then show "rc_max_gen (cs_ratchet y) = rc_max_gen (cs_ratchet x)
        \<and> (\<exists>A. tracks (cs_replay y) A \<and> (\<forall>q \<in> A. q < unat (cs_next_seq x)))"
    proof (cases "c = ch")
      case False
      with \<open>ek_get _ c _ = Some x\<close> \<open>ek_get _ c _ = Some y\<close> show ?thesis
        using linkedD [OF assms(1), of c x y] by (simp add: ek_get_put [OF st] ek_get_put [OF sr])
    qed (use new assms(9) in \<open>auto simp: ek_get_put [OF st] ek_get_put [OF sr]\<close>)
  qed
qed

lemma linked_untouched:
  assumes "linked b a" and "sk_role b' = sk_role b"
    and "\<And>c. ek_get (sk_current b') c (send_direction b) = ek_get (sk_current b) c (send_direction b)"
    and "\<And>c. ek_get (sk_current a') c (send_direction b) = ek_get (sk_current a) c (send_direction b)"
  shows "linked b' a'"
proof -
  have sd: "send_direction b' = send_direction b" using assms(2) by (rule send_direction_cong)
  show ?thesis using assms(1) unfolding linked_def sd assms(3,4) .
qed

lemma tracks_fresh: "tracks w A \<Longrightarrow> \<forall>t \<in> A. t < q \<Longrightarrow> \<not> refuses A q"
proof
  assume "tracks w A" "\<forall>t \<in> A. t < q" "refuses A q"
  then have "finite A" "A \<noteq> {}" "q + 1024 \<le> Max A" by (auto simp: refuses_def tracks_def)
  with Max_in [of A] \<open>\<forall>t \<in> A. t < q\<close> show False by fastforce
qed

text \<open>The two states a message connects, and the pair of sessions after it.\<close>

lemma in_step_states:
  assumes "in_step cr n a b"
  obtains st sr A where "ek_get (sk_current a) ch (send_direction a) = Some st"
    "ek_get (sk_current b) ch (send_direction a) = Some sr" "window_ok (cs_replay st)"
    "rc_max_gen (cs_ratchet sr) = rc_max_gen (cs_ratchet st)" "cs_current_gen st = rc_max_gen (cs_ratchet st)"
    "unat (rc_max_gen (cs_ratchet st)) \<le> unat (cs_next_seq st)" "unat (cs_next_seq st) \<le> n"
    "tracks (cs_replay sr) A" "\<forall>t \<in> A. t < unat (cs_next_seq st)"
proof -
  have K: "keys_inv cr a" "keys_inv cr b" "linked a b" "sent_atmost n a" using assms by (auto simp: in_step_def)
  then have E: "epoch_inv cr (sk_prk a) (sk_current a)" "epoch_inv cr (sk_prk b) (sk_current b)" "sender_inv a"
    by (auto simp: keys_inv_def keys_ok_def)
  obtain st where st: "ek_get (sk_current a) ch (send_direction a) = Some st" "window_ok (cs_replay st)" using epoch_inv_get [OF E(1)] .
  obtain sr where sr: "ek_get (sk_current b) ch (send_direction a) = Some sr" using epoch_inv_get [OF E(2)] .
  have "unat (cs_next_seq st) \<le> n" using K(4) st(1) by (simp add: sent_atmost_def)
  moreover have "cs_current_gen st = rc_max_gen (cs_ratchet st)" "unat (rc_max_gen (cs_ratchet st)) \<le> unat (cs_next_seq st)"
    using E(3) st(1) by (auto simp: sender_inv_def)
  moreover note linkedD [OF K(3) st(1) sr]
  ultimately show thesis using that st sr by blast
qed

lemma in_step_advance:
  assumes "in_step cr n a b" and st: "ek_get (sk_current a) ch (send_direction a) = Some st"
    and sr: "ek_get (sk_current b) ch (send_direction a) = Some sr"
    and A: "tracks (cs_replay sr) A" "\<forall>t \<in> A. t < unat (cs_next_seq st)"
    and "unat (cs_next_seq st') = unat (cs_next_seq st) + 1" and "rc_max_gen (cs_ratchet st') = rc_max_gen r"
    and "unat (cs_next_seq st) \<le> n"
    and ka: "keys_inv cr ((put_current a ch (send_direction a) st')\<lparr>sk_msgs_this_epoch := m\<rparr>)"
    and e: "e = ek_put (sk_current b) ch (send_direction a)
      (sr\<lparr>cs_ratchet := r, cs_replay := replay_accept (cs_replay sr) (cs_next_seq st)\<rparr>)"
    and kb: "keys_inv cr (b\<lparr>sk_current := e\<rparr>)"
  shows "in_step cr (Suc n) ((put_current a ch (send_direction a) st')\<lparr>sk_msgs_this_epoch := m\<rparr>) (b\<lparr>sk_current := e\<rparr>)"
proof -
  let ?d = "send_direction a"
  let ?a = "(put_current a ch ?d st')\<lparr>sk_msgs_this_epoch := m\<rparr>"
  have K: "sk_prk a = sk_prk b" "sk_role a \<noteq> sk_role b" "ek_epoch (sk_current a) = ek_epoch (sk_current b)"
      "linked a b" "linked b a" "sent_atmost n a" "sent_atmost n b" "unat (ek_epoch (sk_current a)) \<le> n"
    using assms(1) by (auto simp: in_step_def)
  have "send_direction b \<noteq> ?d" unfolding opposite_direction [OF K(2)] using recv_direction_iff by metis
  then have other: "\<And>c. ek_get e c (send_direction b) = ek_get (sk_current b) c (send_direction b)"
      "\<And>c. ek_get (sk_current ?a) c (send_direction b) = ek_get (sk_current a) c (send_direction b)"
    by (simp_all add: e ek_get_put [OF sr] ek_get_put [OF st])
  have l1: "linked ?a (b\<lparr>sk_current := e\<rparr>)" unfolding e
    by (rule linked_after_message [OF K(4) st sr tracks_fresh [OF A] A]) (use assms(6,7) in auto)
  have l2: "linked (b\<lparr>sk_current := e\<rparr>) ?a" by (rule linked_untouched [OF K(5)]) (use other in auto)
  have sd: "send_direction ?a = ?d" "send_direction (b\<lparr>sk_current := e\<rparr>) = send_direction b"
    by (simp_all add: send_direction_def)
  have "sent_atmost (Suc n) ?a"
    unfolding sent_atmost_def sd using K(6) assms(6,8) by (auto simp: sent_atmost_def ek_get_put [OF st] le_SucI)
  moreover have "sent_atmost (Suc n) (b\<lparr>sk_current := e\<rparr>)"
    unfolding sent_atmost_def sd using K(7) other(1) by (auto simp: sent_atmost_def le_SucI)
  ultimately show ?thesis using ka kb l1 l2 K by (simp add: in_step_def e)
qed

lemma message_step:
  assumes "hkdf_total cr" and "aead_correct cr" and I: "in_step cr n a b" and "n < 2 ^ 32 - 3"
    and "length pt \<le> AEAD_P_MAX"
  obtains a' h ct e' where "seal cr a ch pt = (a', Inr (header_encode h @ ct))"
    "open_with_epoch cr (sk_current b) (h_direction h) h (header_encode h @ ct) = (e', Inr pt)"
    "h_channel h = ch" "h_direction h = recv_direction b" "h_epoch h = ek_epoch (sk_current a)" "16 \<le> length ct"
    "in_step cr (Suc n) a' (b\<lparr>sk_current := e'\<rparr>)"
proof -
  let ?d = "send_direction a"
  obtain st sr A where st: "ek_get (sk_current a) ch ?d = Some st" and sr: "ek_get (sk_current b) ch ?d = Some sr"
    and w: "window_ok (cs_replay st)" and g: "rc_max_gen (cs_ratchet sr) = rc_max_gen (cs_ratchet st)"
      "cs_current_gen st = rc_max_gen (cs_ratchet st)" "unat (rc_max_gen (cs_ratchet st)) \<le> unat (cs_next_seq st)"
    and q: "unat (cs_next_seq st) \<le> n" and A: "tracks (cs_replay sr) A" "\<forall>t \<in> A. t < unat (cs_next_seq st)"
    using in_step_states [OF I] .
  have K: "keys_inv cr a" "keys_inv cr b" "sk_prk a = sk_prk b" "sk_role a \<noteq> sk_role b"
      "ek_epoch (sk_current a) = ek_epoch (sk_current b)" "unat (ek_epoch (sk_current a)) \<le> n"
    using I by (auto simp: in_step_def)
  have E: "epoch_inv cr (sk_prk b) (sk_current b)" using K(2) by (simp add: keys_inv_def keys_ok_def)
  have rd: "?d = recv_direction b" using opposite_direction [OF K(4)] .
  have lim: "unat (cs_next_seq st) < 2 ^ 32 - 3" using q assms(4) by simp
  show thesis
  proof (rule seal_succeeds [OF assms(1,2) K(1) assms(5) st lim])
    fix h ct st'
    assume S: "seal cr a ch pt = ((put_current a ch ?d st')\<lparr>sk_msgs_this_epoch := sat_add (sk_msgs_this_epoch a) 1\<rparr>,
         Inr (header_encode h @ ct))"
      and h: "h_channel h = ch" "h_direction h = ?d" "h_epoch h = ek_epoch (sk_current a)" "h_seq h = cs_next_seq st"
        "h_generation h = cs_current_gen st \<or> unat (h_generation h) = unat (cs_current_gen st) + 1" "length ct = length pt + 16"
      and o: "c_open cr (chain_key cr (base_key cr (sk_prk a) ch ?d (h_epoch h)) (unat (h_generation h)))
        (build_nonce (h_generation h) (h_seq h)) (header_aad h) ct = Some pt"
      and st': "cs_current_gen st' = h_generation h" "rc_max_gen (cs_ratchet st') = h_generation h"
        "ratchet_inv cr (base_key cr (sk_prk a) ch ?d (h_epoch h)) (cs_ratchet st')"
        "unat (cs_next_seq st') = unat (cs_next_seq st) + 1" "cs_replay st' = cs_replay st"
    obtain e r where e: "e = ek_put (sk_current b) ch ?d (sr\<lparr>cs_ratchet := r, cs_replay := replay_accept (cs_replay sr) (cs_next_seq st)\<rparr>)"
        and ow: "open_with_epoch cr (sk_current b) ?d h (header_encode h @ ct) = (e, Inr pt)" and r: "rc_max_gen r = h_generation h"
      by (rule open_with_epoch_succeeds [OF assms(1) E, of h ?d sr "header_encode h @ ct" pt])
        (use sr h o g K(3,5) tracks_fresh [OF A] in \<open>auto simp: tracks_check [OF A(1)] CHANNEL_HEADER_LEN_def\<close>)
    have ka: "keys_inv cr ((put_current a ch ?d st')\<lparr>sk_msgs_this_epoch := sat_add (sk_msgs_this_epoch a) 1\<rparr>)"
      by (rule put_current_keys_inv [OF K(1)]) (use st' w h g in auto)
    have opn: "open_frame cr b 0 ch (header_encode h @ ct) = (b\<lparr>sk_current := e\<rparr>, Inr pt)"
      by (rule open_frame_current) (use h rd K(5,6) assms(4) ow in auto)
    then have kb: "keys_inv cr (b\<lparr>sk_current := e\<rparr>)" using open_frame_keys_inv [OF assms(1) K(2)] by blast
    note in_step_advance [OF I st sr A st'(4) _ q ka e kb]
    then show thesis using that [OF S, of e] ow h rd st'(2) r by simp
  qed
qed

text \<open>Both sides enter the next epoch.\<close>

lemma in_step_fresh:
  assumes "hkdf_total cr" and "keys_inv cr a" and "keys_inv cr b" and "sk_prk a = sk_prk b" and "sk_role a \<noteq> sk_role b"
    and "derive_epoch_keys cr (sk_prk a) ep t = Inr (sk_current a)"
    and "derive_epoch_keys cr (sk_prk b) ep u = Inr (sk_current b)" and "unat ep \<le> n"
  shows "in_step cr n a b"
proof -
  have len: "length (sk_prk a) = 32" "length (sk_prk b) = 32" using assms(2,3) by (auto simp: keys_inv_def keys_ok_def)
  have ga: "ek_get (sk_current a) c d = Some (channel_state_new (base_key cr (sk_prk a) c d ep))" for c d
    by (rule derive_epoch_keys_Ok [OF assms(1) len(1), of ep t]) (use assms(6) in simp)
  have gb: "ek_get (sk_current b) c d = Some (channel_state_new (base_key cr (sk_prk b) c d ep))" for c d
    by (rule derive_epoch_keys_Ok [OF assms(1) len(2), of ep u]) (use assms(7) in simp)
  have "linked a b" "linked b a" "sent_atmost n a" "sent_atmost n b"
    using tracks_new by (auto simp: linked_def sent_atmost_def ga gb channel_state_new_def from_base_key_def)
  then show ?thesis
    using assms(2-5,8) derive_epoch_keys_epoch [OF assms(6)] derive_epoch_keys_epoch [OF assms(7)]
    by (simp add: in_step_def)
qed

lemma from_outcome_keys_inv:
  assumes "hkdf_total cr" and "length prk = 32" and "from_outcome cr prk role now = Inr k"
  shows "keys_inv cr k"
  using from_outcome_fields [OF assms(3)] assms(1,2) by (intro fresh_epoch_keys_inv [OF assms(1)]) auto

lemma from_outcome_in_step:
  assumes "hkdf_total cr" and "length prk = 32" and "from_outcome cr prk Initiator t = Inr a"
    and "from_outcome cr prk Responder u = Inr b"
  shows "in_step cr 0 a b"
  using from_outcome_fields [OF assms(3)] from_outcome_fields [OF assms(4)]
  by (intro in_step_fresh [OF assms(1) from_outcome_keys_inv [OF assms(1-3)] from_outcome_keys_inv [OF assms(1,2,4)],
      where ep = 0 and t = t and u = u]) simp_all

subsection \<open>A conversation\<close>

text \<open>
  One message: the sender may first rekey, seals, and the receiver opens the frame at once.
  \<open>converse\<close> runs a list of messages, each with its sender's role.
\<close>

definition say :: "crypto \<Rightarrow> i64 \<Rightarrow> i64 option \<Rightarrow> channel_id \<Rightarrow> bytes \<Rightarrow> session_keys \<Rightarrow> session_keys
    \<Rightarrow> session_keys \<times> session_keys \<times> (crypto_error + bytes)" where
  "say cr now rk ch pt s r =
     (let s1 = (case rk of None \<Rightarrow> s | Some t \<Rightarrow> fst (rekey cr s t)) in
      case seal cr s1 ch pt of
        (s2, Inl e) \<Rightarrow> (s2, r, Inl e)
      | (s2, Inr f) \<Rightarrow> (let (r2, res) = open_frame cr r now ch f in (s2, r2, res)))"

fun converse :: "crypto \<Rightarrow> i64 \<Rightarrow> session_keys \<Rightarrow> session_keys
    \<Rightarrow> (handshake_role \<times> i64 option \<times> channel_id \<times> bytes) list \<Rightarrow> (crypto_error + bytes) list" where
  "converse cr now i r [] = []"
| "converse cr now i r ((Initiator, rk, ch, pt) # ms) =
     (let (i', r', res) = say cr now rk ch pt i r in res # converse cr now i' r' ms)"
| "converse cr now i r ((Responder, rk, ch, pt) # ms) =
     (let (r', i', res) = say cr now rk ch pt r i in res # converse cr now i' r' ms)"

lemma say_delivers:
  assumes "hkdf_total cr" and "aead_correct cr" and I: "in_step cr n s r" and n: "Suc n < 2 ^ 32 - 3"
    and "length pt \<le> AEAD_P_MAX"
  shows "\<exists>s' r'. say cr now rk ch pt s r = (s', r', Inr pt) \<and> in_step cr (Suc (Suc n)) s' r'"
proof (cases rk)
  case None
  obtain s' h ct e' where m: "seal cr s ch pt = (s', Inr (header_encode h @ ct))"
    "open_with_epoch cr (sk_current r) (h_direction h) h (header_encode h @ ct) = (e', Inr pt)"
    "h_channel h = ch" "h_direction h = recv_direction r" "h_epoch h = ek_epoch (sk_current s)" "16 \<le> length ct"
    "in_step cr (Suc n) s' (r\<lparr>sk_current := e'\<rparr>)"
    using message_step [OF assms(1,2) I Suc_lessD [OF n] assms(5)] .
  have "open_frame cr r now ch (header_encode h @ ct) = (r\<lparr>sk_current := e'\<rparr>, Inr pt)"
    by (rule open_frame_current) (use m I n in \<open>auto simp: in_step_def\<close>)
  then show ?thesis using None m(1) in_step_mono [OF m(7)] by (simp add: say_def)
next
  case (Some t)
  let ?ep = "sat_add (ek_epoch (sk_current s)) 1"
  have K: "keys_inv cr s" "keys_inv cr r" "sk_prk s = sk_prk r" "sk_role s \<noteq> sk_role r"
      "ek_epoch (sk_current s) = ek_epoch (sk_current r)" "unat (ek_epoch (sk_current s)) \<le> n"
    using I by (auto simp: in_step_def)
  then have len: "length (sk_prk s) = 32" "length (sk_prk r) = 32" by (auto simp: keys_inv_def keys_ok_def)
  obtain e where e: "derive_epoch_keys cr (sk_prk s) ?ep t = Inr e" using epoch_inv_fresh [OF assms(1) len(1)] .
  obtain e2 where e2: "derive_epoch_keys cr (sk_prk r) ?ep now = Inr e2" using epoch_inv_fresh [OF assms(1) len(2)] .
  let ?s = "s\<lparr>sk_current := e, sk_prior := Some (sk_current s), sk_msgs_this_epoch := 0\<rparr>"
  let ?r = "r\<lparr>sk_current := e2, sk_prior := Some (sk_current r), sk_msgs_this_epoch := 0\<rparr>"
  have "unat ?ep \<le> Suc n" using K(6) n by (simp add: epoch_succ)
  then have fresh: "in_step cr (Suc n) ?s ?r"
    using K e e2 by (intro in_step_fresh [OF assms(1) next_epoch_keys_inv [OF assms(1) K(1) e] next_epoch_keys_inv [OF assms(1) K(2) e2],
      where ep = ?ep and t = t and u = now]) simp_all
  obtain s' h ct e' where m: "seal cr ?s ch pt = (s', Inr (header_encode h @ ct))"
    "open_with_epoch cr (sk_current ?r) (h_direction h) h (header_encode h @ ct) = (e', Inr pt)"
    "h_channel h = ch" "h_direction h = recv_direction ?r" "h_epoch h = ek_epoch (sk_current ?s)" "16 \<le> length ct"
    "in_step cr (Suc (Suc n)) s' (?r\<lparr>sk_current := e'\<rparr>)"
    using message_step [OF assms(1,2) fresh n assms(5)] .
  have "h_epoch h = ?ep" using m(5) derive_epoch_keys_epoch [OF e] by simp
  then have "open_frame cr r now ch (header_encode h @ ct) =
      (r\<lparr>sk_current := e', sk_prior := Some (sk_current r), sk_msgs_this_epoch := 0\<rparr>, Inr pt)"
    by (intro open_frame_next) (use m(2-6) K(5) e2 in \<open>simp_all add: recv_direction_def\<close>)
  moreover have "rekey cr s t = (?s, Inr ())" using e by (simp add: rekey_def Let_def)
  moreover have "?r\<lparr>sk_current := e'\<rparr> = r\<lparr>sk_current := e', sk_prior := Some (sk_current r), sk_msgs_this_epoch := 0\<rparr>"
    by (cases r) simp
  note m(7) [unfolded this]
  ultimately show ?thesis using Some m(1) by (simp add: say_def)
qed

lemma converse_delivers:
  assumes "hkdf_total cr" and "aead_correct cr" and "in_step cr n i r" and "n + 2 * length ms < 2 ^ 32 - 3"
    and "\<forall>(_, _, _, pt) \<in> set ms. length pt \<le> AEAD_P_MAX"
  shows "converse cr now i r ms = map (\<lambda>(_, _, _, pt). Inr pt) ms"
  using assms(3-)
proof (induction ms arbitrary: i r n)
  case (Cons m ms)
  obtain role rk ch pt where m: "m = (role, rk, ch, pt)" by (cases m) auto
  have lim: "Suc n < 2 ^ 32 - 3" "length pt \<le> AEAD_P_MAX" "Suc (Suc n) + 2 * length ms < 2 ^ 32 - 3"
    using Cons.prems(2,3) by (auto simp: m)
  have IH: "converse cr now i' r' ms = map (\<lambda>(_, _, _, pt). Inr pt) ms" if "in_step cr (Suc (Suc n)) i' r'" for i' r'
    using Cons.IH [OF that lim(3)] Cons.prems(3) by simp
  show ?case
  proof (cases role)
    case Initiator
    obtain i' r' where "say cr now rk ch pt i r = (i', r', Inr pt)" "in_step cr (Suc (Suc n)) i' r'"
      using say_delivers [OF assms(1,2) Cons.prems(1) lim(1,2)] by blast
    then show ?thesis using IH by (simp add: m Initiator)
  next
    case Responder
    obtain i' r' where "say cr now rk ch pt r i = (r', i', Inr pt)" "in_step cr (Suc (Suc n)) r' i'"
      using say_delivers [OF assms(1,2) in_step_sym [OF Cons.prems(1)] lim(1,2)] by blast
    then show ?thesis using IH in_step_sym by (simp add: m Responder)
  qed
qed simp

text \<open>The states a session reaches without being wiped keep the key invariant.\<close>

lemma get_or_advance_keeps:
  assumes "hkdf_total cr" and "ratchet_inv cr base c"
  shows "ratchet_inv cr base (fst (get_or_advance_to cr c g))"
proof -
  obtain c' where "commit_advance_to cr c g = (c', Inr ())" "ratchet_inv cr base c'"
    using commit_advance_inv [OF assms] by blast
  then show ?thesis using assms(2) by (simp add: get_or_advance_to_def Let_def)
qed

lemma ratchet_if_due_keeps_inv:
  assumes "hkdf_total cr" and "ratchet_inv cr base (cs_ratchet st)"
  shows "ratchet_inv cr base (cs_ratchet (fst (ratchet_if_due cr st)))"
proof -
  have "ratchet_inv cr base r" if "get_or_advance_to cr (cs_ratchet st) g = (r, res)" for g r res
    using get_or_advance_keeps [OF assms, of g] that by simp
  then show ?thesis using assms(2)
    by (auto simp: ratchet_if_due_def split: option.split prod.split sum.split)
qed

lemma seal_keys_ok:
  assumes "hkdf_total cr" and "keys_ok cr k" and "seal cr k ch pt = (k', res)"
  shows "keys_ok cr k'"
proof -
  let ?d = "send_direction k"
  let ?R = "ratchet_inv cr (base_key cr (sk_prk k) ch ?d (ek_epoch (sk_current k)))"
  have K: "epoch_inv cr (sk_prk k) (sk_current k)" using assms(2) by (auto simp: keys_ok_def)
  obtain st where st: "ek_get (sk_current k) ch ?d = Some st" "?R (cs_ratchet st)" "window_ok (cs_replay st)"
    using epoch_inv_get [OF K] .
  obtain st1 res1 where s1: "ratchet_if_due cr st = (st1, res1)" by (meson surj_pair)
  obtain r res2 where r: "get_or_advance_to cr (cs_ratchet st1) (cs_current_gen st1) = (r, res2)" by (meson surj_pair)
  have R1: "?R (cs_ratchet st1)" using ratchet_if_due_keeps_inv [OF assms(1) st(2)] s1 by (metis fst_conv)
  have R2: "?R r" using get_or_advance_keeps [OF assms(1) R1, of "cs_current_gen st1"] r by simp
  have W: "window_ok (cs_replay st1)" using ratchet_if_due_keeps [OF s1] st(3) by simp
  have put: "keys_ok cr ((put_current k ch ?d x)\<lparr>sk_msgs_this_epoch := m\<rparr>)" "keys_ok cr (put_current k ch ?d x)"
    if "?R (cs_ratchet x)" "window_ok (cs_replay x)" for x m
    using epoch_inv_put [OF K that] assms(2) by (simp_all add: keys_ok_def)
  show ?thesis using assms(2,3) st(1) s1 r R1 R2 W
    by (auto simp: seal_def Let_def intro!: put split: if_splits sum.splits option.splits)
qed

lemma run_session_keys_ok:
  assumes "hkdf_total cr" and "keys_ok cr k" and "OpZeroize \<notin> set ops"
  shows "keys_ok cr (fst (run_session cr k ops))"
  using assms(2,3)
proof (induction ops arbitrary: k)
  case (Cons x ops)
  have rk: "keys_ok cr (fst (rekey cr k now))" for now
  proof -
    have len: "length (sk_prk k) = 32" using Cons.prems(1) by (simp add: keys_ok_def)
    obtain e where "derive_epoch_keys cr (sk_prk k) (sat_add (ek_epoch (sk_current k)) 1) now = Inr e" "epoch_inv cr (sk_prk k) e"
      using epoch_inv_fresh [OF assms(1) len] .
    then show ?thesis using Cons.prems(1) by (simp add: rekey_def keys_ok_def)
  qed
  have "keys_ok cr (fst (session_step cr k x))"
  proof (cases x)
    case (OpSeal ch pt)
    then show ?thesis using seal_keys_ok [OF assms(1) Cons.prems(1)] by (auto split: prod.split sum.split)
  next
    case (OpOpen now ch f)
    then show ?thesis using open_frame_keys_ok [OF assms(1) Cons.prems(1)] by (auto split: prod.split sum.split)
  next
    case OpCloseGrace
    then show ?thesis using Cons.prems(1) by (simp add: close_grace_period_def keys_ok_def)
  qed (use Cons.prems rk in auto)
  then show ?case using Cons.IH Cons.prems(2) by (auto simp: case_prod_beta)
qed simp

subsection \<open>After the keys are wiped\<close>

lemma ek_get_zeroize:
  "ek_get (zeroize_epoch_keys e) c d = map_option (\<lambda>st. st\<lparr>cs_ratchet := (cs_ratchet st)\<lparr>rc_live_keys := []\<rparr>\<rparr>) (ek_get e c d)"
  by (simp add: zeroize_epoch_keys_def ek_get_def get_at_def)

lemma zeroize_epoch [simp]: "ek_epoch (zeroize_epoch_keys e) = ek_epoch e"
  by (simp add: zeroize_epoch_keys_def)

lemma zeroize_all_simps [simp]:
  "sk_current (zeroize_all k) = zeroize_epoch_keys (sk_current k)" "sk_prior (zeroize_all k) = None"
  "sk_role (zeroize_all k) = sk_role k" "sk_prk (zeroize_all k) = replicate (length (sk_prk k)) 0"
  by (simp_all add: zeroize_all_def)

lemma empty_chain:
  assumes "rc_live_keys c = []"
  shows "\<exists>e. commit_advance_to cr c g = (c, Inl e) \<or> commit_advance_to cr c g = (c, Inr ())"
    and "\<exists>e. derive_key_transient cr c g = Inl e"
    and "\<exists>e. get_or_advance_to cr c g = (c, Inl e)"
proof -
  show "\<exists>e. commit_advance_to cr c g = (c, Inl e) \<or> commit_advance_to cr c g = (c, Inr ())"
    using assms by (subst (1 2) commit_advance_to.simps) (simp add: om_get_def)
  then show "\<exists>e. get_or_advance_to cr c g = (c, Inl e)"
    using assms by (auto simp: get_or_advance_to_def Let_def om_get_def)
  show "\<exists>e. derive_key_transient cr c g = Inl e"
    using assms by (auto simp: derive_key_transient_def Let_def om_get_def)
qed

lemma ratchet_if_due_empty:
  assumes "rc_live_keys (cs_ratchet st) = []"
  shows "fst (ratchet_if_due cr st) = st"
proof (cases "checked_add (cs_current_gen st) 1")
  case (Some g)
  obtain e where e: "get_or_advance_to cr (cs_ratchet st) g = (cs_ratchet st, Inl e)"
    using empty_chain(3) [OF assms] by blast
  have "st\<lparr>cs_ratchet := cs_ratchet st\<rparr> = st" by simp
  then show ?thesis by (simp add: ratchet_if_due_def Some e)
qed (simp add: ratchet_if_due_def)

lemma wiped_seal:
  "\<exists>e. snd (seal cr (zeroize_all k) ch pt) = Inl e"
proof (cases "ek_get (sk_current (zeroize_all k)) ch (send_direction (zeroize_all k))")
  case (Some st)
  then have empty: "rc_live_keys (cs_ratchet st) = []" by (auto simp: ek_get_zeroize)
  obtain res where due: "ratchet_if_due cr st = (st, res)"
    using ratchet_if_due_empty [OF empty, of cr] by (metis prod.collapse)
  obtain e where g: "get_or_advance_to cr (cs_ratchet st) (cs_current_gen st) = (cs_ratchet st, Inl e)"
    using empty_chain(3) [OF empty, of cr "cs_current_gen st"] by (rule exE)
  show ?thesis by (cases res) (simp_all add: seal_def Let_def Some [simplified] g due)
qed (simp add: seal_def Let_def)

lemma wiped_open_with_epoch: "\<exists>er. open_with_epoch cr (zeroize_epoch_keys e) d h f = (zeroize_epoch_keys e, Inl er)"
proof (cases "ek_get (zeroize_epoch_keys e) (h_channel h) d")
  case (Some st)
  then have "rc_live_keys (cs_ratchet st) = []" by (auto simp: ek_get_zeroize)
  then obtain er where "derive_key_transient cr (cs_ratchet st) (h_generation h) = Inl er" using empty_chain(2) by blast
  then show ?thesis using Some by (auto simp: open_with_epoch_def split: sum.split)
qed (simp add: open_with_epoch_def)

lemma wiped_open_slot:
  assumes "open_frame cr (zeroize_all k) now ch f = (k', Inr m)"
  shows "\<exists>q. frame_slot f = Some (ch, sat_add (ek_epoch (sk_current k)) 1, q)"
  using assms
proof (cases rule: open_frame_cases)
  case (disp h)
  from disp(6) show ?thesis
  proof (cases rule: open_dispatch_cases)
    case (cur cur')
    then show ?thesis using wiped_open_with_epoch [of cr "sk_current k" "h_direction h" h f] by auto
  qed (use disp(1,3) in auto)
qed simp

text \<open>A frame made with the key that an all-zero root key gives for the next epoch.\<close>

definition zero_key_header :: "session_keys \<Rightarrow> channel_id \<Rightarrow> channel_frame_header" where
  "zero_key_header k ch = \<lparr>h_channel = ch, h_direction = recv_direction k,
     h_epoch = sat_add (ek_epoch (sk_current k)) 1, h_generation = 0, h_seq = 0\<rparr>"

lemma wiped_open_forged:
  assumes "hkdf_total cr" and "length (sk_prk k) = 32" and "16 \<le> length ct"
    and "c_open cr (base_key cr (replicate 32 0) ch (recv_direction k) (sat_add (ek_epoch (sk_current k)) 1))
      (build_nonce 0 0) (header_aad (zero_key_header k ch)) ct = Some pt"
  shows "\<exists>k'. open_frame cr (zeroize_all k) now ch (header_encode (zero_key_header k ch) @ ct) = (k', Inr pt)"
proof -
  let ?h = "zero_key_header k ch" and ?ep = "sat_add (ek_epoch (sk_current k)) 1" and ?prk = "replicate 32 (0 :: u8)"
  obtain e where e: "derive_epoch_keys cr ?prk ?ep now = Inr e" "epoch_inv cr ?prk e" "ek_epoch e = ?ep"
      and st: "\<And>c d. ek_get e c d = Some (channel_state_new (base_key cr ?prk c d ?ep))"
    using epoch_inv_fresh [OF assms(1), of ?prk] by (metis length_replicate)
  obtain e' where "open_with_epoch cr e (recv_direction k) ?h (header_encode ?h @ ct) = (e', Inr pt)"
  proof (rule open_with_epoch_succeeds [OF assms(1) e(2), of ?h "recv_direction k" "channel_state_new (base_key cr ?prk ch (recv_direction k) ?ep)"
        "header_encode ?h @ ct" pt])
    show "replay_check (cs_replay (channel_state_new (base_key cr ?prk ch (recv_direction k) ?ep))) (h_seq ?h) = Inr ()"
      by (simp add: channel_state_new_def replay_check_def replay_new_def)
  qed (use st e(3) assms(4) in \<open>simp_all add: zero_key_header_def channel_state_new_def from_base_key_def CHANNEL_HEADER_LEN_def\<close>)
  then show ?thesis
    using open_frame_next [of ?h ch "zeroize_all k" ct cr now e e' pt] e assms(2,3)
    by (auto simp: zero_key_header_def recv_direction_def)
qed

lemma plain_peers:
  obtains a b where "from_outcome plain_crypto (replicate 32 7) Initiator 0 = Inr a"
    "from_outcome plain_crypto (replicate 32 7) Responder 0 = Inr b"
  using from_outcome_Ok [OF plain_crypto_total, of "replicate 32 7"] by (meson length_replicate)

subsection \<open>Properties\<close>

text \<open>
  C10. Two peers that leave the handshake with the same root key read exactly what the other
  sealed: for every list of messages in both directions, on every channel, with the sender
  rekeying before any of them, each \<open>open\<close> returns the plaintext that was sealed (for fewer than
  \<open>2 ^ 31 - 2\<close> messages of at most the length the AEAD takes).
\<close>

theorem conversation_delivered:
  assumes "hkdf_total cr" and "aead_correct cr" and "length prk = 32"
    and "from_outcome cr prk Initiator t = Inr i" and "from_outcome cr prk Responder u = Inr r"
    and "length ms < 2 ^ 31 - 2" and "\<forall>(_, _, _, pt) \<in> set ms. length pt \<le> AEAD_P_MAX"
  shows "converse cr now i r ms = map (\<lambda>(_, _, _, pt). Inr pt) ms"
  using converse_delivers [OF assms(1,2) from_outcome_in_step [OF assms(1,3-5)] _ assms(7)] assms(6) by simp

theorem conversation_delivered_witness:
  "\<exists>i r. from_outcome plain_crypto (replicate 32 7) Initiator 0 = Inr i
    \<and> from_outcome plain_crypto (replicate 32 7) Responder 0 = Inr r
    \<and> converse plain_crypto 9 i r [(Initiator, None, Control, [1, 2]), (Responder, Some 4, Video, [3]), (Initiator, Some 5, Control, [])]
      = [Inr [1, 2], Inr [3], Inr []]"
proof (rule plain_peers)
  fix i r
  assume k: "from_outcome plain_crypto (replicate 32 7) Initiator 0 = Inr i"
    "from_outcome plain_crypto (replicate 32 7) Responder 0 = Inr r"
  show ?thesis
    using conversation_delivered [OF plain_crypto_total plain_crypto_correct _ k, of
        "[(Initiator, None, Control, [1, 2]), (Responder, Some 4, Video, [3]), (Initiator, Some 5, Control, [])]" 9] k
    by (simp add: AEAD_P_MAX_def del: converse.simps)
qed

text \<open>
  C11. A frame that \<open>open\<close> refuses leaves no trace: in every state a session reaches through
  seals, opens, rekeys and closed grace periods, an \<open>open\<close> that returns an error returns the session
  unchanged, so forged epochs or generations move neither the ratchet nor the epoch nor the window.
\<close>

theorem refused_frame_no_effect:
  assumes "hkdf_total cr" and "length prk = 32" and "from_outcome cr prk role t = Inr k" and "OpZeroize \<notin> set ops"
    and "open_frame cr (fst (run_session cr k ops)) now ch f = (k', Inl e)"
  shows "k' = fst (run_session cr k ops)"
proof -
  have "keys_ok cr k" using from_outcome_keys_inv [OF assms(1-3)] by (simp add: keys_inv_def)
  then show ?thesis
    using open_frame_keys_ok [OF assms(1) run_session_keys_ok [OF assms(1) _ assms(4)] assms(5)] by blast
qed

theorem refused_frame_no_effect_witness:
  "\<exists>k. from_outcome plain_crypto (replicate 32 7) Initiator 0 = Inr k
    \<and> open_frame plain_crypto (fst (run_session plain_crypto k [OpSeal Control [1], OpRekey 5])) 6 Control [1, 2]
      = (fst (run_session plain_crypto k [OpSeal Control [1], OpRekey 5]), Inl (MalformedChannelFrame ''frame too short''))"
proof (rule plain_peers)
  fix k r
  assume k: "from_outcome plain_crypto (replicate 32 7) Initiator 0 = Inr k"
  obtain k' where o: "open_frame plain_crypto (fst (run_session plain_crypto k [OpSeal Control [1], OpRekey 5])) 6 Control [1, 2]
      = (k', Inl (MalformedChannelFrame ''frame too short''))"
    by (simp add: open_frame_def CHANNEL_HEADER_LEN_def usz_add_def usize_max_def)
  show ?thesis using refused_frame_no_effect [OF plain_crypto_total _ k _ o] k o by simp
qed

text \<open>
  After \<open>zeroize_all\<close> no frame can be sealed, and the only frames \<open>open\<close> can still accept are
  those that claim the epoch after the current one.
\<close>

theorem wiped_session:
  "(\<exists>e. snd (seal cr (zeroize_all k) ch pt) = Inl e)
    \<and> (\<forall>k' m. open_frame cr (zeroize_all k) now ch f = (k', Inr m) \<longrightarrow>
         (\<exists>q. frame_slot f = Some (ch, sat_add (ek_epoch (sk_current k)) 1, q)))"
  using wiped_seal wiped_open_slot by blast

text \<open>
  The wipe does not close the session for the peer's side of the wire: a frame sealed with the
  key that the all-zero root key gives for the next epoch, which needs no secret, is accepted
  after \<open>zeroize_all\<close>.
\<close>

theorem wiped_session_accepts_forged:
  assumes "hkdf_total cr" and "aead_correct cr" and "length (sk_prk k) = 32" and "length pt \<le> AEAD_P_MAX"
  shows "\<exists>ct k'. c_seal cr (base_key cr (replicate 32 0) ch (recv_direction k) (sat_add (ek_epoch (sk_current k)) 1))
      (build_nonce 0 0) (header_aad (zero_key_header k ch)) pt = Some ct
    \<and> open_frame cr (zeroize_all k) now ch (header_encode (zero_key_header k ch) @ ct) = (k', Inr pt)"
proof -
  let ?key = "base_key cr (replicate 32 0) ch (recv_direction k) (sat_add (ek_epoch (sk_current k)) 1)"
  have "length ?key = 32" using base_key_length [OF assms(1)] by simp
  then obtain ct where "c_seal cr ?key (build_nonce 0 0) (header_aad (zero_key_header k ch)) pt = Some ct"
      "length ct = length pt + 16" "c_open cr ?key (build_nonce 0 0) (header_aad (zero_key_header k ch)) ct = Some pt"
    using assms(2,4) unfolding aead_correct_def by (metis build_nonce_length)
  then show ?thesis using wiped_open_forged [OF assms(1,3)] by fastforce
qed

theorem wiped_session_accepts_forged_witness:
  "\<exists>k. from_outcome plain_crypto (replicate 32 7) Responder 0 = Inr k
    \<and> (\<exists>ct k'. c_seal plain_crypto (base_key plain_crypto (replicate 32 0) Control (recv_direction k) (sat_add (ek_epoch (sk_current k)) 1))
          (build_nonce 0 0) (header_aad (zero_key_header k Control)) [66] = Some ct
        \<and> open_frame plain_crypto (zeroize_all k) 3 Control (header_encode (zero_key_header k Control) @ ct) = (k', Inr [66]))"
proof (rule plain_peers)
  fix i k
  assume k: "from_outcome plain_crypto (replicate 32 7) Responder 0 = Inr k"
  show ?thesis
    using wiped_session_accepts_forged [OF plain_crypto_total plain_crypto_correct, of k "[66]" Control 3] k from_outcome_fields(2) [OF k]
    by (auto simp: AEAD_P_MAX_def)
qed

theorem wiped_session_witness:
  "\<exists>k k' f. from_outcome plain_crypto (replicate 32 7) Responder 0 = Inr k
    \<and> open_frame plain_crypto (zeroize_all k) 3 Control f = (k', Inr [66])
    \<and> (\<exists>q. frame_slot f = Some (Control, sat_add (ek_epoch (sk_current k)) 1, q))
    \<and> (\<exists>e. snd (seal plain_crypto (zeroize_all k) Control [66]) = Inl e)"
proof (rule plain_peers)
  fix i k
  assume k: "from_outcome plain_crypto (replicate 32 7) Responder 0 = Inr k"
  let ?key = "base_key plain_crypto (replicate 32 0) Control (recv_direction k) (sat_add (ek_epoch (sk_current k)) 1)"
  let ?f = "header_encode (zero_key_header k Control) @ [66] @ take 16 ?key"
  have "length ?key = 32" using base_key_length [OF plain_crypto_total] by simp
  then obtain k' where o: "open_frame plain_crypto (zeroize_all k) 3 Control ?f = (k', Inr [66])"
    using wiped_open_forged [OF plain_crypto_total, of k "[66] @ take 16 ?key" Control "[66]" 3] from_outcome_fields(2) [OF k]
    by (auto simp: plain_crypto_def)
  show ?thesis using wiped_session [of plain_crypto k Control "[66]" 3 ?f] o k by blast
qed

text \<open>
  A rekey is due exactly when the epoch has seen \<open>2 ^ 20\<close> messages or is at least 900 seconds
  old on the clock; a clock that went backwards never triggers it.
\<close>

theorem needs_rekey_iff:
  "needs_rekey k now \<longleftrightarrow> unat (sk_msgs_this_epoch k) \<ge> 2 ^ 20
    \<or> sint now - sint (ek_started_at_secs (sk_current k)) \<ge> 900"
  by (auto simp: needs_rekey_def Let_def sat_simps i64_clamp_def REKEY_MSG_LIMIT_def REKEY_TIME_LIMIT_SECS_def word_le_nat_alt)

end
