(* ===== verification/Device_Identity.thy ===== *)
theory Device_Identity
  imports Crypto_Error
begin

text \<open>
  Device identities, signatures and the software keystore of \<open>src/crates/sh-crypto/src\<close>
  (\<open>identity.rs\<close>, \<open>signature.rs\<close>, \<open>keystore.rs\<close>, \<open>software_keystore.rs\<close>). Ed25519 and SHA-256 come
  from crates outside the sources: they are the fields of the parameter \<open>suite\<close>. Locks that a
  panic has poisoned are a flag of the keystore.
\<close>

subsection \<open>Signature scheme and hash as parameters\<close>

text \<open>
  \<open>s_sha\<close> is SHA-256; \<open>s_point\<close> and \<open>s_weak\<close> tell whether \<open>VerifyingKey::from_bytes\<close> accepts 32 bytes
  and whether the key is of small order; \<open>s_verify pk m s\<close> is \<open>verify_strict\<close>; \<open>s_public\<close> and
  \<open>s_sign\<close> are the public key and the signing of a \<open>SigningKey\<close>, given by its bytes.
\<close>

record suite =
  s_sha :: "bytes \<Rightarrow> bytes"
  s_point :: "bytes \<Rightarrow> bool"
  s_weak :: "bytes \<Rightarrow> bool"
  s_verify :: "bytes \<Rightarrow> bytes \<Rightarrow> bytes \<Rightarrow> bool"
  s_public :: "bytes \<Rightarrow> bytes"
  s_sign :: "bytes \<Rightarrow> bytes \<Rightarrow> bytes"

text \<open>What the crates document: digests have 32 bytes, and a key pair verifies what it signs.\<close>

definition sha_total :: "suite \<Rightarrow> bool" where
  "sha_total su \<longleftrightarrow> (\<forall>m. length (s_sha su m) = 32)"

definition sign_correct :: "suite \<Rightarrow> bool" where
  "sign_correct su \<longleftrightarrow> (\<forall>sk m. length (s_public su sk) = 32 \<and> s_point su (s_public su sk)
     \<and> \<not> s_weak su (s_public su sk) \<and> length (s_sign su sk m) = 64
     \<and> s_verify su (s_public su sk) m (s_sign su sk m))"

text \<open>
  An instance for concrete inputs: the digest is a padded prefix with the length, a signature
  repeats the public key and the first bytes of the message.
\<close>

definition pad_to :: "nat \<Rightarrow> bytes \<Rightarrow> bytes" where
  "pad_to n m = take n (m @ replicate n 0)"

lemma length_pad_to [simp]: "length (pad_to n m) = n"
  by (simp add: pad_to_def)

definition plain_suite :: suite where
  "plain_suite = \<lparr>s_sha = (\<lambda>m. of_nat (length m) # pad_to 31 m), s_point = (\<lambda>k. length k = 32), s_weak = (\<lambda>k. k = replicate 32 0),
     s_verify = (\<lambda>pk m s. s = pk @ pad_to 32 m), s_public = (\<lambda>sk. 1 # pad_to 31 sk),
     s_sign = (\<lambda>sk m. (1 # pad_to 31 sk) @ pad_to 32 m)\<rparr>"

lemma plain_suite_total: "sha_total plain_suite"
  by (simp add: sha_total_def plain_suite_def)

lemma plain_suite_correct: "sign_correct plain_suite"
  by (simp add: sign_correct_def plain_suite_def numeral_eq_Suc)

subsection \<open>Fingerprints and identities\<close>

definition hex_digit :: "nat \<Rightarrow> char" where
  "hex_digit n = ''0123456789abcdef'' ! n"

definition hex_byte :: "u8 \<Rightarrow> string" where
  "hex_byte b = [hex_digit (unat b div 16), hex_digit (unat b mod 16)]"

definition hex_bytes :: "bytes \<Rightarrow> string" where
  "hex_bytes bs = concat (map hex_byte bs)"

type_synonym fingerprint = string

definition fingerprint_of_key :: "suite \<Rightarrow> bytes \<Rightarrow> fingerprint" where
  "fingerprint_of_key su key = hex_bytes (s_sha su key)"

definition fingerprint_short :: "fingerprint \<Rightarrow> string" where
  "fingerprint_short fp = take 16 fp"

record device_identity =
  di_key :: bytes
  di_fingerprint :: fingerprint

definition from_verifying_key :: "suite \<Rightarrow> bytes \<Rightarrow> device_identity" where
  "from_verifying_key su key = \<lparr>di_key = key, di_fingerprint = fingerprint_of_key su key\<rparr>"

definition from_public_key_bytes :: "suite \<Rightarrow> bytes \<Rightarrow> crypto_error + device_identity" where
  "from_public_key_bytes su b =
     (if \<not> s_point su b then Err (MalformedKey ''bytes do not form a valid Ed25519 compressed point'')
      else if s_weak su b
      then Err (MalformedKey ''public key is a small-order (weak) point and cannot be trusted'')
      else Ok (from_verifying_key su b))"

subsection \<open>Signatures\<close>

definition SIGNATURE_LEN :: nat where "SIGNATURE_LEN = 64"

type_synonym signature = bytes

definition signature_encode :: "signature \<Rightarrow> bytes" where
  "signature_encode s = s"

definition signature_decode :: "bytes \<Rightarrow> crypto_error + signature" where
  "signature_decode b = (if length b \<noteq> SIGNATURE_LEN
     then Err (MalformedSignature ''expected exactly 64 bytes'') else Ok b)"

definition signature_verify :: "suite \<Rightarrow> signature \<Rightarrow> device_identity \<Rightarrow> bytes \<Rightarrow> crypto_error + unit" where
  "signature_verify su s identity data =
     (if s_verify su (di_key identity) data s then Ok () else Err BadSignature)"

subsection \<open>The software keystore\<close>

datatype trust_state = Trusted | Revoked

datatype trust_outcome = Pinned | WasRevoked

record keystore =
  ks_signing_key :: bytes
  ks_identity :: device_identity
  ks_peers :: "fingerprint \<rightharpoonup> trust_state"
  ks_poisoned :: bool

definition from_signing_key :: "suite \<Rightarrow> bytes \<Rightarrow> keystore" where
  "from_signing_key su key = \<lparr>ks_signing_key = key, ks_identity = from_verifying_key su (s_public su key),
     ks_peers = Map.empty, ks_poisoned = False\<rparr>"

definition ks_fp :: "device_identity \<Rightarrow> fingerprint" where
  "ks_fp d = di_fingerprint d"

definition ks_device_identity :: "keystore \<Rightarrow> crypto_error + device_identity" where
  "ks_device_identity ks = Ok (ks_identity ks)"

definition ks_sign :: "suite \<Rightarrow> keystore \<Rightarrow> bytes \<Rightarrow> crypto_error + signature" where
  "ks_sign su ks data = Ok (s_sign su (ks_signing_key ks) data)"

definition lock_poisoned :: crypto_error where
  "lock_poisoned = Backend ''trust store lock poisoned''"

definition trust_peer :: "keystore \<Rightarrow> device_identity \<Rightarrow> keystore \<times> (crypto_error + unit)" where
  "trust_peer ks d =
     (if ks_poisoned ks then (ks, Err lock_poisoned)
      else (ks\<lparr>ks_peers := (ks_peers ks)(ks_fp d \<mapsto> Trusted)\<rparr>, Ok ()))"

definition is_trusted :: "keystore \<Rightarrow> device_identity \<Rightarrow> crypto_error + bool" where
  "is_trusted ks d =
     (if ks_poisoned ks then Err lock_poisoned else Ok (ks_peers ks (ks_fp d) = Some Trusted))"

definition revoke_peer :: "keystore \<Rightarrow> device_identity \<Rightarrow> keystore \<times> (crypto_error + unit)" where
  "revoke_peer ks d =
     (if ks_poisoned ks then (ks, Err lock_poisoned)
      else (ks\<lparr>ks_peers := (ks_peers ks)(ks_fp d \<mapsto> Revoked)\<rparr>, Ok ()))"

definition was_peer_revoked :: "keystore \<Rightarrow> device_identity \<Rightarrow> crypto_error + bool" where
  "was_peer_revoked ks d =
     (if ks_poisoned ks then Err lock_poisoned else Ok (ks_peers ks (ks_fp d) = Some Revoked))"

definition trust_peer_if_not_revoked :: "keystore \<Rightarrow> device_identity \<Rightarrow> keystore \<times> (crypto_error + trust_outcome)" where
  "trust_peer_if_not_revoked ks d =
     (if ks_poisoned ks then (ks, Err lock_poisoned)
      else case ks_peers ks (ks_fp d) of
        Some Revoked \<Rightarrow> (ks, Ok WasRevoked)
      | _ \<Rightarrow> (ks\<lparr>ks_peers := (ks_peers ks)(ks_fp d \<mapsto> Trusted)\<rparr>, Ok Pinned))"

subsection \<open>Fingerprints identify digests\<close>

lemma hex_digit_inj: "m < 16 \<Longrightarrow> n < 16 \<Longrightarrow> hex_digit m = hex_digit n \<longleftrightarrow> m = n"
proof -
  have d: "distinct ''0123456789abcdef''" by simp
  assume "m < 16" "n < 16"
  then show ?thesis unfolding hex_digit_def using nth_eq_iff_index_eq [OF d, of m n] by simp
qed

lemma hex_byte_inj: "hex_byte a = hex_byte b \<longleftrightarrow> a = b"
proof -
  have lt: "unat c div 16 < 16" "unat c mod 16 < 16" for c :: u8
    using unsigned_less [of c, where 'a = nat] by auto
  have "a = b" if "unat a div 16 = unat b div 16" "unat a mod 16 = unat b mod 16"
    using that by (metis div_mult_mod_eq word_unat_eq_iff)
  then show ?thesis by (auto simp: hex_byte_def hex_digit_inj lt)
qed

lemma hex_bytes_inj: "hex_bytes a = hex_bytes b \<longleftrightarrow> a = b"
proof (induction a arbitrary: b)
  case Nil
  then show ?case by (cases b) (simp_all add: hex_bytes_def hex_byte_def)
next
  case (Cons x a)
  show ?case
  proof (cases b)
    case (Cons y b')
    have "hex_bytes (x # a) = hex_bytes (y # b') \<longleftrightarrow> hex_byte x = hex_byte y \<and> hex_bytes a = hex_bytes b'"
      by (simp add: hex_bytes_def) (simp add: hex_byte_def)
    then show ?thesis using Cons.IH [of b'] Cons by (simp add: hex_byte_inj)
  qed (simp add: hex_bytes_def hex_byte_def)
qed

lemma fingerprint_eq_iff: "fingerprint_of_key su a = fingerprint_of_key su b \<longleftrightarrow> s_sha su a = s_sha su b"
  by (simp add: fingerprint_of_key_def hex_bytes_inj)

subsection \<open>The trust store contract\<close>

text \<open>
  What pairing and the session layer rely on: two queries and three updates over a store \<open>'s\<close>
  in working order (\<open>ok\<close>), with identities \<open>'i\<close> compared by \<open>same\<close>.
\<close>

locale trust_store =
  fixes ok :: "'s \<Rightarrow> bool" and same :: "'i \<Rightarrow> 'i \<Rightarrow> bool"
    and trusted :: "'s \<Rightarrow> 'i \<Rightarrow> bool" and revoked :: "'s \<Rightarrow> 'i \<Rightarrow> bool"
    and pin :: "'s \<Rightarrow> 'i \<Rightarrow> 's" and revoke :: "'s \<Rightarrow> 'i \<Rightarrow> 's" and pin_new :: "'s \<Rightarrow> 'i \<Rightarrow> 's"
  assumes exclusive: "\<not> (trusted s i \<and> revoked s i)"
    and ok_pin: "ok s \<Longrightarrow> ok (pin s i)" and ok_revoke: "ok s \<Longrightarrow> ok (revoke s i)"
    and trusted_pin: "ok s \<Longrightarrow> trusted (pin s i) j \<longleftrightarrow> same i j \<or> trusted s j"
    and revoked_pin: "ok s \<Longrightarrow> revoked (pin s i) j \<longleftrightarrow> \<not> same i j \<and> revoked s j"
    and trusted_revoke: "ok s \<Longrightarrow> trusted (revoke s i) j \<longleftrightarrow> \<not> same i j \<and> trusted s j"
    and revoked_revoke: "ok s \<Longrightarrow> revoked (revoke s i) j \<longleftrightarrow> same i j \<or> revoked s j"
    and pin_new: "ok s \<Longrightarrow> pin_new s i = (if revoked s i then s else pin s i)"
    and same_refl: "same i i"
    and same_revoked: "same i j \<Longrightarrow> revoked s i \<longleftrightarrow> revoked s j"
begin

lemma revoked_stays:
  "ok s \<Longrightarrow> revoked s j \<Longrightarrow> ok (foldl pin_new s is) \<and> revoked (foldl pin_new s is) j"
proof (induction "is" arbitrary: s)
  case (Cons i "is")
  have "ok (pin_new s i) \<and> revoked (pin_new s i) j"
    using Cons.prems same_revoked [of i j s] ok_pin by (auto simp: pin_new revoked_pin)
  then show ?case using Cons.IH by simp
qed simp

lemma revoked_never_repinned:
  "ok s \<Longrightarrow> ok (foldl pin_new (revoke s j) is) \<and> \<not> trusted (foldl pin_new (revoke s j) is) j"
  using revoked_stays [OF ok_revoke] revoked_revoke same_refl exclusive by blast

end

definition ks_trusted :: "keystore \<Rightarrow> device_identity \<Rightarrow> bool" where
  "ks_trusted ks d \<longleftrightarrow> ks_peers ks (ks_fp d) = Some Trusted"

definition ks_revoked :: "keystore \<Rightarrow> device_identity \<Rightarrow> bool" where
  "ks_revoked ks d \<longleftrightarrow> ks_peers ks (ks_fp d) = Some Revoked"

interpretation sks: trust_store "\<lambda>ks. \<not> ks_poisoned ks" "\<lambda>i j. ks_fp i = ks_fp j" ks_trusted ks_revoked
  "\<lambda>ks i. fst (trust_peer ks i)" "\<lambda>ks i. fst (revoke_peer ks i)" "\<lambda>ks i. fst (trust_peer_if_not_revoked ks i)"
  by unfold_locales
    (auto simp: ks_trusted_def ks_revoked_def trust_peer_def revoke_peer_def trust_peer_if_not_revoked_def
      split: option.split trust_state.split)

subsection \<open>Signed structures\<close>

text \<open>
  The certificates sign a canonical byte string: \<open>parse\<close> accepts exactly what \<open>build\<close> makes of
  well-formed fields, so the signed bytes and the fields determine each other.
\<close>

locale tbs_codec =
  fixes build :: "'f \<Rightarrow> bytes" and parse :: "bytes \<Rightarrow> crypto_error + 'f" and wf :: "'f \<Rightarrow> bool"
  assumes parse_build: "wf f \<Longrightarrow> parse (build f) = Inr f"
    and build_parse: "parse t = Inr f \<Longrightarrow> wf f \<and> build f = t"
begin

lemma build_inj: "wf f \<Longrightarrow> wf g \<Longrightarrow> build f = build g \<longleftrightarrow> f = g"
  by (metis parse_build Inr_inject)

lemma parse_inj: "parse t = Inr f \<Longrightarrow> parse u = Inr f \<Longrightarrow> t = u"
  using build_parse by metis

lemma parse_iff: "parse t = Inr f \<longleftrightarrow> wf f \<and> build f = t"
  using parse_build build_parse by metis

end

subsection \<open>Properties\<close>

text \<open>
  A revoked peer is never pinned again by the pairing path: after \<open>revoke_peer\<close>, whatever
  sequence of peers is offered to \<open>trust_peer_if_not_revoked\<close>, the peer is not trusted.
\<close>

theorem revoked_peer_untrusted:
  assumes "\<not> ks_poisoned ks"
  shows "is_trusted (foldl (\<lambda>ks i. fst (trust_peer_if_not_revoked ks i)) (fst (revoke_peer ks d)) peers) d = Inr False"
  using sks.revoked_never_repinned [OF assms, of d peers] by (simp add: is_trusted_def ks_trusted_def)

theorem revoked_peer_untrusted_witness:
  "let ks = from_signing_key plain_suite [1]; d = from_verifying_key plain_suite [2]; d' = from_verifying_key plain_suite [3]
   in is_trusted (foldl (\<lambda>ks i. fst (trust_peer_if_not_revoked ks i)) (fst (revoke_peer (fst (trust_peer ks d)) d)) [d', d]) d = Inr False"
proof -
  let ?ks = "from_signing_key plain_suite [1]" and ?d = "from_verifying_key plain_suite [2]"
  have "\<not> ks_poisoned (fst (trust_peer ?ks ?d))" by (simp add: trust_peer_def from_signing_key_def)
  then show ?thesis unfolding Let_def by (rule revoked_peer_untrusted)
qed

end
