(* ===== verification/Bind_Cert.thy ===== *)
theory Bind_Cert
  imports Device_Identity Ratchet
begin

text \<open>
  Key-binding certificates of \<open>src/crates/sh-crypto/src/bind_cert.rs\<close>: the signed layout, the
  parser, the verifier and the builder. A range read \<open>get(a..b)\<close> is \<open>get_range\<close>, with the error of
  its failing branch.
\<close>

subsection \<open>Layout\<close>

definition BIND_DOMAIN_TAG :: bytes where "BIND_DOMAIN_TAG = ascii ''SHP-BINDCERT''"
definition BIND_TBS_VERSION :: u8 where "BIND_TBS_VERSION = 0x01"
definition BIND_FIELD_COUNT :: u8 where "BIND_FIELD_COUNT = 0x06"
definition MAX_PLATFORM_ATTEST_LEN :: nat where "MAX_PLATFORM_ATTEST_LEN = 4096"
definition TBS_MIN_LEN :: nat where "TBS_MIN_LEN = 129"
definition DTLS_FPR_ALG_NONE :: u8 where "DTLS_FPR_ALG_NONE = 0x00"
definition DTLS_FPR_ALG_SHA256 :: u8 where "DTLS_FPR_ALG_SHA256 = 0x01"
definition BIND_CLOCK_SKEW_TOLERANCE_SECS :: i64 where "BIND_CLOCK_SKEW_TOLERANCE_SECS = 300"
definition BIND_CERT_VALIDITY_SECS :: i64 where "BIND_CERT_VALIDITY_SECS = 24 * 60 * 60"

record tbs_fields =
  tf_device_id_digest :: bytes
  tf_noise_static :: bytes
  tf_dtls_fpr_alg :: u8
  tf_dtls_fpr_commit :: bytes
  tf_platform_attest :: bytes
  tf_not_after :: i64
  tf_issued_at :: i64

record bind_cert =
  bc_tbs_bytes :: bytes
  bc_signature :: signature
  bc_fields :: tbs_fields

definition bind_build_tbs :: "tbs_fields \<Rightarrow> bytes" where
  "bind_build_tbs f = BIND_DOMAIN_TAG @ [BIND_TBS_VERSION] @ [BIND_FIELD_COUNT] @ tf_device_id_digest f
     @ tf_noise_static f @ [tf_dtls_fpr_alg f] @ tf_dtls_fpr_commit f
     @ to_be 2 (of_nat (length (tf_platform_attest f)) :: u16) @ tf_platform_attest f
     @ to_be 8 (tf_not_after f) @ to_be 8 (tf_issued_at f)"

definition mbc :: "string \<Rightarrow> crypto_error" where
  "mbc reason = MalformedBindCert reason"

definition bind_parse_tbs :: "bytes \<Rightarrow> crypto_error + tbs_fields" where
  "bind_parse_tbs t =
     (if length t < TBS_MIN_LEN then Err (mbc ''TBS too short for fixed fields'') else
      and_then (ok_or (get_range 0 12 t) (mbc ''TBS too short for domain tag'')) (\<lambda>tag.
      if tag \<noteq> BIND_DOMAIN_TAG then Err (mbc ''domain tag mismatch'') else
      and_then (ok_or (get_at t 12) (mbc ''TBS too short for version byte'')) (\<lambda>version.
      if version \<noteq> BIND_TBS_VERSION then Err (mbc ''unsupported TBS version'') else
      and_then (ok_or (get_at t 13) (mbc ''TBS too short for field count'')) (\<lambda>field_count.
      if field_count \<noteq> BIND_FIELD_COUNT then Err (mbc ''field count mismatch'') else
      and_then (ok_or (get_range 14 46 t) (mbc ''TBS too short for DEVICE_ID'')) (\<lambda>device_id_digest.
      and_then (ok_or (get_range 46 78 t) (mbc ''TBS too short for NOISE_STATIC_X25519'')) (\<lambda>noise_static.
      and_then (ok_or (get_at t 78) (mbc ''TBS too short for DTLS_FPR_ALG'')) (\<lambda>alg.
      if alg \<noteq> DTLS_FPR_ALG_NONE \<and> alg \<noteq> DTLS_FPR_ALG_SHA256 then Err (mbc ''unknown DTLS_FPR_ALG'') else
      and_then (ok_or (get_range 79 111 t) (mbc ''TBS too short for DTLS_FPR_COMMIT'')) (\<lambda>commit.
      if alg = DTLS_FPR_ALG_NONE \<and> commit \<noteq> replicate 32 0
      then Err (mbc ''DTLS_FPR_COMMIT must be zero when ALG=0x00'') else
      and_then (ok_or (get_range 111 113 t) (mbc ''TBS too short for PLATFORM_ATTEST_LEN'')) (\<lambda>pa_len_arr.
      let pa_len = unat (from_be pa_len_arr :: u16) in
      if pa_len > MAX_PLATFORM_ATTEST_LEN then Err (mbc ''PLATFORM_ATTEST_LEN exceeds 4096'') else
      if length t \<noteq> usz_add TBS_MIN_LEN pa_len then Err (mbc ''TBS length does not match computed expected length'') else
      let pa_end = usz_add 113 pa_len in
      and_then (ok_or (get_range 113 pa_end t) (mbc ''TBS too short for PLATFORM_ATTEST data'')) (\<lambda>platform_attest.
      and_then (ok_or (get_range pa_end (usz_add pa_end 8) t) (mbc ''TBS too short for NOT_AFTER'')) (\<lambda>na_arr.
      let not_after = from_be na_arr; issued_at_off = usz_add pa_end 8 in
      and_then (ok_or (get_range issued_at_off (usz_add issued_at_off 8) t) (mbc ''TBS too short for ISSUED_AT'')) (\<lambda>ia_arr.
      let issued_at = from_be ia_arr in
      if sint not_after \<le> sint issued_at then Err (mbc ''NOT_AFTER must be strictly greater than ISSUED_AT'') else
      Ok \<lparr>tf_device_id_digest = device_id_digest, tf_noise_static = noise_static, tf_dtls_fpr_alg = alg,
          tf_dtls_fpr_commit = commit, tf_platform_attest = platform_attest, tf_not_after = not_after,
          tf_issued_at = issued_at\<rparr>))))))))))))"

definition bind_decode :: "bytes \<Rightarrow> crypto_error + bind_cert" where
  "bind_decode wire =
     (if length wire < 4 then Err (mbc ''input too short for lp32 prefix'') else
      and_then (ok_or (get_range 0 4 wire) (mbc ''input too short for lp32 prefix'')) (\<lambda>prefix.
      let tbs_len = unat (from_be prefix :: u32) in
      and_then (ok_or (get_range 4 (length wire) wire) (mbc ''input too short after lp32 prefix'')) (\<lambda>wire_after_prefix.
      if tbs_len > length wire_after_prefix then Err (mbc ''lp32 length exceeds available input'') else
      and_then (ok_or (get_range 0 tbs_len wire_after_prefix) (mbc ''TBS slice out of bounds'')) (\<lambda>tbs_bytes.
      and_then (ok_or (get_range tbs_len (length wire_after_prefix) wire_after_prefix)
        (mbc ''signature slice out of bounds'')) (\<lambda>remaining.
      if length remaining \<noteq> SIGNATURE_LEN then Err (mbc ''expected exactly 64 signature bytes after TBS'') else
      and_then (signature_decode remaining) (\<lambda>signature.
      and_then (bind_parse_tbs tbs_bytes) (\<lambda>fields.
      Ok \<lparr>bc_tbs_bytes = tbs_bytes, bc_signature = signature, bc_fields = fields\<rparr>)))))))"

definition bind_encode :: "bind_cert \<Rightarrow> bytes" where
  "bind_encode c = to_be 4 (of_nat (length (bc_tbs_bytes c)) :: u32) @ bc_tbs_bytes c @ signature_encode (bc_signature c)"

subsection \<open>Verification\<close>

definition bind_verify :: "suite \<Rightarrow> bind_cert \<Rightarrow> device_identity \<Rightarrow> bytes \<Rightarrow> i64 \<Rightarrow> crypto_error + unit" where
  "bind_verify su c peer_identity live_noise_static now =
     and_then (signature_verify su (bc_signature c) peer_identity (bc_tbs_bytes c)) (\<lambda>_.
     if s_sha su (di_key peer_identity) \<noteq> tf_device_id_digest (bc_fields c)
     then Err (mbc (''DEVICE_ID does not match SHA-256 of peer'' @ [CHR 0x27] @ ''s Ed25519 public key''))
     else if tf_noise_static (bc_fields c) \<noteq> live_noise_static then Err NoiseStaticMismatch
     else if sint (tf_not_after (bc_fields c)) \<le> sint now then Err BindCertExpired
     else let skew_adjusted_now = i64_sat_add now BIND_CLOCK_SKEW_TOLERANCE_SECS in
       if sint (tf_issued_at (bc_fields c)) > sint skew_adjusted_now then Err BindCertNotYetValid
       else Ok ())"

text \<open>The DTLS pin a certificate carries, and the gate that demands one.\<close>

definition dtls_pin :: "bind_cert \<Rightarrow> (u8 \<times> bytes) option" where
  "dtls_pin c = (if tf_dtls_fpr_alg (bc_fields c) = DTLS_FPR_ALG_SHA256
     then Some (tf_dtls_fpr_alg (bc_fields c), tf_dtls_fpr_commit (bc_fields c)) else None)"

definition require_webrtc_dtls_pin :: "bind_cert \<Rightarrow> crypto_error + bytes" where
  "require_webrtc_dtls_pin c =
     (if tf_dtls_fpr_alg (bc_fields c) \<noteq> DTLS_FPR_ALG_SHA256 then Err DtlsBindingMissing
      else if tf_dtls_fpr_commit (bc_fields c) = replicate 32 0 then Err DtlsBindingMissing
      else Ok (tf_dtls_fpr_commit (bc_fields c)))"

subsection \<open>The builder\<close>

record dtls_commitment =
  dc_alg :: u8
  dc_commit :: bytes

definition dtls_commitment_sha256 :: "bytes \<Rightarrow> dtls_commitment" where
  "dtls_commitment_sha256 commit = \<lparr>dc_alg = DTLS_FPR_ALG_SHA256, dc_commit = commit\<rparr>"

record bind_cert_builder =
  bb_keystore :: keystore
  bb_noise_static :: "bytes option"
  bb_valid_for_secs :: "i64 option"
  bb_dtls_fpr_alg :: u8
  bb_dtls_fpr_commit :: bytes
  bb_platform_attest :: bytes

definition builder_new :: "keystore \<Rightarrow> bind_cert_builder" where
  "builder_new ks = \<lparr>bb_keystore = ks, bb_noise_static = None, bb_valid_for_secs = None,
     bb_dtls_fpr_alg = DTLS_FPR_ALG_NONE, bb_dtls_fpr_commit = replicate 32 0, bb_platform_attest = []\<rparr>"

definition builder_noise_static :: "bind_cert_builder \<Rightarrow> bytes \<Rightarrow> bind_cert_builder" where
  "builder_noise_static b key = b\<lparr>bb_noise_static := Some key\<rparr>"

definition builder_valid_for_secs :: "bind_cert_builder \<Rightarrow> i64 \<Rightarrow> bind_cert_builder" where
  "builder_valid_for_secs b secs = b\<lparr>bb_valid_for_secs := Some secs\<rparr>"

definition builder_dtls_fpr :: "bind_cert_builder \<Rightarrow> u8 \<Rightarrow> bytes \<Rightarrow> bind_cert_builder" where
  "builder_dtls_fpr b alg commit = b\<lparr>bb_dtls_fpr_alg := alg, bb_dtls_fpr_commit := commit\<rparr>"

definition builder_dtls_commitment :: "bind_cert_builder \<Rightarrow> dtls_commitment \<Rightarrow> bind_cert_builder" where
  "builder_dtls_commitment b c = b\<lparr>bb_dtls_fpr_alg := dc_alg c, bb_dtls_fpr_commit := dc_commit c\<rparr>"

definition builder_platform_attest :: "bind_cert_builder \<Rightarrow> bytes \<Rightarrow> bind_cert_builder" where
  "builder_platform_attest b blob = b\<lparr>bb_platform_attest := blob\<rparr>"

definition builder_build :: "suite \<Rightarrow> bind_cert_builder \<Rightarrow> i64 \<Rightarrow> crypto_error + bind_cert" where
  "builder_build su b now =
     and_then (ok_or (bb_noise_static b) (mbc ''noise_static not set on BindCertBuilder'')) (\<lambda>noise_static.
     and_then (ok_or (bb_valid_for_secs b) (mbc ''valid_for_secs not set on BindCertBuilder'')) (\<lambda>valid_for_secs.
     if sint valid_for_secs \<le> 0 \<or> sint valid_for_secs > sint BIND_CERT_VALIDITY_SECS
     then Err (mbc ''valid_for_secs out of range (must be 1..=BIND_CERT_VALIDITY_SECS)'')
     else if length (bb_platform_attest b) > MAX_PLATFORM_ATTEST_LEN
     then Err (mbc ''platform_attest blob exceeds 4096 bytes'')
     else if bb_dtls_fpr_alg b \<noteq> DTLS_FPR_ALG_NONE \<and> bb_dtls_fpr_alg b \<noteq> DTLS_FPR_ALG_SHA256
     then Err (mbc ''unknown DTLS_FPR_ALG'')
     else if bb_dtls_fpr_alg b = DTLS_FPR_ALG_NONE \<and> bb_dtls_fpr_commit b \<noteq> replicate 32 0
     then Err (mbc ''DTLS_FPR_COMMIT must be zero when ALG=0x00'')
     else and_then (ks_device_identity (bb_keystore b)) (\<lambda>identity.
       let device_id_digest = s_sha su (di_key identity);
           issued_at = now; not_after = i64_sat_add issued_at valid_for_secs in
       if sint not_after \<le> sint issued_at
       then Err (mbc ''valid_for_secs must be positive (not_after must exceed issued_at)'')
       else let fields = \<lparr>tf_device_id_digest = device_id_digest, tf_noise_static = noise_static,
                  tf_dtls_fpr_alg = bb_dtls_fpr_alg b, tf_dtls_fpr_commit = bb_dtls_fpr_commit b,
                  tf_platform_attest = bb_platform_attest b, tf_not_after = not_after, tf_issued_at = issued_at\<rparr>;
                tbs_bytes = bind_build_tbs fields in
         and_then (ks_sign su (bb_keystore b) tbs_bytes) (\<lambda>signature.
         Ok \<lparr>bc_tbs_bytes = tbs_bytes, bc_signature = signature, bc_fields = fields\<rparr>))))"

subsection \<open>The signed bytes and the fields determine each other\<close>

definition wf_tbs :: "tbs_fields \<Rightarrow> bool" where
  "wf_tbs f \<longleftrightarrow> length (tf_device_id_digest f) = 32 \<and> length (tf_noise_static f) = 32
     \<and> length (tf_dtls_fpr_commit f) = 32 \<and> length (tf_platform_attest f) \<le> 4096
     \<and> (tf_dtls_fpr_alg f = DTLS_FPR_ALG_NONE \<and> tf_dtls_fpr_commit f = replicate 32 0 \<or> tf_dtls_fpr_alg f = DTLS_FPR_ALG_SHA256)
     \<and> sint (tf_issued_at f) < sint (tf_not_after f)"

lemma bind_tag_length [simp]: "length BIND_DOMAIN_TAG = 12"
  by (simp add: BIND_DOMAIN_TAG_def ascii_def)

lemma bind_tbs_length [simp]:
  "wf_tbs f \<Longrightarrow> length (bind_build_tbs f) = 129 + length (tf_platform_attest f)"
  by (simp add: wf_tbs_def bind_build_tbs_def)

text \<open>What the parser checks, on a string of the right length.\<close>

lemma bind_parse_tbs_iff:
  "bind_parse_tbs t = Inr f \<longleftrightarrow>
    129 \<le> length t \<and> field 0 12 t = BIND_DOMAIN_TAG \<and> t ! 12 = BIND_TBS_VERSION \<and> t ! 13 = BIND_FIELD_COUNT
    \<and> (t ! 78 = DTLS_FPR_ALG_NONE \<and> field 79 32 t = replicate 32 0 \<or> t ! 78 = DTLS_FPR_ALG_SHA256)
    \<and> (let n = unat (from_be (field 111 2 t) :: u16) in n \<le> 4096 \<and> length t = 129 + n
        \<and> sint (from_be (field (121 + n) 8 t) :: i64) < sint (from_be (field (113 + n) 8 t) :: i64)
        \<and> f = \<lparr>tf_device_id_digest = field 14 32 t, tf_noise_static = field 46 32 t, tf_dtls_fpr_alg = t ! 78,
             tf_dtls_fpr_commit = field 79 32 t, tf_platform_attest = field 113 n t,
             tf_not_after = from_be (field (113 + n) 8 t), tf_issued_at = from_be (field (121 + n) 8 t)\<rparr>)"
proof (cases "129 \<le> length t")
  case True
  define n where "n = unat (from_be (field 111 2 t) :: u16)"
  have n: "n < 65536" unfolding n_def by (rule unat_u16_less)
  have g: "get_range 0 12 t = Some (field 0 12 t)" "get_at t 12 = Some (t ! 12)" "get_at t 13 = Some (t ! 13)"
    "get_range 14 46 t = Some (field 14 32 t)" "get_range 46 78 t = Some (field 46 32 t)" "get_at t 78 = Some (t ! 78)"
    "get_range 79 111 t = Some (field 79 32 t)" "get_range 111 113 t = Some (field 111 2 t)"
    using True by (simp_all add: get_range_field get_at_def)
  have alg: "DTLS_FPR_ALG_NONE \<noteq> DTLS_FPR_ALG_SHA256" by (simp add: DTLS_FPR_ALG_NONE_def DTLS_FPR_ALG_SHA256_def)
  have off: "usz_add 129 n = 129 + n" "usz_add 113 n = 113 + n" "usz_add (113 + n) 8 = 121 + n" "usz_add (121 + n) 8 = 129 + n"
    using n by (simp_all add: usize_max_def)
  have h: "get_range 113 (113 + n) t = Some (field 113 n t)" "get_range (113 + n) (121 + n) t = Some (field (113 + n) 8 t)"
    "get_range (121 + n) (129 + n) t = Some (field (121 + n) 8 t)" if "length t = 129 + n"
    using that by (simp_all add: get_range_field)
  show ?thesis using True h alg
    by (auto simp: bind_parse_tbs_def g n_def [symmetric] off Let_def MAX_PLATFORM_ATTEST_LEN_def TBS_MIN_LEN_def not_le simp del: and_then_eq_Ok
        split: if_splits)
qed (simp add: bind_parse_tbs_def TBS_MIN_LEN_def)

interpretation bind_tbs: tbs_codec bind_build_tbs bind_parse_tbs wf_tbs
proof (unfold_locales, goal_cases)
  case (1 f)
  have n: "unat (of_nat (length (tf_platform_attest f)) :: u16) = length (tf_platform_attest f)"
    using 1 by (intro unat_of_nat_u16) (simp add: wf_tbs_def)
  have "field 111 2 (bind_build_tbs f) = to_be 2 (of_nat (length (tf_platform_attest f)) :: u16)"
    using 1 by (simp add: bind_build_tbs_def wf_tbs_def)
  then show ?case using 1 n unfolding bind_parse_tbs_iff
    by (simp add: bind_build_tbs_def wf_tbs_def nth_append Let_def)
next
  case (2 t f)
  define n where "n = unat (from_be (field 111 2 t) :: u16)"
  have P: "length t = 129 + n" "n \<le> 4096" "field 0 12 t = BIND_DOMAIN_TAG" "t ! 12 = BIND_TBS_VERSION" "t ! 13 = BIND_FIELD_COUNT"
    and alg: "t ! 78 = DTLS_FPR_ALG_NONE \<and> field 79 32 t = replicate 32 0 \<or> t ! 78 = DTLS_FPR_ALG_SHA256"
    and lt: "sint (from_be (field (121 + n) 8 t) :: i64) < sint (from_be (field (113 + n) 8 t) :: i64)"
    and f: "f = \<lparr>tf_device_id_digest = field 14 32 t, tf_noise_static = field 46 32 t, tf_dtls_fpr_alg = t ! 78,
             tf_dtls_fpr_commit = field 79 32 t, tf_platform_attest = field 113 n t,
             tf_not_after = from_be (field (113 + n) 8 t), tf_issued_at = from_be (field (121 + n) 8 t)\<rparr>"
    using 2 unfolding bind_parse_tbs_iff Let_def n_def [symmetric] by blast+
  have "of_nat n = (from_be (field 111 2 t) :: u16)" by (simp add: n_def)
  then have len: "to_be 2 (of_nat n :: u16) = field 111 2 t" using P(1) by (simp add: to_be_u16)
  have "bind_build_tbs f = field 0 12 t @ [t ! 12] @ [t ! 13] @ field 14 32 t @ field 46 32 t @ [t ! 78] @ field 79 32 t
      @ field 111 2 t @ field 113 n t @ field (113 + n) 8 t @ field (121 + n) 8 t"
    using P by (simp add: bind_build_tbs_def f len to_be_u64)
  also have "\<dots> = field 0 (129 + n) t"
    using P(1) by (simp add: field_joins del: field_whole)
  finally show ?case using P(1,2) alg lt by (auto simp: wf_tbs_def f)
qed

definition wf_cert :: "bind_cert \<Rightarrow> bool" where
  "wf_cert c \<longleftrightarrow> wf_tbs (bc_fields c) \<and> bc_tbs_bytes c = bind_build_tbs (bc_fields c) \<and> length (bc_signature c) = 64"

lemma bind_decode_encode:
  assumes "wf_cert c"
  shows "bind_decode (bind_encode c) = Inr c"
proof -
  have len: "length (bc_tbs_bytes c) \<le> 4225" "length (bc_signature c) = 64" "wf_tbs (bc_fields c)"
    and parse: "bind_parse_tbs (bc_tbs_bytes c) = Inr (bc_fields c)"
    using assms bind_tbs.parse_build by (auto simp: wf_cert_def) (simp add: wf_tbs_def)
  have n: "unat (of_nat (length (bc_tbs_bytes c)) :: u32) = length (bc_tbs_bytes c)"
    using len(1) by (intro unat_of_nat_u32) simp
  show ?thesis using len parse n
    by (simp add: bind_decode_def bind_encode_def signature_encode_def signature_decode_def SIGNATURE_LEN_def get_range_def Let_def)
qed

lemma bind_decode_exact:
  assumes "bind_decode w = Inr c"
  shows "wf_cert c \<and> w = bind_encode c"
proof -
  let ?n = "unat (from_be (take 4 w) :: u32)"
  have w: "4 \<le> length w" using assms by (rule_tac ccontr) (simp add: bind_decode_def)
  then have g: "get_range 0 4 w = Some (take 4 w)" "get_range 4 (length w) w = Some (drop 4 w)"
    by (simp_all add: get_range_def)
  have n: "?n \<le> length (drop 4 w)" using assms w by (rule_tac ccontr) (simp add: bind_decode_def g Let_def)
  then have g2: "get_range 0 ?n (drop 4 w) = Some (take ?n (drop 4 w))"
      "get_range ?n (length (drop 4 w)) (drop 4 w) = Some (drop (4 + ?n) w)"
    by (simp_all add: get_range_def add.commute)
  have l: "length (drop (4 + ?n) w) = 64"
    using assms n w g2 by (rule_tac ccontr) (simp add: bind_decode_def g Let_def SIGNATURE_LEN_def)
  then have D: "4 \<le> length w" "4 + ?n + 64 = length w" "bc_signature c = drop (4 + ?n) w" "bc_tbs_bytes c = take ?n (drop 4 w)"
      "bind_parse_tbs (bc_tbs_bytes c) = Inr (bc_fields c)"
    using assms w n g2 by (auto simp: bind_decode_def g Let_def SIGNATURE_LEN_def signature_decode_def)
  have "to_be 4 (of_nat (length (bc_tbs_bytes c)) :: u32) = take 4 w"
    using D(1,2) by (simp add: D(4) to_be_u32)
  moreover have "take ?n (drop 4 w) @ drop (4 + ?n) w = drop 4 w"
    using append_take_drop_id [of ?n "drop 4 w"] by (simp add: add.commute)
  ultimately have "bind_encode c = w" by (simp add: bind_encode_def signature_encode_def D(3,4))
  then show ?thesis using D(2,3) bind_tbs.build_parse [OF D(5)] by (auto simp: wf_cert_def)
qed

lemma bind_verify_Ok:
  "bind_verify su c peer ns now = Inr () \<longleftrightarrow>
    s_verify su (di_key peer) (bc_tbs_bytes c) (bc_signature c) \<and> tf_device_id_digest (bc_fields c) = s_sha su (di_key peer)
    \<and> tf_noise_static (bc_fields c) = ns \<and> sint now < sint (tf_not_after (bc_fields c))
    \<and> sint (tf_issued_at (bc_fields c)) \<le> sint now + 300"
  using sint_i64_bounds [of "tf_issued_at (bc_fields c)"] sint_i64_bounds [of now]
  by (auto simp: bind_verify_def signature_verify_def Let_def sat_simps i64_clamp_def BIND_CLOCK_SKEW_TOLERANCE_SECS_def
      split: if_splits)

lemma builder_build_Ok:
  assumes "builder_build su b now = Inr c"
  obtains ns secs where "bb_noise_static b = Some ns" "bb_valid_for_secs b = Some secs" "0 < sint secs" "sint secs \<le> 86400"
    "bc_fields c = \<lparr>tf_device_id_digest = s_sha su (di_key (ks_identity (bb_keystore b))), tf_noise_static = ns,
       tf_dtls_fpr_alg = bb_dtls_fpr_alg b, tf_dtls_fpr_commit = bb_dtls_fpr_commit b,
       tf_platform_attest = bb_platform_attest b, tf_not_after = i64_sat_add now secs, tf_issued_at = now\<rparr>"
    "bc_tbs_bytes c = bind_build_tbs (bc_fields c)"
    "bc_signature c = s_sign su (ks_signing_key (bb_keystore b)) (bc_tbs_bytes c)"
    "length ns = 32 \<Longrightarrow> length (bb_dtls_fpr_commit b) = 32 \<Longrightarrow> sha_total su \<Longrightarrow> wf_tbs (bc_fields c)"
proof -
  from assms obtain ns secs where "bb_noise_static b = Some ns" "bb_valid_for_secs b = Some secs"
    by (auto simp: builder_build_def)
  then show thesis using assms that [of ns secs]
    by (auto simp: builder_build_def Let_def ks_device_identity_def ks_sign_def BIND_CERT_VALIDITY_SECS_def wf_tbs_def
        sha_total_def MAX_PLATFORM_ATTEST_LEN_def split: if_splits)
qed

subsection \<open>Properties\<close>

text \<open>
  The parser accepts a wire image exactly when it is the encoding of a well-formed certificate:
  decoding inverts encoding, and no certificate has a second encoding.
\<close>

theorem bind_wire_exact: "bind_decode w = Inr c \<longleftrightarrow> wf_cert c \<and> w = bind_encode c"
  using bind_decode_encode bind_decode_exact by blast

text \<open>
  C20. A certificate the builder signs with a software keystore survives the wire, and a peer
  accepts it exactly for the committed Noise static key, from 300 seconds before its issue until
  its expiry; it never lives longer than a day.
\<close>

theorem built_cert_accepted:
  assumes "sha_total su" and "sign_correct su" and "bb_keystore b = from_signing_key su sk"
    and "bb_noise_static b = Some ns" and "length ns = 32" and "length (bb_dtls_fpr_commit b) = 32"
    and "builder_build su b issued = Inr c"
  shows "bind_decode (bind_encode c) = Inr c
    \<and> (bind_verify su c (from_verifying_key su (s_public su sk)) live now = Inr () \<longleftrightarrow>
         live = ns \<and> sint issued \<le> sint now + 300 \<and> sint now < sint (tf_not_after (bc_fields c)))
    \<and> sint (tf_not_after (bc_fields c)) \<le> sint issued + 86400"
proof -
  obtain ns' secs where B: "bb_noise_static b = Some ns'" "0 < sint secs" "sint secs \<le> 86400"
    "bc_fields c = \<lparr>tf_device_id_digest = s_sha su (di_key (ks_identity (bb_keystore b))), tf_noise_static = ns',
       tf_dtls_fpr_alg = bb_dtls_fpr_alg b, tf_dtls_fpr_commit = bb_dtls_fpr_commit b,
       tf_platform_attest = bb_platform_attest b, tf_not_after = i64_sat_add issued secs, tf_issued_at = issued\<rparr>"
    "bc_tbs_bytes c = bind_build_tbs (bc_fields c)"
    "bc_signature c = s_sign su (ks_signing_key (bb_keystore b)) (bc_tbs_bytes c)"
    "length ns' = 32 \<Longrightarrow> length (bb_dtls_fpr_commit b) = 32 \<Longrightarrow> sha_total su \<Longrightarrow> wf_tbs (bc_fields c)"
    using builder_build_Ok [OF assms(7)] by metis
  have ns: "ns' = ns" using B(1) assms(4) by simp
  have wf: "wf_cert c" using B(5,6,7) assms(1,2,3,5,6) ns by (simp add: wf_cert_def sign_correct_def)
  have v: "s_verify su (s_public su sk) (bc_tbs_bytes c) (bc_signature c)"
    using assms(2,3) B(6) by (simp add: sign_correct_def from_signing_key_def)
  have na: "sint (tf_not_after (bc_fields c)) \<le> sint issued + 86400"
    using B(2-4) sint_i64_bounds [of issued] by (auto simp: sat_simps i64_clamp_def)
  show ?thesis using bind_decode_encode [OF wf] v na B(4) assms(3) ns
    by (auto simp: bind_verify_Ok from_signing_key_def from_verifying_key_def)
qed

theorem built_cert_accepted_witness:
  "let ks = from_signing_key plain_suite [5]; ns = replicate 32 9;
       b = builder_platform_attest (builder_valid_for_secs (builder_noise_static (builder_new ks) ns) 3600) [1, 2]
   in \<exists>c. builder_build plain_suite b 1000 = Inr c \<and> bind_decode (bind_encode c) = Inr c
      \<and> bind_verify plain_suite c (from_verifying_key plain_suite (s_public plain_suite [5])) ns 1500 = Inr ()
      \<and> bind_verify plain_suite c (from_verifying_key plain_suite (s_public plain_suite [5])) ns 4600 \<noteq> Inr ()"
proof -
  define b where "b = builder_platform_attest (builder_valid_for_secs (builder_noise_static
    (builder_new (from_signing_key plain_suite [5])) (replicate 32 9)) 3600) [1, 2]"
  have b: "bb_keystore b = from_signing_key plain_suite [5]" "bb_noise_static b = Some (replicate 32 9)"
      "length (bb_dtls_fpr_commit b) = 32" "bb_valid_for_secs b = Some 3600"
    by (simp_all add: b_def builder_platform_attest_def builder_valid_for_secs_def builder_noise_static_def builder_new_def)
  obtain c where c: "builder_build plain_suite b 1000 = Inr c" "sint (tf_not_after (bc_fields c)) = 4600"
    by (simp add: b_def builder_platform_attest_def builder_valid_for_secs_def builder_noise_static_def builder_new_def
        builder_build_def ks_device_identity_def ks_sign_def Let_def sat_simps i64_clamp_def BIND_CERT_VALIDITY_SECS_def
        MAX_PLATFORM_ATTEST_LEN_def del: and_then_eq_Ok)
  show ?thesis
    using built_cert_accepted [OF plain_suite_total plain_suite_correct b(1,2) _ b(3) c(1), of "replicate 32 9" 1500]
      built_cert_accepted [OF plain_suite_total plain_suite_correct b(1,2) _ b(3) c(1), of "replicate 32 9" 4600] c
    by (auto simp: Let_def b_def [symmetric])
qed

end
