(* ===== verification/Peer_Auth.thy ===== *)
theory Peer_Auth
  imports Device_Identity Ratchet
begin

text \<open>
  Proofs of possession for the signalling server, \<open>src/crates/sh-crypto/src/peer_auth.rs\<close>: a
  signature over the session id, the public key and the server's challenge.
\<close>

definition AUTH_DOMAIN_TAG :: bytes where "AUTH_DOMAIN_TAG = ascii ''SHP-SIG-PEERAUTH''"
definition AUTH_TBS_VERSION :: u8 where "AUTH_TBS_VERSION = 0x01"
definition PUBKEY_LEN :: nat where "PUBKEY_LEN = 32"
definition SESSION_ID_LEN :: nat where "SESSION_ID_LEN = 16"
definition PEER_AUTH_CHALLENGE_LEN :: nat where "PEER_AUTH_CHALLENGE_LEN = 32"
definition IDENTITY_PROOF_LEN :: nat where "IDENTITY_PROOF_LEN = PUBKEY_LEN + PEER_AUTH_CHALLENGE_LEN + SIGNATURE_LEN"
definition AUTH_TBS_LEN :: nat where "AUTH_TBS_LEN = 16 + 1 + SESSION_ID_LEN + PUBKEY_LEN + PEER_AUTH_CHALLENGE_LEN"

lemmas auth_lens = PUBKEY_LEN_def SESSION_ID_LEN_def PEER_AUTH_CHALLENGE_LEN_def IDENTITY_PROOF_LEN_def AUTH_TBS_LEN_def SIGNATURE_LEN_def

text \<open>The buffer and the cursor; a field that does not fit changes neither.\<close>

definition write_field :: "bytes \<times> nat \<Rightarrow> bytes \<Rightarrow> bytes \<times> nat" where
  "write_field oc src =
     (let (out, start) = oc; e = usz_add start (length src) in
      if start \<le> e \<and> e \<le> length out then (take start out @ src @ drop e out, e) else (out, start))"

definition auth_build_tbs :: "bytes \<Rightarrow> bytes \<Rightarrow> bytes \<Rightarrow> bytes" where
  "auth_build_tbs session_id device_pubkey challenge =
     fst (foldl write_field (replicate AUTH_TBS_LEN 0, 0)
       [AUTH_DOMAIN_TAG, [AUTH_TBS_VERSION], session_id, device_pubkey, challenge])"

record identity_proof =
  ip_device_pubkey :: bytes
  ip_challenge :: bytes
  ip_signature :: signature

definition proof_create :: "suite \<Rightarrow> keystore \<Rightarrow> bytes \<Rightarrow> bytes \<Rightarrow> crypto_error + identity_proof" where
  "proof_create su ks session_id challenge =
     and_then (ks_device_identity ks) (\<lambda>identity.
     let device_pubkey = di_key identity; tbs = auth_build_tbs session_id device_pubkey challenge in
     and_then (ks_sign su ks tbs) (\<lambda>signature.
     Ok \<lparr>ip_device_pubkey = device_pubkey, ip_challenge = challenge, ip_signature = signature\<rparr>))"

definition proof_decode :: "bytes \<Rightarrow> crypto_error + identity_proof" where
  "proof_decode b =
     (if length b \<noteq> IDENTITY_PROOF_LEN then Err (MalformedSignature ''identity proof must be exactly 128 bytes'') else
      and_then (ok_or (get_range 0 PUBKEY_LEN b) (MalformedSignature ''identity proof too short for device pubkey'')) (\<lambda>device_pubkey.
      let challenge_end = PUBKEY_LEN + PEER_AUTH_CHALLENGE_LEN in
      and_then (ok_or (get_range PUBKEY_LEN challenge_end b) (MalformedSignature ''identity proof too short for challenge'')) (\<lambda>challenge.
      and_then (ok_or (get_range challenge_end IDENTITY_PROOF_LEN b) (MalformedSignature ''identity proof too short for signature'')) (\<lambda>sig_slice.
      and_then (signature_decode sig_slice) (\<lambda>signature.
      Ok \<lparr>ip_device_pubkey = device_pubkey, ip_challenge = challenge, ip_signature = signature\<rparr>)))))"

definition proof_encode :: "identity_proof \<Rightarrow> bytes" where
  "proof_encode p = fst (foldl write_field (replicate IDENTITY_PROOF_LEN 0, 0)
     [ip_device_pubkey p, ip_challenge p, signature_encode (ip_signature p)])"

definition proof_verify :: "suite \<Rightarrow> identity_proof \<Rightarrow> fingerprint \<Rightarrow> bytes \<Rightarrow> bytes \<Rightarrow> crypto_error + unit" where
  "proof_verify su p expected_fp expected_session_id expected_challenge =
     (if ip_challenge p \<noteq> expected_challenge then Err BadSignature else
      and_then (from_public_key_bytes su (ip_device_pubkey p)) (\<lambda>identity.
      if di_fingerprint identity \<noteq> expected_fp then Err BadSignature else
      let tbs = auth_build_tbs expected_session_id (ip_device_pubkey p) (ip_challenge p) in
      signature_verify su (ip_signature p) identity tbs))"

subsection \<open>Buffers filled field by field\<close>

lemma write_field_fits:
  "length pre = n \<Longrightarrow> length src \<le> m \<Longrightarrow> n + m < 2 ^ 64 \<Longrightarrow>
    write_field (pre @ replicate m 0, n) src = (pre @ src @ replicate (m - length src) 0, n + length src)"
  by (simp add: write_field_def usz_add_def usize_max_def)

lemma write_fields_concat:
  "length pre = n \<Longrightarrow> length (concat fs) = m \<Longrightarrow> n + m < 2 ^ 64 \<Longrightarrow>
    foldl write_field (pre @ replicate m 0, n) fs = (pre @ concat fs, n + m)"
proof (induction fs arbitrary: pre n m)
  case (Cons f fs)
  have "foldl write_field (write_field (pre @ replicate m 0, n) f) fs =
      foldl write_field ((pre @ f) @ replicate (m - length f) 0, n + length f) fs"
    using Cons.prems by (subst write_field_fits) auto
  also have "\<dots> = ((pre @ f) @ concat fs, n + length f + (m - length f))"
    using Cons.prems by (intro Cons.IH) auto
  finally show ?case using Cons.prems(2) by simp
qed simp

lemma auth_build_tbs_eq:
  assumes "length sid = 16" and "length pk = 32" and "length ch = 32"
  shows "auth_build_tbs sid pk ch = AUTH_DOMAIN_TAG @ AUTH_TBS_VERSION # sid @ pk @ ch"
  using write_fields_concat [of "[]" 0 "[AUTH_DOMAIN_TAG, [AUTH_TBS_VERSION], sid, pk, ch]" 97] assms
  by (simp add: auth_build_tbs_def auth_lens AUTH_DOMAIN_TAG_def ascii_def del: foldl_Cons)

definition wf_proof :: "identity_proof \<Rightarrow> bool" where
  "wf_proof p \<longleftrightarrow> length (ip_device_pubkey p) = 32 \<and> length (ip_challenge p) = 32 \<and> length (ip_signature p) = 64"

lemma proof_encode_eq:
  assumes "wf_proof p"
  shows "proof_encode p = ip_device_pubkey p @ ip_challenge p @ ip_signature p"
  using write_fields_concat [of "[]" 0 "[ip_device_pubkey p, ip_challenge p, ip_signature p]" 128] assms
  by (simp add: proof_encode_def auth_lens signature_encode_def wf_proof_def del: foldl_Cons)

lemma proof_decode_iff: "proof_decode b = Inr p \<longleftrightarrow> wf_proof p \<and> b = proof_encode p"
proof
  assume "proof_decode b = Inr p"
  then have b: "length b = 128" and p: "p = \<lparr>ip_device_pubkey = field 0 32 b, ip_challenge = field 32 32 b, ip_signature = field 64 64 b\<rparr>"
    by (auto simp: proof_decode_def auth_lens Let_def signature_decode_def get_range_def field_def split: if_splits)
  have "field 0 32 b @ field 32 32 b @ field 64 64 b = field 0 128 b" by (simp add: field_joins del: field_whole)
  then show "wf_proof p \<and> b = proof_encode p" using b p proof_encode_eq [of p] by (simp add: wf_proof_def)
next
  assume "wf_proof p \<and> b = proof_encode p"
  then show "proof_decode b = Inr p"
    by (cases p) (simp add: proof_encode_eq proof_decode_def auth_lens Let_def signature_decode_def get_range_def wf_proof_def)
qed

lemma auth_tag_length [simp]: "length AUTH_DOMAIN_TAG = 16"
  by (simp add: AUTH_DOMAIN_TAG_def ascii_def)

lemma proof_verify_eq:
  assumes "wf_proof p" and "length sid = 16"
  shows "proof_verify su p fp sid ch = Inr () \<longleftrightarrow>
    ip_challenge p = ch \<and> s_point su (ip_device_pubkey p) \<and> \<not> s_weak su (ip_device_pubkey p)
    \<and> fp = hex_bytes (s_sha su (ip_device_pubkey p))
    \<and> s_verify su (ip_device_pubkey p) (AUTH_DOMAIN_TAG @ AUTH_TBS_VERSION # sid @ ip_device_pubkey p @ ch) (ip_signature p)"
  using assms auth_build_tbs_eq [of sid "ip_device_pubkey p" "ip_challenge p"]
  by (auto simp: proof_verify_def from_public_key_bytes_def from_verifying_key_def fingerprint_of_key_def signature_verify_def
      wf_proof_def Let_def split: if_splits)

subsection \<open>Properties\<close>

text \<open>
  C21. A proof is accepted exactly when it answers this connection's challenge, its key is a
  valid strong key with the claimed fingerprint, and the key signed this session id, key and
  challenge; so a proof recorded for another session or challenge proves nothing here.
\<close>

theorem proof_verify_iff:
  assumes "wf_proof p" and "length sid = 16"
  shows "proof_verify su p fp sid ch = Inr () \<longleftrightarrow>
    ip_challenge p = ch \<and> s_point su (ip_device_pubkey p) \<and> \<not> s_weak su (ip_device_pubkey p)
    \<and> fp = hex_bytes (s_sha su (ip_device_pubkey p))
    \<and> s_verify su (ip_device_pubkey p) (AUTH_DOMAIN_TAG @ AUTH_TBS_VERSION # sid @ ip_device_pubkey p @ ch) (ip_signature p)"
  using assms by (rule proof_verify_eq)

theorem proof_verify_iff_witness:
  "let p = \<lparr>ip_device_pubkey = 1 # replicate 31 0, ip_challenge = replicate 32 4,
      ip_signature = (1 # replicate 31 0) @ pad_to 32 (AUTH_DOMAIN_TAG @ AUTH_TBS_VERSION # replicate 16 3 @ (1 # replicate 31 0) @ replicate 32 4)\<rparr>
   in proof_verify plain_suite p (hex_bytes (s_sha plain_suite (1 # replicate 31 0))) (replicate 16 3) (replicate 32 4) = Inr ()"
  unfolding Let_def
  by (subst proof_verify_iff) (simp_all add: wf_proof_def plain_suite_def numeral_eq_Suc)

text \<open>
  A peer's own proof, made from the server's session id and challenge and sent over the
  wire, is accepted for the peer's fingerprint.
\<close>

theorem own_proof_accepted:
  assumes "sign_correct su" and "length sid = 16" and "length ch = 32"
  shows "\<exists>p. proof_create su (from_signing_key su sk) sid ch = Inr p
    \<and> and_then (proof_decode (proof_encode p)) (\<lambda>q. proof_verify su q (fingerprint_of_key su (s_public su sk)) sid ch) = Inr ()"
proof -
  let ?pk = "s_public su sk"
  let ?p = "\<lparr>ip_device_pubkey = ?pk, ip_challenge = ch, ip_signature = s_sign su sk (auth_build_tbs sid ?pk ch)\<rparr>"
  have wf: "wf_proof ?p" using assms by (simp add: wf_proof_def sign_correct_def)
  have "proof_create su (from_signing_key su sk) sid ch = Inr ?p"
    by (simp add: proof_create_def ks_device_identity_def ks_sign_def from_signing_key_def from_verifying_key_def Let_def)
  moreover have "proof_decode (proof_encode ?p) = Inr ?p" using wf by (simp add: proof_decode_iff)
  moreover have "proof_verify su ?p (fingerprint_of_key su ?pk) sid ch = Inr ()"
    using assms(1) by (simp add: proof_verify_def from_public_key_bytes_def from_verifying_key_def signature_verify_def Let_def sign_correct_def)
  ultimately show ?thesis by (intro exI [of _ ?p]) simp
qed

theorem own_proof_accepted_witness:
  "\<exists>p. proof_create plain_suite (from_signing_key plain_suite [8]) (replicate 16 3) (replicate 32 4) = Inr p
    \<and> and_then (proof_decode (proof_encode p)) (\<lambda>q. proof_verify plain_suite q
         (fingerprint_of_key plain_suite (s_public plain_suite [8])) (replicate 16 3) (replicate 32 4)) = Inr ()"
  by (rule own_proof_accepted [OF plain_suite_correct]) simp_all

end
