(* ===== verification/Ugc.thy ===== *)
theory Ugc
  imports Device_Identity Ratchet Caps_Mask
begin

text \<open>
  Unattended grant certificates, \<open>src/crates/sh-core/src/authz/ugc.rs\<close>: layout, issue, parser,
  verifier. A range read \<open>get(a..b)\<close> is \<open>get_range\<close>, with the error of its failing branch.
\<close>

subsection \<open>Layout\<close>

definition UGC_DOMAIN_TAG :: bytes where "UGC_DOMAIN_TAG = ascii ''SHP-UGC'' @ [0, 0, 0, 0]"
definition UGC_TBS_VERSION :: u8 where "UGC_TBS_VERSION = 0x01"
definition UGC_FIELD_COUNT :: u8 where "UGC_FIELD_COUNT = 0x05"
definition UGC_TBS_LEN :: nat where "UGC_TBS_LEN = 73"
definition UGC_TBS_LEN_U32 :: u32 where "UGC_TBS_LEN_U32 = of_nat UGC_TBS_LEN"
definition UGC_WIRE_LEN :: nat where "UGC_WIRE_LEN = 4 + UGC_TBS_LEN + 64"
definition UGC_CLOCK_SKEW_TOLERANCE_SECS :: i64 where "UGC_CLOCK_SKEW_TOLERANCE_SECS = 300"

record ugc_fields =
  uf_grantee_device_id :: bytes
  uf_caps_raw :: u32
  uf_epoch :: u64
  uf_not_after :: i64
  uf_issued_at :: i64

record ugc =
  ugc_tbs_bytes :: bytes
  ugc_signature :: signature
  ugc_fields :: ugc_fields

definition ugc_build_tbs :: "ugc_fields \<Rightarrow> bytes" where
  "ugc_build_tbs f = UGC_DOMAIN_TAG @ [UGC_TBS_VERSION] @ [UGC_FIELD_COUNT] @ uf_grantee_device_id f
     @ to_be 4 (uf_caps_raw f) @ to_be 8 (uf_epoch f) @ to_be 8 (uf_not_after f) @ to_be 8 (uf_issued_at f)"

definition ugc_encode :: "suite \<Rightarrow> keystore \<Rightarrow> device_identity \<Rightarrow> capabilities \<Rightarrow> u64 \<Rightarrow> i64 \<Rightarrow> i64 \<Rightarrow> crypto_error + ugc" where
  "ugc_encode su ks grantee caps epoch not_after now =
     (let issued_at = now in
      if sint not_after \<le> sint issued_at
      then Err (MalformedUgc ''not_after must be strictly greater than issued_at'')
      else let grantee_device_id = s_sha su (di_key grantee);
               fields = \<lparr>uf_grantee_device_id = grantee_device_id, uf_caps_raw = caps, uf_epoch = epoch,
                 uf_not_after = not_after, uf_issued_at = issued_at\<rparr>;
               tbs_bytes = ugc_build_tbs fields in
        and_then (ks_sign su ks tbs_bytes) (\<lambda>signature.
        Ok \<lparr>ugc_tbs_bytes = tbs_bytes, ugc_signature = signature, ugc_fields = fields\<rparr>))"

definition ugc_parse_tbs :: "bytes \<Rightarrow> crypto_error + ugc_fields" where
  "ugc_parse_tbs t =
     and_then (ok_or (get_range 0 11 t) (MalformedUgc ''TBS too short for domain tag'')) (\<lambda>tag.
     if tag \<noteq> UGC_DOMAIN_TAG then Err (MalformedUgc ''domain tag mismatch'') else
     and_then (ok_or (get_at t 11) (MalformedUgc ''TBS too short for version byte'')) (\<lambda>version.
     if version \<noteq> UGC_TBS_VERSION then Err (MalformedUgc ''unsupported TBS version'') else
     and_then (ok_or (get_at t 12) (MalformedUgc ''TBS too short for field count'')) (\<lambda>field_count.
     if field_count \<noteq> UGC_FIELD_COUNT then Err (MalformedUgc ''field count mismatch'') else
     and_then (ok_or (get_range 13 45 t) (MalformedUgc ''TBS too short for GRANTEE_DEVICE_ID'')) (\<lambda>grantee_device_id.
     and_then (ok_or (get_range 45 49 t) (MalformedUgc ''TBS too short for CAPS'')) (\<lambda>caps_arr.
     let caps_raw = from_be caps_arr in
     and_then (ok_or (get_range 49 57 t) (MalformedUgc ''TBS too short for EPOCH'')) (\<lambda>epoch_arr.
     let epoch = from_be epoch_arr in
     and_then (ok_or (get_range 57 65 t) (MalformedUgc ''TBS too short for NOT_AFTER'')) (\<lambda>na_arr.
     let not_after = from_be na_arr in
     and_then (ok_or (get_range 65 73 t) (MalformedUgc ''TBS too short for ISSUED_AT'')) (\<lambda>ia_arr.
     let issued_at = from_be ia_arr in
     if sint not_after \<le> sint issued_at
     then Err (MalformedUgc ''NOT_AFTER must be strictly greater than ISSUED_AT'')
     else Ok \<lparr>uf_grantee_device_id = grantee_device_id, uf_caps_raw = caps_raw, uf_epoch = epoch,
         uf_not_after = not_after, uf_issued_at = issued_at\<rparr>))))))))"

definition ugc_decode :: "bytes \<Rightarrow> crypto_error + ugc" where
  "ugc_decode wire =
     (if length wire \<noteq> UGC_WIRE_LEN then Err (MalformedUgc ''UGC wire length must be exactly 141 bytes (4+73+64)'') else
      and_then (ok_or (get_range 0 4 wire) (MalformedUgc ''lp32 prefix conversion failed'')) (\<lambda>prefix.
      let tbs_len = unat (from_be prefix :: u32) in
      if tbs_len \<noteq> UGC_TBS_LEN then Err (MalformedUgc ''lp32 length must be exactly 73 (UGC_TBS_LEN)'') else
      and_then (ok_or (get_range 4 (4 + UGC_TBS_LEN) wire) (MalformedUgc ''wire too short for TBS'')) (\<lambda>tbs_bytes.
      and_then (ok_or (get_range (4 + UGC_TBS_LEN) (length wire) wire) (MalformedUgc ''wire too short for signature'')) (\<lambda>sig_bytes.
      and_then (map_err (\<lambda>_. MalformedUgc ''signature bytes must be exactly 64 bytes'') (signature_decode sig_bytes)) (\<lambda>signature.
      and_then (ugc_parse_tbs tbs_bytes) (\<lambda>fields.
      Ok \<lparr>ugc_tbs_bytes = tbs_bytes, ugc_signature = signature, ugc_fields = fields\<rparr>))))))"

definition ugc_wire_bytes :: "ugc \<Rightarrow> bytes" where
  "ugc_wire_bytes u = to_be 4 UGC_TBS_LEN_U32 @ ugc_tbs_bytes u @ signature_encode (ugc_signature u)"

definition ugc_verify :: "suite \<Rightarrow> ugc \<Rightarrow> device_identity \<Rightarrow> device_identity \<Rightarrow> u64 \<Rightarrow> i64 \<Rightarrow> crypto_error + capabilities" where
  "ugc_verify su u host_identity grantee_peer_identity min_epoch now =
     and_then (map_err (\<lambda>_. UgcBadSignature) (signature_verify su (ugc_signature u) host_identity (ugc_tbs_bytes u))) (\<lambda>_.
     let grantee_pubkey_digest = s_sha su (di_key grantee_peer_identity) in
     if uf_grantee_device_id (ugc_fields u) \<noteq> grantee_pubkey_digest then Err UgcWrongGrantee
     else if sint (i64_sat_add (uf_not_after (ugc_fields u)) UGC_CLOCK_SKEW_TOLERANCE_SECS) \<le> sint now then Err UgcExpired
     else let skew_adjusted_now = i64_sat_add now UGC_CLOCK_SKEW_TOLERANCE_SECS in
       if sint (uf_issued_at (ugc_fields u)) > sint skew_adjusted_now then Err UgcExpired
       else if uf_epoch (ugc_fields u) < min_epoch then Err UgcRevoked
       else Ok (from_bits_truncate (uf_caps_raw (ugc_fields u))))"

subsection \<open>The signed bytes and the fields determine each other\<close>

definition wf_ugc_fields :: "ugc_fields \<Rightarrow> bool" where
  "wf_ugc_fields f \<longleftrightarrow> length (uf_grantee_device_id f) = 32 \<and> sint (uf_issued_at f) < sint (uf_not_after f)"

definition ugc_parse :: "bytes \<Rightarrow> crypto_error + ugc_fields" where
  "ugc_parse t = (if length t = UGC_TBS_LEN then ugc_parse_tbs t else Err (MalformedUgc ''wire too short for TBS''))"

lemma ugc_tag_length [simp]: "length UGC_DOMAIN_TAG = 11"
  by (simp add: UGC_DOMAIN_TAG_def ascii_def)

lemma ugc_parse_tbs_iff:
  assumes "length t = 73"
  shows "ugc_parse_tbs t = Inr f \<longleftrightarrow>
    field 0 11 t = UGC_DOMAIN_TAG \<and> t ! 11 = UGC_TBS_VERSION \<and> t ! 12 = UGC_FIELD_COUNT
    \<and> sint (from_be (field 65 8 t) :: i64) < sint (from_be (field 57 8 t) :: i64)
    \<and> f = \<lparr>uf_grantee_device_id = field 13 32 t, uf_caps_raw = from_be (field 45 4 t), uf_epoch = from_be (field 49 8 t),
        uf_not_after = from_be (field 57 8 t), uf_issued_at = from_be (field 65 8 t)\<rparr>"
proof -
  have g: "get_range 0 11 t = Some (field 0 11 t)" "get_at t 11 = Some (t ! 11)" "get_at t 12 = Some (t ! 12)"
    "get_range 13 45 t = Some (field 13 32 t)" "get_range 45 49 t = Some (field 45 4 t)" "get_range 49 57 t = Some (field 49 8 t)"
    "get_range 57 65 t = Some (field 57 8 t)" "get_range 65 73 t = Some (field 65 8 t)"
    using assms by (simp_all add: get_range_field get_at_def)
  show ?thesis by (auto simp: ugc_parse_tbs_def g Let_def simp del: and_then_eq_Ok split: if_splits)
qed

interpretation ugc_tbs: tbs_codec ugc_build_tbs ugc_parse wf_ugc_fields
proof (unfold_locales, goal_cases)
  case (1 f)
  have "length (ugc_build_tbs f) = 73" using 1 by (simp add: ugc_build_tbs_def wf_ugc_fields_def)
  then show ?case using 1
    by (simp add: ugc_parse_def UGC_TBS_LEN_def ugc_parse_tbs_iff)
      (simp add: ugc_build_tbs_def wf_ugc_fields_def nth_append)
next
  case (2 t f)
  then have len: "length t = 73" by (simp add: ugc_parse_def UGC_TBS_LEN_def split: if_splits)
  with 2 have P: "field 0 11 t = UGC_DOMAIN_TAG" "t ! 11 = UGC_TBS_VERSION" "t ! 12 = UGC_FIELD_COUNT"
      "sint (from_be (field 65 8 t) :: i64) < sint (from_be (field 57 8 t) :: i64)"
    and f: "f = \<lparr>uf_grantee_device_id = field 13 32 t, uf_caps_raw = from_be (field 45 4 t), uf_epoch = from_be (field 49 8 t),
        uf_not_after = from_be (field 57 8 t), uf_issued_at = from_be (field 65 8 t)\<rparr>"
    by (simp_all add: ugc_parse_def UGC_TBS_LEN_def ugc_parse_tbs_iff)
  have "ugc_build_tbs f = field 0 11 t @ [t ! 11] @ [t ! 12] @ field 13 32 t @ field 45 4 t @ field 49 8 t @ field 57 8 t @ field 65 8 t"
    using P len by (simp add: ugc_build_tbs_def f to_be_u64 to_be_u32)
  also have "\<dots> = field 0 73 t" using len by (simp add: field_joins del: field_whole)
  finally show ?case using len P(4) by (simp add: wf_ugc_fields_def f)
qed

definition wf_ugc :: "ugc \<Rightarrow> bool" where
  "wf_ugc u \<longleftrightarrow> wf_ugc_fields (ugc_fields u) \<and> ugc_tbs_bytes u = ugc_build_tbs (ugc_fields u) \<and> length (ugc_signature u) = 64"

lemma ugc_decode_wire:
  assumes "wf_ugc u"
  shows "ugc_decode (ugc_wire_bytes u) = Inr u"
proof -
  have len: "length (ugc_tbs_bytes u) = 73" "length (ugc_signature u) = 64"
    using assms by (auto simp: wf_ugc_def ugc_build_tbs_def wf_ugc_fields_def)
  then have "ugc_parse_tbs (ugc_tbs_bytes u) = Inr (ugc_fields u)"
    using assms ugc_tbs.parse_build [of "ugc_fields u"] by (simp add: wf_ugc_def ugc_parse_def UGC_TBS_LEN_def)
  then show ?thesis using len
    by (simp add: ugc_decode_def ugc_wire_bytes_def UGC_WIRE_LEN_def UGC_TBS_LEN_def UGC_TBS_LEN_U32_def signature_encode_def
        signature_decode_def SIGNATURE_LEN_def get_range_def Let_def del: to_be.simps)
qed

lemma ugc_decode_exact:
  assumes "ugc_decode w = Inr u"
  shows "wf_ugc u \<and> w = ugc_wire_bytes u"
proof -
  have w: "length w = 141" using assms by (rule_tac ccontr) (simp add: ugc_decode_def UGC_WIRE_LEN_def UGC_TBS_LEN_def)
  then have g: "get_range 0 4 w = Some (field 0 4 w)" "get_range 4 77 w = Some (field 4 73 w)" "get_range 77 141 w = Some (field 77 64 w)"
    by (simp_all add: get_range_field)
  have n: "unat (from_be (field 0 4 w) :: u32) = 73"
    using assms w by (rule_tac ccontr) (simp add: ugc_decode_def UGC_WIRE_LEN_def UGC_TBS_LEN_def g Let_def)
  have D: "ugc_parse_tbs (field 4 73 w) = Inr (ugc_fields u)" "ugc_tbs_bytes u = field 4 73 w" "ugc_signature u = field 77 64 w"
    using assms w n by (auto simp: ugc_decode_def UGC_WIRE_LEN_def UGC_TBS_LEN_def g Let_def signature_decode_def SIGNATURE_LEN_def)
  have "from_be (field 0 4 w) = (73 :: u32)" using n by (simp add: word_unat_eq_iff)
  then have "to_be 4 UGC_TBS_LEN_U32 = field 0 4 w"
    using w to_be_u32 [of "field 0 4 w"] by (simp add: UGC_TBS_LEN_U32_def UGC_TBS_LEN_def)
  then have "ugc_wire_bytes u = field 0 4 w @ field 4 73 w @ field 77 64 w"
    by (simp add: ugc_wire_bytes_def signature_encode_def D)
  also have "\<dots> = field 0 141 w" by (simp add: field_joins del: field_whole)
  finally show ?thesis using w D ugc_tbs.build_parse [of "field 4 73 w" "ugc_fields u"]
    by (simp add: wf_ugc_def ugc_parse_def UGC_TBS_LEN_def)
qed

lemma ugc_verify_Ok:
  "ugc_verify su u host peer floor now = Inr caps \<longleftrightarrow>
    s_verify su (di_key host) (ugc_tbs_bytes u) (ugc_signature u)
    \<and> uf_grantee_device_id (ugc_fields u) = s_sha su (di_key peer)
    \<and> sint now < i64_clamp (sint (uf_not_after (ugc_fields u)) + 300) \<and> sint (uf_issued_at (ugc_fields u)) \<le> sint now + 300
    \<and> floor \<le> uf_epoch (ugc_fields u) \<and> caps = from_bits_truncate (uf_caps_raw (ugc_fields u))"
proof -
  have c: "i64_clamp (sint now + 300) = min (2 ^ 63 - 1) (sint now + 300)"
    using sint_i64_bounds [of now] by (auto simp: i64_clamp_def)
  have "sint (uf_issued_at (ugc_fields u)) \<le> i64_clamp (sint now + 300) \<longleftrightarrow> sint (uf_issued_at (ugc_fields u)) \<le> sint now + 300"
    using sint_i64_bounds [of "uf_issued_at (ugc_fields u)"] unfolding c by auto
  then show ?thesis
    by (auto simp: ugc_verify_def signature_verify_def Let_def sat_simps UGC_CLOCK_SKEW_TOLERANCE_SECS_def not_less not_le
        split: if_splits)
qed

lemma ugc_encode_Ok:
  assumes "ugc_encode su (from_signing_key su sk) grantee caps epoch not_after now = Inr u"
  shows "ugc_fields u = \<lparr>uf_grantee_device_id = s_sha su (di_key grantee), uf_caps_raw = caps, uf_epoch = epoch,
      uf_not_after = not_after, uf_issued_at = now\<rparr>"
    and "sint now < sint not_after" and "ugc_tbs_bytes u = ugc_build_tbs (ugc_fields u)"
    and "ugc_signature u = s_sign su sk (ugc_tbs_bytes u)"
  using assms by (auto simp: ugc_encode_def Let_def ks_sign_def from_signing_key_def split: if_splits)

lemma ugc_encode_wf:
  assumes "sha_total su" and "sign_correct su" and "ugc_encode su (from_signing_key su sk) grantee caps epoch not_after now = Inr u"
  shows "wf_ugc u"
  using ugc_encode_Ok [OF assms(3)] assms(1,2) by (simp add: wf_ugc_def wf_ugc_fields_def sha_total_def sign_correct_def)

subsection \<open>Properties\<close>

text \<open>
  The grant parser accepts a wire image exactly when it is the encoding of a well-formed
  grant, so a signed grant has one encoding and one reading.
\<close>

theorem ugc_wire_exact: "ugc_decode w = Inr u \<longleftrightarrow> wf_ugc u \<and> w = ugc_wire_bytes u"
  using ugc_decode_wire ugc_decode_exact by blast

lemma issued_verify_iff:
  assumes "sign_correct su" and "ugc_encode su (from_signing_key su sk) grantee caps epoch not_after issued = Inr u"
  shows "ugc_verify su u (from_verifying_key su (s_public su sk)) peer floor now = Inr caps' \<longleftrightarrow>
      s_sha su (di_key peer) = s_sha su (di_key grantee) \<and> sint issued \<le> sint now + 300
      \<and> sint now < i64_clamp (sint not_after + 300) \<and> floor \<le> epoch \<and> caps' = from_bits_truncate caps"
proof -
  have "s_verify su (s_public su sk) (ugc_tbs_bytes u) (ugc_signature u)"
    using assms(1) ugc_encode_Ok(4) [OF assms(2)] by (simp add: sign_correct_def)
  then show ?thesis using ugc_encode_Ok(1) [OF assms(2)] by (auto simp: ugc_verify_Ok from_verifying_key_def)
qed

text \<open>
  C19. A grant the host issues, sent over the wire, gives the authenticated grantee exactly the
  granted known capabilities, as long as the clock is between 300 seconds before issue and 300
  seconds after expiry and the epoch floor has not passed the grant; any other peer (by key
  digest) gets an error.
\<close>

theorem issued_grant_verifies:
  assumes "sha_total su" and "sign_correct su"
    and "ugc_encode su (from_signing_key su sk) grantee caps epoch not_after issued = Inr u"
  shows "ugc_decode (ugc_wire_bytes u) = Inr u
    \<and> (ugc_verify su u (from_verifying_key su (s_public su sk)) peer floor now = Inr caps' \<longleftrightarrow>
      s_sha su (di_key peer) = s_sha su (di_key grantee) \<and> sint issued \<le> sint now + 300
      \<and> sint now < i64_clamp (sint not_after + 300) \<and> floor \<le> epoch \<and> caps' = from_bits_truncate caps)"
  using ugc_decode_wire [OF ugc_encode_wf [OF assms]] issued_verify_iff [OF assms(2,3)] by blast

theorem issued_grant_verifies_witness:
  "let su = plain_suite; g = from_verifying_key su (s_public su [2]); host = from_verifying_key su (s_public su [5])
   in \<exists>u. ugc_encode su (from_signing_key su [5]) g (VIEW OR FILE) 3 5000 1000 = Inr u
      \<and> ugc_decode (ugc_wire_bytes u) = Inr u
      \<and> ugc_verify su u host g 3 5200 = Inr (VIEW OR FILE) \<and> ugc_verify su u host g 4 2000 \<noteq> Inr (VIEW OR FILE)"
proof -
  let ?g = "from_verifying_key plain_suite (s_public plain_suite [2])"
  obtain u where u: "ugc_encode plain_suite (from_signing_key plain_suite [5]) ?g (VIEW OR FILE) 3 5000 1000 = Inr u"
    by (simp add: ugc_encode_def ks_sign_def Let_def del: and_then_eq_Ok)
  have c: "from_bits_truncate (VIEW OR FILE) = VIEW OR FILE" by (simp add: from_bits_truncate_def all_caps_eq cap_bits)
  note I = conjunct1 [OF issued_grant_verifies [OF plain_suite_total plain_suite_correct u]]
    conjunct2 [OF issued_grant_verifies [OF plain_suite_total plain_suite_correct u]]
  have "ugc_verify plain_suite u (from_verifying_key plain_suite (s_public plain_suite [5])) ?g 3 5200 = Inr (VIEW OR FILE)"
    by (simp add: I(2) c i64_clamp_def)
  moreover have "ugc_verify plain_suite u (from_verifying_key plain_suite (s_public plain_suite [5])) ?g 4 2000 \<noteq> Inr (VIEW OR FILE)"
    unfolding I(2) by (simp add: word_le_nat_alt)
  ultimately show ?thesis using u I(1) by (auto simp: Let_def)
qed

end
