(* ===== verification/Authorizer.thy ===== *)
theory Authorizer
  imports Ugc Channel_Crypto
begin

text \<open>
  The session authorizer and the epoch store, \<open>src/crates/sh-core/src/authz/authorizer.rs\<close> and
  \<open>epoch.rs\<close>. The store is shared between sessions, so it is passed beside the authorizer;
  a store type is given by its \<open>current\<close> and \<open>bump\<close>.
\<close>

subsection \<open>Epoch stores\<close>

record 's store_ops =
  so_current :: "'s \<Rightarrow> u64"
  so_bump :: "'s \<Rightarrow> u64 \<Rightarrow> 's \<times> u64"

definition bump_min_epoch :: "'s store_ops \<Rightarrow> 's \<Rightarrow> 's \<times> u64" where
  "bump_min_epoch ops s = (let cur = so_current ops s in so_bump ops s (sat_add cur 1))"

definition mem_store_new :: "u64 \<Rightarrow> u64" where
  "mem_store_new initial = initial"

definition mem_store_ops :: "u64 store_ops" where
  "mem_store_ops = \<lparr>so_current = (\<lambda>floor. floor),
     so_bump = (\<lambda>floor new_floor. let old = floor in (max floor new_floor, max old new_floor))\<rparr>"

subsection \<open>Actions and the sealed mask\<close>

record fresh_presence =
  fp_granted_at :: i64

definition ELEVATION_FRESHNESS_WINDOW_SECS :: i64 where "ELEVATION_FRESHNESS_WINDOW_SECS = 600"

datatype privileged_action = ViewFrame | InjectPointer | InjectKey | ReadClipboard | WriteClipboard
  | StartFileTransfer | ReceiveFile | PlayAudio | ElevatedAction

definition required_cap :: "privileged_action \<Rightarrow> capabilities" where
  "required_cap a = (case a of ViewFrame \<Rightarrow> VIEW | InjectPointer \<Rightarrow> CONTROL | InjectKey \<Rightarrow> CONTROL
     | ReadClipboard \<Rightarrow> CLIPBOARD | WriteClipboard \<Rightarrow> CLIPBOARD
     | StartFileTransfer \<Rightarrow> FILE | ReceiveFile \<Rightarrow> FILE | PlayAudio \<Rightarrow> AUDIO | ElevatedAction \<Rightarrow> ELEVATION)"

datatype denied =
    CapabilityMissing privileged_action capabilities capabilities
  | ElevationRequiresFreshPresence
  | Killed

record session_authorizer =
  sa_sealed_caps :: capabilities
  sa_killed :: bool
  sa_fresh_presence :: "fresh_presence option"

definition sa_seal :: "capabilities \<Rightarrow> capabilities \<Rightarrow> capabilities \<Rightarrow> capabilities \<Rightarrow> session_authorizer" where
  "sa_seal device_acl_caps ugc_caps attended_selection account_policy_caps =
     \<lparr>sa_sealed_caps = device_acl_caps AND ugc_caps AND attended_selection AND account_policy_caps,
      sa_killed = False, sa_fresh_presence = None\<rparr>"

definition set_fresh_presence :: "session_authorizer \<Rightarrow> fresh_presence \<Rightarrow> session_authorizer" where
  "set_fresh_presence a presence = (if \<not> sa_killed a then a\<lparr>sa_fresh_presence := Some presence\<rparr> else a)"

definition authorize :: "session_authorizer \<Rightarrow> privileged_action \<Rightarrow> denied + unit" where
  "authorize a action =
     (if sa_killed a then Err Killed
      else if action = ElevatedAction then Err ElevationRequiresFreshPresence
      else let required = required_cap action in
        if \<not> contains (sa_sealed_caps a) required then Err (CapabilityMissing action required (sa_sealed_caps a))
        else Ok ())"

definition authorize_with_clock :: "session_authorizer \<Rightarrow> privileged_action \<Rightarrow> i64 \<Rightarrow> denied + unit" where
  "authorize_with_clock a action now =
     (if sa_killed a then Err Killed
      else let required = required_cap action in
        if action = ElevatedAction then
          (if \<not> contains (sa_sealed_caps a) ELEVATION then Err (CapabilityMissing action required (sa_sealed_caps a))
           else let is_fresh = (case sa_fresh_presence a of None \<Rightarrow> False
                  | Some fp \<Rightarrow> if sint (fp_granted_at fp) > sint now then False
                      else let age = i64_sat_sub now (fp_granted_at fp)
                        in sint age \<le> sint ELEVATION_FRESHNESS_WINDOW_SECS)
             in if \<not> is_fresh then Err ElevationRequiresFreshPresence else Ok ())
        else if \<not> contains (sa_sealed_caps a) required then Err (CapabilityMissing action required (sa_sealed_caps a))
        else Ok ())"

definition sa_kill :: "'s store_ops \<Rightarrow> session_authorizer \<Rightarrow> session_keys \<Rightarrow> 's \<Rightarrow> session_authorizer \<times> session_keys \<times> 's" where
  "sa_kill ops a keys store =
     (if sa_killed a then (a, keys, store)
      else (a\<lparr>sa_killed := True\<rparr>, zeroize_all keys, fst (bump_min_epoch ops store)))"

subsection \<open>The store contract\<close>

locale min_epoch_store =
  fixes ops :: "'s store_ops"
  assumes bump_floor: "so_current ops (fst (so_bump ops s f)) = max (so_current ops s) f"
    and bump_result: "snd (so_bump ops s f) = so_current ops (fst (so_bump ops s f))"
begin

lemma bump_min_floor: "so_current ops (fst (bump_min_epoch ops s)) = sat_add (so_current ops s) 1"
proof -
  have "so_current ops s \<le> sat_add (so_current ops s) 1"
    using unat_u64_less [of "so_current ops s"] by (simp add: word_le_nat_alt sat_simps)
  then show ?thesis by (simp add: bump_min_epoch_def bump_floor max_def)
qed

lemma kill_monotone: "so_current ops s \<le> so_current ops (snd (snd (sa_kill ops a keys s)))"
  by (simp add: sa_kill_def bump_min_epoch_def bump_floor)

lemma bumps_monotone: "so_current ops s \<le> so_current ops (foldl (\<lambda>s f. fst (so_bump ops s f)) s fs)"
proof (induction fs arbitrary: s)
  case (Cons f fs)
  show ?case using Cons.IH [of "fst (so_bump ops s f)"] by (auto simp: bump_floor intro: order_trans)
qed simp

lemma killed_grant_revoked:
  assumes "\<not> sa_killed a" and "unat ep \<le> unat (so_current ops s)" and "unat (so_current ops s) < 2 ^ 64 - 1"
  shows "ep < so_current ops (foldl (\<lambda>s f. fst (so_bump ops s f)) (snd (snd (sa_kill ops a keys s))) fs)"
proof -
  have "unat (sat_add (so_current ops s) 1) = unat (so_current ops s) + 1" using assms(3) by (simp add: sat_simps)
  moreover have "so_current ops (snd (snd (sa_kill ops a keys s))) = sat_add (so_current ops s) 1"
    using assms(1) by (simp add: sa_kill_def bump_min_floor)
  ultimately show ?thesis
    using bumps_monotone [of "snd (snd (sa_kill ops a keys s))" fs] assms(2) by (simp add: word_less_nat_alt word_le_nat_alt)
qed

end

interpretation mem_store: min_epoch_store mem_store_ops
  by unfold_locales (simp_all add: mem_store_ops_def)

subsection \<open>A session under its host's calls\<close>

datatype auth_op = SetPresence fresh_presence | Kill

type_synonym auth_world = "session_authorizer \<times> session_keys \<times> u64"

fun auth_step :: "auth_world \<Rightarrow> auth_op \<Rightarrow> auth_world" where
  "auth_step (a, keys, store) (SetPresence p) = (set_fresh_presence a p, keys, store)"
| "auth_step (a, keys, store) Kill = sa_kill mem_store_ops a keys store"

fun last_presence :: "auth_op list \<Rightarrow> fresh_presence option" where
  "last_presence [] = None"
| "last_presence (x # xs) = (case last_presence xs of Some p \<Rightarrow> Some p
     | None \<Rightarrow> (case x of SetPresence p \<Rightarrow> Some p | Kill \<Rightarrow> None))"

lemma auth_run_mask:
  "sa_sealed_caps (fst (foldl auth_step w ops)) = sa_sealed_caps (fst w)
    \<and> (sa_killed (fst (foldl auth_step w ops)) \<longleftrightarrow> sa_killed (fst w) \<or> Kill \<in> set ops)"
proof (induction ops arbitrary: w)
  case (Cons x ops)
  obtain a keys store where w: "w = (a, keys, store)" by (cases w) auto
  have "sa_sealed_caps (fst (auth_step w x)) = sa_sealed_caps a"
    "sa_killed (fst (auth_step w x)) \<longleftrightarrow> sa_killed a \<or> x = Kill"
    by (cases x; simp add: w set_fresh_presence_def sa_kill_def)+
  then show ?case using Cons.IH [of "auth_step w x"] by (auto simp: w)
qed simp

lemma auth_run_presence:
  "\<not> sa_killed (fst w) \<Longrightarrow> Kill \<notin> set ops \<Longrightarrow> sa_fresh_presence (fst (foldl auth_step w ops)) =
    (case last_presence ops of Some p \<Rightarrow> Some p | None \<Rightarrow> sa_fresh_presence (fst w))"
proof (induction ops arbitrary: w)
  case (Cons x ops)
  obtain a keys store where w: "w = (a, keys, store)" by (cases w) auto
  obtain p where x: "x = SetPresence p" using Cons.prems(2) by (cases x) auto
  show ?case using Cons.IH [of "auth_step w x"] Cons.prems by (simp add: w x set_fresh_presence_def split: option.split)
qed simp

lemma contains_four: "contains (a AND b AND c AND d) r \<longleftrightarrow> contains a r \<and> contains b r \<and> contains c r \<and> contains d r"
  by (simp add: contains_and)

subsection \<open>Concurrent kills\<close>

text \<open>
  \<open>bump_min_epoch\<close> reads the floor and raises it in two separate atomic steps. A schedule
  interleaves the steps of any number of callers.
\<close>

datatype floor_step = ReadFloor nat | RaiseFloor nat

fun floor_exec :: "(u64 \<times> (nat \<rightharpoonup> u64)) \<Rightarrow> floor_step \<Rightarrow> (u64 \<times> (nat \<rightharpoonup> u64))" where
  "floor_exec (floor, cur) (ReadFloor i) = (floor, cur(i \<mapsto> so_current mem_store_ops floor))"
| "floor_exec (floor, cur) (RaiseFloor i) =
     (case cur i of None \<Rightarrow> (floor, cur)
      | Some c \<Rightarrow> (fst (so_bump mem_store_ops floor (sat_add c 1)), cur))"

lemma floor_exec_mono: "fst st \<le> fst (floor_exec st x)"
proof (cases st)
  case (Pair floor cur)
  then show ?thesis by (cases x) (auto simp: mem_store_ops_def split: option.split)
qed

lemma floor_run_mono: "fst st \<le> fst (foldl floor_exec st xs)"
proof (induction xs arbitrary: st)
  case (Cons x xs)
  show ?case using Cons.IH [of "floor_exec st x"] floor_exec_mono [of st x] by (auto intro: order_trans)
qed simp

lemma floor_run_local:
  "ReadFloor i \<notin> set ys \<Longrightarrow> snd (foldl floor_exec st ys) i = snd st i"
proof (induction ys arbitrary: st)
  case (Cons y ys)
  obtain floor cur where "st = (floor, cur)" by (cases st)
  with Cons show ?case by (cases y) (auto split: option.split)
qed simp

lemma floor_run_bound:
  assumes "\<forall>i c. snd st i = Some c \<longrightarrow> unat c \<le> unat (fst st)"
  shows "unat (fst (foldl floor_exec st xs)) \<le> unat (fst st) + length (filter (\<lambda>x. \<exists>i. x = RaiseFloor i) xs)
    \<and> (\<forall>i c. snd (foldl floor_exec st xs) i = Some c \<longrightarrow> unat c \<le> unat (fst (foldl floor_exec st xs)))"
  using assms
proof (induction xs arbitrary: st)
  case (Cons x xs)
  obtain floor cur where st: "st = (floor, cur)" by (cases st)
  have cur: "unat c \<le> unat floor" if "cur i = Some c" for i c using Cons.prems that by (simp add: st)
  have step: "unat (fst (floor_exec st x)) \<le> unat floor + (if \<exists>i. x = RaiseFloor i then 1 else 0)
      \<and> (\<forall>i c. snd (floor_exec st x) i = Some c \<longrightarrow> unat c \<le> unat (fst (floor_exec st x)))"
  proof (cases x)
    case (ReadFloor j)
    then show ?thesis using cur by (simp add: st mem_store_ops_def)
  next
    case (RaiseFloor j)
    show ?thesis
    proof (cases "cur j")
      case (Some c)
      have e: "floor_exec st x = (max floor (sat_add c 1), cur)" by (simp add: st RaiseFloor Some mem_store_ops_def)
      have "unat (sat_add c 1) \<le> unat floor + 1" using cur [OF Some] by (simp add: sat_simps)
      then have "unat (max floor (sat_add c 1)) \<le> unat floor + 1" by (simp add: max_def)
      moreover have "unat floor \<le> unat (max floor (sat_add c 1))" by (simp add: word_le_nat_alt [symmetric])
      ultimately show ?thesis unfolding e using cur RaiseFloor by (auto intro: order_trans)
    qed (use cur RaiseFloor in \<open>simp add: st\<close>)
  qed
  show ?case using Cons.IH [OF conjunct2 [OF step]] conjunct1 [OF step] by (auto simp: st)
qed simp

subsection \<open>Properties\<close>

text \<open>
  C17. Over any sequence of presence grants and kills, an ordinary action is permitted exactly when
  the session was never killed and all four sources (device list, grant, attended selection,
  account policy) contain its capability; nothing widens the mask, and the elevated action is
  never permitted without a clock.
\<close>

theorem authorize_run_iff:
  "authorize (fst (foldl auth_step (sa_seal dev grant att pol, keys, store) ops)) action = Inr () \<longleftrightarrow>
    Kill \<notin> set ops \<and> action \<noteq> ElevatedAction
    \<and> contains dev (required_cap action) \<and> contains grant (required_cap action)
    \<and> contains att (required_cap action) \<and> contains pol (required_cap action)"
  using auth_run_mask [of "(sa_seal dev grant att pol, keys, store)" ops]
  by (auto simp: authorize_def Let_def sa_seal_def contains_four)

text \<open>
  The elevated action is permitted exactly when the session was never killed, all four
  sources contain the elevation capability, and the last presence proof is not from the future
  and at most 600 seconds old.
\<close>

theorem elevation_run_iff:
  "authorize_with_clock (fst (foldl auth_step (sa_seal dev grant att pol, keys, store) ops)) ElevatedAction now = Inr () \<longleftrightarrow>
    Kill \<notin> set ops \<and> contains dev ELEVATION \<and> contains grant ELEVATION \<and> contains att ELEVATION \<and> contains pol ELEVATION
    \<and> (case last_presence ops of None \<Rightarrow> False
       | Some p \<Rightarrow> sint (fp_granted_at p) \<le> sint now \<and> sint now - sint (fp_granted_at p) \<le> 600)"
proof -
  let ?a = "fst (foldl auth_step (sa_seal dev grant att pol, keys, store) ops)"
  have m: "sa_sealed_caps ?a = dev AND grant AND att AND pol" "sa_killed ?a \<longleftrightarrow> Kill \<in> set ops"
    using auth_run_mask [of "(sa_seal dev grant att pol, keys, store)" ops] by (simp_all add: sa_seal_def)
  have p: "sa_fresh_presence ?a = last_presence ops" if "Kill \<notin> set ops"
    using auth_run_presence [of "(sa_seal dev grant att pol, keys, store)" ops] that by (simp add: sa_seal_def split: option.split)
  have clamp: "i64_clamp d \<le> 600 \<longleftrightarrow> d \<le> 600" for d by (auto simp: i64_clamp_def)
  show ?thesis
  proof (cases "Kill \<in> set ops")
    case False
    then show ?thesis using m p
      by (auto simp: authorize_with_clock_def Let_def contains_four sat_simps clamp ELEVATION_FRESHNESS_WINDOW_SECS_def split: option.split)
  qed (use m in \<open>simp add: authorize_with_clock_def\<close>)
qed

text \<open>
  C18. A kill revokes the grant it ran under: a grant whose epoch is not above the floor at the
  kill never verifies again against the store, whatever raises of the floor follow, as long as the
  floor at the kill is below the largest epoch. There the floor cannot rise any more, and
  the kill changes no verdict on any grant.
\<close>

theorem killed_grant_never_verifies:
  assumes "\<not> sa_killed a" and "uf_epoch (ugc_fields u) \<le> store"
  shows "let verdict = (\<lambda>s. ugc_verify su u host peer (so_current mem_store_ops s) now);
             killed = snd (snd (sa_kill mem_store_ops a keys store));
             later = foldl (\<lambda>s f. fst (so_bump mem_store_ops s f)) killed fs
    in (store \<noteq> - 1 \<longrightarrow> verdict later \<noteq> Inr caps) \<and> (store = - 1 \<longrightarrow> verdict later = verdict store)"
proof -
  let ?later = "foldl (\<lambda>s f. fst (so_bump mem_store_ops s f)) (snd (snd (sa_kill mem_store_ops a keys store))) fs"
  have "ugc_verify su u host peer (so_current mem_store_ops ?later) now \<noteq> Inr caps" if "store \<noteq> - 1"
  proof -
    have "unat store \<noteq> 2 ^ 64 - 1" using that by (simp add: word_unat_eq_iff unat_minus_one_word_pow)
    then have "unat (so_current mem_store_ops store) < 2 ^ 64 - 1"
      using unat_u64_less [of store] by (simp add: mem_store_ops_def)
    then have "uf_epoch (ugc_fields u) < so_current mem_store_ops ?later"
      using assms by (intro mem_store.killed_grant_revoked) (simp_all add: mem_store_ops_def word_le_nat_alt)
    then show ?thesis by (auto simp: ugc_verify_Ok)
  qed
  moreover have "so_current mem_store_ops ?later = so_current mem_store_ops store" if "store = - 1"
  proof -
    have "so_current mem_store_ops store \<le> so_current mem_store_ops ?later"
      using mem_store.kill_monotone mem_store.bumps_monotone order_trans by blast
    then show ?thesis using that word_order.extremum_unique [of ?later] by (simp add: mem_store_ops_def)
  qed
  ultimately show ?thesis by (simp add: Let_def)
qed

text \<open>A grant the host really issued: it verifies until the kill and never after it.\<close>

theorem killed_grant_never_verifies_witness:
  "\<exists>u. let a = sa_seal all_caps all_caps all_caps all_caps;
       keys = \<lparr>sk_prk = [], sk_role = Initiator, sk_current = \<lparr>ek_epoch = 0, ek_states = [], ek_started_at_secs = 0\<rparr>, sk_prior = None, sk_msgs_this_epoch = 0\<rparr>;
       host = from_verifying_key plain_suite (s_public plain_suite [5]);
       peer = from_verifying_key plain_suite (s_public plain_suite [2]);
       killed = snd (snd (sa_kill mem_store_ops a keys 4))
   in ugc_encode plain_suite (from_signing_key plain_suite [5]) peer (VIEW OR FILE) 4 5000 1000 = Inr u
      \<and> ugc_verify plain_suite u host peer (so_current mem_store_ops 4) 2000 = Inr (VIEW OR FILE)
      \<and> ugc_verify plain_suite u host peer (so_current mem_store_ops (fst (so_bump mem_store_ops killed 2))) 2000 \<noteq> Inr (VIEW OR FILE)"
proof -
  let ?g = "from_verifying_key plain_suite (s_public plain_suite [2])"
  obtain u where u: "ugc_encode plain_suite (from_signing_key plain_suite [5]) ?g (VIEW OR FILE) 4 5000 1000 = Inr u"
    by (simp add: ugc_encode_def ks_sign_def Let_def del: and_then_eq_Ok)
  have "from_bits_truncate (VIEW OR FILE) = VIEW OR FILE" by (simp add: from_bits_truncate_def all_caps_eq cap_bits)
  then have v: "ugc_verify plain_suite u (from_verifying_key plain_suite (s_public plain_suite [5])) ?g (so_current mem_store_ops 4) 2000
      = Inr (VIEW OR FILE)"
    by (simp add: issued_verify_iff [OF plain_suite_correct u] mem_store_ops_def i64_clamp_def)
  have "uf_epoch (ugc_fields u) \<le> 4" using ugc_encode_Ok(1) [OF u] by simp
  from killed_grant_never_verifies [OF _ this, of "sa_seal all_caps all_caps all_caps all_caps" plain_suite
      "from_verifying_key plain_suite (s_public plain_suite [5])" ?g 2000 _ "[2]" "VIEW OR FILE"]
  show ?thesis using u v by (intro exI [of _ u]) (simp add: Let_def sa_seal_def)
qed

text \<open>
  Concurrent kills: in every interleaving of the two steps of \<open>bump_min_epoch\<close> calls, a call that
  completes leaves the floor above the value it read (if that is not the largest epoch), the floor
  never falls, and it rises by at most one per raise.
\<close>

theorem concurrent_bumps:
  assumes "ReadFloor i \<notin> set ys" and "fst (foldl floor_exec (floor, Map.empty) xs) \<noteq> - 1"
  shows "let before = fst (foldl floor_exec (floor, Map.empty) xs);
             after = fst (foldl floor_exec (floor, Map.empty) (xs @ [ReadFloor i] @ ys @ [RaiseFloor i] @ zs))
    in floor \<le> before \<and> before < after
       \<and> unat after \<le> unat floor + length (filter (\<lambda>x. \<exists>i. x = RaiseFloor i) (xs @ ys @ zs)) + 1"
proof -
  let ?s1 = "foldl floor_exec (floor, Map.empty) xs"
  let ?s2 = "floor_exec ?s1 (ReadFloor i)"
  let ?s3 = "foldl floor_exec ?s2 ys"
  let ?s4 = "floor_exec ?s3 (RaiseFloor i)"
  obtain f1 c1 where s1: "?s1 = (f1, c1)" by (meson surj_pair)
  obtain f3 c3 where s3: "?s3 = (f3, c3)" by (meson surj_pair)
  have "snd ?s3 i = Some f1" using floor_run_local [OF assms(1), of ?s2] by (simp add: s1 mem_store_ops_def)
  then have "fst ?s4 = max f3 (sat_add f1 1)" by (simp add: s3 mem_store_ops_def)
  moreover have "unat f1 \<noteq> 2 ^ 64 - 1" using assms(2) s1 by (simp add: word_unat_eq_iff unat_minus_one_word_pow)
  then have "unat f1 < unat (sat_add f1 1)" using unat_u64_less [of f1] by (simp add: sat_simps)
  then have "f1 < sat_add f1 1" by (simp only: word_less_nat_alt)
  ultimately have "f1 < fst ?s4" by (simp add: less_max_iff_disj)
  moreover have "fst ?s4 \<le> fst (foldl floor_exec ?s4 zs)" by (rule floor_run_mono)
  moreover have "floor \<le> f1" using floor_run_mono [of "(floor, Map.empty)" xs] s1 by simp
  moreover note floor_run_bound [of "(floor, Map.empty)" "xs @ [ReadFloor i] @ ys @ [RaiseFloor i] @ zs"]
  ultimately show ?thesis by (simp add: s1 Let_def)
qed

theorem concurrent_bumps_witness:
  "let before = fst (foldl floor_exec (7, Map.empty) [ReadFloor 0]);
       after = fst (foldl floor_exec (7, Map.empty) ([ReadFloor 0] @ [ReadFloor 1] @ [RaiseFloor 0] @ [RaiseFloor 1] @ []))
   in 7 \<le> before \<and> before < after
      \<and> unat after \<le> unat (7 :: u64) + length (filter (\<lambda>x. \<exists>i. x = RaiseFloor i) ([ReadFloor 0] @ [RaiseFloor 0] @ [])) + 1"
  by (rule concurrent_bumps) simp_all

end
