(* ===== verification/Ice_Wire.thy ===== *)
theory Ice_Wire
  imports Utf8 "HOL-Library.Word"
begin

text \<open>
  The bytes STUN and TURN messages are made of (\<open>src/crates/sh-ice/src/stun.rs\<close>,
  \<open>src/crates/sh-ice/src/error.rs\<close>): socket addresses with their XOR masking, the padded
  type-length-value attributes, the loop that reads them back and the one that searches for an
  attribute. \<open>tlvs\<close> is the grammar of an attribute section; the lemmas show that the writers
  produce it, that the reading loop accepts exactly it, and where the search finds its target.
  Positions in an attribute section are sums of at most a few \<open>u16\<close> lengths, so the saturating
  additions of the loops are written as plain additions.
\<close>

datatype ice_error =
    StunTruncated nat nat
  | StunAttrTruncated u16
  | BadMagicCookie u32
  | UnknownComprehensionRequiredError u16
  | IntegrityMismatch
  | FingerprintMismatch
  | InvalidMessageTypeBits
  | MessageLengthNotAligned u16
  | GatherFailed string
  | CheckFailed string
  | TurnCredTimestampOverflow
  | IceTransport string
  | NoCandidates
  | IceTimeout
  | AttrNotFound u16
  | UnsupportedMethod u16
  | AttrOrderingViolation string

definition MAGIC_COOKIE :: u32 where "MAGIC_COOKIE = 0x2112A442"
definition STUN_HEADER_LEN :: nat where "STUN_HEADER_LEN = 20"

text \<open>
  \<open>SocketAddr\<close>: an IPv4 address and port, or an IPv6 address and port with the flow label and
  scope id that \<open>SocketAddr::new\<close> sets to zero. Addresses are the numbers their octets spell.
\<close>

datatype socket_addr = SockV4 u32 u16 | SockV6 "128 word" u16 u32 u32

definition addr_norm :: "socket_addr \<Rightarrow> socket_addr" where
  "addr_norm a = (case a of SockV4 ip p \<Rightarrow> SockV4 ip p | SockV6 ip p _ _ \<Rightarrow> SockV6 ip p 0 0)"

text \<open>\<open>*raw.get(i).unwrap_or(&0)\<close>, and two and four of them in big-endian order.\<close>

definition get0 :: "bytes \<Rightarrow> nat \<Rightarrow> u8" where
  "get0 xs i = (case get_at xs i of None \<Rightarrow> 0 | Some b \<Rightarrow> b)"

definition be16_at :: "bytes \<Rightarrow> nat \<Rightarrow> u16" where
  "be16_at xs i = from_be [get0 xs i, get0 xs (i + 1)]"

definition be32_at :: "bytes \<Rightarrow> nat \<Rightarrow> u32" where
  "be32_at xs i = from_be [get0 xs i, get0 xs (i + 1), get0 xs (i + 2), get0 xs (i + 3)]"

text \<open>\<open>n.min(usize::from(u16::MAX)) as u16\<close>.\<close>

definition len16 :: "nat \<Rightarrow> u16" where
  "len16 n = of_nat (min n 65535)"

subsection \<open>Addresses\<close>

definition encode_mapped_address :: "socket_addr \<Rightarrow> bytes" where
  "encode_mapped_address addr =
     (case addr of
        SockV4 ip port \<Rightarrow> [0x00, 0x01] @ to_be 2 port @ to_be 4 ip
      | SockV6 ip port _ _ \<Rightarrow> [0x00, 0x02] @ to_be 2 port @ to_be 16 ip)"

definition xor_port :: "u16 \<Rightarrow> u16" where
  "xor_port p = p XOR ucast (drop_bit 16 MAGIC_COOKIE)"

definition xor_mask :: "bytes \<Rightarrow> bytes" where
  "xor_mask tid = to_be 4 MAGIC_COOKIE @ tid"

definition xor_bytes :: "bytes \<Rightarrow> bytes \<Rightarrow> bytes" where
  "xor_bytes xs ys = map2 (XOR) xs ys"

definition encode_xor_mapped_address :: "socket_addr \<Rightarrow> bytes \<Rightarrow> bytes" where
  "encode_xor_mapped_address addr tid =
     (case addr of
        SockV4 ip port \<Rightarrow> [0x00, 0x01] @ to_be 2 (xor_port port) @ to_be 4 (ip XOR MAGIC_COOKIE)
      | SockV6 ip port _ _ \<Rightarrow>
          [0x00, 0x02] @ to_be 2 (xor_port port) @ xor_bytes (to_be 16 ip) (xor_mask tid))"

definition decode_xor_mapped_address :: "bytes \<Rightarrow> bytes \<Rightarrow> u16 \<Rightarrow> ice_error + socket_addr" where
  "decode_xor_mapped_address value tid attr_type =
     (let short = StunAttrTruncated attr_type in
      if length value < 4 then Err short
      else and_then (ok_or (get_at value 1) short) (\<lambda>family.
        and_then (ok_or (get_range 2 4 value) short) (\<lambda>xport_bytes.
          let port = xor_port (from_be xport_bytes) in
          if family = 0x01 then
            (if length value < 8 then Err short
             else and_then (ok_or (get_range 4 8 value) short) (\<lambda>xaddr_bytes.
               Ok (SockV4 (from_be xaddr_bytes XOR MAGIC_COOKIE) port)))
          else if family = 0x02 then
            (if length value < 20 then Err short
             else and_then (ok_or (get_range 4 20 value) short) (\<lambda>xaddr.
               Ok (SockV6 (from_be (xor_bytes xaddr (xor_mask tid))) port 0 0)))
          else Err short)))"

definition decode_mapped_address :: "bytes \<Rightarrow> u16 \<Rightarrow> ice_error + socket_addr" where
  "decode_mapped_address value attr_type =
     (let short = StunAttrTruncated attr_type in
      if length value < 4 then Err short
      else and_then (ok_or (get_at value 1) short) (\<lambda>family.
        and_then (ok_or (get_range 2 4 value) short) (\<lambda>port_bytes.
          let port = from_be port_bytes in
          if family = 0x01 then
            (if length value < 8 then Err short
             else and_then (ok_or (get_range 4 8 value) short) (\<lambda>addr_bytes.
               Ok (SockV4 (from_be addr_bytes) port)))
          else if family = 0x02 then
            (if length value < 20 then Err short
             else and_then (ok_or (get_range 4 20 value) short) (\<lambda>addr_bytes.
               Ok (SockV6 (from_be addr_bytes) port 0 0)))
          else Err short)))"

subsection \<open>Attributes on the wire\<close>

text \<open>\<open>(n.saturating_add(3)) & !3\<close> and \<open>n.wrapping_neg() & 3\<close> on 64-bit \<open>usize\<close>.\<close>

definition align4 :: "nat \<Rightarrow> nat" where
  "align4 n = unat ((of_nat (usz_add n 3) :: u64) AND NOT 3)"

definition pad4 :: "nat \<Rightarrow> nat" where
  "pad4 n = unat ((- (of_nat n) :: u64) AND 3)"

definition push_tlv :: "bytes \<Rightarrow> u16 \<Rightarrow> bytes \<Rightarrow> bytes" where
  "push_tlv buf attr_type value =
     (let out = buf @ to_be 2 attr_type @ to_be 2 (len16 (length value)) @ value;
          pad = pad4 (length value)
      in if pad = 1 then out @ [0] else if pad = 2 then out @ [0, 0] else if pad = 3 then out @ [0, 0, 0] else out)"

function tlv_loop :: "(u16 \<Rightarrow> bytes \<Rightarrow> ice_error + 'a) \<Rightarrow> bytes \<Rightarrow> nat \<Rightarrow> ice_error + 'a list" where
  "tlv_loop dec bs pos =
     (if pos < length bs then
        if length bs - pos < 4 then Err (StunTruncated (pos + 4) (length bs + STUN_HEADER_LEN))
        else and_then (ok_or (get_range pos (pos + 2) bs) (StunTruncated (pos + 2) (length bs))) (\<lambda>type_bytes.
          and_then (ok_or (get_range (pos + 2) (pos + 4) bs) (StunTruncated (pos + 4) (length bs))) (\<lambda>len_bytes.
            let attr_type = from_be type_bytes;
                attr_len = unat (from_be len_bytes :: u16);
                value_start = pos + 4;
                value_end = value_start + attr_len
            in if value_end > length bs then Err (StunAttrTruncated attr_type)
               else and_then (ok_or (get_range value_start value_end bs) (StunAttrTruncated attr_type)) (\<lambda>value.
                 and_then (dec attr_type value) (\<lambda>attr.
                   and_then (tlv_loop dec bs (value_start + align4 attr_len)) (\<lambda>attrs. Ok (attr # attrs))))))
      else Ok [])"
  by pat_completeness auto
termination
  by (relation "measure (\<lambda>(dec, bs, pos). length bs - pos)") auto

function find_from :: "ice_error \<Rightarrow> bytes \<Rightarrow> u16 \<Rightarrow> nat \<Rightarrow> ice_error + nat" where
  "find_from missing bs target pos =
     (if pos + 4 \<le> length bs then
        let t = be16_at bs pos;
            l = unat (be16_at bs (pos + 2))
        in if pos + 4 + l > length bs then Err (StunAttrTruncated t)
           else if t = target then Ok (STUN_HEADER_LEN + pos)
           else find_from missing bs target (pos + 4 + align4 l)
      else Err missing)"
  by pat_completeness auto
termination
  by (relation "measure (\<lambda>(m, bs, t, pos). length bs - pos)") auto

declare tlv_loop.simps [simp del] find_from.simps [simp del]

subsection \<open>Alignment\<close>

lemma align4_eq: "n + 3 \<le> usize_max \<Longrightarrow> align4 n = 4 * ((n + 3) div 4)"
proof -
  assume n: "n + 3 \<le> usize_max"
  have "(w :: u64) AND NOT (mask 2) = push_bit 2 (drop_bit 2 w)" for w
    by (rule bit_word_eqI) (auto simp: bit_simps not_less simp del: mask_numeral dest!: le_Suc_ex)
  then have "(w :: u64) AND NOT 3 = push_bit 2 (drop_bit 2 w)" for w
    by (simp add: mask_eq_exp_minus_1)
  moreover have "unat (push_bit 2 (drop_bit 2 w) :: u64) = 4 * (unat w div 4)" for w :: u64
    using unat_u64_less [of w]
    by (simp add: unsigned_push_bit_eq unsigned_drop_bit_eq take_bit_nat_eq_self push_bit_eq_mult drop_bit_eq_div
        unat_word_ariths unat_div)
  moreover have "unat (of_nat (usz_add n 3) :: u64) = n + 3"
    using n unat_of_nat_u64 [of "n + 3"] by (simp add: usize_max_def del: of_nat_add)
  ultimately show ?thesis by (simp add: align4_def)
qed

lemma neg_mod4:
  assumes "int u = (- int n) mod 2 ^ 64"
  shows "u mod 4 = (4 - n mod 4) mod 4"
proof -
  have "int (u mod 4) = (- int n) mod 2 ^ 64 mod 4" using assms by (simp only: of_nat_mod of_nat_numeral)
  also have "\<dots> = (- int n) mod 4" by (rule mod_mod_cancel) (simp add: dvd_def)
  also have "\<dots> = (- int (n mod 4)) mod 4" by (metis mod_minus_eq zmod_int of_nat_numeral)
  finally have "int (u mod 4) = (- int (n mod 4)) mod 4" .
  moreover have "n mod 4 < 4" by simp
  then have "n mod 4 = 0 \<or> n mod 4 = 1 \<or> n mod 4 = 2 \<or> n mod 4 = 3" by linarith
  ultimately show ?thesis by auto
qed

lemma pad4_eq: "pad4 n = (4 - n mod 4) mod 4"
proof -
  have "(3 :: u64) = mask 2" by (simp add: mask_eq_exp_minus_1)
  then have "pad4 n = unat (take_bit 2 (- of_nat n) :: u64)" by (simp add: pad4_def take_bit_eq_mask)
  also have "\<dots> = unat (- of_nat n :: u64) mod 4" by (simp only: unsigned_take_bit_eq) (simp add: take_bit_eq_mod)
  also have "\<dots> = (4 - n mod 4) mod 4"
  proof (rule neg_mod4)
    have "uint (word_of_int (- int n) :: u64) = (- int n) mod 2 ^ 64"
      by (simp only: unsigned_of_int take_bit_eq_mod) simp
    then show "int (unat (- of_nat n :: u64)) = (- int n) mod 2 ^ 64"
      by (simp only: uint_nat of_int_minus of_int_of_nat_eq)
  qed
  finally show ?thesis .
qed

lemma pad4_less: "pad4 n < 4"
  by (simp add: pad4_eq)

lemma mod4_cases:
  obtains q where "n = 4 * q" | q where "n = 4 * q + 1" | q where "n = 4 * q + 2" | q where "n = 4 * q + (3 :: nat)"
proof -
  have "n mod 4 < 4" by simp
  then have "n mod 4 = 0 \<or> n mod 4 = 1 \<or> n mod 4 = 2 \<or> n mod 4 = 3" by linarith
  then show thesis using that mult_div_mod_eq [of 4 n] by (metis add.right_neutral)
qed

lemma align4_pad4: "n < 65536 \<Longrightarrow> align4 n = n + pad4 n"
  by (cases n rule: mod4_cases) (simp_all add: pad4_eq align4_eq usize_max_def del: add_2_eq_Suc')

lemma aligned_pad4: "(n + pad4 n) mod 4 = 0"
  by (cases n rule: mod4_cases) (simp_all add: pad4_eq del: add_2_eq_Suc')

subsection \<open>The grammar of an attribute section\<close>

definition tlv_bytes :: "u16 \<Rightarrow> bytes \<Rightarrow> bytes" where
  "tlv_bytes t v = to_be 2 t @ to_be 2 (len16 (length v)) @ v @ replicate (pad4 (length v)) 0"

lemma push_tlv_eq: "push_tlv buf t v = buf @ tlv_bytes t v"
proof -
  have "pad4 (length v) \<in> {0, 1, 2, 3}" using pad4_less [of "length v"] by auto
  then show ?thesis by (auto simp: push_tlv_def tlv_bytes_def Let_def numeral_2_eq_2 numeral_3_eq_3)
qed

inductive tlvs :: "bytes \<Rightarrow> (u16 \<times> bytes) list \<Rightarrow> bool" where
  tlvs_nil: "tlvs [] []"
| tlvs_cons: "length v < 65536 \<Longrightarrow> length p = pad4 (length v) \<Longrightarrow> tlvs bs rs \<Longrightarrow>
    tlvs (to_be 2 t @ to_be 2 (of_nat (length v) :: u16) @ v @ p @ bs) ((t, v) # rs)"

inductive_cases tlvs_ConsE: "tlvs bs (r # rs)"
inductive_simps tlvs_Nil [simp]: "tlvs bs []"

lemma tlvs_append: "tlvs b1 r1 \<Longrightarrow> tlvs b2 r2 \<Longrightarrow> tlvs (b1 @ b2) (r1 @ r2)"
  by (induction rule: tlvs.induct) (simp_all add: tlvs_cons)

lemma tlvs_split: "tlvs bs (r1 @ r2) \<Longrightarrow> \<exists>b1 b2. bs = b1 @ b2 \<and> tlvs b1 r1 \<and> tlvs b2 r2"
proof (induction r1 arbitrary: bs)
  case (Cons r r1)
  from Cons.prems obtain t v p bs' where
    r: "r = (t, v)" "length v < 65536" "length p = pad4 (length v)" "tlvs bs' (r1 @ r2)"
    and bs: "bs = to_be 2 t @ to_be 2 (of_nat (length v) :: u16) @ v @ p @ bs'"
    by (auto elim: tlvs_ConsE)
  obtain b1 b2 where "bs' = b1 @ b2" "tlvs b1 r1" "tlvs b2 r2" using Cons.IH r(4) by blast
  then show ?case using r bs tlvs_cons [of v p b1 r1 t] by (intro exI [of _ "to_be 2 t @ to_be 2 (of_nat (length v) :: u16) @ v @ p @ b1"] exI [of _ b2]) simp
qed simp

definition tlvs_size :: "(u16 \<times> bytes) list \<Rightarrow> nat" where
  "tlvs_size rs = sum_list (map (\<lambda>(t, v). 4 + align4 (length v)) rs)"

lemma tlvs_size_simps [simp]:
  "tlvs_size [] = 0" "tlvs_size ((t, v) # rs) = 4 + align4 (length v) + tlvs_size rs"
  by (simp_all add: tlvs_size_def)

lemma tlvs_length: "tlvs bs rs \<Longrightarrow> length bs = tlvs_size rs"
  by (induction rule: tlvs.induct) (simp_all add: align4_pad4)

lemma tlvs_aligned: "tlvs bs rs \<Longrightarrow> length bs mod 4 = 0"
proof (induction rule: tlvs.induct)
  case (tlvs_cons v p bs rs t)
  then show ?case using aligned_pad4 [of "length v"] by (simp add: add.assoc [symmetric]) presburger
qed simp

lemma tlvs_tlv_bytes: "length v < 65536 \<Longrightarrow> tlvs bs rs \<Longrightarrow> tlvs (tlv_bytes t v @ bs) ((t, v) # rs)"
  using tlvs_cons [of v "replicate (pad4 (length v)) 0" bs rs t] by (simp add: tlv_bytes_def len16_def min_def)

lemma tlvs_single: "length v < 65536 \<Longrightarrow> tlvs (tlv_bytes t v) [(t, v)]"
  using tlvs_tlv_bytes [OF _ tlvs_nil] by simp

subsection \<open>Reading and searching\<close>

lemma get0_drop: "drop pos bs = ys \<Longrightarrow> get0 bs (pos + i) = get0 ys i"
  by (auto simp: get0_def get_at_def)

lemma be16_at_drop: "drop pos bs = ys \<Longrightarrow> be16_at bs (pos + i) = be16_at ys i"
  using get0_drop [of pos bs ys i] get0_drop [of pos bs ys "i + 1"] by (simp add: be16_at_def)

lemma be16_at_to_be:
  "be16_at (to_be 2 w @ ys) 0 = (w :: u16)" "be16_at (to_be 2 w @ to_be 2 u @ ys) 2 = (u :: u16)"
proof -
  have *: "[get0 (to_be 2 w @ zs) 0, get0 (to_be 2 w @ zs) 1] = to_be 2 w" for w :: u16 and zs
    by (simp add: numeral_2_eq_2 get0_def get_at_def)
  have "get0 (to_be 2 w @ to_be 2 u @ ys) (2 + i) = get0 (to_be 2 u @ ys) i" for i
    by (rule get0_drop) simp
  from this [of 0] this [of 1] show "be16_at (to_be 2 w @ to_be 2 u @ ys) 2 = u"
    using * [of u ys] from_be_u16 [of u] by (simp add: be16_at_def)
  show "be16_at (to_be 2 w @ ys) 0 = w" using * [of w ys] from_be_u16 [of w] by (simp add: be16_at_def)
qed

lemma be16_at_field: "i + 2 \<le> length bs \<Longrightarrow> be16_at bs i = from_be (field i 2 bs)"
  by (simp add: be16_at_def get0_def get_at_def field_def numeral_2_eq_2 Cons_nth_drop_Suc [symmetric])

lemma be32_at_field: "i + 4 \<le> length bs \<Longrightarrow> be32_at bs i = from_be (field i 4 bs)"
  by (simp add: be32_at_def get0_def get_at_def field_def eval_nat_numeral Cons_nth_drop_Suc [symmetric])

lemma field_drop: "field i n bs @ drop (i + n) bs = drop i bs"
  by (metis add.commute append_take_drop_id drop_drop field_def)

lemma get_range_drop: "drop pos bs = ys \<Longrightarrow> pos \<le> length bs \<Longrightarrow> get_range (pos + a) (pos + b) bs = get_range a b ys"
  by (auto simp: get_range_def add.commute)

lemma tlv_loop_step:
  assumes "drop pos bs = to_be 2 t @ to_be 2 (of_nat (length v) :: u16) @ v @ rest"
    and "length v < 65536"
  shows "tlv_loop dec bs pos =
    and_then (dec t v) (\<lambda>a. and_then (tlv_loop dec bs (pos + 4 + align4 (length v))) (\<lambda>as. Ok (a # as)))"
proof -
  have len: "length bs = pos + 4 + length v + length rest"
    using arg_cong [OF assms(1), of length] by (cases "pos \<le> length bs") simp_all
  have r: "get_range (pos + a) (pos + b) bs = get_range a b (drop pos bs)" for a b
    using len by (intro get_range_drop) simp_all
  have "get_range pos (pos + 2) bs = Some (to_be 2 t)"
    using r [of 0 2] by (simp add: assms(1) get_range_def)
  moreover have "get_range (pos + 2) (pos + 4) bs = Some (to_be 2 (of_nat (length v) :: u16))"
    using r [of 2 4] by (simp add: assms(1) get_range_def)
  moreover have "get_range (pos + 4) (pos + 4 + length v) bs = Some v"
    using r [of 4 "4 + length v"] by (simp add: assms(1) get_range_def add.assoc)
  ultimately show ?thesis
    using len assms(2) by (subst tlv_loop.simps) (simp add: unat_of_nat_u16)
qed

lemma tlv_loop_tlvs:
  "tlvs bs' rs \<Longrightarrow> drop pos bs = bs' \<Longrightarrow> pos \<le> length bs \<Longrightarrow>
    tlv_loop dec bs pos = try_map (\<lambda>(t, v). dec t v) rs"
proof (induction arbitrary: pos rule: tlvs.induct)
  case tlvs_nil
  then show ?case by (subst tlv_loop.simps) simp
next
  case (tlvs_cons v p bs' rs t)
  have al: "align4 (length v) = length v + length p" using tlvs_cons.hyps by (simp add: align4_pad4)
  have "drop (pos + 4 + align4 (length v)) bs = drop (4 + align4 (length v)) (drop pos bs)" by (simp add: ac_simps)
  then have d: "drop (pos + 4 + align4 (length v)) bs = bs'" unfolding tlvs_cons.prems(1) by (simp add: al)
  have "pos + 4 + align4 (length v) \<le> length bs"
    using arg_cong [OF tlvs_cons.prems(1), of length] tlvs_cons.prems(2) by (simp add: al)
  then show ?case
    unfolding tlv_loop_step [OF tlvs_cons.prems(1) tlvs_cons.hyps(1)] using tlvs_cons.IH [OF d] by simp
qed

lemma find_from_tlvs:
  "tlvs bs' rs \<Longrightarrow> drop pos bs = bs' \<Longrightarrow> pos \<le> length bs \<Longrightarrow>
    find_from missing bs target pos =
     (if target \<in> fst ` set rs
      then Ok (STUN_HEADER_LEN + pos + tlvs_size (takeWhile (\<lambda>(t, v). t \<noteq> target) rs)) else Err missing)"
proof (induction arbitrary: pos rule: tlvs.induct)
  case tlvs_nil
  then show ?case by (subst find_from.simps) simp
next
  case (tlvs_cons v p bs' rs t)
  have al: "align4 (length v) = length v + length p" using tlvs_cons.hyps by (simp add: align4_pad4)
  have len: "length bs = pos + 4 + length v + length p + length bs'"
    using arg_cong [OF tlvs_cons.prems(1), of length] tlvs_cons.prems(2) by simp
  have "drop (pos + 4 + align4 (length v)) bs = drop (4 + align4 (length v)) (drop pos bs)" by (simp add: ac_simps)
  then have d: "drop (pos + 4 + align4 (length v)) bs = bs'" unfolding tlvs_cons.prems(1) by (simp add: al)
  have t: "be16_at bs pos = t" and l: "be16_at bs (pos + 2) = of_nat (length v)"
    using be16_at_drop [OF tlvs_cons.prems(1), of 0] be16_at_drop [OF tlvs_cons.prems(1), of 2]
    by (simp_all add: be16_at_to_be)
  have "find_from missing bs target pos =
      (if t = target then Ok (STUN_HEADER_LEN + pos) else find_from missing bs target (pos + 4 + align4 (length v)))"
    by (subst find_from.simps) (use len tlvs_cons.hyps in \<open>simp add: t l unat_of_nat_u16 Let_def del: add_2_eq_Suc'\<close>)
  then show ?case using tlvs_cons.IH [OF d] len by (auto simp: al)
qed

text \<open>The reading loop accepts nothing else, on sections of a length that is a multiple of four.\<close>

lemma aligned_fits: "4 + l \<le> n \<Longrightarrow> n mod 4 = 0 \<Longrightarrow> (l + p) mod 4 = 0 \<Longrightarrow> p < 4 \<Longrightarrow> 4 + l + p \<le> (n :: nat)"
  by presburger

lemma aligned_diff: "n mod 4 = 0 \<Longrightarrow> m mod 4 = 0 \<Longrightarrow> m \<le> n \<Longrightarrow> (n - m) mod 4 = (0 :: nat)"
  by presburger

lemma tlv_split:
  assumes "4 \<le> length bs" and "4 + unat (be16_at bs 2) \<le> length bs" and "length bs mod 4 = 0"
  obtains t :: u16 and v p rest where
    "bs = to_be 2 t @ to_be 2 (of_nat (length v) :: u16) @ v @ p @ rest" and "length v < 65536"
    and "length p = pad4 (length v)" and "length rest mod 4 = 0"
proof -
  let ?l = "unat (be16_at bs 2)"
  have l: "?l < 65536" by (rule unat_u16_less)
  have "4 + ?l + pad4 ?l \<le> length bs"
    using assms(2,3) aligned_pad4 pad4_less by (rule aligned_fits)
  moreover have "to_be 2 (be16_at bs 0) = field 0 2 bs" "to_be 2 (be16_at bs 2) = field 2 2 bs"
    using assms(1) by (simp_all add: be16_at_field to_be_u16)
  moreover have "bs = field 0 2 bs @ field 2 2 bs @ field 4 ?l bs @ field (4 + ?l) (pad4 ?l) bs @ drop (4 + ?l + pad4 ?l) bs"
    using field_drop [of 0 2 bs] field_drop [of 2 2 bs] field_drop [of 4 ?l bs] field_drop [of "4 + ?l" "pad4 ?l" bs]
    by (simp del: add_2_eq_Suc add_2_eq_Suc')
  moreover have "(length bs - (4 + ?l + pad4 ?l)) mod 4 = 0"
  proof (rule aligned_diff [OF assms(3)])
    show "(4 + ?l + pad4 ?l) mod 4 = 0" using aligned_pad4 [of ?l] by (simp add: add.assoc)
  qed fact
  ultimately show ?thesis
    using l by (intro that [of "be16_at bs 0" "field 4 ?l bs" "field (4 + ?l) (pad4 ?l) bs" "drop (4 + ?l + pad4 ?l) bs"]) simp_all
qed

lemma tlv_loop_Ok_tlvs:
  "tlv_loop dec bs pos = Inr as \<Longrightarrow> length bs mod 4 = 0 \<Longrightarrow> pos mod 4 = 0 \<Longrightarrow> pos \<le> length bs \<Longrightarrow>
    \<exists>rs. tlvs (drop pos bs) rs"
proof (induction "length bs - pos" arbitrary: pos as rule: less_induct)
  case less
  show ?case
  proof (cases "pos = length bs")
    case True
    then show ?thesis by (auto intro: tlvs_nil)
  next
    case False
    let ?d = "drop pos bs"
    have d4: "length ?d mod 4 = 0" using less.prems by (simp add: aligned_diff)
    have d4': "4 \<le> length ?d" using less.prems False by simp presburger
    have "be16_at ?d 2 = from_be (field (pos + 2) 2 bs)"
      using d4' be16_at_drop [of pos bs ?d 2] be16_at_field [of "pos + 2" bs] by simp
    then have fits: "4 + unat (be16_at ?d 2) \<le> length ?d"
      using less.prems(1) d4' less.prems(4)
      by (subst (asm) tlv_loop.simps) (auto simp: get_range_field Let_def split: if_splits)
    obtain t :: u16 and v p rest where d: "?d = to_be 2 t @ to_be 2 (of_nat (length v) :: u16) @ v @ p @ rest"
      and v: "length v < 65536" "length p = pad4 (length v)" and rest: "length rest mod 4 = 0"
      using tlv_split [OF d4' fits d4] .
    have al: "align4 (length v) = length v + length p" using v by (simp add: align4_pad4)
    let ?q = "pos + 4 + align4 (length v)"
    have "drop ?q bs = drop (4 + align4 (length v)) ?d" by (simp add: ac_simps)
    then have q: "drop ?q bs = rest" unfolding d by (simp add: al)
    have q': "?q \<le> length bs" using arg_cong [OF d, of length] less.prems(4) by (simp add: al)
    have "length bs = ?q + length rest" using q' arg_cong [OF q, of length] by simp
    then have q4: "?q mod 4 = 0" using rest less.prems(2) by presburger
    obtain as' where rec: "tlv_loop dec bs ?q = Inr as'"
      using less.prems(1) unfolding tlv_loop_step [OF d v(1)] by auto
    have "length bs - ?q < length bs - pos" using q' by simp
    then obtain rs where "tlvs rest rs"
      using less.hyps [OF _ rec less.prems(2) q4 q'] unfolding q by blast
    then show ?thesis unfolding d using v by (blast intro: tlvs_cons)
  qed
qed

text \<open>Both directions at once, for a whole section.\<close>

lemma tlv_loop_iff:
  assumes "length bs mod 4 = 0"
  shows "tlv_loop dec bs 0 = Inr as \<longleftrightarrow> (\<exists>rs. tlvs bs rs \<and> try_map (\<lambda>(t, v). dec t v) rs = Inr as)"
proof
  assume *: "tlv_loop dec bs 0 = Inr as"
  then obtain rs where "tlvs bs rs" using tlv_loop_Ok_tlvs [OF * assms] by auto
  then show "\<exists>rs. tlvs bs rs \<and> try_map (\<lambda>(t, v). dec t v) rs = Inr as"
    using * tlv_loop_tlvs [of bs rs 0 bs dec] by auto
qed (auto simp: tlv_loop_tlvs [where pos = 0])

lemma tlvs_unique: "tlvs bs rs \<Longrightarrow> tlvs bs rs' \<Longrightarrow> rs = rs'"
  using tlv_loop_tlvs [of bs rs 0 bs "\<lambda>t v. Inr (t, v)"] tlv_loop_tlvs [of bs rs' 0 bs "\<lambda>t v. Inr (t, v)"]
  by (metis drop0 le0 try_map_eq_Ok case_prod_eta list.map_id0 sum.inject(2) prod.case_distrib)

subsection \<open>Addresses survive the wire\<close>

lemma xor_bytes_cancel: "length xs \<le> length m \<Longrightarrow> xor_bytes (xor_bytes xs m) m = xs"
  unfolding xor_bytes_def
  by (induction xs m rule: list_induct2') (simp_all add: xor.assoc)

lemma length_xor_bytes [simp]: "length (xor_bytes xs m) = min (length xs) (length m)"
  by (simp add: xor_bytes_def)

lemma xor_port_cancel [simp]: "xor_port (xor_port p) = p"
  by (simp add: xor_port_def xor.assoc)

lemma from_be_128 [simp]: "from_be (to_be 16 w) = (w :: 128 word)"
  by (simp add: from_to_be)

lemma decode_encode_xor:
  "length tid = 12 \<Longrightarrow> decode_xor_mapped_address (encode_xor_mapped_address a tid) tid t = Ok (addr_norm a)"
  by (cases a)
    (simp_all add: decode_xor_mapped_address_def encode_xor_mapped_address_def addr_norm_def get_at_def get_range_def
      xor_mask_def xor_bytes_cancel xor.assoc)

lemma decode_encode_mapped: "decode_mapped_address (encode_mapped_address a) t = Ok (addr_norm a)"
  by (cases a) (simp_all add: decode_mapped_address_def encode_mapped_address_def addr_norm_def get_at_def get_range_def)

lemma length_encode_address:
  "length tid = 12 \<Longrightarrow> length (encode_xor_mapped_address a tid) \<le> 20" "length (encode_mapped_address a) \<le> 20"
  by (cases a; simp add: encode_xor_mapped_address_def encode_mapped_address_def xor_mask_def)+

subsection \<open>The contract of an attribute codec\<close>

text \<open>
  What both message types promise of their attributes: \<open>tlv\<close> gives the type and value an
  attribute is written as, and \<open>dec\<close> reads them back up to \<open>norm\<close>.
\<close>

locale attr_codec =
  fixes tlv :: "bytes \<Rightarrow> 'a \<Rightarrow> u16 \<times> bytes"
    and dec :: "bytes \<Rightarrow> u16 \<Rightarrow> bytes \<Rightarrow> ice_error + 'a"
    and wf :: "'a \<Rightarrow> bool"
    and norm :: "'a \<Rightarrow> 'a"
  assumes tlv_short: "length tid = 12 \<Longrightarrow> wf a \<Longrightarrow> length (snd (tlv tid a)) < 65536"
    and dec_tlv: "length tid = 12 \<Longrightarrow> wf a \<Longrightarrow> dec tid (fst (tlv tid a)) (snd (tlv tid a)) = Ok (norm a)"
begin

lemma section_tlvs:
  "length tid = 12 \<Longrightarrow> list_all wf as \<Longrightarrow> tlvs (concat (map (\<lambda>a. tlv_bytes (fst (tlv tid a)) (snd (tlv tid a))) as)) (map (tlv tid) as)"
proof (induction as)
  case (Cons a as)
  then show ?case using tlvs_tlv_bytes [of "snd (tlv tid a)" _ "map (tlv tid) as" "fst (tlv tid a)"] tlv_short by simp
qed (simp add: tlvs_nil)

lemma try_map_dec: "length tid = 12 \<Longrightarrow> list_all wf as \<Longrightarrow> try_map (\<lambda>(t, v). dec tid t v) (map (tlv tid) as) = Ok (map norm as)"
  by (induction as) (simp_all add: dec_tlv case_prod_unfold)

lemma section_decodes:
  assumes "length tid = 12" and "list_all wf as"
  shows "tlv_loop (dec tid) (concat (map (\<lambda>a. tlv_bytes (fst (tlv tid a)) (snd (tlv tid a))) as)) 0 = Ok (map norm as)"
  by (subst tlv_loop_tlvs [OF section_tlvs [OF assms]]) (simp_all add: try_map_dec assms)

end

end
