(* ===== verification/Stun_Mac.thy ===== *)
theory Stun_Mac
  imports Ice_Wire
begin

text \<open>
  The MESSAGE-INTEGRITY envelope that STUN (\<open>src/crates/sh-ice/src/stun.rs\<close>) and TURN
  (\<open>src/crates/sh-ice/src/turn.rs\<close>) messages share: locating the attribute, the rule about what
  may follow it, and the comparison with the HMAC over the bytes before it. HMAC-SHA1 and CRC-32
  come from other crates and are parameters; what is used of HMAC is that it accepts every key and
  returns twenty bytes. \<open>mac_complete\<close> says that a message built in the documented way passes, and
  \<open>mac_sound\<close> what can be concluded of any message that passes.
\<close>

record stun_hash =
  sh_hmac :: "bytes \<Rightarrow> bytes \<Rightarrow> string + bytes"
  sh_crc :: "bytes \<Rightarrow> u32"

definition hmac_total :: "stun_hash \<Rightarrow> bool" where
  "hmac_total h \<longleftrightarrow> (\<forall>key data. \<exists>t. sh_hmac h key data = Inr t \<and> length t = 20)"

definition compute_hmac_sha1 :: "stun_hash \<Rightarrow> bytes \<Rightarrow> bytes \<Rightarrow> ice_error + bytes" where
  "compute_hmac_sha1 h key data =
     map_err (\<lambda>e. IceTransport (''HMAC-SHA1 key construction failed: '' @ e)) (sh_hmac h key data)"

text \<open>\<open>if let Some(f) = buf.get_mut(2..4) { f.copy_from_slice(lb) }\<close>.\<close>

definition set_len :: "bytes \<Rightarrow> nat \<Rightarrow> bytes" where
  "set_len buf n = (if 4 \<le> length buf then take 2 buf @ to_be 2 (len16 n) @ drop 4 buf else buf)"

definition find_attr_offset :: "ice_error \<Rightarrow> bytes \<Rightarrow> u16 \<Rightarrow> ice_error + nat" where
  "find_attr_offset missing raw target_type =
     (if length raw < STUN_HEADER_LEN then Err (StunTruncated STUN_HEADER_LEN (length raw))
      else let total = STUN_HEADER_LEN + unat (be16_at raw 2) in
        and_then (ok_or (get_range STUN_HEADER_LEN total raw) (StunTruncated total (length raw))) (\<lambda>attr_bytes.
          find_from missing attr_bytes target_type 0))"

definition only_fingerprint :: "bytes \<Rightarrow> bool" where
  "only_fingerprint trailer \<longleftrightarrow> length trailer = 8 \<and> get_range 0 2 trailer = Some (to_be 2 (0x8028 :: u16))"

definition check_mac :: "(bytes \<Rightarrow> bytes \<Rightarrow> ice_error + bytes) \<Rightarrow> bytes \<Rightarrow> bytes \<Rightarrow> nat \<Rightarrow> ice_error + unit" where
  "check_mac hm raw key mi_offset =
     (let mi_end = mi_offset + 24;
          body_end = STUN_HEADER_LEN + unat (be16_at raw 2);
          trailer = (case get_range mi_end body_end raw of None \<Rightarrow> [] | Some t \<Rightarrow> t)
      in if mi_end < body_end \<and> \<not> only_fingerprint trailer
         then Err (AttrOrderingViolation ''MESSAGE-INTEGRITY'')
         else and_then (ok_or (get_range 0 mi_offset raw) (StunTruncated mi_offset (length raw))) (\<lambda>prefix.
           let mi_msg_len = mi_offset + 24 - STUN_HEADER_LEN in
           and_then (hm key (set_len prefix mi_msg_len)) (\<lambda>expected.
             and_then (ok_or (get_range (mi_offset + 4) (mi_offset + 4 + 20) raw) IntegrityMismatch) (\<lambda>stored.
               if expected = stored then Ok () else Err IntegrityMismatch))))"

subsection \<open>Messages as header, section and rest\<close>

lemma be16_at_append [simp]: "i + 2 \<le> length a \<Longrightarrow> be16_at (a @ b) i = be16_at a i"
  by (simp add: be16_at_def get0_def get_at_def nth_append)

lemma length_set_len [simp]: "length (set_len buf n) = length buf"
  by (auto simp: set_len_def)

lemma set_len_append: "4 \<le> length a \<Longrightarrow> set_len (a @ b) n = set_len a n @ b"
  by (simp add: set_len_def)

lemma be16_at_set_len [simp]: "4 \<le> length buf \<Longrightarrow> be16_at (set_len buf n) 2 = len16 n"
  by (simp add: be16_at_field set_len_def numeral_2_eq_2 [symmetric])

lemma set_len_set_len [simp]: "set_len (set_len buf m) n = set_len buf n"
  by (simp add: set_len_def)

lemma unat_len16: "n \<le> 65535 \<Longrightarrow> unat (len16 n) = n"
  by (simp add: len16_def unat_of_nat_u16 min_def)

text \<open>Where the search finds the attribute in \<open>header @ section @ rest\<close>.\<close>

lemma find_attr_offset_tlvs:
  assumes "length hdr = 20" and "unat (be16_at hdr 2) = length bs" and "tlvs bs rs"
  shows "find_attr_offset missing (hdr @ bs @ junk) target =
     (if target \<in> fst ` set rs
      then Ok (20 + tlvs_size (takeWhile (\<lambda>(t, v). t \<noteq> target) rs)) else Err missing)"
  using assms find_from_tlvs [OF assms(3), of 0 bs missing target]
  by (simp add: find_attr_offset_def STUN_HEADER_LEN_def get_range_def)

lemma split_first:
  assumes "k \<in> fst ` set rs"
  obtains r1 v r2 where "rs = r1 @ (k, v) # r2" and "k \<notin> fst ` set r1" and "takeWhile (\<lambda>(t, v). t \<noteq> k) rs = r1"
proof -
  let ?P = "\<lambda>(t, v). t \<noteq> k"
  have "dropWhile ?P rs \<noteq> []" using assms by (auto simp: dropWhile_eq_Nil_conv)
  then obtain x r2 where d: "dropWhile ?P rs = x # r2" by (meson neq_Nil_conv)
  have "\<not> ?P x" using hd_dropWhile [of ?P rs] d by simp
  then obtain v where "x = (k, v)" by (cases x) auto
  moreover have notin: "k \<notin> fst ` set (takeWhile ?P rs)" by (force dest: set_takeWhileD)
  ultimately show thesis
    using that [of "takeWhile ?P rs" v r2] takeWhile_dropWhile_id [of ?P rs] d notin by auto
qed

lemma takeWhile_before: "k \<notin> fst ` set r1 \<Longrightarrow> takeWhile (\<lambda>(t, v). t \<noteq> k) (r1 @ (k, v) # r2) = r1"
  by (subst takeWhile_append2) force+

subsection \<open>What is accepted\<close>

lemma mac_complete:
  assumes "length hdr = 20" and "tlvs body rs" and "0x0008 \<notin> fst ` set rs" and "length tag = 20"
    and "hm key (set_len hdr (24 + length body) @ body) = Ok tag"
    and "tr = [] \<or> only_fingerprint tr" and "tlvs tr rt"
    and "unat (be16_at hdr 2) = length body + 24 + length tr"
  shows "find_attr_offset missing (hdr @ body @ tlv_bytes 0x0008 tag @ tr) 0x0008 = Ok (20 + length body)"
    and "check_mac hm (hdr @ body @ tlv_bytes 0x0008 tag @ tr) key (20 + length body) = Ok ()"
proof -
  let ?mi = "tlv_bytes 0x0008 tag"
  have pad: "pad4 20 = 0" by (simp add: pad4_eq)
  have mi: "?mi = to_be 2 (0x0008 :: u16) @ to_be 2 (20 :: u16) @ tag" "length ?mi = 24"
    by (simp_all add: tlv_bytes_def assms(4) len16_def pad)
  have sec: "tlvs (body @ ?mi @ tr) (rs @ (0x0008, tag) # rt)"
    using tlvs_append [OF assms(2) tlvs_tlv_bytes [of tag tr rt "0x0008"]] assms(4,7) by simp
  have len: "length (body @ ?mi @ tr) = length body + 24 + length tr" by (simp add: mi(2))
  show "find_attr_offset missing (hdr @ body @ ?mi @ tr) 0x0008 = Ok (20 + length body)"
    using find_attr_offset_tlvs [OF assms(1) _ sec, of missing "[]" "0x0008"] len assms(8) tlvs_length [OF assms(2)]
    by (simp add: takeWhile_before [OF assms(3)])
  have "get_range (20 + length body + 24) (20 + unat (be16_at hdr 2)) (hdr @ body @ ?mi @ tr) = Some tr"
    using assms(1,8) mi(2) by (simp add: get_range_def)
  moreover have "get_range 0 (20 + length body) (hdr @ body @ ?mi @ tr) = Some (hdr @ body)"
    using assms(1) by (simp add: get_range_def)
  moreover have "get_range (20 + length body + 4) (20 + length body + 4 + 20) (hdr @ body @ ?mi @ tr) = Some tag"
    using assms(1,4) by (simp add: get_range_def mi(1))
  ultimately show "check_mac hm (hdr @ body @ ?mi @ tr) key (20 + length body) = Ok ()"
    using assms(1,5,6,8) by (auto simp: check_mac_def STUN_HEADER_LEN_def set_len_append only_fingerprint_def)
qed

text \<open>
  The converse. The bytes after the accepted HMAC are either none, or eight bytes that begin with
  the FINGERPRINT type; those may also be the tail of an over-long MESSAGE-INTEGRITY value and one
  attribute without a value.
\<close>

definition mac_tail :: "bytes \<Rightarrow> (u16 \<times> bytes) list \<Rightarrow> bool" where
  "mac_tail v r2 \<longleftrightarrow> r2 = [] \<or> (length v = 20 \<and> tlvs_size r2 = 8 \<and> fst (hd r2) = 0x8028)
     \<or> (20 < length v \<and> (\<exists>t. r2 = [(t, [])]))"

lemma tlvs_Empty [simp]: "tlvs [] rs \<longleftrightarrow> rs = []"
  using tlvs_length [of "[]" rs] by (cases rs) (auto intro: tlvs_nil)

lemma tlvs_size_4: "tlvs bs r2 \<Longrightarrow> length bs = 4 \<Longrightarrow> \<exists>t. r2 = [(t, [])]"
  by (erule tlvs.cases) (auto elim: tlvs.cases simp: pad4_eq)

lemma mac_tailI:
  assumes v: "20 \<le> length v" and p: "length p = pad4 (length v)" and b2: "tlvs b2 r2"
    and fp: "20 < length v + length p + length b2 \<Longrightarrow> only_fingerprint (drop 20 (v @ p @ b2))"
  shows "mac_tail v r2"
proof (cases "20 < length v + length p + length b2")
  case False
  then have "length b2 = 0" using v by linarith
  then have "b2 = []" by simp
  then show ?thesis using b2 by (simp add: mac_tail_def)
next
  case True
  have T: "length v + length p + length b2 = 28" using fp [OF True] v by (auto simp: only_fingerprint_def)
  show ?thesis
  proof (cases "length v = 20")
    case v20: True
    then have "length b2 = 8" and p0: "p = []" using T p by (simp_all add: pad4_eq)
    then obtain t u r3 where r2: "r2 = (t, u) # r3" using b2 by (cases r2) (auto simp: tlvs_length)
    then obtain b3 where "b2 = to_be 2 t @ b3" using b2 by (auto elim: tlvs_ConsE)
    moreover have "take 2 b2 = to_be 2 (0x8028 :: u16)"
      using fp [OF True] v20 p0 by (auto simp: only_fingerprint_def get_range_def)
    ultimately have "to_be 2 t = to_be 2 (0x8028 :: u16)" by simp
    then have "t = 0x8028" by (metis from_be_u16)
    then show ?thesis using v20 r2 tlvs_length [OF b2] \<open>length b2 = 8\<close> by (simp add: mac_tail_def)
  next
    case False
    have "(length v + length p) mod 4 = 0" using aligned_pad4 [of "length v"] p by simp
    then have "length b2 = 0 \<or> length b2 = 4" using T v False by presburger
    then show ?thesis
      by (rule disjE) (use b2 tlvs_size_4 [OF b2] v False in \<open>auto simp: mac_tail_def\<close>)
  qed
qed

lemma mac_sound:
  assumes "length hdr = 20" and "unat (be16_at hdr 2) = length bs" and "tlvs bs rs"
    and "find_attr_offset missing (hdr @ bs @ junk) 0x0008 = Ok off"
    and "check_mac hm (hdr @ bs @ junk) key off = Ok ()"
    and "\<And>v. (0x0008, v) \<in> set rs \<Longrightarrow> 20 \<le> length v"
  obtains b1 r1 v r2 where "rs = r1 @ (0x0008, v) # r2" and "0x0008 \<notin> fst ` set r1"
    and "tlvs b1 r1" and "prefix b1 bs"
    and "hm key (set_len hdr (24 + length b1) @ b1) = Ok (take 20 v)" and "mac_tail v r2"
proof -
  have "0x0008 \<in> fst ` set rs" using assms(4) find_attr_offset_tlvs [OF assms(1-3)] by (metis sum.simps(4))
  then obtain r1 v r2 where rs: "rs = r1 @ (0x0008, v) # r2" and n1: "0x0008 \<notin> fst ` set r1"
    and tw: "takeWhile (\<lambda>(t, v). t \<noteq> 0x0008) rs = r1" by (rule split_first)
  have v20: "20 \<le> length v" using assms(6) rs by simp
  obtain b1 b' where b: "bs = b1 @ b'" "tlvs b1 r1" "tlvs b' ((0x0008, v) # r2)"
    using tlvs_split [of bs r1 "(0x0008, v) # r2"] assms(3) rs by blast
  obtain p b2 where b': "b' = to_be 2 (0x0008 :: u16) @ to_be 2 (of_nat (length v) :: u16) @ v @ p @ b2"
    and v: "length v < 65536" "length p = pad4 (length v)" and b2: "tlvs b2 r2"
    using b(3) by (auto elim: tlvs_ConsE)
  have off: "off = 20 + length b1"
    using assms(4) find_attr_offset_tlvs [OF assms(1-3), of missing junk "0x0008"] tw tlvs_length [OF b(2)]
    by (simp split: if_splits)
  have len: "length bs = length b1 + 4 + length v + length p + length b2" by (simp add: b(1) b')
  have "get_range (off + 4) (off + 4 + 20) (hdr @ bs @ junk) = Some (take 20 v)"
    using assms(1) v20 by (simp add: off get_range_def b(1) b')
  moreover have "get_range 0 off (hdr @ bs @ junk) = Some (hdr @ b1)"
    using assms(1) by (simp add: off get_range_def b(1))
  moreover have tr: "get_range (off + 24) (20 + length bs) (hdr @ bs @ junk) = Some (drop 20 (v @ p @ b2))" 
    using assms(1) v20 by (simp add: off get_range_def b(1) b' len)
  ultimately have hm: "hm key (set_len hdr (24 + length b1) @ b1) = Ok (take 20 v)"
    and fp: "off + 24 < 20 + length bs \<Longrightarrow> only_fingerprint (drop 20 (v @ p @ b2))"
    using assms(1,2,5)
    by (auto simp: check_mac_def STUN_HEADER_LEN_def set_len_append off split: if_splits)
  have "mac_tail v r2" by (rule mac_tailI [OF v20 v(2) b2]) (use fp in \<open>simp add: off len\<close>)
  then show thesis using that [OF rs n1 b(2) _ hm] b(1) by simp
qed

end
