(* ===== verification/Stun.thy ===== *)
theory Stun
  imports Stun_Mac
begin

text \<open>
  STUN messages, after \<open>src/crates/sh-ice/src/stun.rs\<close>: the message type word, the attributes, the
  plain encoder and the two that append MESSAGE-INTEGRITY and FINGERPRINT, the decoder and the two
  verifiers. The theorems give the round trip of the codec, that signed messages verify, and how
  much of an accepted message its HMAC covers.
\<close>

datatype stun_class = Request | SuccessResponse | ErrorResponse | Indication

datatype stun_method = Binding

datatype stun_attribute =
    MappedAddress socket_addr
  | XorMappedAddress socket_addr
  | Username str
  | MessageIntegrity bytes
  | Fingerprint u32
  | Priority u32
  | UseCandidate
  | IceControlled u64
  | IceControlling u64
  | ErrorCode u16 str
  | UnknownComprehensionRequired "u16 list"
  | Software str
  | Unknown u16 bytes

record stun_message =
  sm_class :: stun_class
  sm_method :: stun_method
  sm_transaction_id :: bytes
  sm_attributes :: "stun_attribute list"

definition new_binding_request :: "bytes \<Rightarrow> stun_message" where
  "new_binding_request tid =
     \<lparr>sm_class = Request, sm_method = Binding, sm_transaction_id = tid, sm_attributes = []\<rparr>"

definition new_binding_response :: "bytes \<Rightarrow> stun_message" where
  "new_binding_response tid =
     \<lparr>sm_class = SuccessResponse, sm_method = Binding, sm_transaction_id = tid, sm_attributes = []\<rparr>"

subsection \<open>Encoding\<close>

definition encode_type :: "stun_class \<Rightarrow> stun_method \<Rightarrow> u16" where
  "encode_type class method =
     (let m = (case method of Binding \<Rightarrow> 0x0001);
          c = (case class of Request \<Rightarrow> 0x0000 | Indication \<Rightarrow> 0x0010 | SuccessResponse \<Rightarrow> 0x0100 | ErrorResponse \<Rightarrow> 0x0110);
          m_bits = push_bit 2 (m AND 0xF80) OR push_bit 1 (m AND 0x070) OR (m AND 0x00F)
      in m_bits OR c)"

definition decode_type :: "u16 \<Rightarrow> ice_error + (stun_class \<times> stun_method)" where
  "decode_type type_word =
     (let c1 = drop_bit 8 type_word AND 0x01;
          c0 = drop_bit 4 type_word AND 0x01;
          class = (if c1 = 0 \<and> c0 = 0 then Request else if c1 = 0 \<and> c0 = 1 then Indication
                   else if c1 = 1 \<and> c0 = 0 then SuccessResponse else if c1 = 1 \<and> c0 = 1 then ErrorResponse
                   else Request);
          m = (drop_bit 2 type_word AND 0xF80) OR (drop_bit 1 type_word AND 0x070) OR (type_word AND 0x00F)
      in if m = 0x001 then Ok (class, Binding) else Err (UnsupportedMethod m))"

definition build_header :: "stun_class \<Rightarrow> stun_method \<Rightarrow> bytes \<Rightarrow> nat \<Rightarrow> bytes" where
  "build_header class method tid attr_body_len =
     to_be 2 (encode_type class method) @ to_be 2 (len16 attr_body_len) @ to_be 4 MAGIC_COOKIE @ tid"

definition encode_one_attribute :: "stun_attribute \<Rightarrow> bytes \<Rightarrow> bytes \<Rightarrow> bytes" where
  "encode_one_attribute attr tid buf =
     (case attr of
        MappedAddress addr \<Rightarrow> push_tlv buf 0x0001 (encode_mapped_address addr)
      | XorMappedAddress addr \<Rightarrow> push_tlv buf 0x0020 (encode_xor_mapped_address addr tid)
      | Username s \<Rightarrow> push_tlv buf 0x0006 (utf8 s)
      | MessageIntegrity hmac \<Rightarrow> push_tlv buf 0x0008 hmac
      | Fingerprint crc \<Rightarrow> push_tlv buf 0x8028 (to_be 4 crc)
      | Priority p \<Rightarrow> push_tlv buf 0x0024 (to_be 4 p)
      | UseCandidate \<Rightarrow> push_tlv buf 0x0025 []
      | IceControlled tb \<Rightarrow> push_tlv buf 0x8029 (to_be 8 tb)
      | IceControlling tb \<Rightarrow> push_tlv buf 0x802A (to_be 8 tb)
      | ErrorCode code reason \<Rightarrow>
          push_tlv buf 0x0009 ([0, 0, ucast (code div 100), ucast (code mod 100)] @ utf8 reason)
      | UnknownComprehensionRequired types \<Rightarrow> push_tlv buf 0x000A (concat (map (to_be 2) types))
      | Software s \<Rightarrow> push_tlv buf 0x8022 (utf8 s)
      | Unknown attr_type value \<Rightarrow> push_tlv buf attr_type value)"

definition encode_attributes :: "stun_attribute list \<Rightarrow> bytes \<Rightarrow> bytes" where
  "encode_attributes attrs tid = foldl (\<lambda>out attr. encode_one_attribute attr tid out) [] attrs"

definition stun_encode :: "stun_message \<Rightarrow> bytes" where
  "stun_encode m =
     (let attr_bytes = encode_attributes (sm_attributes m) (sm_transaction_id m)
      in build_header (sm_class m) (sm_method m) (sm_transaction_id m) (length attr_bytes) @ attr_bytes)"

definition encode_with_integrity :: "stun_hash \<Rightarrow> stun_message \<Rightarrow> bytes \<Rightarrow> ice_error + bytes" where
  "encode_with_integrity h m key =
     (let attr_bytes = encode_attributes (sm_attributes m) (sm_transaction_id m);
          mi_msg_len = usz_add (length attr_bytes) 24;
          out = build_header (sm_class m) (sm_method m) (sm_transaction_id m) mi_msg_len @ attr_bytes
      in and_then (compute_hmac_sha1 h key out) (\<lambda>hmac_bytes.
           Ok (out @ to_be 2 (0x0008 :: u16) @ to_be 2 (20 :: u16) @ hmac_bytes)))"

definition encode_with_integrity_and_fingerprint :: "stun_hash \<Rightarrow> stun_message \<Rightarrow> bytes \<Rightarrow> ice_error + bytes" where
  "encode_with_integrity_and_fingerprint h m key =
     and_then (encode_with_integrity h m key) (\<lambda>out.
       let fp_total_len = usz_add (length out) 8 - STUN_HEADER_LEN;
           out' = set_len out fp_total_len;
           crc = sh_crc h out' XOR 0x5354554E
       in Ok (out' @ to_be 2 (0x8028 :: u16) @ to_be 2 (4 :: u16) @ to_be 4 crc))"

subsection \<open>Verification\<close>

definition verify_integrity :: "stun_hash \<Rightarrow> bytes \<Rightarrow> bytes \<Rightarrow> ice_error + unit" where
  "verify_integrity h raw key =
     and_then (map_err (\<lambda>e. case e of AttrNotFound _ \<Rightarrow> IntegrityMismatch | other \<Rightarrow> other)
                (find_attr_offset (AttrNotFound 0x0008) raw 0x0008))
       (check_mac (compute_hmac_sha1 h) raw key)"

definition verify_fingerprint :: "stun_hash \<Rightarrow> bytes \<Rightarrow> ice_error + unit" where
  "verify_fingerprint h raw =
     and_then (map_err (\<lambda>e. case e of AttrNotFound _ \<Rightarrow> FingerprintMismatch | other \<Rightarrow> other)
                (find_attr_offset (AttrNotFound 0x8028) raw 0x8028)) (\<lambda>fp_offset.
       let fp_end = fp_offset + 8;
           body_end = STUN_HEADER_LEN + unat (be16_at raw 2)
       in if fp_end \<noteq> body_end then Err (AttrOrderingViolation ''FINGERPRINT'')
          else let fp_total_len = fp_offset + 8 - STUN_HEADER_LEN in
            and_then (ok_or (get_range 0 fp_offset raw) (StunTruncated fp_offset (length raw))) (\<lambda>prefix.
              let computed = sh_crc h (set_len prefix fp_total_len) XOR 0x5354554E in
              and_then (ok_or (get_range (fp_offset + 4) (fp_offset + 4 + 4) raw) FingerprintMismatch) (\<lambda>stored_bytes.
                if computed = from_be stored_bytes then Ok () else Err FingerprintMismatch)))"

subsection \<open>Decoding\<close>

fun be16_pairs :: "bytes \<Rightarrow> u16 list" where
  "be16_pairs (a # b # r) = from_be [a, b] # be16_pairs r"
| "be16_pairs _ = []"

definition decode_one_attribute :: "bytes \<Rightarrow> u16 \<Rightarrow> bytes \<Rightarrow> ice_error + stun_attribute" where
  "decode_one_attribute tid attr_type value =
     (let short = StunAttrTruncated attr_type in
      if attr_type = 0x0001 then and_then (decode_mapped_address value attr_type) (\<lambda>a. Ok (MappedAddress a))
      else if attr_type = 0x0006 then and_then (ok_or (from_utf8 value) short) (\<lambda>s. Ok (Username s))
      else if attr_type = 0x0008 then
        (if length value < 20 then Err short
         else and_then (ok_or (get_range 0 20 value) short) (\<lambda>hmac. Ok (MessageIntegrity hmac)))
      else if attr_type = 0x0009 then
        (if length value < 4 then Err short
         else and_then (ok_or (get_at value 2) short) (\<lambda>class.
           and_then (ok_or (get_at value 3) short) (\<lambda>number.
             let code = sat_add (sat_mul (ucast class) 100) (ucast number);
                 reason = from_utf8_lossy (drop 4 value)
             in Ok (ErrorCode code reason))))
      else if attr_type = 0x000A then
        (if length value mod 2 \<noteq> 0 then Err short
         else Ok (UnknownComprehensionRequired (be16_pairs value)))
      else if attr_type = 0x0020 then
        and_then (decode_xor_mapped_address value tid attr_type) (\<lambda>a. Ok (XorMappedAddress a))
      else if attr_type = 0x0024 then
        (if length value < 4 then Err short
         else and_then (ok_or (get_range 0 4 value) short) (\<lambda>p. Ok (Priority (from_be p))))
      else if attr_type = 0x0025 then Ok UseCandidate
      else if attr_type = 0x8022 then Ok (Software (from_utf8_lossy value))
      else if attr_type = 0x8028 then
        (if length value < 4 then Err short
         else and_then (ok_or (get_range 0 4 value) short) (\<lambda>crc. Ok (Fingerprint (from_be crc))))
      else if attr_type = 0x8029 then
        (if length value < 8 then Err short
         else and_then (ok_or (get_range 0 8 value) short) (\<lambda>tb. Ok (IceControlled (from_be tb))))
      else if attr_type = 0x802A then
        (if length value < 8 then Err short
         else and_then (ok_or (get_range 0 8 value) short) (\<lambda>tb. Ok (IceControlling (from_be tb))))
      else Ok (Unknown attr_type value))"

definition decode_attributes :: "bytes \<Rightarrow> bytes \<Rightarrow> ice_error + stun_attribute list" where
  "decode_attributes attr_bytes tid = tlv_loop (decode_one_attribute tid) attr_bytes 0"

definition stun_decode :: "bytes \<Rightarrow> ice_error + stun_message" where
  "stun_decode raw =
     (if length raw < STUN_HEADER_LEN then Err (StunTruncated STUN_HEADER_LEN (length raw))
      else let type_word = be16_at raw 0;
               msg_len = be16_at raw 2;
               cookie = be32_at raw 4
        in if type_word AND 0xC000 \<noteq> 0 then Err InvalidMessageTypeBits
           else if msg_len mod 4 \<noteq> 0 then Err (MessageLengthNotAligned msg_len)
           else if cookie \<noteq> MAGIC_COOKIE then Err (BadMagicCookie cookie)
           else and_then (decode_type type_word) (\<lambda>(class, method).
             and_then (ok_or (get_range 8 20 raw) (StunTruncated 20 (length raw))) (\<lambda>tid.
               let total_len = STUN_HEADER_LEN + unat msg_len in
               if length raw < total_len then Err (StunTruncated total_len (length raw))
               else and_then (ok_or (get_range STUN_HEADER_LEN total_len raw) (StunTruncated total_len (length raw)))
                 (\<lambda>attr_bytes. and_then (decode_attributes attr_bytes tid) (\<lambda>attributes.
                    Ok \<lparr>sm_class = class, sm_method = method, sm_transaction_id = tid, sm_attributes = attributes\<rparr>)))))"

subsection \<open>Attributes survive the wire\<close>

definition attr_tlv :: "bytes \<Rightarrow> stun_attribute \<Rightarrow> u16 \<times> bytes" where
  "attr_tlv tid attr =
     (case attr of
        MappedAddress addr \<Rightarrow> (0x0001, encode_mapped_address addr)
      | XorMappedAddress addr \<Rightarrow> (0x0020, encode_xor_mapped_address addr tid)
      | Username s \<Rightarrow> (0x0006, utf8 s)
      | MessageIntegrity hmac \<Rightarrow> (0x0008, hmac)
      | Fingerprint crc \<Rightarrow> (0x8028, to_be 4 crc)
      | Priority p \<Rightarrow> (0x0024, to_be 4 p)
      | UseCandidate \<Rightarrow> (0x0025, [])
      | IceControlled tb \<Rightarrow> (0x8029, to_be 8 tb)
      | IceControlling tb \<Rightarrow> (0x802A, to_be 8 tb)
      | ErrorCode code reason \<Rightarrow> (0x0009, [0, 0, ucast (code div 100), ucast (code mod 100)] @ utf8 reason)
      | UnknownComprehensionRequired types \<Rightarrow> (0x000A, concat (map (to_be 2) types))
      | Software s \<Rightarrow> (0x8022, utf8 s)
      | Unknown attr_type value \<Rightarrow> (attr_type, value))"

lemma encode_one_attribute_tlv:
  "encode_one_attribute a tid buf = buf @ tlv_bytes (fst (attr_tlv tid a)) (snd (attr_tlv tid a))"
  by (cases a) (simp_all add: encode_one_attribute_def attr_tlv_def push_tlv_eq)

lemma encode_attributes_concat:
  "encode_attributes as tid = concat (map (\<lambda>a. tlv_bytes (fst (attr_tlv tid a)) (snd (attr_tlv tid a))) as)"
proof -
  have "foldl (\<lambda>out a. encode_one_attribute a tid out) buf as =
      buf @ concat (map (\<lambda>a. tlv_bytes (fst (attr_tlv tid a)) (snd (attr_tlv tid a))) as)" for buf
    by (induction as arbitrary: buf) (simp_all add: encode_one_attribute_tlv)
  then show ?thesis by (simp add: encode_attributes_def)
qed

text \<open>The attributes a message can carry, and what of them is kept.\<close>

definition KNOWN_TYPES :: "u16 list" where
  "KNOWN_TYPES = [0x0001, 0x0006, 0x0008, 0x0009, 0x000A, 0x0020, 0x0024, 0x0025, 0x8022, 0x8028, 0x8029, 0x802A]"

definition wf_attr :: "stun_attribute \<Rightarrow> bool" where
  "wf_attr a =
     (case a of
        Username s \<Rightarrow> is_str s \<and> length (utf8 s) < 65536
      | MessageIntegrity t \<Rightarrow> length t = 20
      | ErrorCode code reason \<Rightarrow> code < 25600 \<and> is_str reason \<and> length (utf8 reason) < 65532
      | UnknownComprehensionRequired ts \<Rightarrow> length ts < 32768
      | Software s \<Rightarrow> is_str s \<and> length (utf8 s) < 65536
      | Unknown t v \<Rightarrow> t \<notin> set KNOWN_TYPES \<and> length v < 65536
      | _ \<Rightarrow> True)"

definition attr_norm :: "stun_attribute \<Rightarrow> stun_attribute" where
  "attr_norm a = (case a of MappedAddress x \<Rightarrow> MappedAddress (addr_norm x)
     | XorMappedAddress x \<Rightarrow> XorMappedAddress (addr_norm x) | other \<Rightarrow> other)"

lemma be16_pairs_concat: "be16_pairs (concat (map (to_be 2) ts)) = ts"
proof (induction ts)
  case (Cons t ts)
  have "to_be 2 t = [ucast (drop_bit 8 t), ucast t]" by (simp add: numeral_2_eq_2)
  then show ?case using Cons from_be_u16 [of t] by simp
qed simp

lemma length_concat_to_be: "length (concat (map (to_be 2) (ts :: u16 list))) = 2 * length ts"
  by (induction ts) simp_all

lemma error_code_join:
  assumes "code < 25600"
  shows "sat_add (sat_mul (ucast (ucast (code div 100) :: u8)) 100) (ucast (ucast (code mod 100) :: u8)) = (code :: u16)"
proof -
  have c: "unat code < 25600" using assms by (simp add: word_less_nat_alt)
  have "unat (code div 100) = unat code div 100" "unat (code mod 100) = unat code mod 100"
    by (simp_all add: unat_div unat_mod)
  then have "unat (ucast (ucast (code div 100) :: u8) :: u16) = unat code div 100"
    and "unat (ucast (ucast (code mod 100) :: u8) :: u16) = unat code mod 100"
    using c by (simp_all add: unat_ucast_up unsigned_ucast_eq unsigned_take_bit_eq take_bit_nat_eq_self)
  then have "unat (sat_add (sat_mul (ucast (ucast (code div 100) :: u8)) 100) (ucast (ucast (code mod 100) :: u8)) :: u16) = unat code"
    using c by (simp add: sat_simps min_def)
  then show ?thesis by (simp add: word_unat_eq_iff)
qed

interpretation stun_attrs: attr_codec attr_tlv decode_one_attribute wf_attr attr_norm
proof (unfold_locales, goal_cases)
  case (1 tid a)
  then show ?case
    by (cases a) (auto simp: attr_tlv_def wf_attr_def length_concat_to_be
      intro: le_less_trans [OF length_encode_address(1)] le_less_trans [OF length_encode_address(2)])
next
  case (2 tid a)
  then show ?case
    by (cases a)
      (simp_all add: attr_tlv_def decode_one_attribute_def wf_attr_def attr_norm_def decode_encode_mapped decode_encode_xor
        from_utf8_utf8 from_utf8_lossy_utf8 get_range_def get_at_def be16_pairs_concat length_concat_to_be
        error_code_join KNOWN_TYPES_def)
qed

subsection \<open>Headers\<close>

lemma u16_eqI:
  assumes "\<And>n. n \<in> set [0..<16] \<Longrightarrow> bit w n \<longleftrightarrow> bit v n"
  shows "w = (v :: u16)"
  by (rule bit_word_eqI) (use assms in simp)

lemma decode_encode_type: "decode_type (encode_type c m) = Ok (c, m)" "encode_type c m AND 0xC000 = 0"
  by (cases c; cases m; simp add: encode_type_def decode_type_def)+

lemma encode_decode_type:
  assumes "decode_type w = Ok (c, m)" and "w AND 0xC000 = 0"
  shows "encode_type c m = w"
proof -
  let ?m = "(drop_bit 2 w AND 0xF80) OR (drop_bit 1 w AND 0x070) OR (w AND 0x00F)"
  have m: "?m = 1" using assms(1) by (simp add: decode_type_def Let_def split: if_splits)
  have b: "bit ?m n = bit (1 :: u16) n" for n using m by simp
  have t: "bit (w AND 0xC000) n = bit (0 :: u16) n" for n using assms(2) by simp
  have bits: "bit w 0" "\<not> bit w (Suc 0)" "\<not> bit w 2" "\<not> bit w 3" "\<not> bit w 5" "\<not> bit w 6" "\<not> bit w 7"
    "\<not> bit w 9" "\<not> bit w 10" "\<not> bit w 11" "\<not> bit w 12" "\<not> bit w 13" "\<not> bit w 14" "\<not> bit w 15"
    using b [of 0] b [of 1] b [of 2] b [of 3] b [of 4] b [of 5] b [of 6] b [of 7] b [of 8] b [of 9] b [of 10] b [of 11]
      t [of 14] t [of 15]
    by (simp_all add: bit_simps)
  have one: "x AND 1 = of_bool (bit x 0)" for x :: u16
    by (rule bit_word_eqI) (auto simp: bit_simps)
  have "c = (if bit w 8 then (if bit w 4 then ErrorResponse else SuccessResponse)
              else (if bit w 4 then Indication else Request))"
    using assms(1) by (auto simp: decode_type_def Let_def one bit_simps split: if_splits)
  moreover have "upt 0 16 = [0, 1, 2, 3, 4, 5, 6, 7, 8, 9, 10, 11, 12, 13, 14, 15]" by (simp add: upt_rec)
  ultimately show ?thesis
    by (intro u16_eqI) (cases m; cases "bit w 8"; cases "bit w 4"; auto simp: encode_type_def bits bit_simps)
qed

lemma length_build_header [simp]: "length tid = 12 \<Longrightarrow> length (build_header c m tid n) = 20"
  by (simp add: build_header_def)

lemma set_len_build_header [simp]: "set_len (build_header c m tid n) k = build_header c m tid k"
  by (simp add: set_len_def build_header_def)

lemma header_fields:
  assumes "length tid = 12"
  shows "be16_at (build_header c m tid n @ r) 0 = encode_type c m" "be16_at (build_header c m tid n @ r) 2 = len16 n"
    "be32_at (build_header c m tid n @ r) 4 = MAGIC_COOKIE" "field 8 12 (build_header c m tid n @ r) = tid"
proof -
  have "[get0 (build_header c m tid n @ r) 4, get0 (build_header c m tid n @ r) 5,
      get0 (build_header c m tid n @ r) 6, get0 (build_header c m tid n @ r) 7] = to_be 4 MAGIC_COOKIE"
    by (simp add: build_header_def get0_def get_at_def nth_append numeral_2_eq_2 eval_nat_numeral)
  then show "be32_at (build_header c m tid n @ r) 4 = MAGIC_COOKIE"
    by (simp add: be32_at_def)
qed (use assms in \<open>simp_all add: be16_at_field build_header_def\<close>)

lemma stun_decode_parts:
  assumes "length tid = 12" and "length bs \<le> 65535" and "length bs mod 4 = 0"
  shows "stun_decode (build_header c m tid (length bs) @ bs @ junk) =
    and_then (decode_attributes bs tid) (\<lambda>as. Ok \<lparr>sm_class = c, sm_method = m, sm_transaction_id = tid, sm_attributes = as\<rparr>)"
proof -
  let ?raw = "build_header c m tid (length bs) @ bs @ junk"
  have l: "unat (len16 (length bs)) = length bs" using assms(2) by (rule unat_len16)
  then have "len16 (length bs) mod 4 = 0" using assms(3) by (simp add: word_unat_eq_iff unat_mod)
  moreover have "get_range 8 20 ?raw = Some tid"
    using header_fields(4) [OF assms(1), of c m "length bs" "bs @ junk"] assms(1) by (simp add: get_range_field)
  moreover have "get_range 20 (20 + length bs) ?raw = Some bs" using assms(1) by (simp add: get_range_def)
  ultimately show ?thesis
    using assms(1) by (simp add: stun_decode_def header_fields decode_encode_type l STUN_HEADER_LEN_def
      del: be16_at_append)
qed

lemma stun_decode_OkE:
  assumes "stun_decode raw = Ok msg"
  obtains bs junk where "raw = build_header (sm_class msg) (sm_method msg) (sm_transaction_id msg) (length bs) @ bs @ junk"
    and "length (sm_transaction_id msg) = 12" and "length bs \<le> 65535" and "length bs mod 4 = 0"
    and "decode_attributes bs (sm_transaction_id msg) = Ok (sm_attributes msg)"
proof -
  let ?n = "unat (be16_at raw 2)" let ?bs = "field 20 ?n raw"
  have len: "20 \<le> length raw" "20 + ?n \<le> length raw" and al: "be16_at raw 2 mod 4 = 0"
    and hdr: "be16_at raw 0 AND 0xC000 = 0" "be32_at raw 4 = MAGIC_COOKIE"
    and ty: "decode_type (be16_at raw 0) = Ok (sm_class msg, sm_method msg)"
    and tid: "sm_transaction_id msg = field 8 12 raw"
    and as: "decode_attributes ?bs (sm_transaction_id msg) = Ok (sm_attributes msg)"
    using assms by (auto simp: stun_decode_def STUN_HEADER_LEN_def get_range_field Let_def split: if_splits prod.splits)
  have lb: "length ?bs = ?n" using len by simp
  have "len16 (length ?bs) = be16_at raw 2"
    unfolding lb using unat_u16_less [of "be16_at raw 2"] by (simp add: len16_def min_def)
  moreover have "encode_type (sm_class msg) (sm_method msg) = be16_at raw 0"
    using ty hdr(1) by (rule encode_decode_type)
  moreover have "to_be 2 (be16_at raw 0) = field 0 2 raw" "to_be 2 (be16_at raw 2) = field 2 2 raw"
    "to_be 4 (be32_at raw 4) = field 4 4 raw"
    using len by (simp_all add: be16_at_field be32_at_field to_be_u16 to_be_u32)
  ultimately have "build_header (sm_class msg) (sm_method msg) (sm_transaction_id msg) (length ?bs) =
      field 0 2 raw @ field 2 2 raw @ field 4 4 raw @ field 8 12 raw"
    by (simp add: build_header_def tid flip: hdr(2))
  then have eq: "raw = build_header (sm_class msg) (sm_method msg) (sm_transaction_id msg) (length ?bs) @ ?bs @ drop (20 + ?n) raw"
    using field_drop [of 0 2 raw] field_drop [of 2 2 raw] field_drop [of 4 4 raw] field_drop [of 8 12 raw] field_drop [of 20 ?n raw]
    by (simp del: add_2_eq_Suc add_2_eq_Suc')
  have m4: "length ?bs mod 4 = 0" unfolding lb using al by (simp add: word_unat_eq_iff unat_mod)
  have l5: "length ?bs \<le> 65535" unfolding lb using unat_u16_less [of "be16_at raw 2"] by simp
  have t12: "length (sm_transaction_id msg) = 12" using len by (simp add: tid)
  show thesis by (rule that [OF eq t12 l5 m4 as])
qed

subsection \<open>The codec\<close>

definition wf_message :: "stun_message \<Rightarrow> bool" where
  "wf_message m \<longleftrightarrow> length (sm_transaction_id m) = 12 \<and> list_all wf_attr (sm_attributes m)
     \<and> length (encode_attributes (sm_attributes m) (sm_transaction_id m)) \<le> 65500"

definition message_norm :: "stun_message \<Rightarrow> stun_message" where
  "message_norm m = m\<lparr>sm_attributes := map attr_norm (sm_attributes m)\<rparr>"

lemma encode_attributes_tlvs:
  "length tid = 12 \<Longrightarrow> list_all wf_attr as \<Longrightarrow> tlvs (encode_attributes as tid) (map (attr_tlv tid) as)"
  unfolding encode_attributes_concat by (rule stun_attrs.section_tlvs)

lemma decode_encode_attributes:
  "length tid = 12 \<Longrightarrow> list_all wf_attr as \<Longrightarrow> decode_attributes (encode_attributes as tid) tid = Ok (map attr_norm as)"
  unfolding encode_attributes_concat decode_attributes_def by (rule stun_attrs.section_decodes)

lemma decode_built:
  assumes "length tid = 12" and "list_all wf_attr as" and "length (encode_attributes as tid) \<le> 65535"
  shows "stun_decode (build_header c m tid (length (encode_attributes as tid)) @ encode_attributes as tid @ junk) =
    Ok \<lparr>sm_class = c, sm_method = m, sm_transaction_id = tid, sm_attributes = map attr_norm as\<rparr>"
  using stun_decode_parts [OF assms(1,3) tlvs_aligned [OF encode_attributes_tlvs [OF assms(1,2)]], of c m junk]
  by (simp add: decode_encode_attributes assms)

text \<open>
  Decoding an encoded STUN message gives it back, whatever follows it in the buffer: class,
  method, transaction id and every attribute, with the flow label and scope id of IPv6 addresses
  (which the wire does not carry) cleared.
\<close>

theorem stun_roundtrip:
  assumes "wf_message m"
  shows "stun_decode (stun_encode m @ junk) = Ok (message_norm m)"
  using assms decode_built [of "sm_transaction_id m" "sm_attributes m" "sm_class m" "sm_method m" junk]
  by (simp add: wf_message_def stun_encode_def message_norm_def Let_def)

subsection \<open>Signed messages\<close>

lemma encode_attributes_append: "encode_attributes (as @ bs) tid = encode_attributes as tid @ encode_attributes bs tid"
  by (simp add: encode_attributes_concat)

lemma encode_attributes_MI:
  "length t = 20 \<Longrightarrow> encode_attributes [MessageIntegrity t] tid = tlv_bytes 0x0008 t"
  "length t = 20 \<Longrightarrow> tlv_bytes 0x0008 t = to_be 2 (0x0008 :: u16) @ to_be 2 (20 :: u16) @ t"
  "tlv_bytes 0x8028 (to_be 4 c) = to_be 2 (0x8028 :: u16) @ to_be 2 (4 :: u16) @ to_be 4 c"
  "encode_attributes [Fingerprint c] tid = tlv_bytes 0x8028 (to_be 4 c)"
  "length t = 20 \<Longrightarrow> encode_attributes [MessageIntegrity t, Fingerprint c] tid = tlv_bytes 0x0008 t @ tlv_bytes 0x8028 (to_be 4 c)"
  by (simp_all add: encode_attributes_concat attr_tlv_def tlv_bytes_def pad4_eq len16_def)

definition is_mac :: "stun_attribute \<Rightarrow> bool" where
  "is_mac a = (case a of MessageIntegrity _ \<Rightarrow> True | _ \<Rightarrow> False)"

definition is_fp :: "stun_attribute \<Rightarrow> bool" where
  "is_fp a = (case a of Fingerprint _ \<Rightarrow> True | _ \<Rightarrow> False)"

lemma attr_tlv_type:
  "wf_attr a \<Longrightarrow> fst (attr_tlv tid a) = 0x0008 \<longleftrightarrow> is_mac a" "wf_attr a \<Longrightarrow> fst (attr_tlv tid a) = 0x8028 \<longleftrightarrow> is_fp a"
  by (cases a; auto simp: attr_tlv_def wf_attr_def KNOWN_TYPES_def is_mac_def is_fp_def)+

lemma no_mac_type:
  assumes "list_all wf_attr as" and "\<not> list_ex is_mac as"
  shows "0x0008 \<notin> fst ` set (map (attr_tlv tid) as)"
proof
  assume "0x0008 \<in> fst ` set (map (attr_tlv tid) as)"
  then obtain a where "a \<in> set as" "fst (attr_tlv tid a) = 0x0008" by auto
  then show False using assms attr_tlv_type(1) [of a tid] by (simp add: list_all_iff list_ex_iff)
qed

lemma no_fp_type:
  assumes "list_all wf_attr as" and "\<not> list_ex is_fp as"
  shows "0x8028 \<notin> fst ` set (map (attr_tlv tid) as)"
proof
  assume "0x8028 \<in> fst ` set (map (attr_tlv tid) as)"
  then obtain a where "a \<in> set as" "fst (attr_tlv tid a) = 0x8028" by auto
  then show False using assms attr_tlv_type(2) [of a tid] by (simp add: list_all_iff list_ex_iff)
qed

lemma compute_hmac_total:
  assumes "hmac_total h"
  obtains t where "compute_hmac_sha1 h key data = Ok t" and "length t = 20"
proof -
  obtain t where "sh_hmac h key data = Inr t" "length t = 20" using assms unfolding hmac_total_def by blast
  then show thesis using that by (simp add: compute_hmac_sha1_def)
qed

lemma encode_with_integrity_eq:
  assumes "wf_message m" and "compute_hmac_sha1 h key (build_header (sm_class m) (sm_method m) (sm_transaction_id m)
      (length (encode_attributes (sm_attributes m) (sm_transaction_id m)) + 24) @ encode_attributes (sm_attributes m) (sm_transaction_id m)) = Ok t"
    and "length t = 20"
  shows "encode_with_integrity h m key = Ok (stun_encode (m\<lparr>sm_attributes := sm_attributes m @ [MessageIntegrity t]\<rparr>))"
  using assms
  by (simp add: encode_with_integrity_def stun_encode_def wf_message_def usize_max_def encode_attributes_append
      encode_attributes_MI Let_def)

lemma only_fingerprint_tlv: "only_fingerprint (tlv_bytes 0x8028 (to_be 4 (c :: u32)))"
  by (simp add: encode_attributes_MI only_fingerprint_def get_range_def)

lemma length_fp_tlv: "length (tlv_bytes 0x8028 (to_be 4 (c :: u32))) = 8"
  by (simp add: encode_attributes_MI)

lemma verify_signed:
  assumes "wf_message m" and "\<not> list_ex is_mac (sm_attributes m)" and "hmac_total h"
    and "tr = [] \<or> (\<exists>c :: u32. tr = tlv_bytes 0x8028 (to_be 4 c))"
    and "body = encode_attributes (sm_attributes m) (sm_transaction_id m)"
    and "compute_hmac_sha1 h key (build_header (sm_class m) (sm_method m) (sm_transaction_id m) (24 + length body) @ body) = Ok t"
    and "length t = 20"
  shows "verify_integrity h (build_header (sm_class m) (sm_method m) (sm_transaction_id m)
     (24 + length body + length tr) @ body @ tlv_bytes 0x0008 t @ tr) key = Ok ()"
proof -
  let ?tid = "sm_transaction_id m" let ?hdr = "build_header (sm_class m) (sm_method m) ?tid (24 + length body + length tr)"
  have tid: "length ?tid = 12" and as: "list_all wf_attr (sm_attributes m)" and l: "length body \<le> 65500"
    using assms(1,5) by (simp_all add: wf_message_def)
  have sec: "tlvs body (map (attr_tlv ?tid) (sm_attributes m))" using encode_attributes_tlvs [OF tid as] assms(5) by simp
  have n8: "0x0008 \<notin> fst ` set (map (attr_tlv ?tid) (sm_attributes m))" using as assms(2) by (rule no_mac_type)
  obtain rt where rt: "tlvs tr rt" and tr: "tr = [] \<or> only_fingerprint tr" and trl: "length tr \<le> 8"
  proof (cases "tr = []")
    case False
    then obtain c :: u32 where c: "tr = tlv_bytes 0x8028 (to_be 4 c)" using assms(4) by blast
    show thesis
      using that [of "[(0x8028, to_be 4 c)]"] tlvs_single [of "to_be 4 c" "0x8028"] only_fingerprint_tlv [of c]
      by (simp add: c length_fp_tlv)
  qed (use that [of "[]"] tlvs_nil in simp)
  have hm: "compute_hmac_sha1 h key (set_len ?hdr (24 + length body) @ body) = Ok t" using assms(6) by simp
  have len: "unat (be16_at ?hdr 2) = length body + 24 + length tr"
    using header_fields(2) [OF tid, of "sm_class m" "sm_method m" "24 + length body + length tr" "[]"] l trl by (simp add: unat_len16)
  show ?thesis
    using mac_complete [where hm = "compute_hmac_sha1 h" and key = key, OF _ sec n8 assms(7) hm tr rt len] tid
    by (simp add: verify_integrity_def)
qed

lemma verify_fingerprint_built:
  assumes "length hdr = 20" and "tlvs bs rs" and "0x8028 \<notin> fst ` set rs"
    and "unat (be16_at hdr 2) = length bs + 8" and "set_len hdr (length bs + 8) = hdr"
    and "crc = sh_crc h (hdr @ bs) XOR 0x5354554E"
  shows "verify_fingerprint h (hdr @ bs @ tlv_bytes 0x8028 (to_be 4 crc)) = Ok ()"
proof -
  let ?fp = "tlv_bytes 0x8028 (to_be 4 crc)"
  have sec: "tlvs (bs @ ?fp) (rs @ [(0x8028, to_be 4 crc)])"
    by (rule tlvs_append [OF assms(2) tlvs_single]) simp
  have "find_attr_offset missing (hdr @ bs @ ?fp) 0x8028 = Ok (20 + length bs)" for missing
    using find_attr_offset_tlvs [OF assms(1) _ sec, of missing "[]" "0x8028"] assms(4) tlvs_length [OF assms(2)]
    by (simp add: takeWhile_before [OF assms(3)] length_fp_tlv)
  moreover have "get_range 0 (20 + length bs) (hdr @ bs @ ?fp) = Some (hdr @ bs)"
    using assms(1) by (simp add: get_range_def)
  moreover have "get_range (20 + length bs + 4) (20 + length bs + 4 + 4) (hdr @ bs @ ?fp) = Some (to_be 4 crc)"
    using assms(1) by (simp add: get_range_def encode_attributes_MI)
  moreover have "set_len hdr (8 + length bs) = hdr" using assms(5) by (simp add: add.commute)
  ultimately show ?thesis
    using assms(1,4,6) by (simp add: verify_fingerprint_def STUN_HEADER_LEN_def set_len_append)
qed

text \<open>A signed message, spelled out: its bytes, that it verifies, and what it decodes to.\<close>

lemma signed_message:
  assumes "wf_message m" and "\<not> list_ex is_mac (sm_attributes m)" and "hmac_total h"
  obtains t where "length t = 20"
    and "compute_hmac_sha1 h key (build_header (sm_class m) (sm_method m) (sm_transaction_id m)
        (24 + length (encode_attributes (sm_attributes m) (sm_transaction_id m)))
        @ encode_attributes (sm_attributes m) (sm_transaction_id m)) = Ok t"
    and "encode_with_integrity h m key = Ok (build_header (sm_class m) (sm_method m) (sm_transaction_id m)
        (24 + length (encode_attributes (sm_attributes m) (sm_transaction_id m)))
        @ encode_attributes (sm_attributes m) (sm_transaction_id m) @ tlv_bytes 0x0008 t)"
    and "verify_integrity h (build_header (sm_class m) (sm_method m) (sm_transaction_id m)
        (24 + length (encode_attributes (sm_attributes m) (sm_transaction_id m)))
        @ encode_attributes (sm_attributes m) (sm_transaction_id m) @ tlv_bytes 0x0008 t) key = Ok ()"
    and "stun_decode (build_header (sm_class m) (sm_method m) (sm_transaction_id m)
        (24 + length (encode_attributes (sm_attributes m) (sm_transaction_id m)))
        @ encode_attributes (sm_attributes m) (sm_transaction_id m) @ tlv_bytes 0x0008 t) =
      Ok (message_norm (m\<lparr>sm_attributes := sm_attributes m @ [MessageIntegrity t]\<rparr>))"
proof -
  let ?tid = "sm_transaction_id m"
  let ?H = "build_header (sm_class m) (sm_method m) ?tid"
  define body where "body = encode_attributes (sm_attributes m) ?tid"
  have tid: "length ?tid = 12" and as: "list_all wf_attr (sm_attributes m)" and l: "length body \<le> 65500"
    using assms(1) by (simp_all add: wf_message_def body_def)
  obtain t where t: "compute_hmac_sha1 h key (?H (24 + length body) @ body) = Ok t" "length t = 20"
    using compute_hmac_total [OF assms(3)] .
  let ?out = "?H (24 + length body) @ body @ tlv_bytes 0x0008 t"
  have e: "encode_with_integrity h m key = Ok ?out"
    using t l by (simp add: encode_with_integrity_def body_def [symmetric] usize_max_def encode_attributes_MI Let_def
        add.commute [of "length body"])
  have v: "verify_integrity h ?out key = Ok ()"
    using verify_signed [OF assms _ body_def t, of "[]"] by simp
  have d: "stun_decode ?out = Ok (message_norm (m\<lparr>sm_attributes := sm_attributes m @ [MessageIntegrity t]\<rparr>))"
    using decode_built [OF tid, of "sm_attributes m @ [MessageIntegrity t]" "sm_class m" "sm_method m" "[]"] as l t(2)
    by (simp add: encode_attributes_append encode_attributes_MI body_def [symmetric] wf_attr_def message_norm_def
        add.commute [of "length body"])
  show thesis by (rule that [OF t(2) t(1) [unfolded body_def] e [unfolded body_def] v [unfolded body_def] d [unfolded body_def]])
qed

text \<open>
  Every message a peer signs is accepted by the peer that knows the key: with MESSAGE-INTEGRITY
  alone, and with FINGERPRINT after it, in which case the fingerprint verifies too. Decoding gives
  the message back with the appended attributes.
\<close>

theorem signed_message_verifies:
  assumes "wf_message m" and "\<not> list_ex is_mac (sm_attributes m)" and "\<not> list_ex is_fp (sm_attributes m)"
    and "hmac_total h"
  shows "\<exists>out out' t c.
     encode_with_integrity h m key = Ok out \<and> verify_integrity h out key = Ok ()
     \<and> stun_decode out = Ok (message_norm (m\<lparr>sm_attributes := sm_attributes m @ [MessageIntegrity t]\<rparr>))
     \<and> encode_with_integrity_and_fingerprint h m key = Ok out'
     \<and> verify_integrity h out' key = Ok () \<and> verify_fingerprint h out' = Ok ()
     \<and> stun_decode out' = Ok (message_norm (m\<lparr>sm_attributes := sm_attributes m @ [MessageIntegrity t, Fingerprint c]\<rparr>))"
proof -
  let ?tid = "sm_transaction_id m"
  let ?H = "build_header (sm_class m) (sm_method m) ?tid"
  define body where "body = encode_attributes (sm_attributes m) ?tid"
  have tid: "length ?tid = 12" and as: "list_all wf_attr (sm_attributes m)" and l: "length body \<le> 65500"
    using assms(1) by (simp_all add: wf_message_def body_def)
  obtain t where t2: "length t = 20" and t1: "compute_hmac_sha1 h key (?H (24 + length body) @ body) = Ok t"
    and out: "encode_with_integrity h m key = Ok (?H (24 + length body) @ body @ tlv_bytes 0x0008 t)"
      "verify_integrity h (?H (24 + length body) @ body @ tlv_bytes 0x0008 t) key = Ok ()"
      "stun_decode (?H (24 + length body) @ body @ tlv_bytes 0x0008 t) =
         Ok (message_norm (m\<lparr>sm_attributes := sm_attributes m @ [MessageIntegrity t]\<rparr>))"
    using signed_message [OF assms(1,2,4)] unfolding body_def .
  define c where "c = sh_crc h (?H (32 + length body) @ body @ tlv_bytes 0x0008 t) XOR 0x5354554E"
  let ?out' = "?H (32 + length body) @ body @ tlv_bytes 0x0008 t @ tlv_bytes 0x8028 (to_be 4 c)"
  have "encode_with_integrity_and_fingerprint h m key = Ok ?out'"
    using out(1) l tid t2
    by (simp add: encode_with_integrity_and_fingerprint_def usize_max_def STUN_HEADER_LEN_def set_len_append c_def
        encode_attributes_MI Let_def)
  moreover have "verify_integrity h ?out' key = Ok ()"
    using verify_signed [OF assms(1,2,4) disjI2 [OF exI [of _ c, OF refl]] body_def t1 t2] by (simp add: length_fp_tlv)
  moreover have "verify_fingerprint h ?out' = Ok ()"
  proof -
    have sec: "tlvs (body @ tlv_bytes 0x0008 t) (map (attr_tlv ?tid) (sm_attributes m) @ [(0x0008, t)])"
      unfolding body_def by (rule tlvs_append [OF encode_attributes_tlvs [OF tid as] tlvs_single]) (simp add: t2)
    have nf: "0x8028 \<notin> fst ` set (map (attr_tlv ?tid) (sm_attributes m) @ [(0x0008, t)])"
      using no_fp_type [OF as assms(3)] by simp
    have ln: "unat (be16_at (?H (32 + length body)) 2) = length (body @ tlv_bytes 0x0008 t) + 8"
      using header_fields(2) [OF tid, of "sm_class m" "sm_method m" "32 + length body" "[]"] l
      by (simp add: unat_len16 encode_attributes_MI t2)
    have "verify_fingerprint h (?H (32 + length body) @ (body @ tlv_bytes 0x0008 t) @ tlv_bytes 0x8028 (to_be 4 c)) = Ok ()"
      by (rule verify_fingerprint_built [OF length_build_header [OF tid] sec nf ln])
        (simp_all add: c_def encode_attributes_MI t2 add.commute)
    then show ?thesis by simp
  qed
  moreover have "stun_decode ?out' = Ok (message_norm (m\<lparr>sm_attributes := sm_attributes m @ [MessageIntegrity t, Fingerprint c]\<rparr>))"
    using decode_built [OF tid, of "sm_attributes m @ [MessageIntegrity t] @ [Fingerprint c]" "sm_class m" "sm_method m" "[]"] as l t2
    by (simp add: encode_attributes_append encode_attributes_MI body_def [symmetric] wf_attr_def message_norm_def
        add.commute [of "length body"])
  ultimately show ?thesis using out by blast
qed

subsection \<open>What an accepted message authenticates\<close>

lemma try_map_append:
  "try_map f (xs @ ys) = Ok zs \<Longrightarrow> \<exists>z1 z2. zs = z1 @ z2 \<and> try_map f xs = Ok z1 \<and> try_map f ys = Ok z2"
  by (induction xs arbitrary: zs) (simp, fastforce)

lemma try_map_appendI: "try_map f xs = Ok z1 \<Longrightarrow> try_map f ys = Ok z2 \<Longrightarrow> try_map f (xs @ ys) = Ok (z1 @ z2)"
  by (induction xs arbitrary: z1) auto

lemma decode_use_candidate: "decode_one_attribute tid 0x0025 v = Ok UseCandidate"
  by (simp add: decode_one_attribute_def)

lemma decode_mac: "decode_one_attribute tid 0x0008 v = Ok a \<longleftrightarrow> 20 \<le> length v \<and> a = MessageIntegrity (take 20 v)"
  by (auto simp: decode_one_attribute_def get_range_def Let_def split: if_splits)

lemma decode_fp: "decode_one_attribute tid 0x8028 v = Ok a \<longleftrightarrow> 4 \<le> length v \<and> a = Fingerprint (from_be (take 4 v))"
  by (auto simp: decode_one_attribute_def get_range_def Let_def split: if_splits)

lemma try_map_mac_free:
  "try_map (\<lambda>(t, v). decode_one_attribute tid t v) rs = Ok as \<Longrightarrow> 0x0008 \<notin> fst ` set rs \<Longrightarrow> \<not> list_ex is_mac as"
proof (induction rs arbitrary: as)
  case (Cons r rs)
  obtain t v where r: "r = (t, v)" by (cases r)
  obtain a as' where a: "decode_one_attribute tid t v = Ok a" "try_map (\<lambda>(t, v). decode_one_attribute tid t v) rs = Ok as'" "as = a # as'"
    using Cons.prems r by auto
  have "t \<noteq> 0x0008" using Cons.prems r by auto
  then have "\<not> is_mac a"
    using a(1) by (auto simp: decode_one_attribute_def is_mac_def Let_def split: if_splits)
  then show ?case using Cons a r by auto
qed simp

lemma mac_tail_attrs:
  assumes "mac_tail v r2" and "try_map (\<lambda>(t, v). decode_one_attribute tid t v) r2 = Ok rest" and "tlvs b2 r2"
  shows "rest = [] \<or> (\<exists>c. rest = [Fingerprint c]) \<or> (\<exists>ty a. decode_one_attribute tid ty [] = Ok a \<and> rest = [a])"
  using assms(1) unfolding mac_tail_def
proof (elim disjE conjE exE)
  assume size: "tlvs_size r2 = 8" and fp: "fst (hd r2) = 0x8028"
  then obtain u r3 where r2: "r2 = (0x8028, u) # r3" by (cases r2) (auto simp: prod_eq_iff)
  obtain c where "4 \<le> length u" and rest: "rest = Fingerprint c # tl rest" "try_map (\<lambda>(t, v). decode_one_attribute tid t v) r3 = Ok (tl rest)"
    using assms(2) by (auto simp: r2 decode_fp)
  moreover have "length u < 65536" using assms(3) r2 by (auto elim: tlvs_ConsE)
  ultimately have "tlvs_size r3 = 0" using size r2 by (simp add: align4_pad4)
  then have "r3 = []" by (cases r3) auto
  then show ?thesis using rest by auto
qed (use assms(2) in auto)

lemma accepted_covered:
  assumes "stun_decode raw = Ok m" and "verify_integrity h raw key = Ok ()"
  shows "\<exists>body pre t rest. sm_attributes m = pre @ MessageIntegrity t # rest \<and> \<not> list_ex is_mac pre
     \<and> decode_attributes body (sm_transaction_id m) = Ok pre
     \<and> compute_hmac_sha1 h key
         (build_header (sm_class m) (sm_method m) (sm_transaction_id m) (24 + length body) @ body) = Ok t
     \<and> (rest = [] \<or> (\<exists>c. rest = [Fingerprint c])
         \<or> (\<exists>ty a. decode_one_attribute (sm_transaction_id m) ty [] = Ok a \<and> rest = [a]))"
proof -
  let ?tid = "sm_transaction_id m" let ?dec = "\<lambda>(t, v). decode_one_attribute ?tid t v"
  obtain bs junk where raw: "raw = build_header (sm_class m) (sm_method m) ?tid (length bs) @ bs @ junk"
    and tid: "length ?tid = 12" and l: "length bs \<le> 65535" and al: "length bs mod 4 = 0"
    and as: "decode_attributes bs ?tid = Ok (sm_attributes m)"
    using stun_decode_OkE [OF assms(1)] .
  obtain rs where rs: "tlvs bs rs" "try_map ?dec rs = Ok (sm_attributes m)"
    using as tlv_loop_iff [OF al] by (auto simp: decode_attributes_def)
  have v20: "20 \<le> length v" if mem: "(0x0008, v) \<in> set rs" for v
  proof -
    obtain i where "i < length rs" "rs ! i = (0x0008, v)" using mem unfolding in_set_conv_nth by blast
    then have "decode_one_attribute ?tid 0x0008 v = Ok (sm_attributes m ! i)" using try_map_Ok_nth [OF rs(2)] by auto
    then show ?thesis by (simp add: decode_mac)
  qed
  obtain off where off: "find_attr_offset (AttrNotFound 0x0008) raw 0x0008 = Ok off" "check_mac (compute_hmac_sha1 h) raw key off = Ok ()"
    using assms(2) by (auto simp: verify_integrity_def)
  let ?hdr = "build_header (sm_class m) (sm_method m) ?tid (length bs)"
  have hl: "length ?hdr = 20" "unat (be16_at ?hdr 2) = length bs"
    using tid header_fields(2) [OF tid, of "sm_class m" "sm_method m" "length bs" "[]"] l by (simp_all add: unat_len16)
  obtain b1 r1 v r2 where r: "rs = r1 @ (0x0008, v) # r2" and n1: "0x0008 \<notin> fst ` set r1" and b1: "tlvs b1 r1"
    and "prefix b1 bs" and hm: "compute_hmac_sha1 h key (set_len ?hdr (24 + length b1) @ b1) = Ok (take 20 v)" and mt: "mac_tail v r2"
    using mac_sound [where hm = "compute_hmac_sha1 h", OF hl rs(1) off [unfolded raw] v20] .
  obtain pre as2 where pre: "sm_attributes m = pre @ as2" "try_map ?dec r1 = Ok pre" "try_map ?dec ((0x0008, v) # r2) = Ok as2"
    using try_map_append rs(2) r by blast
  obtain rest where rest: "as2 = MessageIntegrity (take 20 v) # rest" "try_map ?dec r2 = Ok rest"
    using pre(3) by (auto simp: decode_mac)
  obtain b2 where "tlvs b2 r2" using tlvs_split [of bs "r1 @ [(0x0008, v)]" r2] rs(1) r by auto
  then have "rest = [] \<or> (\<exists>c. rest = [Fingerprint c]) \<or> (\<exists>ty a. decode_one_attribute ?tid ty [] = Ok a \<and> rest = [a])"
    using mac_tail_attrs [OF mt rest(2)] by blast
  moreover have "decode_attributes b1 ?tid = Ok pre"
    using tlv_loop_tlvs [OF b1, of 0 b1 "decode_one_attribute ?tid"] pre(2) by (simp add: decode_attributes_def)
  moreover have "\<not> list_ex is_mac pre" by (rule try_map_mac_free [OF pre(2) n1])
  ultimately show ?thesis using hm pre(1) rest(1) by (intro exI [of _ b1] exI [of _ pre] exI [of _ "take 20 v"] exI [of _ rest]) simp
qed

text \<open>
  C32. What the HMAC of an accepted message covers: the class, the method, the transaction id and
  every attribute before MESSAGE-INTEGRITY, re-encoded as the signed prefix. After it comes at most
  one attribute, which is a FINGERPRINT or an attribute without a value.
\<close>

theorem accepted_message_covered:
  assumes "stun_decode raw = Ok m" and "verify_integrity h raw key = Ok ()"
  shows "\<exists>body pre t rest. sm_attributes m = pre @ MessageIntegrity t # rest \<and> \<not> list_ex is_mac pre
     \<and> decode_attributes body (sm_transaction_id m) = Ok pre
     \<and> compute_hmac_sha1 h key
         (build_header (sm_class m) (sm_method m) (sm_transaction_id m) (24 + length body) @ body) = Ok t
     \<and> (rest = [] \<or> (\<exists>c. rest = [Fingerprint c])
         \<or> (\<exists>ty a. decode_one_attribute (sm_transaction_id m) ty [] = Ok a \<and> rest = [a]))"
  using assms by (rule accepted_covered)

text \<open>
  Someone without the key can add the attribute without a value: lengthen the
  MESSAGE-INTEGRITY value by the first half of a FINGERPRINT and append a bare USE-CANDIDATE.
\<close>

definition forge_use_candidate :: "bytes \<Rightarrow> bytes" where
  "forge_use_candidate out =
     (let n = length out in
      set_len (take (n - 22) out) (n - 12) @ to_be 2 (24 :: u16) @ drop (n - 20) out
        @ [0x80, 0x28, 0, 0] @ [0x00, 0x25, 0, 0])"

lemma tlv_bytes_forged:
  assumes "length t = 20"
  shows "tlv_bytes 0x0008 (t @ [0x80, 0x28, 0, 0]) = to_be 2 (0x0008 :: u16) @ to_be 2 (24 :: u16) @ t @ [0x80, 0x28, 0, 0]"
    and "tlv_bytes 0x0025 [] = [0x00, 0x25, 0, 0]"
proof -
  have "to_be 2 (0 :: u16) = [0, 0]" "to_be 2 (0x0025 :: u16) = [0, 0x25]" by code_simp+
  then show "tlv_bytes 0x0025 [] = [0x00, 0x25, 0, 0]" by (simp add: tlv_bytes_def len16_def pad4_eq)
qed (use assms in \<open>simp add: tlv_bytes_def len16_def pad4_eq\<close>)

lemma verify_forged:
  assumes "length hdr = 20" and "tlvs body rs" and "0x0008 \<notin> fst ` set rs" and "length t = 20"
    and "unat (be16_at hdr 2) = length body + 32"
    and "compute_hmac_sha1 h key (set_len hdr (24 + length body) @ body) = Ok t"
  shows "verify_integrity h (hdr @ body @ tlv_bytes 0x0008 (t @ [0x80, 0x28, 0, 0]) @ tlv_bytes 0x0025 []) key = Ok ()"
proof -
  let ?v = "t @ [0x80, 0x28, 0, 0]" let ?raw = "hdr @ body @ tlv_bytes 0x0008 ?v @ tlv_bytes 0x0025 []"
  have sec: "tlvs (body @ tlv_bytes 0x0008 ?v @ tlv_bytes 0x0025 []) (rs @ [(0x0008, ?v), (0x0025, [])])"
    using tlvs_append [OF assms(2) tlvs_tlv_bytes [OF _ tlvs_single, of ?v "[]" "0x0008" "0x0025"]] assms(4) by simp
  note b = tlv_bytes_forged [OF assms(4)]
  have f: "find_attr_offset (AttrNotFound 0x0008) ?raw 0x0008 = Ok (20 + length body)"
    using find_attr_offset_tlvs [OF assms(1) _ sec, of "AttrNotFound 0x0008" "[]" "0x0008"] assms(4,5) tlvs_length [OF assms(2)]
    by (simp add: takeWhile_before [OF assms(3)] b)
  have "get_range (20 + length body + 24) (20 + unat (be16_at ?raw 2)) ?raw = Some [0x80, 0x28, 0, 0, 0, 0x25, 0, 0]"
    using assms(1,4,5) by (simp add: get_range_def b)
  moreover have "get_range 0 (20 + length body) ?raw = Some (hdr @ body)"
    using assms(1) by (simp add: get_range_def)
  moreover have "get_range (20 + length body + 4) (20 + length body + 4 + 20) ?raw = Some t"
    using assms(1,4) by (simp add: get_range_def b)
  moreover have "only_fingerprint [0x80, 0x28, 0, 0, 0, 0x25, 0, 0]" by code_simp
  moreover have "compute_hmac_sha1 h key (set_len (hdr @ body) (20 + length body + 24 - 20)) = Ok t"
    using assms(1,6) by (simp add: set_len_append)
  ultimately have "check_mac (compute_hmac_sha1 h) ?raw key (20 + length body) = Ok ()"
    unfolding check_mac_def STUN_HEADER_LEN_def Let_def by (simp only: option.case ok_or_simps and_then_Ok not_True_eq_False if_False if_True simp_thms)
  then show ?thesis using f by (simp add: verify_integrity_def)
qed

lemma forged_message:
  assumes "wf_message m" and "\<not> list_ex is_mac (sm_attributes m)" and "hmac_total h"
    and "encode_with_integrity h m key = Ok out"
  obtains t where "verify_integrity h (forge_use_candidate out) key = Ok ()"
    and "stun_decode (forge_use_candidate out) =
           Ok (message_norm (m\<lparr>sm_attributes := sm_attributes m @ [MessageIntegrity t, UseCandidate]\<rparr>))"
proof -
  let ?tid = "sm_transaction_id m"
  let ?H = "build_header (sm_class m) (sm_method m) ?tid"
  define body where "body = encode_attributes (sm_attributes m) ?tid"
  have tid: "length ?tid = 12" and as: "list_all wf_attr (sm_attributes m)" and l: "length body \<le> 65500"
    using assms(1) by (simp_all add: wf_message_def body_def)
  obtain t where t2: "length t = 20" and t1: "compute_hmac_sha1 h key (?H (24 + length body) @ body) = Ok t"
    and e: "encode_with_integrity h m key = Ok (?H (24 + length body) @ body @ tlv_bytes 0x0008 t)"
    using signed_message [OF assms(1-3)] unfolding body_def by metis
  note b = tlv_bytes_forged [OF t2]
  let ?bs = "body @ tlv_bytes 0x0008 (t @ [0x80, 0x28, 0, 0]) @ tlv_bytes 0x0025 []"
  have "out = (?H (24 + length body) @ body @ to_be 2 (0x0008 :: u16)) @ to_be 2 (20 :: u16) @ t"
    using assms(4) e t2 by (simp add: encode_attributes_MI)
  then have forged: "forge_use_candidate out = ?H (32 + length body) @ ?bs"
    using tid t2 by (simp add: forge_use_candidate_def set_len_append b)
  have sec: "tlvs body (map (attr_tlv ?tid) (sm_attributes m))" using encode_attributes_tlvs [OF tid as] by (simp add: body_def)
  have ln: "unat (be16_at (?H (32 + length body)) 2) = length body + 32"
    using header_fields(2) [OF tid, of "sm_class m" "sm_method m" "32 + length body" "[]"] l by (simp add: unat_len16)
  have v: "verify_integrity h (forge_use_candidate out) key = Ok ()"
    unfolding forged
    by (rule verify_forged [OF length_build_header [OF tid] sec no_mac_type [OF as assms(2)] t2 ln]) (simp add: t1)
  have tl: "tlvs ?bs (map (attr_tlv ?tid) (sm_attributes m) @ [(0x0008, t @ [0x80, 0x28, 0, 0]), (0x0025, [])])"
    using tlvs_append [OF sec tlvs_tlv_bytes [OF _ tlvs_single, of "t @ [0x80, 0x28, 0, 0]" "[]" "0x0008" "0x0025"]] t2 by simp
  have "decode_attributes ?bs ?tid = Ok (map attr_norm (sm_attributes m) @ [MessageIntegrity t, UseCandidate])"
    using tlv_loop_tlvs [OF tl, of 0 ?bs "decode_one_attribute ?tid"] try_map_appendI [OF stun_attrs.try_map_dec [OF tid as],
        of "[(0x0008, t @ [0x80, 0x28, 0, 0]), (0x0025, [])]" "[MessageIntegrity t, UseCandidate]"] t2
    by (simp add: decode_attributes_def decode_mac decode_use_candidate)
  then have "stun_decode (forge_use_candidate out) =
      Ok (message_norm (m\<lparr>sm_attributes := sm_attributes m @ [MessageIntegrity t, UseCandidate]\<rparr>))"
    using stun_decode_parts [OF tid _ tlvs_aligned [OF tl], of "sm_class m" "sm_method m" "[]"] l t2
    by (simp add: forged b message_norm_def attr_norm_def add.commute [of "length body"])
  with v show thesis by (rule that)
qed

text \<open>
  C33. The check that nothing but FINGERPRINT follows MESSAGE-INTEGRITY can be bypassed: from any
  signed message, and without its key, one obtains a message that still passes
  \<open>verify_integrity\<close> and decodes to the same attributes followed by USE-CANDIDATE.
\<close>

theorem use_candidate_forged:
  assumes "wf_message m" and "\<not> list_ex is_mac (sm_attributes m)" and "hmac_total h"
    and "encode_with_integrity h m key = Ok out"
  shows "verify_integrity h (forge_use_candidate out) key = Ok ()
     \<and> (\<exists>t. stun_decode (forge_use_candidate out) =
           Ok (message_norm (m\<lparr>sm_attributes := sm_attributes m @ [MessageIntegrity t, UseCandidate]\<rparr>)))"
  using forged_message [OF assms] by metis

subsection \<open>Instances\<close>

definition plain_hash :: stun_hash where
  "plain_hash = \<lparr>sh_hmac = (\<lambda>key data. Inr (take 20 (key @ data @ replicate 20 0))), sh_crc = (\<lambda>data. of_nat (length data))\<rparr>"

definition demo_request :: stun_message where
  "demo_request = (new_binding_request (replicate 12 7))\<lparr>sm_attributes := [Username [97, 58, 98], Priority 5, IceControlling 9]\<rparr>"

lemma plain_hash_total: "hmac_total plain_hash"
  by (auto simp: hmac_total_def plain_hash_def min_def)

lemma demo_request_wf: "wf_message demo_request" "\<not> list_ex is_mac (sm_attributes demo_request)"
    "\<not> list_ex is_fp (sm_attributes demo_request)"
  by (simp_all add: demo_request_def new_binding_request_def wf_message_def wf_attr_def is_mac_def is_fp_def is_scalar_def
      utf8_char_def encode_attributes_concat attr_tlv_def tlv_bytes_def pad4_eq len16_def)

theorem stun_roundtrip_witness:
  "wf_message demo_request \<and> stun_decode (stun_encode demo_request @ [1, 2]) = Ok (message_norm demo_request)"
  using stun_roundtrip [OF demo_request_wf(1)] demo_request_wf(1) by blast

theorem signed_message_verifies_witness:
  "\<exists>out. encode_with_integrity plain_hash demo_request [1, 2, 3] = Ok out
     \<and> verify_integrity plain_hash out [1, 2, 3] = Ok ()"
  using signed_message_verifies [OF demo_request_wf plain_hash_total, of "[1, 2, 3]"] by blast

theorem accepted_message_covered_witness:
  "\<exists>raw m pre t rest. stun_decode raw = Ok m \<and> verify_integrity plain_hash raw [1, 2, 3] = Ok ()
     \<and> sm_attributes m = pre @ MessageIntegrity t # rest"
proof -
  obtain t raw where "verify_integrity plain_hash raw [1, 2, 3] = Ok ()"
    and "stun_decode raw = Ok (message_norm (demo_request\<lparr>sm_attributes := sm_attributes demo_request @ [MessageIntegrity t]\<rparr>))"
    using signed_message [OF demo_request_wf(1,2) plain_hash_total] by metis
  then show ?thesis using accepted_message_covered [of raw _ plain_hash "[1, 2, 3]"] by blast
qed

theorem use_candidate_forged_witness:
  "\<exists>out t. encode_with_integrity plain_hash demo_request [1, 2, 3] = Ok out
     \<and> verify_integrity plain_hash (forge_use_candidate out) [1, 2, 3] = Ok ()
     \<and> stun_decode (forge_use_candidate out) =
         Ok (message_norm (demo_request\<lparr>sm_attributes := sm_attributes demo_request @ [MessageIntegrity t, UseCandidate]\<rparr>))"
proof -
  obtain out where "encode_with_integrity plain_hash demo_request [1, 2, 3] = Ok out"
    using signed_message [OF demo_request_wf(1,2) plain_hash_total] by metis
  then show ?thesis
    using use_candidate_forged [OF demo_request_wf(1,2) plain_hash_total] by blast
qed

end
