(* ===== verification/Show_Num.thy ===== *)
theory Show_Num
  imports Main
begin

text \<open>
  Numbers as \<open>format!\<close> prints them: digits in a base, signed decimals, and the fact that a decimal
  determines its number.
\<close>

definition digit_char :: "nat \<Rightarrow> char" where
  "digit_char d = (if d < 10 then char_of (48 + d) else char_of (87 + d))"

fun show_base :: "nat \<Rightarrow> nat \<Rightarrow> string" where
  "show_base b n = (if b < 2 \<or> n < b then [digit_char n] else show_base b (n div b) @ [digit_char (n mod b)])"

declare show_base.simps [simp del]

definition show_int :: "int \<Rightarrow> string" where
  "show_int i = (if i < 0 then ''-'' @ show_base 10 (nat (- i)) else show_base 10 (nat i))"

lemma digit_char_inj: "d < 10 \<Longrightarrow> d' < 10 \<Longrightarrow> digit_char d = digit_char d' \<Longrightarrow> d = d'"
  using arg_cong [of "digit_char d" "digit_char d'" "of_char :: char \<Rightarrow> nat"] by (simp add: digit_char_def)

lemma show_base_10: "show_base 10 n = (if n < 10 then [digit_char n] else show_base 10 (n div 10) @ [digit_char (n mod 10)])"
  by (subst show_base.simps) simp

lemma show_base_Nil [simp]: "show_base 10 n \<noteq> []" "[] \<noteq> show_base 10 n"
  by (subst show_base_10, simp)+

lemma show_base_inj: "show_base 10 n = show_base 10 n' \<Longrightarrow> n = n'"
proof (induction n arbitrary: n' rule: less_induct)
  case (less n)
  show ?case
  proof (cases "n < 10 \<or> n' < 10")
    case True
    then show ?thesis using less.prems
      by (simp add: show_base_10 [of n] show_base_10 [of n'] digit_char_inj split: if_splits)
  next
    case False
    then have "show_base 10 (n div 10) = show_base 10 (n' div 10)" "digit_char (n mod 10) = digit_char (n' mod 10)"
      using less.prems by (simp_all add: show_base_10 [of n] show_base_10 [of n'])
    with False have "n div 10 = n' div 10" "n mod 10 = n' mod 10" using less.IH by (simp_all add: digit_char_inj)
    then show ?thesis by (metis div_mult_mod_eq)
  qed
qed

lemma digit_char_range: "d < 10 \<Longrightarrow> 48 \<le> (of_char (digit_char d) :: nat) \<and> (of_char (digit_char d) :: nat) < 58"
  by (simp add: digit_char_def)

lemma show_base_digits: "c \<in> set (show_base 10 n) \<Longrightarrow> 48 \<le> (of_char c :: nat) \<and> (of_char c :: nat) < 58"
proof (induction n rule: less_induct)
  case (less n)
  show ?case using less.prems less.IH [of "n div 10"] digit_char_range [of n] digit_char_range [of "n mod 10"]
    by (simp add: show_base_10 [of n] split: if_splits) auto
qed

lemma show_int_inj: "show_int i = show_int j \<Longrightarrow> i = j"
proof -
  assume e: "show_int i = show_int j"
  have neg: "''-'' @ show_base 10 n \<noteq> show_base 10 n'" for n n'
  proof
    assume "''-'' @ show_base 10 n = show_base 10 n'"
    then have "CHR ''-'' \<in> set (show_base 10 n')" by (metis append_Cons list.set_intros(1))
    then show False using show_base_digits by fastforce
  qed
  show ?thesis
    using e neg neg [symmetric] by (auto simp: show_int_def nat_eq_iff dest!: show_base_inj split: if_splits)
qed

end
