(* ===== verification/Ice_Candidate.thy ===== *)
theory Ice_Candidate
  imports Ice_Wire Show_Num
begin

text \<open>
  ICE candidates and candidate pairs (\<open>src/crates/sh-ice/src/candidate.rs\<close>): priorities in
  saturating 32- and 64-bit arithmetic, foundations with the textual form of socket addresses, and
  the check list as a list of pairs. The lemmas give the priorities as plain numbers and show that
  the two ends of a session rank a pair alike.
\<close>

subsection \<open>Textual addresses\<close>

definition show_ipv4 :: "u32 \<Rightarrow> string" where
  "show_ipv4 ip =
     (let oct = (\<lambda>k. show_base 10 (unat (drop_bit k ip AND 0xFF)))
      in oct 24 @ ''.'' @ oct 16 @ ''.'' @ oct 8 @ ''.'' @ oct 0)"

definition segments :: "128 word \<Rightarrow> nat list" where
  "segments ip = map (\<lambda>k. unat (drop_bit k ip AND 0xFFFF)) [112, 96, 80, 64, 48, 32, 16, 0]"

text \<open>The first longest run of zero segments, as start and length.\<close>

fun zero_span :: "nat list \<Rightarrow> nat \<Rightarrow> nat \<times> nat \<Rightarrow> nat \<times> nat \<Rightarrow> nat \<times> nat" where
  "zero_span [] i current longest = longest"
| "zero_span (s # ss) i current longest =
     (if s = 0 then
        let current' = (if snd current = 0 then (i, 1) else (fst current, snd current + 1))
        in zero_span ss (i + 1) current' (if snd current' > snd longest then current' else longest)
      else zero_span ss (i + 1) (0, 0) longest)"

fun show_segments :: "nat list \<Rightarrow> string" where
  "show_segments [] = []"
| "show_segments [s] = show_base 16 s"
| "show_segments (s # ss) = show_base 16 s @ '':'' @ show_segments ss"

definition show_ipv6 :: "128 word \<Rightarrow> string" where
  "show_ipv6 ip =
     (if drop_bit 32 ip = 0xFFFF then ''::ffff:'' @ show_ipv4 (ucast ip)
      else let segs = segments ip; z = zero_span segs 0 (0, 0) (0, 0) in
        if snd z > 1 then show_segments (take (fst z) segs) @ ''::'' @ show_segments (drop (fst z + snd z) segs)
        else show_segments segs)"

definition show_addr :: "socket_addr \<Rightarrow> string" where
  "show_addr a =
     (case a of
        SockV4 ip port \<Rightarrow> show_ipv4 ip @ '':'' @ show_base 10 (unat port)
      | SockV6 ip port _ scope \<Rightarrow>
          (if scope = 0 then ''['' @ show_ipv6 ip @ '']:'' else ''['' @ show_ipv6 ip @ ''%'' @ show_base 10 (unat scope) @ '']:'')
            @ show_base 10 (unat port))"

subsection \<open>Candidates\<close>

datatype candidate_kind = Host | ServerReflexive | Relay

definition type_preference :: "candidate_kind \<Rightarrow> u32" where
  "type_preference k = (case k of Host \<Rightarrow> 126 | ServerReflexive \<Rightarrow> 100 | Relay \<Rightarrow> 0)"

definition foundation_prefix :: "candidate_kind \<Rightarrow> char" where
  "foundation_prefix k = (case k of Host \<Rightarrow> CHR ''h'' | ServerReflexive \<Rightarrow> CHR ''s'' | Relay \<Rightarrow> CHR ''r'')"

record candidate =
  cd_kind :: candidate_kind
  cd_addr :: socket_addr
  cd_base :: socket_addr
  cd_priority :: u32
  cd_foundation :: string
  cd_component :: u8

definition compute_priority :: "candidate_kind \<Rightarrow> u32 \<Rightarrow> u32 \<Rightarrow> u32" where
  "compute_priority kind local_preference component =
     (let a = sat_mul (push_bit 24 1) (type_preference kind);
          b = sat_mul (push_bit 8 1) local_preference;
          c = sat_sub 256 component
      in sat_add (sat_add a b) c)"

definition compute_foundation :: "candidate_kind \<Rightarrow> socket_addr \<Rightarrow> string" where
  "compute_foundation kind base = foundation_prefix kind # show_addr base"

definition with_local_preference :: "candidate_kind \<Rightarrow> socket_addr \<Rightarrow> socket_addr \<Rightarrow> u8 \<Rightarrow> u32 \<Rightarrow> candidate" where
  "with_local_preference kind addr base component local_preference =
     \<lparr>cd_kind = kind, cd_addr = addr, cd_base = base,
      cd_priority = compute_priority kind local_preference (ucast component),
      cd_foundation = compute_foundation kind base, cd_component = component\<rparr>"

definition candidate_new :: "candidate_kind \<Rightarrow> socket_addr \<Rightarrow> socket_addr \<Rightarrow> u8 \<Rightarrow> candidate" where
  "candidate_new kind addr base component =
     \<lparr>cd_kind = kind, cd_addr = addr, cd_base = base,
      cd_priority = compute_priority kind 65535 (ucast component),
      cd_foundation = compute_foundation kind base, cd_component = component\<rparr>"

datatype pair_state = Waiting | InProgress | Succeeded | PairFailed | Frozen

record candidate_pair =
  cp_pair_id :: u64
  cp_local :: candidate
  cp_remote :: candidate
  cp_state :: pair_state
  cp_priority :: u64
  cp_nominated :: bool
  cp_rtt_us :: "u64 option"

definition compute_pair_priority :: "u32 \<Rightarrow> u32 \<Rightarrow> bool \<Rightarrow> u64" where
  "compute_pair_priority g d is_controlling =
     (let (controlling_p, controlled_p) = (if is_controlling then (g, d) else (d, g));
          min_p = ucast (min controlling_p controlled_p);
          max_p = ucast (max controlling_p controlled_p);
          tie = (if controlling_p > controlled_p then 1 else 0)
      in sat_add (sat_add (sat_mul (push_bit 32 1) min_p) (sat_mul 2 max_p)) tie)"

definition pair_new :: "u64 \<Rightarrow> candidate \<Rightarrow> candidate \<Rightarrow> bool \<Rightarrow> candidate_pair" where
  "pair_new pair_id loc rem is_controlling =
     \<lparr>cp_pair_id = pair_id, cp_local = loc, cp_remote = rem, cp_state = Frozen,
      cp_priority = compute_pair_priority (cd_priority loc) (cd_priority rem) is_controlling,
      cp_nominated = False, cp_rtt_us = None\<rparr>"

subsection \<open>Priorities as numbers\<close>

lemma unat_push_bit_one_u32: "unat (push_bit 24 1 :: u32) = 2 ^ 24" "unat (push_bit 8 1 :: u32) = 2 ^ 8"
  by simp_all

lemma compute_priority_exact:
  assumes "unat pref \<le> 65535" and "1 \<le> unat c" and "unat c \<le> 256"
  shows "unat (compute_priority k pref c) = unat (type_preference k) * 2 ^ 24 + unat pref * 2 ^ 8 + (256 - unat c)"
  using assms by (cases k) (simp_all add: compute_priority_def type_preference_def sat_simps Let_def)

lemma compute_priority_type_first:
  assumes "unat (type_preference k) < unat (type_preference k')" and "unat p \<le> 65535" and "unat p' \<le> 65535"
    and "1 \<le> unat c" and "unat c \<le> 256" and "1 \<le> unat c'" and "unat c' \<le> 256"
  shows "compute_priority k p c < compute_priority k' p' c'"
  using assms by (simp add: word_less_nat_alt compute_priority_exact)

lemma compute_pair_priority_swap: "compute_pair_priority g d True = compute_pair_priority d g False"
  by (simp add: compute_pair_priority_def)

lemma compute_pair_priority_exact:
  assumes "unat g < 2 ^ 31" and "unat d < 2 ^ 31"
  shows "unat (compute_pair_priority g d True) =
     2 ^ 32 * min (unat g) (unat d) + 2 * max (unat g) (unat d) + (if unat d < unat g then 1 else 0)"
proof (cases "g \<le> d")
  case True
  then show ?thesis
    using assms by (simp add: compute_pair_priority_def sat_simps unat_ucast_up word_le_nat_alt word_less_nat_alt min_def max_def)
next
  case False
  then show ?thesis
    using assms by (simp add: compute_pair_priority_def sat_simps unat_ucast_up word_le_nat_alt word_less_nat_alt min_def max_def)
qed

text \<open>A kind is preferred when its number is larger; candidates built by \<open>new\<close> are ordered by it.\<close>

definition pref :: "candidate \<Rightarrow> nat" where
  "pref c = unat (type_preference (cd_kind c))"

definition built :: "candidate \<Rightarrow> bool" where
  "built c \<longleftrightarrow> (\<exists>kind addr base component. 0 < component \<and> c = candidate_new kind addr base component)"

lemma built_priority:
  assumes "built c"
  shows "pref c * 2 ^ 24 + 65535 * 2 ^ 8 \<le> unat (cd_priority c)" "unat (cd_priority c) < (pref c + 1) * 2 ^ 24"
    "unat (cd_priority c) < 2 ^ 31"
proof -
  obtain kind addr base component where c: "0 < component" "c = candidate_new kind addr base component"
    using assms by (auto simp: built_def)
  have "1 \<le> unat component" using c(1) by (simp add: word_less_nat_alt)
  then have "unat (cd_priority c) = pref c * 2 ^ 24 + 65535 * 2 ^ 8 + (256 - unat component)"
    using compute_priority_exact [of 65535 "ucast component" kind] unat_u8_less [of component]
    by (simp add: c(2) candidate_new_def pref_def unat_ucast_up)
  moreover have "pref c \<le> 126" by (cases kind) (simp_all add: c(2) candidate_new_def pref_def type_preference_def)
  ultimately show "pref c * 2 ^ 24 + 65535 * 2 ^ 8 \<le> unat (cd_priority c)" "unat (cd_priority c) < (pref c + 1) * 2 ^ 24"
    "unat (cd_priority c) < 2 ^ 31"
    using \<open>1 \<le> unat component\<close> by (simp_all add: algebra_simps)
qed

text \<open>
  The two agents of a session rank a pair with the same 64-bit priority, each from its own role,
  and among pairs of candidates built by \<open>Candidate::new\<close> one whose less preferred end is of a
  better kind comes strictly first: direct paths are tried before relayed ones.
\<close>

theorem pair_ranking:
  assumes "built a" and "built b" and "built c" and "built d" and "min (pref c) (pref d) < min (pref a) (pref b)"
  shows "cp_priority (pair_new i a b controlling) = cp_priority (pair_new j b a (\<not> controlling))
     \<and> cp_priority (pair_new k c d controlling) < cp_priority (pair_new i a b controlling)"
proof -
  have sym: "compute_pair_priority g e (\<not> r) = compute_pair_priority e g r" for g e r
    by (cases r) (simp_all add: compute_pair_priority_swap)
  have less: "compute_pair_priority (cd_priority c) (cd_priority d) True < compute_pair_priority (cd_priority a) (cd_priority b) True"
    if "built a" "built b" "built c" "built d" "min (pref c) (pref d) < min (pref a) (pref b)" for a b c d
  proof -
    note p = built_priority [OF that(1)] built_priority [OF that(2)] built_priority [OF that(3)] built_priority [OF that(4)]
    have "min (unat (cd_priority c)) (unat (cd_priority d)) < min (unat (cd_priority a)) (unat (cd_priority b))"
      using p that(5) by (auto simp: min_def split: if_splits)
    moreover have "unat (compute_pair_priority (cd_priority c) (cd_priority d) True)
        \<le> 4294967296 * min (unat (cd_priority c)) (unat (cd_priority d)) + 4294967295"
      using p(9,12) by (simp add: compute_pair_priority_exact max_def)
    moreover have "4294967296 * min (unat (cd_priority a)) (unat (cd_priority b))
        \<le> unat (compute_pair_priority (cd_priority a) (cd_priority b) True)"
      using p(3,6) by (simp add: compute_pair_priority_exact)
    ultimately show ?thesis unfolding word_less_nat_alt by linarith
  qed
  show ?thesis
  proof (cases controlling)
    case True
    then show ?thesis using less [OF assms] sym [of _ _ True] by (simp add: pair_new_def)
  next
    case False
    then show ?thesis
      using less [of b a d c] assms sym [of _ _ True] by (simp add: pair_new_def min.commute)
  qed
qed

definition demo_addr :: "nat \<Rightarrow> socket_addr" where
  "demo_addr n = SockV4 (of_nat n) 5000"

lemma built_new: "0 < component \<Longrightarrow> built (candidate_new kind addr base component)"
  unfolding built_def by blast

theorem pair_ranking_witness:
  "cp_priority (pair_new 1 (candidate_new Host (demo_addr 1) (demo_addr 1) 1) (candidate_new Relay (demo_addr 2) (demo_addr 2) 1) True)
     < cp_priority (pair_new 2 (candidate_new Host (demo_addr 1) (demo_addr 1) 1) (candidate_new Host (demo_addr 3) (demo_addr 3) 1) True)"
proof -
  have *: "built (candidate_new kind (demo_addr n) (demo_addr n) 1)" for kind n by (rule built_new) simp
  have "min (pref (candidate_new Host (demo_addr 1) (demo_addr 1) 1)) (pref (candidate_new Relay (demo_addr 2) (demo_addr 2) 1))
      < min (pref (candidate_new Host (demo_addr 1) (demo_addr 1) 1)) (pref (candidate_new Host (demo_addr 3) (demo_addr 3) 1))"
    by (simp add: pref_def candidate_new_def type_preference_def)
  then show ?thesis using pair_ranking [OF * * * *] by blast
qed

end
