(* ===== verification/Ice_Agent.thy ===== *)
theory Ice_Agent
  imports Stun Ice_Candidate "HOL-Library.Multiset"
begin

text \<open>
  The ICE agent of \<open>src/crates/sh-ice/src/agent.rs\<close> as a state record and one function per method.
  The transport, the random number generator and the hash functions are the operations of an
  \<open>ice_env\<close>; the clock is read by passing the current second to \<open>step\<close>. \<open>handle_binding_request\<close>,
  \<open>handle_binding_response\<close> and \<open>handle_incoming\<close> return \<open>Ok(())\<close> on every path in the source, so
  here they return the new state alone.
\<close>

subsection \<open>Configuration and state\<close>

record turn_server_config =
  ts_addr :: socket_addr
  ts_username :: str
  ts_password :: str

datatype ice_role = Controlling | Controlled

record ice_config =
  ic_stun_servers :: "socket_addr list"
  ic_turn_servers :: "turn_server_config list"
  ic_local_addrs :: "socket_addr list"
  ic_role :: ice_role
  ic_tie_breaker :: u64
  ic_local_ufrag :: str
  ic_local_pwd :: str
  ic_remote_ufrag :: str
  ic_remote_pwd :: str

datatype ice_state = New | Gathering | Checking | Connected | Failed | Restarting

definition CHECK_TIMEOUT_US :: i64 where "CHECK_TIMEOUT_US = 5000000"

record ('t, 'r) ice_agent =
  ia_config :: ice_config
  ia_transport :: 't
  ia_rng :: 'r
  ia_state :: ice_state
  ia_local_candidates :: "candidate list"
  ia_remote_candidates :: "candidate list"
  ia_check_list :: "candidate_pair list"
  ia_nominated_idx :: "nat option"
  ia_checking_started_us :: "i64 option"
  ia_outgoing :: "(bytes \<times> socket_addr) list"
  ia_in_flight :: "(bytes \<times> nat) list"
  ia_next_pair_id :: u64

text \<open>
  \<open>ev_send\<close> is \<open>UdpTransport::send_to\<close>, \<open>ev_recv\<close> is \<open>recv_from\<close> with the buffer before and
  after, \<open>ev_fill\<close> is \<open>RngCore::fill_bytes\<close> for a buffer of the given length.
\<close>

record ('t, 'r) ice_env =
  ev_hash :: stun_hash
  ev_send :: "'t \<Rightarrow> bytes \<Rightarrow> socket_addr \<Rightarrow> 't \<times> (ice_error + unit)"
  ev_recv :: "'t \<Rightarrow> bytes \<Rightarrow> 't \<times> bytes \<times> (ice_error + (nat \<times> socket_addr))"
  ev_fill :: "'r \<Rightarrow> nat \<Rightarrow> 'r \<times> bytes"

definition agent_new :: "ice_config \<Rightarrow> 't \<Rightarrow> 'r \<Rightarrow> ('t, 'r) ice_agent" where
  "agent_new config transport rng =
     \<lparr>ia_config = config, ia_transport = transport, ia_rng = rng, ia_state = New, ia_local_candidates = [],
      ia_remote_candidates = [], ia_check_list = [], ia_nominated_idx = None, ia_checking_started_us = None,
      ia_outgoing = [], ia_in_flight = [], ia_next_pair_id = 0\<rparr>"

text \<open>\<open>iter().position(p)\<close>, and the stable \<open>sort_by_key(|p| Reverse(p.priority))\<close>.\<close>

fun position :: "('a \<Rightarrow> bool) \<Rightarrow> 'a list \<Rightarrow> nat option" where
  "position P [] = None"
| "position P (x # xs) = (if P x then Some 0 else map_option Suc (position P xs))"

definition sort_pairs :: "candidate_pair list \<Rightarrow> candidate_pair list" where
  "sort_pairs ps = sort_key (\<lambda>p. - int (unat (cp_priority p))) ps"

subsection \<open>Candidates\<close>

definition gather :: "('t, 'r) ice_agent \<Rightarrow> ('t, 'r) ice_agent \<times> (ice_error + candidate list)" where
  "gather a =
     (if ic_local_addrs (ia_config a) = []
      then (a\<lparr>ia_state := Failed\<rparr>, Err (GatherFailed ''no local addresses configured''))
      else let locals = map (\<lambda>addr. candidate_new Host addr addr 1) (ic_local_addrs (ia_config a))
        in (a\<lparr>ia_state := Gathering, ia_local_candidates := locals\<rparr>, Ok locals))"

definition mark_nominated :: "candidate_pair \<Rightarrow> candidate_pair" where
  "mark_nominated p = p\<lparr>cp_state := Succeeded, cp_nominated := True\<rparr>"

text \<open>Pairs get consecutive ids from the agent's counter and start in the \<open>Waiting\<close> state.\<close>

fun number_pairs :: "u64 \<Rightarrow> candidate_pair list \<Rightarrow> u64 \<times> candidate_pair list" where
  "number_pairs next_id [] = (next_id, [])"
| "number_pairs next_id (p # ps) =
     (let (n, qs) = number_pairs (sat_add next_id 1) ps
      in (n, p\<lparr>cp_pair_id := next_id, cp_state := Waiting\<rparr> # qs))"

definition same_key :: "candidate_pair \<Rightarrow> candidate_pair \<Rightarrow> bool" where
  "same_key p q \<longleftrightarrow> cd_base (cp_local p) = cd_base (cp_local q) \<and> cd_kind (cp_local p) = cd_kind (cp_local q)
     \<and> cd_addr (cp_remote p) = cd_addr (cp_remote q) \<and> cd_kind (cp_remote p) = cd_kind (cp_remote q)"

definition nominated_pair :: "('t, 'r) ice_agent \<Rightarrow> candidate_pair option" where
  "nominated_pair a = Option.bind (ia_nominated_idx a) (get_at (ia_check_list a))"

definition all_pairs :: "('t, 'r) ice_agent \<Rightarrow> candidate_pair list" where
  "all_pairs a = concat (map (\<lambda>loc. map (\<lambda>rem. pair_new 0 loc rem (ic_role (ia_config a) = Controlling))
     (ia_remote_candidates a)) (ia_local_candidates a))"

definition rebuild_check_list :: "('t, 'r) ice_agent \<Rightarrow> ('t, 'r) ice_agent" where
  "rebuild_check_list a =
     (let (next_id, pairs) = number_pairs (ia_next_pair_id a) (all_pairs a);
          sorted = sort_pairs pairs;
          a1 = a\<lparr>ia_check_list := sorted, ia_in_flight := [], ia_next_pair_id := next_id\<rparr>
      in case nominated_pair a of
           None \<Rightarrow> a1\<lparr>ia_nominated_idx := None\<rparr>
         | Some old \<Rightarrow>
           (case position (\<lambda>p. same_key p old) sorted of
              None \<Rightarrow> a1\<lparr>ia_nominated_idx := None\<rparr>
            | Some idx \<Rightarrow>
              a1\<lparr>ia_check_list := sorted[idx := mark_nominated (sorted ! idx)], ia_nominated_idx := Some idx\<rparr>))"

definition add_remote_candidate :: "('t, 'r) ice_agent \<Rightarrow> candidate \<Rightarrow> ('t, 'r) ice_agent" where
  "add_remote_candidate a c = rebuild_check_list (a\<lparr>ia_remote_candidates := ia_remote_candidates a @ [c]\<rparr>)"

definition show_state :: "ice_state \<Rightarrow> string" where
  "show_state s = (case s of New \<Rightarrow> ''New'' | Gathering \<Rightarrow> ''Gathering'' | Checking \<Rightarrow> ''Checking''
     | Connected \<Rightarrow> ''Connected'' | Failed \<Rightarrow> ''Failed'' | Restarting \<Rightarrow> ''Restarting'')"

definition in_flight_ids :: "('t, 'r) ice_agent \<Rightarrow> (bytes \<times> u64) list" where
  "in_flight_ids a = List.map_filter
     (\<lambda>(tid, idx). map_option (\<lambda>p. (tid, cp_pair_id p)) (get_at (ia_check_list a) idx)) (ia_in_flight a)"

definition extend_check_list :: "('t, 'r) ice_agent \<Rightarrow> candidate \<Rightarrow> ('t, 'r) ice_agent" where
  "extend_check_list a new_local =
     (let flights = in_flight_ids a;
          nominated_id = map_option cp_pair_id (nominated_pair a);
          (next_id, new_pairs) = number_pairs (ia_next_pair_id a)
             (map (\<lambda>rem. pair_new 0 new_local rem (ic_role (ia_config a) = Controlling)) (ia_remote_candidates a));
          sorted = sort_pairs (ia_check_list a @ new_pairs);
          flights' = List.map_filter
             (\<lambda>(tid, pid). map_option (\<lambda>i. (tid, i)) (position (\<lambda>p. cp_pair_id p = pid) sorted)) flights;
          a1 = a\<lparr>ia_check_list := sorted, ia_in_flight := flights', ia_next_pair_id := next_id\<rparr>
      in case nominated_id of
           None \<Rightarrow> a1
         | Some pid \<Rightarrow>
           (case position (\<lambda>p. cp_pair_id p = pid) sorted of
              None \<Rightarrow> a1\<lparr>ia_nominated_idx := None\<rparr>
            | Some idx \<Rightarrow>
              a1\<lparr>ia_check_list := sorted[idx := mark_nominated (sorted ! idx)], ia_nominated_idx := Some idx\<rparr>))"

definition add_relay_candidate ::
  "('t, 'r) ice_agent \<Rightarrow> socket_addr \<Rightarrow> socket_addr \<Rightarrow> ('t, 'r) ice_agent \<times> (ice_error + unit)" where
  "add_relay_candidate a relay_addr base_addr =
     (if ia_state a \<notin> {Gathering, Checking, Connected}
      then (a, Err (CheckFailed (''add_relay_candidate called in invalid state '' @ show_state (ia_state a)
             @ ''; call gather() first and wait for Gathering/Checking/Connected'')))
      else let c = candidate_new Relay relay_addr base_addr 1;
               a1 = a\<lparr>ia_local_candidates := ia_local_candidates a @ [c]\<rparr>
        in (if ia_remote_candidates a1 = [] then a1
            else if ia_state a1 \<in> {Checking, Connected} then extend_check_list a1 c
            else rebuild_check_list a1, Ok ()))"

subsection \<open>Binding requests\<close>

definition generate_tid :: "('t, 'r) ice_env \<Rightarrow> 'r \<Rightarrow> 'r \<times> bytes" where
  "generate_tid e rng = ev_fill e rng 12"

definition build_binding_request ::
  "stun_hash \<Rightarrow> bytes \<Rightarrow> ice_role \<Rightarrow> u64 \<Rightarrow> u32 \<Rightarrow> bool \<Rightarrow> str \<Rightarrow> str \<Rightarrow> bytes \<Rightarrow> ice_error + bytes" where
  "build_binding_request h tid role tie_breaker local_priority nominate local_ufrag remote_ufrag remote_pwd =
     (let msg = new_binding_request tid;
          attrs = [Username (remote_ufrag @ [58] @ local_ufrag), Priority local_priority]
            @ (case role of Controlling \<Rightarrow> [IceControlling tie_breaker] | Controlled \<Rightarrow> [IceControlled tie_breaker])
            @ (if nominate then [UseCandidate] else [])
      in encode_with_integrity h (msg\<lparr>sm_attributes := sm_attributes msg @ attrs\<rparr>) remote_pwd)"

text \<open>A request with the agent's own role and credentials, for the pair at hand.\<close>

definition agent_request :: "('t, 'r) ice_env \<Rightarrow> ('t, 'r) ice_agent \<Rightarrow> bytes \<Rightarrow> candidate_pair \<Rightarrow> bool \<Rightarrow> ice_error + bytes" where
  "agent_request e a tid pair nominate =
     build_binding_request (ev_hash e) tid (ic_role (ia_config a)) (ic_tie_breaker (ia_config a))
       (cd_priority (cp_local pair)) nominate (ic_local_ufrag (ia_config a)) (ic_remote_ufrag (ia_config a))
       (utf8 (ic_remote_pwd (ia_config a)))"

text \<open>Relayed packets are queued for the caller, the others go straight to the transport.\<close>

definition route :: "('t, 'r) ice_env \<Rightarrow> bool \<Rightarrow> bytes \<Rightarrow> socket_addr \<Rightarrow> ('t, 'r) ice_agent \<Rightarrow> ('t, 'r) ice_agent" where
  "route e relayed bs dest a =
     (if relayed then a\<lparr>ia_outgoing := ia_outgoing a @ [(bs, dest)]\<rparr>
      else a\<lparr>ia_transport := fst (ev_send e (ia_transport a) bs dest)\<rparr>)"

definition check_one :: "('t, 'r) ice_env \<Rightarrow> ('t, 'r) ice_agent \<Rightarrow> nat \<Rightarrow> ('t, 'r) ice_agent" where
  "check_one e a idx =
     (let pair = ia_check_list a ! idx in
      if cp_state pair = Waiting then
        let (rng', tid) = generate_tid e (ia_rng a);
            a1 = a\<lparr>ia_check_list := (ia_check_list a)[idx := pair\<lparr>cp_state := InProgress\<rparr>], ia_rng := rng'\<rparr>
        in (case agent_request e a1 tid pair False of
              Inl _ \<Rightarrow> a1
            | Inr bs \<Rightarrow>
              (let a2 = route e (cd_kind (cp_remote pair) = Relay) bs (cd_addr (cp_remote pair)) a1
               in a2\<lparr>ia_in_flight := ia_in_flight a2 @ [(tid, idx)]\<rparr>))
      else a)"

definition check_pairs :: "('t, 'r) ice_env \<Rightarrow> ('t, 'r) ice_agent \<Rightarrow> ('t, 'r) ice_agent \<times> (ice_error + unit)" where
  "check_pairs e a =
     (if ia_check_list a = [] then (a, Err (CheckFailed ''check list is empty''))
      else (foldl (check_one e) a [0..<length (ia_check_list a)], Ok ()))"

subsection \<open>Incoming messages\<close>

text \<open>\<open>u.split_once(':')\<close>.\<close>

definition split_once :: "scalar \<Rightarrow> str \<Rightarrow> (str \<times> str) option" where
  "split_once c s = (if c \<in> set s then Some (takeWhile (\<lambda>x. x \<noteq> c) s, tl (dropWhile (\<lambda>x. x \<noteq> c) s)) else None)"

definition username_matches :: "str \<Rightarrow> stun_attribute \<Rightarrow> bool" where
  "username_matches local_ufrag attr =
     (case attr of Username u \<Rightarrow> (case split_once 58 u of None \<Rightarrow> False | Some (_, local_part) \<Rightarrow> local_part = local_ufrag)
      | _ \<Rightarrow> False)"

definition is_controlling_attr :: "stun_attribute \<Rightarrow> bool" where
  "is_controlling_attr a = (case a of IceControlling _ \<Rightarrow> True | _ \<Rightarrow> False)"

definition nominate_from :: "socket_addr \<Rightarrow> ('t, 'r) ice_agent \<Rightarrow> ('t, 'r) ice_agent" where
  "nominate_from from a =
     (case position (\<lambda>p. cd_addr (cp_remote p) = from) (ia_check_list a) of
        None \<Rightarrow> a
      | Some idx \<Rightarrow> a\<lparr>ia_check_list := (ia_check_list a)[idx := mark_nominated (ia_check_list a ! idx)],
                     ia_nominated_idx := Some idx\<rparr>)"

definition open_to :: "socket_addr \<Rightarrow> candidate_pair \<Rightarrow> bool" where
  "open_to from p \<longleftrightarrow> cd_addr (cp_remote p) = from \<and> (cp_state p = InProgress \<or> cp_state p = Waiting)"

definition triggered_check :: "('t, 'r) ice_env \<Rightarrow> socket_addr \<Rightarrow> nat \<Rightarrow> ('t, 'r) ice_agent \<Rightarrow> ('t, 'r) ice_agent" where
  "triggered_check e from idx a =
     (case get_at (ia_check_list a) idx of
        None \<Rightarrow> a
      | Some pair \<Rightarrow>
        (let should_nominate = (ic_role (ia_config a) = Controlling \<and> ia_nominated_idx a = None);
             (rng', tid) = generate_tid e (ia_rng a);
             a1 = a\<lparr>ia_rng := rng'\<rparr>
         in case agent_request e a1 tid pair should_nominate of
              Inl _ \<Rightarrow> a1
            | Inr bs \<Rightarrow>
              (let a2 = route e (cd_kind (cp_remote pair) = Relay) bs from a1;
                   a3 = a2\<lparr>ia_in_flight := ia_in_flight a2 @ [(tid, idx)]\<rparr>
               in if should_nominate
                  then a3\<lparr>ia_check_list := (ia_check_list a3)[idx := (ia_check_list a3 ! idx)\<lparr>cp_nominated := True\<rparr>],
                          ia_nominated_idx := Some idx\<rparr>
                  else a3)))"

text \<open>The response goes out, USE-CANDIDATE nominates, open pairs to the sender succeed and the first is checked.\<close>

definition answer_request ::
  "('t, 'r) ice_env \<Rightarrow> bytes \<Rightarrow> bool \<Rightarrow> socket_addr \<Rightarrow> ('t, 'r) ice_agent \<Rightarrow> ('t, 'r) ice_agent" where
  "answer_request e resp_bytes use_candidate from a =
     (let is_relay_src = list_ex (\<lambda>p. cd_addr (cp_remote p) = from \<and> cd_kind (cp_remote p) = Relay) (ia_check_list a);
          a1 = route e is_relay_src resp_bytes from a;
          a2 = (if use_candidate then nominate_from from a1 else a1);
          triggered = position (open_to from) (ia_check_list a2);
          a3 = a2\<lparr>ia_check_list := map (\<lambda>p. if open_to from p then p\<lparr>cp_state := Succeeded\<rparr> else p) (ia_check_list a2)\<rparr>
      in case triggered of None \<Rightarrow> a3 | Some idx \<Rightarrow> triggered_check e from idx a3)"

definition handle_binding_request ::
  "('t, 'r) ice_env \<Rightarrow> ('t, 'r) ice_agent \<Rightarrow> bytes \<Rightarrow> stun_message \<Rightarrow> socket_addr \<Rightarrow> ('t, 'r) ice_agent" where
  "handle_binding_request e a raw msg from =
     (let cfg = ia_config a; pwd = utf8 (ic_local_pwd cfg) in
      if \<not> is_ok (verify_integrity (ev_hash e) raw pwd) then a
      else if \<not> list_ex (username_matches (ic_local_ufrag cfg)) (sm_attributes msg) then a
      else
        let use_candidate = (UseCandidate \<in> set (sm_attributes msg) \<and> list_ex is_controlling_attr (sm_attributes msg));
            resp = new_binding_response (sm_transaction_id msg)
        in case encode_with_integrity (ev_hash e) (resp\<lparr>sm_attributes := sm_attributes resp @ [XorMappedAddress from]\<rparr>) pwd of
             Inl _ \<Rightarrow> a
           | Inr resp_bytes \<Rightarrow> answer_request e resp_bytes use_candidate from a)"

text \<open>The pair of a matched response succeeds; a controlling agent without a nomination nominates it.\<close>

definition respond_pair :: "('t, 'r) ice_env \<Rightarrow> ('t, 'r) ice_agent \<Rightarrow> nat \<Rightarrow> socket_addr \<Rightarrow> ('t, 'r) ice_agent" where
  "respond_pair e a pair_idx from =
     (case get_at (ia_check_list a) pair_idx of
        None \<Rightarrow> a
      | Some pair \<Rightarrow>
        if from \<noteq> cd_addr (cp_remote pair) then a
        else
          let pair1 = pair\<lparr>cp_state := Succeeded\<rparr> in
          if ic_role (ia_config a) = Controlling \<and> ia_nominated_idx a = None then
            let (rng', tid) = generate_tid e (ia_rng a);
                a2 = a\<lparr>ia_check_list := (ia_check_list a)[pair_idx := pair1\<lparr>cp_nominated := True\<rparr>],
                       ia_nominated_idx := Some pair_idx, ia_rng := rng'\<rparr>
            in (case agent_request e a2 tid pair True of
                  Inl _ \<Rightarrow> a2
                | Inr bs \<Rightarrow>
                  (let a3 = route e (cd_kind (cp_remote pair) = Relay) bs from a2
                   in a3\<lparr>ia_in_flight := ia_in_flight a3 @ [(tid, pair_idx)]\<rparr>))
          else a\<lparr>ia_check_list := (ia_check_list a)[pair_idx := pair1]\<rparr>)"

definition handle_binding_response ::
  "('t, 'r) ice_env \<Rightarrow> ('t, 'r) ice_agent \<Rightarrow> bytes \<Rightarrow> stun_message \<Rightarrow> socket_addr \<Rightarrow> ('t, 'r) ice_agent" where
  "handle_binding_response e a raw msg from =
     (if \<not> is_ok (verify_integrity (ev_hash e) raw (utf8 (ic_remote_pwd (ia_config a)))) then a
      else case position (\<lambda>(tid, _). tid = sm_transaction_id msg) (ia_in_flight a) of
        None \<Rightarrow> a
      | Some pos \<Rightarrow>
        respond_pair e (a\<lparr>ia_in_flight := take pos (ia_in_flight a) @ drop (Suc pos) (ia_in_flight a)\<rparr>)
          (snd (ia_in_flight a ! pos)) from)"

definition handle_incoming ::
  "('t, 'r) ice_env \<Rightarrow> ('t, 'r) ice_agent \<Rightarrow> bytes \<Rightarrow> socket_addr \<Rightarrow> ('t, 'r) ice_agent" where
  "handle_incoming e a data from =
     (case stun_decode data of
        Inl _ \<Rightarrow> a
      | Inr msg \<Rightarrow>
        (case sm_class msg of
           Request \<Rightarrow> handle_binding_request e a data msg from
         | SuccessResponse \<Rightarrow> handle_binding_response e a data msg from
         | ErrorResponse \<Rightarrow> a
         | Indication \<Rightarrow> a))"

fun drain_loop :: "('t, 'r) ice_env \<Rightarrow> nat \<Rightarrow> bytes \<Rightarrow> ('t, 'r) ice_agent \<Rightarrow> ('t, 'r) ice_agent" where
  "drain_loop e 0 buf a = a"
| "drain_loop e (Suc n) buf a =
     (case ev_recv e (ia_transport a) buf of
        (t, buf', Inl _) \<Rightarrow> a\<lparr>ia_transport := t\<rparr>
      | (t, buf', Inr (len, from)) \<Rightarrow>
        (let a1 = a\<lparr>ia_transport := t\<rparr>;
             a2 = (case get_range 0 len buf' of None \<Rightarrow> a1 | Some data \<Rightarrow> handle_incoming e a1 data from)
         in drain_loop e n buf' a2))"

definition drain_transport_inbox :: "('t, 'r) ice_env \<Rightarrow> ('t, 'r) ice_agent \<Rightarrow> ('t, 'r) ice_agent" where
  "drain_transport_inbox e a = drain_loop e 64 (replicate 2048 0) a"

subsection \<open>The state machine\<close>

definition i64_sat_mul :: "i64 \<Rightarrow> i64 \<Rightarrow> i64" where
  "i64_sat_mul x y = word_of_int (i64_clamp (sint x * sint y))"

definition finish_step :: "(bytes \<times> socket_addr) list \<Rightarrow> ('t, 'r) ice_agent \<Rightarrow>
    ('t, 'r) ice_agent \<times> (ice_error + (bytes \<times> socket_addr) list)" where
  "finish_step out a = (a\<lparr>ia_outgoing := []\<rparr>, Ok (out @ ia_outgoing a))"

definition checking_step :: "('t, 'r) ice_env \<Rightarrow> i64 \<Rightarrow> (bytes \<times> socket_addr) list \<Rightarrow> ('t, 'r) ice_agent \<Rightarrow>
    ('t, 'r) ice_agent \<times> (ice_error + (bytes \<times> socket_addr) list)" where
  "checking_step e now out a =
     (let a1 = fst (check_pairs e a);
          a2 = drain_transport_inbox e a1;
          now_us = i64_sat_mul now 1000000
      in if (case ia_checking_started_us a2 of None \<Rightarrow> False
             | Some started \<Rightarrow> sint (i64_sat_sub now_us started) > sint CHECK_TIMEOUT_US)
         then (a2\<lparr>ia_state := Failed\<rparr>, Err IceTimeout)
         else finish_step out (if ia_nominated_idx a2 \<noteq> None then a2\<lparr>ia_state := Connected\<rparr> else a2))"

definition agent_step :: "('t, 'r) ice_env \<Rightarrow> i64 \<Rightarrow> ('t, 'r) ice_agent \<Rightarrow> (bytes \<times> socket_addr) option \<Rightarrow>
    ('t, 'r) ice_agent \<times> (ice_error + (bytes \<times> socket_addr) list)" where
  "agent_step e now a incoming =
     (let a1 = (case incoming of None \<Rightarrow> a | Some (data, from) \<Rightarrow> handle_incoming e a data from);
          a2 = drain_transport_inbox e a1;
          out = ia_outgoing a2;
          a3 = a2\<lparr>ia_outgoing := []\<rparr>
      in case ia_state a3 of
           New \<Rightarrow>
             (if ic_local_addrs (ia_config a3) \<noteq> [] then
                (case gather a3 of (a4, Inl er) \<Rightarrow> (a4, Err er) | (a4, Inr _) \<Rightarrow> finish_step out a4)
              else finish_step out a3)
         | Gathering \<Rightarrow>
             (if ia_remote_candidates a3 \<noteq> [] then
                let a4 = rebuild_check_list a3
                in finish_step out (a4\<lparr>ia_state := Checking, ia_checking_started_us := Some (i64_sat_mul now 1000000)\<rparr>)
              else finish_step out a3)
         | Checking \<Rightarrow> checking_step e now out a3
         | Failed \<Rightarrow> finish_step out (a3\<lparr>ia_state := Restarting\<rparr>)
         | Restarting \<Rightarrow>
             finish_step out (a3\<lparr>ia_state := New, ia_local_candidates := [], ia_remote_candidates := [], ia_check_list := [],
               ia_nominated_idx := None, ia_checking_started_us := None, ia_in_flight := []\<rparr>)
         | Connected \<Rightarrow> finish_step out a3)"

subsection \<open>Positions and sorting\<close>

lemma position_Some: "position P xs = Some i \<Longrightarrow> i < length xs \<and> P (xs ! i)"
  by (induction xs arbitrary: i) (auto split: if_splits)

lemma position_None: "position P xs = None \<longleftrightarrow> (\<forall>x \<in> set xs. \<not> P x)"
  by (induction xs) auto

lemma position_ex: "x \<in> set xs \<Longrightarrow> P x \<Longrightarrow> \<exists>i. position P xs = Some i"
  using position_None [of P xs] by (cases "position P xs") auto

lemma position_unique: "distinct (map f xs) \<Longrightarrow> i < length xs \<Longrightarrow> position (\<lambda>x. f x = f (xs ! i)) xs = Some i"
proof -
  assume d: "distinct (map f xs)" and i: "i < length xs"
  then obtain j where j: "position (\<lambda>x. f x = f (xs ! i)) xs = Some j"
    using position_ex [of "xs ! i" xs "\<lambda>x. f x = f (xs ! i)"] by auto
  have "map f xs ! j = map f xs ! i" "j < length xs" using position_Some [OF j] i by auto
  then show ?thesis using i j nth_eq_iff_index_eq [OF d, of j i] by simp
qed

lemma set_sort_pairs [simp]: "set (sort_pairs ps) = set ps" and length_sort_pairs [simp]: "length (sort_pairs ps) = length ps"
  and mset_sort_pairs: "mset (sort_pairs ps) = mset ps"
  by (simp_all add: sort_pairs_def)

definition ranked :: "candidate_pair list \<Rightarrow> bool" where
  "ranked ps \<longleftrightarrow> sorted (map (\<lambda>p. - int (unat (cp_priority p))) ps)"

lemma ranked_sort_pairs: "ranked (sort_pairs ps)"
  by (simp add: ranked_def sort_pairs_def)

lemma ranked_update: "cp_priority q = cp_priority (ps ! i) \<Longrightarrow> ranked ps \<Longrightarrow> ranked (ps[i := q])"
  by (cases "i < length ps") (simp_all add: ranked_def map_update list_update_beyond list_update_same_conv [THEN iffD2])

lemma ranked_map: "(\<And>p. cp_priority (f p) = cp_priority p) \<Longrightarrow> ranked (map f ps) = ranked ps"
  by (simp add: ranked_def comp_def)

subsection \<open>What every method keeps\<close>

text \<open>The pairs an update leaves recognisable: same id, same candidates, same priority.\<close>

definition same_pair :: "candidate_pair \<Rightarrow> candidate_pair \<Rightarrow> bool" where
  "same_pair p q \<longleftrightarrow> cp_pair_id p = cp_pair_id q \<and> cp_local p = cp_local q \<and> cp_remote p = cp_remote q
     \<and> cp_priority p = cp_priority q"

definition same_list :: "candidate_pair list \<Rightarrow> candidate_pair list \<Rightarrow> bool" where
  "same_list ps qs \<longleftrightarrow> list_all2 same_pair ps qs"

definition idx_ok :: "('t, 'r) ice_agent \<Rightarrow> bool" where
  "idx_ok a \<longleftrightarrow>
     (\<forall>i. ia_nominated_idx a = Some i \<longrightarrow> i < length (ia_check_list a) \<and> cp_nominated (ia_check_list a ! i)
        \<and> cp_state (ia_check_list a ! i) = Succeeded)
     \<and> (\<forall>tid i. (tid, i) \<in> set (ia_in_flight a) \<longrightarrow> i < length (ia_check_list a))"

definition pairs_from :: "('t, 'r) ice_agent \<Rightarrow> candidate_pair list \<Rightarrow> bool" where
  "pairs_from a ps \<longleftrightarrow> (\<forall>p \<in> set ps. cp_local p \<in> set (ia_local_candidates a) \<and> cp_remote p \<in> set (ia_remote_candidates a))"

text \<open>
  The well-formedness of an agent: indices point into the check list, the nominated pair is marked
  and has succeeded, the list is ranked, and in the checking and connected states the pairs come from the current
  candidates, with a nominated one once connected.
\<close>

definition agent_inv :: "('t, 'r) ice_agent \<Rightarrow> bool" where
  "agent_inv a \<longleftrightarrow> idx_ok a \<and> ranked (ia_check_list a)
     \<and> (ia_state a \<in> {Checking, Connected} \<longrightarrow> pairs_from a (ia_check_list a))
     \<and> (ia_state a = Connected \<longrightarrow> ia_nominated_idx a \<noteq> None)"

text \<open>Message handling changes the check list only pair by pair and never drops the nomination.\<close>

definition evolves :: "('t, 'r) ice_agent \<Rightarrow> ('t, 'r) ice_agent \<Rightarrow> bool" where
  "evolves a b \<longleftrightarrow> ia_config b = ia_config a \<and> ia_state b = ia_state a
     \<and> ia_local_candidates b = ia_local_candidates a \<and> ia_remote_candidates b = ia_remote_candidates a
     \<and> ia_next_pair_id b = ia_next_pair_id a \<and> ia_checking_started_us b = ia_checking_started_us a
     \<and> same_list (ia_check_list a) (ia_check_list b)
     \<and> (ia_nominated_idx a \<noteq> None \<longrightarrow> ia_nominated_idx b \<noteq> None)"

lemma same_pair_refl [simp]: "same_pair p p"
  by (simp add: same_pair_def)

lemma same_list_refl [simp]: "same_list ps ps"
  by (simp add: same_list_def list_all2_refl)

lemma same_list_length: "same_list ps qs \<Longrightarrow> length qs = length ps"
  by (simp add: same_list_def list_all2_lengthD)

lemma same_list_nth: "same_list ps qs \<Longrightarrow> i < length ps \<Longrightarrow> same_pair (ps ! i) (qs ! i)"
  by (simp add: same_list_def list_all2_nthD)

lemma same_list_update: "i < length ps \<Longrightarrow> same_pair (ps ! i) q \<Longrightarrow> same_list ps (ps[i := q])"
  by (simp add: same_list_def list_all2_conv_all_nth nth_list_update)

lemma same_list_map: "(\<And>p. same_pair p (f p)) \<Longrightarrow> same_list ps (map f ps)"
  by (simp add: same_list_def list_all2_conv_all_nth)

lemma same_list_trans: "same_list ps qs \<Longrightarrow> same_list qs rs \<Longrightarrow> same_list ps rs"
  by (auto simp: same_list_def list_all2_conv_all_nth same_pair_def)

lemma same_list_ranked: "same_list ps qs \<Longrightarrow> ranked qs = ranked ps"
proof -
  assume "same_list ps qs"
  then have "map (\<lambda>p. - int (unat (cp_priority p))) qs = map (\<lambda>p. - int (unat (cp_priority p))) ps"
    by (intro nth_equalityI) (auto simp: same_list_length same_pair_def dest: same_list_nth)
  then show ?thesis by (simp add: ranked_def)
qed

lemma evolves_refl [simp]: "evolves a a"
  by (simp add: evolves_def)

lemma evolves_trans: "evolves a b \<Longrightarrow> evolves b c \<Longrightarrow> evolves a c"
  by (auto simp: evolves_def intro: same_list_trans)

lemma same_list_from: "same_list ps qs \<Longrightarrow> pairs_from a ps \<Longrightarrow> pairs_from a qs"
  by (auto simp: pairs_from_def same_list_def same_pair_def list_all2_conv_all_nth in_set_conv_nth Ball_def) metis+

lemma pairs_from_cong:
  "ia_local_candidates b = ia_local_candidates a \<Longrightarrow> ia_remote_candidates b = ia_remote_candidates a \<Longrightarrow> pairs_from b = pairs_from a"
  by (simp add: pairs_from_def fun_eq_iff)

lemma evolves_inv:
  assumes "evolves a b" and "idx_ok b" and "agent_inv a"
  shows "agent_inv b"
  using assms same_list_ranked [of "ia_check_list a" "ia_check_list b"] same_list_from [of "ia_check_list a" "ia_check_list b" a]
    pairs_from_cong [of b a] by (auto simp: agent_inv_def evolves_def)

lemma route_evolves: "evolves a (route e r bs d a)" "idx_ok (route e r bs d a) = idx_ok a"
    "ia_check_list (route e r bs d a) = ia_check_list a" "ia_nominated_idx (route e r bs d a) = ia_nominated_idx a"
    "ia_in_flight (route e r bs d a) = ia_in_flight a" "ia_config (route e r bs d a) = ia_config a"
  by (simp_all add: route_def evolves_def idx_ok_def)

lemma nominate_from_evolves:
  assumes "idx_ok a"
  shows "evolves a (nominate_from from a) \<and> idx_ok (nominate_from from a)"
proof (cases "position (\<lambda>p. cd_addr (cp_remote p) = from) (ia_check_list a)")
  case None
  then show ?thesis using assms by (simp add: nominate_from_def)
next
  case (Some i)
  then have i: "i < length (ia_check_list a)" using position_Some by blast
  then have "same_list (ia_check_list a) ((ia_check_list a)[i := mark_nominated (ia_check_list a ! i)])"
    by (intro same_list_update) (simp_all add: same_pair_def mark_nominated_def)
  then show ?thesis using assms Some i by (simp add: nominate_from_def evolves_def idx_ok_def mark_nominated_def)
qed

lemma triggered_check_evolves:
  assumes "idx_ok a" and succ: "idx < length (ia_check_list a) \<Longrightarrow> cp_state (ia_check_list a ! idx) = Succeeded"
  shows "evolves a (triggered_check e from idx a) \<and> idx_ok (triggered_check e from idx a)"
proof (cases "get_at (ia_check_list a) idx")
  case None
  then show ?thesis using assms by (simp add: triggered_check_def)
next
  case (Some pair)
  then have i: "idx < length (ia_check_list a)" by (simp add: get_at_def split: if_splits)
  have same: "same_list (ia_check_list a) ((ia_check_list a)[idx := (ia_check_list a ! idx)\<lparr>cp_nominated := True\<rparr>])"
    using i by (intro same_list_update) (simp_all add: same_pair_def)
  obtain rng' tid where g: "generate_tid e (ia_rng a) = (rng', tid)" by (cases "generate_tid e (ia_rng a)")
  define nom where "nom = (ic_role (ia_config a) = Controlling \<and> ia_nominated_idx a = None)"
  define a1 where "a1 = a\<lparr>ia_rng := rng'\<rparr>"
  have a1: "evolves a a1" "idx_ok a1" using assms(1) by (simp_all add: a1_def evolves_def idx_ok_def)
  show ?thesis
  proof (cases "agent_request e a1 tid pair nom")
    case (Inl er)
    then show ?thesis using a1 Some g by (simp add: triggered_check_def nom_def a1_def)
  next
    case (Inr bs)
    let ?a2 = "route e (cd_kind (cp_remote pair) = Relay) bs from a1"
    have r: "evolves a1 ?a2" "ia_check_list ?a2 = ia_check_list a" "ia_nominated_idx ?a2 = ia_nominated_idx a"
        "ia_in_flight ?a2 = ia_in_flight a" by (simp_all add: route_evolves, simp_all add: a1_def)
    have "triggered_check e from idx a =
       (if nom then ?a2\<lparr>ia_in_flight := ia_in_flight ?a2 @ [(tid, idx)],
            ia_check_list := (ia_check_list ?a2)[idx := (ia_check_list ?a2 ! idx)\<lparr>cp_nominated := True\<rparr>],
            ia_nominated_idx := Some idx\<rparr>
        else ?a2\<lparr>ia_in_flight := ia_in_flight ?a2 @ [(tid, idx)]\<rparr>)"
      using Inr Some g by (simp add: triggered_check_def nom_def a1_def Let_def)
    then show ?thesis
      using evolves_trans [OF a1(1) r(1)] r(2-4) same i assms(1) succ [OF i] by (auto simp: evolves_def idx_ok_def nth_list_update)
  qed
qed

lemma answer_request_evolves:
  assumes "idx_ok a"
  shows "evolves a (answer_request e bs use_candidate from a) \<and> idx_ok (answer_request e bs use_candidate from a)"
proof -
  define a1 where "a1 = route e (list_ex (\<lambda>p. cd_addr (cp_remote p) = from \<and> cd_kind (cp_remote p) = Relay) (ia_check_list a)) bs from a"
  define a2 where "a2 = (if use_candidate then nominate_from from a1 else a1)"
  define a3 where "a3 = a2\<lparr>ia_check_list := map (\<lambda>p. if open_to from p then p\<lparr>cp_state := Succeeded\<rparr> else p) (ia_check_list a2)\<rparr>"
  have h: "answer_request e bs use_candidate from a =
     (case position (open_to from) (ia_check_list a2) of None \<Rightarrow> a3 | Some idx \<Rightarrow> triggered_check e from idx a3)"
    unfolding answer_request_def Let_def a3_def a2_def a1_def by (rule refl)
  have 1: "evolves a a1" "idx_ok a1" using assms by (simp_all add: a1_def route_evolves)
  have 2: "evolves a1 a2" "idx_ok a2" using nominate_from_evolves [OF 1(2)] 1(2) by (simp_all add: a2_def)
  have "same_list (ia_check_list a2) (ia_check_list a3)"
    unfolding a3_def by simp (intro same_list_map, simp add: same_pair_def)
  then have 3: "evolves a2 a3" "idx_ok a3" using 2(2) by (auto simp: a3_def evolves_def idx_ok_def)
  have "evolves a a3" using 1 2 3 evolves_trans by blast
  moreover have "cp_state (ia_check_list a3 ! idx) = Succeeded" if "position (open_to from) (ia_check_list a2) = Some idx" for idx
    using position_Some [OF that] by (simp add: a3_def)
  ultimately show ?thesis
    unfolding h using 3(2) triggered_check_evolves [OF 3(2)] evolves_trans [of a a3]
    by (cases "position (open_to from) (ia_check_list a2)") simp_all
qed

lemma handle_binding_request_evolves:
  assumes "idx_ok a"
  shows "evolves a (handle_binding_request e a raw msg from) \<and> idx_ok (handle_binding_request e a raw msg from)"
  using assms answer_request_evolves [OF assms] by (auto simp: handle_binding_request_def Let_def split: sum.splits)

lemma flights_remove: "idx_ok a \<Longrightarrow> idx_ok (a\<lparr>ia_in_flight := take n (ia_in_flight a) @ drop m (ia_in_flight a)\<rparr>)"
  by (auto simp: idx_ok_def dest: in_set_takeD in_set_dropD)

lemma respond_pair_evolves:
  assumes "idx_ok a"
  shows "evolves a (respond_pair e a i from) \<and> idx_ok (respond_pair e a i from)"
proof (cases "get_at (ia_check_list a) i")
  case None
  then show ?thesis using assms by (simp add: respond_pair_def)
next
  case (Some pair)
  then have i: "i < length (ia_check_list a)" "ia_check_list a ! i = pair" by (auto simp: get_at_def split: if_splits)
  have same: "same_list (ia_check_list a) ((ia_check_list a)[i := pair\<lparr>cp_state := Succeeded\<rparr>])"
    "same_list (ia_check_list a) ((ia_check_list a)[i := pair\<lparr>cp_state := Succeeded, cp_nominated := True\<rparr>])"
    using i by (simp_all add: same_list_update same_pair_def)
  obtain rng' tid where g: "generate_tid e (ia_rng a) = (rng', tid)" by (cases "generate_tid e (ia_rng a)")
  define a2 where "a2 = a\<lparr>ia_check_list := (ia_check_list a)[i := pair\<lparr>cp_state := Succeeded, cp_nominated := True\<rparr>],
     ia_nominated_idx := Some i, ia_rng := rng'\<rparr>"
  have a2: "evolves a a2" "idx_ok a2" using same(2) i assms by (simp_all add: a2_def evolves_def idx_ok_def)
  have push: "evolves a (b\<lparr>ia_in_flight := ia_in_flight b @ [(tid, i)]\<rparr>) \<and> idx_ok (b\<lparr>ia_in_flight := ia_in_flight b @ [(tid, i)]\<rparr>)"
    if "evolves a b" "idx_ok b" for b
    using that i same_list_length [of "ia_check_list a" "ia_check_list b"] by (auto simp: evolves_def idx_ok_def)
  show ?thesis
  proof (cases "from = cd_addr (cp_remote pair) \<and> ic_role (ia_config a) = Controlling \<and> ia_nominated_idx a = None")
    case True
    show ?thesis
    proof (cases "agent_request e a2 tid pair True")
      case (Inl er)
      then have "respond_pair e a i from = a2" using True Some g by (simp add: respond_pair_def a2_def)
      then show ?thesis using a2 by simp
    next
      case (Inr bs)
      let ?a3 = "route e (cd_kind (cp_remote pair) = Relay) bs from a2"
      have "respond_pair e a i from = ?a3\<lparr>ia_in_flight := ia_in_flight ?a3 @ [(tid, i)]\<rparr>"
        using Inr True Some g by (simp add: respond_pair_def a2_def Let_def)
      moreover have "evolves a ?a3" using a2(1) route_evolves(1) by (rule evolves_trans)
      ultimately show ?thesis using push [of ?a3] a2(2) by (simp add: route_evolves(2))
    qed
  next
    case False
    then have "respond_pair e a i from = a \<or> respond_pair e a i from = a\<lparr>ia_check_list := (ia_check_list a)[i := pair\<lparr>cp_state := Succeeded\<rparr>]\<rparr>"
      using Some by (auto simp: respond_pair_def Let_def)
    then show ?thesis using assms same(1) i by (auto simp: evolves_def idx_ok_def nth_list_update)
  qed
qed

lemma handle_binding_response_evolves:
  assumes "idx_ok a"
  shows "evolves a (handle_binding_response e a raw msg from) \<and> idx_ok (handle_binding_response e a raw msg from)"
proof (cases "is_ok (verify_integrity (ev_hash e) raw (utf8 (ic_remote_pwd (ia_config a))))
    \<and> position (\<lambda>(tid, _). tid = sm_transaction_id msg) (ia_in_flight a) \<noteq> None")
  case False
  then have "handle_binding_response e a raw msg from = a" by (auto simp: handle_binding_response_def Let_def)
  then show ?thesis using assms by simp
next
  case True
  then obtain pos where pos: "position (\<lambda>(tid, _). tid = sm_transaction_id msg) (ia_in_flight a) = Some pos" by auto
  define i where "i = snd (ia_in_flight a ! pos)"
  define a1 where "a1 = a\<lparr>ia_in_flight := take pos (ia_in_flight a) @ drop (Suc pos) (ia_in_flight a)\<rparr>"
  have a1: "evolves a a1" "idx_ok a1" using flights_remove [OF assms] by (simp_all add: a1_def evolves_def)
  have h: "handle_binding_response e a raw msg from = respond_pair e a1 i from"
    using True pos by (simp add: handle_binding_response_def i_def a1_def)
  show ?thesis unfolding h using respond_pair_evolves [OF a1(2)] a1(1) evolves_trans by blast
qed

lemma handle_incoming_evolves:
  "idx_ok a \<Longrightarrow> evolves a (handle_incoming e a data from) \<and> idx_ok (handle_incoming e a data from)"
  by (auto simp: handle_incoming_def handle_binding_request_evolves handle_binding_response_evolves
      split: sum.splits stun_class.splits)

lemma drain_loop_evolves: "idx_ok a \<Longrightarrow> evolves a (drain_loop e n buf a) \<and> idx_ok (drain_loop e n buf a)"
proof (induction n arbitrary: buf a)
  case (Suc n)
  obtain t buf' r where r: "ev_recv e (ia_transport a) buf = (t, buf', r)" by (cases "ev_recv e (ia_transport a) buf")
  have 1: "evolves a (a\<lparr>ia_transport := t\<rparr>)" "idx_ok (a\<lparr>ia_transport := t\<rparr>)"
    using Suc.prems by (simp_all add: evolves_def idx_ok_def)
  show ?case
  proof (cases r)
    case (Inl er)
    then show ?thesis using 1 r by simp
  next
    case (Inr lf)
    obtain len src where lf: "lf = (len, src)" by (cases lf)
    define a2 where "a2 = (case get_range 0 len buf' of None \<Rightarrow> a\<lparr>ia_transport := t\<rparr> | Some data \<Rightarrow> handle_incoming e (a\<lparr>ia_transport := t\<rparr>) data src)"
    have "evolves a a2" "idx_ok a2"
      using 1 handle_incoming_evolves [OF 1(2)] evolves_trans [OF 1(1)] by (auto simp: a2_def split: option.splits)
    moreover have "drain_loop e (Suc n) buf a = drain_loop e n buf' a2" using r Inr lf by (simp add: a2_def Let_def)
    ultimately show ?thesis using Suc.IH evolves_trans by metis
  qed
qed simp

lemma check_one_evolves:
  assumes "idx_ok a" and "i < length (ia_check_list a)"
  shows "evolves a (check_one e a i) \<and> idx_ok (check_one e a i)"
proof (cases "cp_state (ia_check_list a ! i) = Waiting")
  case False
  then show ?thesis using assms by (simp add: check_one_def)
next
  case True
  let ?pair = "ia_check_list a ! i"
  obtain rng' tid where g: "generate_tid e (ia_rng a) = (rng', tid)" by (cases "generate_tid e (ia_rng a)")
  define a1 where "a1 = a\<lparr>ia_check_list := (ia_check_list a)[i := ?pair\<lparr>cp_state := InProgress\<rparr>], ia_rng := rng'\<rparr>"
  have "same_list (ia_check_list a) (ia_check_list a1)"
    using assms(2) by (simp add: a1_def same_list_update same_pair_def)
  then have a1: "evolves a a1" "idx_ok a1" using assms True by (auto simp: a1_def evolves_def idx_ok_def nth_list_update)
  show ?thesis
  proof (cases "agent_request e a1 tid ?pair False")
    case (Inl er)
    then have "check_one e a i = a1" using True g by (simp add: check_one_def a1_def)
    then show ?thesis using a1 by simp
  next
    case (Inr bs)
    let ?a2 = "route e (cd_kind (cp_remote ?pair) = Relay) bs (cd_addr (cp_remote ?pair)) a1"
    have "check_one e a i = ?a2\<lparr>ia_in_flight := ia_in_flight ?a2 @ [(tid, i)]\<rparr>"
      using Inr True g by (simp add: check_one_def a1_def Let_def)
    moreover have "evolves a ?a2" using a1(1) route_evolves(1) by (rule evolves_trans)
    moreover have "i < length (ia_check_list ?a2)" using assms(2) by (simp add: route_evolves a1_def)
    ultimately show ?thesis using a1(2) route_evolves(2) [of e "cd_kind (cp_remote ?pair) = Relay" bs "cd_addr (cp_remote ?pair)" a1]
      by (auto simp: evolves_def idx_ok_def)
  qed
qed

lemma check_all_evolves:
  "idx_ok a \<Longrightarrow> \<forall>i \<in> set is. i < length (ia_check_list a) \<Longrightarrow>
    evolves a (foldl (check_one e) a is) \<and> idx_ok (foldl (check_one e) a is)"
proof (induction "is" arbitrary: a)
  case (Cons i js)
  have 1: "evolves a (check_one e a i)" "idx_ok (check_one e a i)" using check_one_evolves Cons.prems by auto
  then have "length (ia_check_list (check_one e a i)) = length (ia_check_list a)"
    by (simp add: evolves_def same_list_length)
  then show ?case using Cons.IH [OF 1(2)] Cons.prems 1(1) evolves_trans by auto
qed simp

lemma check_pairs_evolves: "idx_ok a \<Longrightarrow> evolves a (fst (check_pairs e a)) \<and> idx_ok (fst (check_pairs e a))"
  using check_all_evolves [of a "[0..<length (ia_check_list a)]"] by (simp add: check_pairs_def)

end
