(* ===== verification/Ice_Invariant.thy ===== *)
theory Ice_Invariant
  imports Ice_Agent
begin

text \<open>
  The invariant of the ICE agent over every sequence of its methods: rebuilding and extending the
  check list, the state machine of \<open>step\<close>, and what these keep of the nomination and of the
  transactions in flight.
\<close>

subsection \<open>Rebuilding and extending the check list\<close>

lemma number_pairs_parts:
  "map cp_local (snd (number_pairs n ps)) = map cp_local ps" "map cp_remote (snd (number_pairs n ps)) = map cp_remote ps"
  by (induction n ps rule: number_pairs.induct) (auto split: prod.splits simp: Let_def)

lemma number_pairs_in: "p \<in> set (snd (number_pairs n ps)) \<Longrightarrow> cp_local p \<in> set (map cp_local ps) \<and> cp_remote p \<in> set (map cp_remote ps)"
  using number_pairs_parts [of n ps] by (metis image_eqI list.set_map)

lemma number_pairs_key: "(\<forall>p \<in> set (snd (number_pairs n ps)). \<not> same_key p old) \<longleftrightarrow> (\<forall>p \<in> set ps. \<not> same_key p old)"
  by (induction n ps rule: number_pairs.induct) (auto split: prod.splits simp: Let_def same_key_def)

lemma all_pairs_iff:
  "p \<in> set (all_pairs a) \<longleftrightarrow> (\<exists>loc \<in> set (ia_local_candidates a). \<exists>rem \<in> set (ia_remote_candidates a).
     p = pair_new 0 loc rem (ic_role (ia_config a) = Controlling))"
  by (auto simp: all_pairs_def)

lemma all_pairs_parts: "p \<in> set (all_pairs a) \<Longrightarrow> cp_local p \<in> set (ia_local_candidates a) \<and> cp_remote p \<in> set (ia_remote_candidates a)"
  by (auto simp: all_pairs_iff pair_new_def)

lemma pairs_from_all: "pairs_from a (snd (number_pairs n (all_pairs a)))"
  using number_pairs_in [of _ n "all_pairs a"] all_pairs_parts [of _ a] by (fastforce simp: pairs_from_def)

text \<open>Sorting, then marking the pair found again, is common to both ways of changing the list.\<close>

definition mark_at :: "nat option \<Rightarrow> candidate_pair list \<Rightarrow> candidate_pair list" where
  "mark_at idx ps = (case idx of None \<Rightarrow> ps | Some i \<Rightarrow> ps[i := mark_nominated (ps ! i)])"

lemma mark_at_same: "(\<And>i. idx = Some i \<Longrightarrow> i < length ps) \<Longrightarrow> same_list ps (mark_at idx ps)"
  by (cases idx) (simp_all add: mark_at_def same_list_update same_pair_def mark_nominated_def)

lemma mark_at_marks: "i < length ps \<Longrightarrow> cp_nominated (mark_at (Some i) ps ! i) \<and> cp_state (mark_at (Some i) ps ! i) = Succeeded"
  by (simp add: mark_at_def mark_nominated_def)

lemma rebuild_eq:
  assumes "number_pairs (ia_next_pair_id a) (all_pairs a) = (next_id, pairs)"
    and "idx = Option.bind (nominated_pair a) (\<lambda>old. position (\<lambda>p. same_key p old) (sort_pairs pairs))"
  shows "rebuild_check_list a = a\<lparr>ia_check_list := mark_at idx (sort_pairs pairs), ia_nominated_idx := idx,
     ia_in_flight := [], ia_next_pair_id := next_id\<rparr>"
  using assms(1) unfolding assms(2)
  by (cases "nominated_pair a"; simp add: rebuild_check_list_def mark_at_def Let_def split: option.splits)

lemma rebuild_list:
  fixes a :: "('t, 'r) ice_agent"
  obtains idx next_id ps where "rebuild_check_list a = a\<lparr>ia_check_list := ps, ia_nominated_idx := idx, ia_in_flight := [], ia_next_pair_id := next_id\<rparr>"
    and "pairs_from a ps" and "ranked ps" and "idx_ok (rebuild_check_list a)"
    and "idx = None \<longleftrightarrow> (\<forall>old. nominated_pair a = Some old \<longrightarrow> (\<forall>p \<in> set (all_pairs a). \<not> same_key p old))"
proof -
  obtain next_id pairs where n: "number_pairs (ia_next_pair_id a) (all_pairs a) = (next_id, pairs)"
    by (cases "number_pairs (ia_next_pair_id a) (all_pairs a)")
  define idx where "idx = Option.bind (nominated_pair a) (\<lambda>old. position (\<lambda>p. same_key p old) (sort_pairs pairs))"
  have bound: "i < length (sort_pairs pairs)" if "idx = Some i" for i
    using that position_Some [of _ "sort_pairs pairs" i] by (auto simp: idx_def bind_eq_Some_conv)
  have same: "same_list (sort_pairs pairs) (mark_at idx (sort_pairs pairs))" using bound by (rule mark_at_same)
  have eq: "rebuild_check_list a = a\<lparr>ia_check_list := mark_at idx (sort_pairs pairs), ia_nominated_idx := idx, ia_in_flight := [], ia_next_pair_id := next_id\<rparr>"
    by (rule rebuild_eq [OF n idx_def])
  have f: "pairs_from a (sort_pairs pairs)" using pairs_from_all [of a "ia_next_pair_id a"] n by (simp add: pairs_from_def)
  have i: "idx_ok (rebuild_check_list a)"
    unfolding eq using bound mark_at_marks [of _ "sort_pairs pairs"] same_list_length [OF same] by (auto simp: idx_ok_def)
  have k: "idx = None \<longleftrightarrow> (\<forall>old. nominated_pair a = Some old \<longrightarrow> (\<forall>p \<in> set (all_pairs a). \<not> same_key p old))"
    using number_pairs_key [of "ia_next_pair_id a" "all_pairs a"] n
    by (cases "nominated_pair a" rule: option.exhaust) (simp_all add: idx_def position_None)
  show thesis
    by (rule that [OF eq same_list_from [OF same f] _ i k]) (simp add: same_list_ranked [OF same] ranked_sort_pairs)
qed

lemma agent_inv_nominated: "agent_inv a \<Longrightarrow> ia_state a = Connected \<Longrightarrow> \<exists>p. nominated_pair a = Some p \<and> p \<in> set (ia_check_list a)"
  by (auto simp: agent_inv_def idx_ok_def nominated_pair_def get_at_def)

text \<open>
  A rebuild after candidates were added: the nominated pair's candidates are still there, so a pair
  with its key is found again.
\<close>

lemma rebuild_inv:
  assumes inv: "agent_inv a" and b: "ia_state b = ia_state a" "ia_check_list b = ia_check_list a" "ia_nominated_idx b = ia_nominated_idx a"
    and l: "set (ia_local_candidates a) \<subseteq> set (ia_local_candidates b)" and r: "set (ia_remote_candidates a) \<subseteq> set (ia_remote_candidates b)"
  shows "agent_inv (rebuild_check_list b)"
proof -
  obtain idx next_id ps where eq: "rebuild_check_list b = b\<lparr>ia_check_list := ps, ia_nominated_idx := idx, ia_in_flight := [], ia_next_pair_id := next_id\<rparr>"
    and ps: "pairs_from b ps" "ranked ps" "idx_ok (rebuild_check_list b)"
    and k: "idx = None \<longleftrightarrow> (\<forall>old. nominated_pair b = Some old \<longrightarrow> (\<forall>p \<in> set (all_pairs b). \<not> same_key p old))"
    using rebuild_list [of b] .
  have "idx \<noteq> None" if c: "ia_state b = Connected"
  proof -
    obtain old where old: "nominated_pair b = Some old" "old \<in> set (ia_check_list a)"
      using agent_inv_nominated [OF inv] c b by (auto simp: nominated_pair_def)
    then have "cp_local old \<in> set (ia_local_candidates b)" "cp_remote old \<in> set (ia_remote_candidates b)"
      using inv c b l r by (auto simp: agent_inv_def pairs_from_def)
    then have "pair_new 0 (cp_local old) (cp_remote old) (ic_role (ia_config b) = Controlling) \<in> set (all_pairs b)"
      by (auto simp: all_pairs_iff)
    then show ?thesis using k old by (fastforce simp: same_key_def pair_new_def)
  qed
  then show ?thesis using ps by (simp add: agent_inv_def eq pairs_from_def)
qed

lemma add_remote_candidate_inv: "agent_inv a \<Longrightarrow> agent_inv (add_remote_candidate a c)"
  unfolding add_remote_candidate_def by (rule rebuild_inv) auto

lemma extend_eq:
  assumes "number_pairs (ia_next_pair_id a) (map (\<lambda>rem. pair_new 0 c rem (ic_role (ia_config a) = Controlling)) (ia_remote_candidates a)) = (next_id, new_pairs)"
    and "qs = sort_pairs (ia_check_list a @ new_pairs)"
    and "idx = Option.bind (nominated_pair a) (\<lambda>old. position (\<lambda>p. cp_pair_id p = cp_pair_id old) qs)"
    and "ia_nominated_idx a \<noteq> None \<longrightarrow> nominated_pair a \<noteq> None"
  shows "extend_check_list a c = a\<lparr>ia_check_list := mark_at idx qs, ia_nominated_idx := idx,
     ia_in_flight := List.map_filter (\<lambda>(tid, pid). map_option (\<lambda>i. (tid, i)) (position (\<lambda>p. cp_pair_id p = pid) qs)) (in_flight_ids a),
     ia_next_pair_id := next_id\<rparr>"
  using assms(1,4) unfolding assms(2,3)
  by (cases "nominated_pair a"; cases "ia_nominated_idx a"; simp add: extend_check_list_def mark_at_def Let_def split: option.splits)

lemma extend_inv:
  assumes inv: "agent_inv a" and st: "ia_state a \<in> {Checking, Connected}" and c: "c \<in> set (ia_local_candidates a)"
  shows "agent_inv (extend_check_list a c)"
proof -
  obtain next_id new_pairs where n: "number_pairs (ia_next_pair_id a) (map (\<lambda>rem. pair_new 0 c rem (ic_role (ia_config a) = Controlling)) (ia_remote_candidates a)) = (next_id, new_pairs)"
    by (cases "number_pairs (ia_next_pair_id a) (map (\<lambda>rem. pair_new 0 c rem (ic_role (ia_config a) = Controlling)) (ia_remote_candidates a))")
  define qs where "qs = sort_pairs (ia_check_list a @ new_pairs)"
  define idx where "idx = Option.bind (nominated_pair a) (\<lambda>old. position (\<lambda>p. cp_pair_id p = cp_pair_id old) qs)"
  have nom: "ia_nominated_idx a \<noteq> None \<longrightarrow> nominated_pair a \<noteq> None"
    using inv by (auto simp: agent_inv_def idx_ok_def nominated_pair_def get_at_def)
  have bound: "i < length qs" if "idx = Some i" for i
    using that position_Some [of _ qs i] by (auto simp: idx_def bind_eq_Some_conv)
  note eq = extend_eq [OF n qs_def idx_def nom]
  have same: "same_list qs (mark_at idx qs)" using bound by (rule mark_at_same)
  have "pairs_from a new_pairs"
    using number_pairs_in [of _ "ia_next_pair_id a" "map (\<lambda>rem. pair_new 0 c rem (ic_role (ia_config a) = Controlling)) (ia_remote_candidates a)"] n c
    by (fastforce simp: pairs_from_def pair_new_def)
  then have f: "pairs_from a qs" using inv st by (auto simp: qs_def agent_inv_def pairs_from_def)
  have i: "idx_ok (extend_check_list a c)"
    unfolding eq using bound mark_at_marks [of _ qs] same_list_length [OF same] position_Some [of _ qs]
    by (auto simp: idx_ok_def List.map_filter_def split: option.splits)
  have "idx \<noteq> None" if conn: "ia_state a = Connected"
  proof -
    obtain old where old: "nominated_pair a = Some old" "old \<in> set (ia_check_list a)"
      using agent_inv_nominated [OF inv conn] by auto
    then show ?thesis using position_ex [of old qs "\<lambda>p. cp_pair_id p = cp_pair_id old"] by (auto simp: idx_def qs_def)
  qed
  then show ?thesis
    using i same_list_from [OF same f] same_list_ranked [OF same] ranked_sort_pairs qs_def
    by (simp add: agent_inv_def eq pairs_from_def)
qed

lemma add_relay_candidate_inv:
  assumes inv: "agent_inv a"
  shows "agent_inv (fst (add_relay_candidate a relay base))"
proof -
  let ?c = "candidate_new Relay relay base 1"
  let ?a1 = "a\<lparr>ia_local_candidates := ia_local_candidates a @ [?c]\<rparr>"
  have a1: "agent_inv ?a1" using inv by (auto simp: agent_inv_def idx_ok_def pairs_from_def)
  then have "agent_inv (rebuild_check_list ?a1)" by (rule rebuild_inv) simp_all
  moreover have "agent_inv (extend_check_list ?a1 ?c)" if "ia_state a \<in> {Checking, Connected}"
    using that by (intro extend_inv [OF a1]) auto
  ultimately show ?thesis using inv a1 by (simp add: add_relay_candidate_def Let_def)
qed

lemma gather_inv: "agent_inv a \<Longrightarrow> agent_inv (fst (gather a))"
  by (simp add: gather_def agent_inv_def idx_ok_def Let_def)

lemma finish_step_inv: "agent_inv (fst (finish_step out a)) = agent_inv a"
  by (simp add: finish_step_def agent_inv_def idx_ok_def pairs_from_def)

lemma drain_inv: "agent_inv a \<Longrightarrow> agent_inv (drain_transport_inbox e a)"
  unfolding drain_transport_inbox_def by (meson agent_inv_def drain_loop_evolves evolves_inv)

lemma check_pairs_inv: "agent_inv a \<Longrightarrow> agent_inv (fst (check_pairs e a))"
  by (meson agent_inv_def check_pairs_evolves evolves_inv)

lemma handle_incoming_inv: "agent_inv a \<Longrightarrow> agent_inv (handle_incoming e a data src)"
  by (meson agent_inv_def handle_incoming_evolves evolves_inv)

lemma check_pairs_state: "idx_ok a \<Longrightarrow> ia_state (fst (check_pairs e a)) = ia_state a"
  using check_pairs_evolves by (auto simp: evolves_def)

lemma drain_state: "idx_ok a \<Longrightarrow> ia_state (drain_transport_inbox e a) = ia_state a"
  using drain_loop_evolves by (auto simp: drain_transport_inbox_def evolves_def)

lemma inv_state:
  "agent_inv a \<Longrightarrow> s \<notin> {Checking, Connected} \<Longrightarrow> agent_inv (a\<lparr>ia_state := s\<rparr>)"
  "agent_inv a \<Longrightarrow> ia_state a = Checking \<Longrightarrow> ia_nominated_idx a \<noteq> None \<Longrightarrow> agent_inv (a\<lparr>ia_state := Connected\<rparr>)"
  by (auto simp: agent_inv_def idx_ok_def pairs_from_def)

lemma reset_inv:
  "agent_inv (a\<lparr>ia_state := New, ia_local_candidates := [], ia_remote_candidates := [], ia_check_list := [],
     ia_nominated_idx := None, ia_checking_started_us := None, ia_in_flight := []\<rparr>)"
  by (simp add: agent_inv_def idx_ok_def ranked_def)

lemma checking_step_inv:
  assumes inv: "agent_inv a" and st: "ia_state a = Checking"
  shows "agent_inv (fst (checking_step e now out a))"
proof -
  define a2 where "a2 = drain_transport_inbox e (fst (check_pairs e a))"
  have a1: "agent_inv (fst (check_pairs e a))" by (rule check_pairs_inv [OF inv])
  then have a2: "agent_inv a2" unfolding a2_def by (rule drain_inv)
  have "ia_state a2 = Checking"
    using a1 inv st by (simp add: a2_def drain_state check_pairs_state agent_inv_def)
  then show ?thesis
    using a2 inv_state [OF a2] by (auto simp: checking_step_def Let_def a2_def [symmetric] finish_step_inv)
qed

lemma agent_step_inv:
  assumes "agent_inv a"
  shows "agent_inv (fst (agent_step e now a incoming))"
proof -
  define a2 where "a2 = drain_transport_inbox e (case incoming of None \<Rightarrow> a | Some (data, src) \<Rightarrow> handle_incoming e a data src)"
  define a3 where "a3 = a2\<lparr>ia_outgoing := []\<rparr>"
  have "agent_inv a2" unfolding a2_def
    by (rule drain_inv) (use assms handle_incoming_inv in \<open>auto split: option.splits\<close>)
  then have a3: "agent_inv a3" by (simp add: a3_def agent_inv_def idx_ok_def pairs_from_def)
  have g: "agent_inv (fst (gather a3))" by (rule gather_inv [OF a3])
  obtain idx next_id ps where r: "rebuild_check_list a3 = a3\<lparr>ia_check_list := ps, ia_nominated_idx := idx, ia_in_flight := [], ia_next_pair_id := next_id\<rparr>"
    "pairs_from a3 ps" "ranked ps" "idx_ok (rebuild_check_list a3)" by (rule rebuild_list)
  have rb: "agent_inv (rebuild_check_list a3\<lparr>ia_state := Checking, ia_checking_started_us := t\<rparr>)" for t
    using r by (simp add: agent_inv_def idx_ok_def pairs_from_def)
  show ?thesis
    unfolding agent_step_def Let_def a2_def [symmetric] a3_def [symmetric]
    using a3 g rb checking_step_inv [OF a3] inv_state(1) [OF a3] reset_inv [of a3]
    by (cases "ia_state a3") (auto simp: finish_step_inv split: prod.splits sum.splits)
qed

subsection \<open>Runs of the agent\<close>

text \<open>The public methods that change the agent, with their arguments.\<close>

datatype agent_op = CallGather | CallAddRemote candidate | CallAddRelay socket_addr socket_addr
  | CallCheckPairs | CallStep i64 "(bytes \<times> socket_addr) option"

definition run_op :: "('t, 'r) ice_env \<Rightarrow> ('t, 'r) ice_agent \<Rightarrow> agent_op \<Rightarrow> ('t, 'r) ice_agent" where
  "run_op e a op =
     (case op of
        CallGather \<Rightarrow> fst (gather a)
      | CallAddRemote c \<Rightarrow> add_remote_candidate a c
      | CallAddRelay relay base \<Rightarrow> fst (add_relay_candidate a relay base)
      | CallCheckPairs \<Rightarrow> fst (check_pairs e a)
      | CallStep now incoming \<Rightarrow> fst (agent_step e now a incoming))"

definition run_ops :: "('t, 'r) ice_env \<Rightarrow> ('t, 'r) ice_agent \<Rightarrow> agent_op list \<Rightarrow> ('t, 'r) ice_agent" where
  "run_ops e a ops = foldl (run_op e) a ops"

lemma run_op_inv: "agent_inv a \<Longrightarrow> agent_inv (run_op e a op)"
  by (cases op) (simp_all add: run_op_def gather_inv add_remote_candidate_inv add_relay_candidate_inv check_pairs_inv agent_step_inv)

lemma run_ops_inv: "agent_inv a \<Longrightarrow> agent_inv (run_ops e a ops)"
  by (induction ops arbitrary: a) (simp_all add: run_ops_def run_op_inv)

lemma agent_new_inv: "agent_inv (agent_new config t r)"
  by (simp add: agent_new_def agent_inv_def idx_ok_def ranked_def)

text \<open>
  C29. Whatever methods are called, in whatever order, with whatever datagrams: an agent that
  reports to be connected has a nominated pair, which succeeded its check and joins a current local
  with a current remote candidate; the pairs stay sorted by descending priority and every
  transaction in flight belongs to a pair of the list.
\<close>

theorem agent_run_invariant:
  assumes "a = run_ops e (agent_new config t r) ops"
  shows "(ia_state a = Connected \<longrightarrow> (\<exists>p. nominated_pair a = Some p \<and> cp_state p = Succeeded \<and> cp_nominated p
        \<and> cp_local p \<in> set (ia_local_candidates a) \<and> cp_remote p \<in> set (ia_remote_candidates a)))
    \<and> (\<forall>i j. i < j \<longrightarrow> j < length (ia_check_list a) \<longrightarrow> cp_priority (ia_check_list a ! j) \<le> cp_priority (ia_check_list a ! i))
    \<and> (\<forall>(tid, i) \<in> set (ia_in_flight a). i < length (ia_check_list a))"
proof (intro conjI)
  have inv: "agent_inv a" unfolding assms by (rule run_ops_inv [OF agent_new_inv])
  then show "ia_state a = Connected \<longrightarrow> (\<exists>p. nominated_pair a = Some p \<and> cp_state p = Succeeded \<and> cp_nominated p
      \<and> cp_local p \<in> set (ia_local_candidates a) \<and> cp_remote p \<in> set (ia_remote_candidates a))"
    by (auto simp: agent_inv_def idx_ok_def nominated_pair_def get_at_def pairs_from_def)
  show "\<forall>i j. i < j \<longrightarrow> j < length (ia_check_list a) \<longrightarrow> cp_priority (ia_check_list a ! j) \<le> cp_priority (ia_check_list a ! i)"
    using inv by (simp add: agent_inv_def ranked_def sorted_iff_nth_mono word_le_def)
  show "\<forall>(tid, i) \<in> set (ia_in_flight a). i < length (ia_check_list a)"
    using inv by (auto simp: agent_inv_def idx_ok_def)
qed

subsection \<open>What adding candidates keeps\<close>

lemma mark_at_key: "i < length ps \<Longrightarrow> same_key (mark_at idx ps ! i) q = same_key (ps ! i) q"
  by (cases "idx = Some i"; cases idx) (simp_all add: mark_at_def mark_nominated_def same_key_def)

lemma rebuild_fields:
  "ia_state (rebuild_check_list a) = ia_state a" "ia_local_candidates (rebuild_check_list a) = ia_local_candidates a"
  "ia_remote_candidates (rebuild_check_list a) = ia_remote_candidates a"
  by (rule rebuild_list [of a]; simp)+

lemma rebuild_same_key:
  assumes "nominated_pair (rebuild_check_list a) = Some p"
  obtains old where "nominated_pair a = Some old" and "same_key p old"
proof -
  obtain next_id pairs where n: "number_pairs (ia_next_pair_id a) (all_pairs a) = (next_id, pairs)"
    by (cases "number_pairs (ia_next_pair_id a) (all_pairs a)")
  define idx where "idx = Option.bind (nominated_pair a) (\<lambda>old. position (\<lambda>p. same_key p old) (sort_pairs pairs))"
  have "nominated_pair (rebuild_check_list a) = Option.bind idx (get_at (mark_at idx (sort_pairs pairs)))"
    unfolding rebuild_eq [OF n idx_def] by (simp add: nominated_pair_def)
  then obtain i where i: "idx = Some i" "get_at (mark_at idx (sort_pairs pairs)) i = Some p"
    using assms by (metis bind_eq_Some_conv)
  obtain old where old: "nominated_pair a = Some old" "position (\<lambda>p. same_key p old) (sort_pairs pairs) = Some i"
    using i(1) by (auto simp: idx_def bind_eq_Some_conv)
  have b: "i < length (sort_pairs pairs)" "same_key (sort_pairs pairs ! i) old" using position_Some [OF old(2)] by simp_all
  then have "p = mark_at idx (sort_pairs pairs) ! i" using i(2) by (simp add: get_at_def split: if_splits)
  then show thesis using that [OF old(1)] b mark_at_key [of i "sort_pairs pairs" idx old] by simp
qed

lemma key_unique:
  assumes "same_key p q" and "inj_on (\<lambda>c. (cd_base c, cd_kind c)) L" and "inj_on (\<lambda>c. (cd_addr c, cd_kind c)) R"
    and "cp_local p \<in> L" "cp_local q \<in> L" "cp_remote p \<in> R" "cp_remote q \<in> R"
  shows "cp_local p = cp_local q \<and> cp_remote p = cp_remote q"
  using assms inj_onD [OF assms(2), of "cp_local p" "cp_local q"] inj_onD [OF assms(3), of "cp_remote p" "cp_remote q"]
  by (simp add: same_key_def)

lemma add_remote_fields:
  "ia_state (add_remote_candidate a c) = ia_state a" "ia_local_candidates (add_remote_candidate a c) = ia_local_candidates a"
  "ia_remote_candidates (add_remote_candidate a c) = ia_remote_candidates a @ [c]"
  by (simp_all add: add_remote_candidate_def rebuild_fields)

lemma nominated_in:
  assumes "agent_inv a" and "ia_state a = Connected" and "nominated_pair a = Some p"
  shows "cp_local p \<in> set (ia_local_candidates a) \<and> cp_remote p \<in> set (ia_remote_candidates a) \<and> cp_state p = Succeeded"
  using assms by (auto simp: agent_inv_def idx_ok_def nominated_pair_def get_at_def pairs_from_def split: if_splits)

text \<open>
  Trickled remote candidates do not move the selected path: when local candidates differ in
  base or kind and remote ones in address or kind, adding a remote candidate to a connected agent
  leaves it nominated on the same two candidates.
\<close>

theorem remote_candidate_keeps_nomination:
  assumes inv: "agent_inv a" and conn: "ia_state a = Connected" and old: "nominated_pair a = Some old"
    and lk: "inj_on (\<lambda>c. (cd_base c, cd_kind c)) (set (ia_local_candidates a))"
    and rk: "inj_on (\<lambda>c. (cd_addr c, cd_kind c)) (insert c (set (ia_remote_candidates a)))"
  shows "\<exists>p. nominated_pair (add_remote_candidate a c) = Some p \<and> cp_local p = cp_local old
    \<and> cp_remote p = cp_remote old \<and> cp_state p = Succeeded"
proof -
  let ?b = "add_remote_candidate a c"
  have b: "agent_inv ?b" "ia_state ?b = Connected" using add_remote_candidate_inv [OF inv] conn by (simp_all add: add_remote_fields)
  then obtain p where p: "nominated_pair ?b = Some p" using agent_inv_nominated by blast
  obtain old' where "nominated_pair (a\<lparr>ia_remote_candidates := ia_remote_candidates a @ [c]\<rparr>) = Some old'" "same_key p old'"
    using rebuild_same_key p unfolding add_remote_candidate_def by blast
  then have k: "same_key p old" using old by (simp add: nominated_pair_def)
  show ?thesis
    using key_unique [OF k lk rk] nominated_in [OF b p] nominated_in [OF inv conn old] p by (auto simp: add_remote_fields)
qed

subsection \<open>Instances\<close>

text \<open>A connected agent with the given relay candidates on one base, nominated on the last.\<close>

definition relay_base :: socket_addr where "relay_base = SockV4 0x0A000001 5000"
definition relay_peer :: socket_addr where "relay_peer = SockV4 0x0C000001 8000"

definition relayed_agent :: "socket_addr list \<Rightarrow> (unit, unit) ice_agent" where
  "relayed_agent relays =
     (let locals = map (\<lambda>r. candidate_new Relay r relay_base 1) relays;
          rem = candidate_new Host relay_peer relay_peer 1;
          cfg = \<lparr>ic_stun_servers = [], ic_turn_servers = [], ic_local_addrs = [relay_base], ic_role = Controlling, ic_tie_breaker = 1,
                 ic_local_ufrag = [], ic_local_pwd = [], ic_remote_ufrag = [], ic_remote_pwd = []\<rparr>
      in (agent_new cfg () ())\<lparr>ia_state := Connected, ia_local_candidates := locals, ia_remote_candidates := [rem],
            ia_check_list := mark_at (Some (length relays - 1)) (map (\<lambda>l. pair_new 0 l rem True) locals),
            ia_nominated_idx := Some (length relays - 1)\<rparr>)"

lemma cp_simps:
  "cp_local (pair_new i l r b) = l" "cp_remote (pair_new i l r b) = r"
  "cp_priority (pair_new i l r b) = compute_pair_priority (cd_priority l) (cd_priority r) b"
  "cp_local (mark_nominated p) = cp_local p" "cp_remote (mark_nominated p) = cp_remote p" "cp_priority (mark_nominated p) = cp_priority p"
  "cp_nominated (mark_nominated p)" "cp_state (mark_nominated p) = Succeeded"
  by (simp_all add: pair_new_def mark_nominated_def)

lemma cd_simps:
  "cd_addr (candidate_new k x y c) = x" "cd_base (candidate_new k x y c) = y" "cd_kind (candidate_new k x y c) = k"
  "cd_priority (candidate_new k x y c) = compute_priority k 65535 (ucast c)"
  by (simp_all add: candidate_new_def)

lemma relayed_inv:
  assumes "relays \<noteq> []"
  shows "agent_inv (relayed_agent relays)"
proof -
  let ?rem = "candidate_new Host relay_peer relay_peer 1"
  let ?locals = "map (\<lambda>r. candidate_new Relay r relay_base 1) relays"
  let ?ps = "map (\<lambda>l. pair_new 0 l ?rem True) ?locals"
  let ?i = "length relays - 1"
  have same: "same_list ?ps (mark_at (Some ?i) ?ps)" by (rule mark_at_same) (use assms in \<open>cases relays; simp\<close>)
  have "ranked ?ps" by (simp add: ranked_def sorted_iff_nth_mono cp_simps cd_simps)
  then have "ranked (mark_at (Some ?i) ?ps)" by (simp only: same_list_ranked [OF same])
  moreover have "pairs_from (relayed_agent relays) ?ps" by (auto simp: pairs_from_def relayed_agent_def Let_def cp_simps)
  then have "pairs_from (relayed_agent relays) (mark_at (Some ?i) ?ps)" by (rule same_list_from [OF same])
  moreover have "cp_nominated (mark_at (Some ?i) ?ps ! ?i) \<and> cp_state (mark_at (Some ?i) ?ps ! ?i) = Succeeded"
    using assms by (intro mark_at_marks) simp
  ultimately show ?thesis
    using assms same_list_length [OF same] by (simp add: agent_inv_def idx_ok_def) (simp add: relayed_agent_def agent_new_def Let_def)
qed

lemma relayed_nominated:
  "nominated_pair (relayed_agent (rs @ [r])) =
     Some (mark_nominated (pair_new 0 (candidate_new Relay r relay_base 1) (candidate_new Host relay_peer relay_peer 1) True))"
  by (simp add: nominated_pair_def relayed_agent_def Let_def get_at_def mark_at_def nth_append)

text \<open>A transport that sends everything and receives nothing, and a run up to the checking state.\<close>

definition quiet_env :: "(unit, unit) ice_env" where
  "quiet_env = \<lparr>ev_hash = plain_hash, ev_send = (\<lambda>t _ _. (t, Ok ())), ev_recv = (\<lambda>t buf. (t, buf, Err IceTimeout)),
     ev_fill = (\<lambda>r n. (r, replicate n 0))\<rparr>"

definition demo_config :: ice_config where
  "demo_config = \<lparr>ic_stun_servers = [], ic_turn_servers = [], ic_local_addrs = [relay_base], ic_role = Controlling,
     ic_tie_breaker = 1, ic_local_ufrag = [], ic_local_pwd = [], ic_remote_ufrag = [], ic_remote_pwd = []\<rparr>"

definition demo_ops :: "agent_op list" where
  "demo_ops = [CallStep 0 None, CallAddRemote (candidate_new Host relay_peer relay_peer 1), CallStep 1 None]"

lemma drain_quiet: "drain_transport_inbox quiet_env a = a"
proof -
  have "drain_loop quiet_env n buf a = a" for n buf
    by (cases n) (simp_all add: quiet_env_def)
  then show ?thesis by (simp add: drain_transport_inbox_def)
qed

lemma demo_run:
  "run_ops quiet_env (agent_new demo_config () ()) demo_ops =
     (agent_new demo_config () ())\<lparr>ia_state := Checking, ia_local_candidates := [candidate_new Host relay_base relay_base 1],
        ia_remote_candidates := [candidate_new Host relay_peer relay_peer 1],
        ia_check_list := [(pair_new 0 (candidate_new Host relay_base relay_base 1) (candidate_new Host relay_peer relay_peer 1) True)
           \<lparr>cp_pair_id := 1, cp_state := Waiting\<rparr>],
        ia_checking_started_us := Some (i64_sat_mul 1 1000000), ia_next_pair_id := 2\<rparr>"
  by (simp add: run_ops_def demo_ops_def run_op_def agent_step_def drain_quiet agent_new_def demo_config_def gather_def
      finish_step_def add_remote_candidate_def rebuild_check_list_def all_pairs_def nominated_pair_def sort_pairs_def
      sat_add_def Let_def)

theorem agent_run_invariant_witness:
  "\<exists>a. a = run_ops quiet_env (agent_new demo_config () ()) demo_ops \<and> ia_state a = Checking \<and> ia_check_list a \<noteq> []
     \<and> (\<forall>(tid, i) \<in> set (ia_in_flight a). i < length (ia_check_list a))"
  using agent_run_invariant [OF refl, of quiet_env demo_config "()" "()" demo_ops] by (simp add: demo_run)

theorem remote_candidate_keeps_nomination_witness:
  "\<exists>p. nominated_pair (add_remote_candidate (relayed_agent [relay_peer]) (candidate_new Host relay_base relay_base 1)) = Some p
     \<and> cp_local p = candidate_new Relay relay_peer relay_base 1 \<and> cp_remote p = candidate_new Host relay_peer relay_peer 1"
proof -
  have "ia_state (relayed_agent [relay_peer]) = Connected"
    "set (ia_local_candidates (relayed_agent [relay_peer])) = {candidate_new Relay relay_peer relay_base 1}"
    "set (ia_remote_candidates (relayed_agent [relay_peer])) = {candidate_new Host relay_peer relay_peer 1}"
    by (simp_all add: relayed_agent_def agent_new_def Let_def)
  moreover have "relay_base \<noteq> relay_peer" by (simp add: relay_base_def relay_peer_def)
  ultimately show ?thesis
    using remote_candidate_keeps_nomination [OF relayed_inv _ relayed_nominated [of "[]"], of relay_peer "candidate_new Host relay_base relay_base 1"]
    by (auto simp: cp_simps cd_simps)
qed

end
