(* ===== verification/Ice_Checks.thy ===== *)
theory Ice_Checks
  imports Ice_Invariant
begin

text \<open>
  Connectivity checks between two agents: only a datagram signed with one of the two passwords
  changes an agent, a check is answered and its answer accepted when the user name fragments of
  both sides agree, and is dropped when they do not.
\<close>

subsection \<open>Datagrams without the password\<close>

lemma username_matches_nonempty: "username_matches uf a \<Longrightarrow> decode_one_attribute tid ty [] \<noteq> Ok a"
  by (cases a) (auto simp: username_matches_def split_once_def decode_one_attribute_def from_utf8_lossy.simps Let_def split: if_splits)

text \<open>
  C31. A datagram changes the agent only if it decodes to a request or a success response with a
  correct HMAC over the attributes before MESSAGE-INTEGRITY: of a request under the local password
  and with a user name naming this agent among the covered attributes, of a response under the remote
  password and for a transaction in flight. What follows MESSAGE-INTEGRITY is not covered; there is
  nothing there, or a FINGERPRINT, or one attribute with an empty body.
\<close>

theorem incoming_needs_password:
  assumes "handle_incoming e a data src \<noteq> a"
  shows "\<exists>m pwd body pre t rest. stun_decode data = Ok m \<and> sm_class m \<in> {Request, SuccessResponse}
    \<and> pwd = (if sm_class m = Request then ic_local_pwd (ia_config a) else ic_remote_pwd (ia_config a))
    \<and> sm_attributes m = pre @ MessageIntegrity t # rest \<and> decode_attributes body (sm_transaction_id m) = Ok pre
    \<and> compute_hmac_sha1 (ev_hash e) (utf8 pwd)
        (build_header (sm_class m) (sm_method m) (sm_transaction_id m) (24 + length body) @ body) = Ok t
    \<and> (rest = [] \<or> (\<exists>c. rest = [Fingerprint c])
        \<or> (\<exists>ty a. decode_one_attribute (sm_transaction_id m) ty [] = Ok a \<and> rest = [a]))
    \<and> (sm_class m = Request \<longrightarrow> list_ex (username_matches (ic_local_ufrag (ia_config a))) pre)
    \<and> (sm_class m = SuccessResponse \<longrightarrow> sm_transaction_id m \<in> fst ` set (ia_in_flight a))"
proof -
  obtain m where m: "stun_decode data = Ok m" using assms by (cases "stun_decode data") (auto simp: handle_incoming_def)
  define pwd where "pwd = (if sm_class m = Request then ic_local_pwd (ia_config a) else ic_remote_pwd (ia_config a))"
  have c: "sm_class m \<in> {Request, SuccessResponse}" and v: "is_ok (verify_integrity (ev_hash e) data (utf8 pwd))"
    and u: "sm_class m = Request \<longrightarrow> list_ex (username_matches (ic_local_ufrag (ia_config a))) (sm_attributes m)"
    using assms m by (cases "sm_class m"; auto simp: handle_incoming_def handle_binding_request_def handle_binding_response_def pwd_def Let_def split: if_splits)+
  have f: "sm_transaction_id m \<in> fst ` set (ia_in_flight a)" if cls: "sm_class m = SuccessResponse"
  proof -
    obtain i where "position (\<lambda>(tid, _). tid = sm_transaction_id m) (ia_in_flight a) = Some i"
      using assms m cls by (cases "position (\<lambda>(tid, _). tid = sm_transaction_id m) (ia_in_flight a)")
        (auto simp: handle_incoming_def handle_binding_response_def split: if_splits)
    then have "i < length (ia_in_flight a)" "fst (ia_in_flight a ! i) = sm_transaction_id m"
      using position_Some [of "\<lambda>(tid, _). tid = sm_transaction_id m" "ia_in_flight a" i] by (auto split: prod.splits)
    then show ?thesis by (metis image_eqI nth_mem)
  qed
  obtain body pre t rest where r: "sm_attributes m = pre @ MessageIntegrity t # rest"
    "decode_attributes body (sm_transaction_id m) = Ok pre"
    "compute_hmac_sha1 (ev_hash e) (utf8 pwd) (build_header (sm_class m) (sm_method m) (sm_transaction_id m) (24 + length body) @ body) = Ok t"
    "rest = [] \<or> (\<exists>c. rest = [Fingerprint c]) \<or> (\<exists>ty a. decode_one_attribute (sm_transaction_id m) ty [] = Ok a \<and> rest = [a])"
    using accepted_covered [OF m, of "ev_hash e" "utf8 pwd"] v by (simp add: is_ok_iff) blast
  have "\<not> list_ex (username_matches (ic_local_ufrag (ia_config a))) (MessageIntegrity t # rest)"
    using r(4) username_matches_nonempty by (auto simp: username_matches_def)
  then have "sm_class m = Request \<longrightarrow> list_ex (username_matches (ic_local_ufrag (ia_config a))) pre" using u r(1) by simp
  then show ?thesis using m c r f pwd_def by blast
qed

subsection \<open>Checks and their answers\<close>

text \<open>User name fragments as both agents may use them: strings without a colon, within the limits of a USERNAME.\<close>

definition ufrags_ok :: "ice_config \<Rightarrow> bool" where
  "ufrags_ok c \<longleftrightarrow> is_str (ic_local_ufrag c) \<and> is_str (ic_remote_ufrag c) \<and> 58 \<notin> set (ic_remote_ufrag c)
     \<and> length (utf8 (ic_remote_ufrag c)) + length (utf8 (ic_local_ufrag c)) < 513"

definition check_message :: "ice_config \<Rightarrow> bytes \<Rightarrow> u32 \<Rightarrow> bool \<Rightarrow> stun_message" where
  "check_message c tid prio nominate = (new_binding_request tid)\<lparr>sm_attributes :=
     [Username (ic_remote_ufrag c @ [58] @ ic_local_ufrag c), Priority prio,
      case ic_role c of Controlling \<Rightarrow> IceControlling (ic_tie_breaker c) | Controlled \<Rightarrow> IceControlled (ic_tie_breaker c)]
     @ (if nominate then [UseCandidate] else [])\<rparr>"

lemma check_message_fields [simp]:
  "sm_class (check_message c tid prio nominate) = Request" "sm_transaction_id (check_message c tid prio nominate) = tid"
  by (simp_all add: check_message_def new_binding_request_def)

lemma agent_request_eq:
  "agent_request e a tid pair nominate = encode_with_integrity (ev_hash e)
     (check_message (ia_config a) tid (cd_priority (cp_local pair)) nominate) (utf8 (ic_remote_pwd (ia_config a)))"
  by (simp add: agent_request_def build_binding_request_def check_message_def new_binding_request_def Let_def
      split: ice_role.splits)

lemma check_message_wf:
  assumes "ufrags_ok c" and "length tid = 12"
  shows "wf_message (check_message c tid prio nominate)" and "\<not> list_ex is_mac (sm_attributes (check_message c tid prio nominate))"
  using assms
  by (auto simp: check_message_def new_binding_request_def wf_message_def wf_attr_def is_mac_def ufrags_ok_def utf8_append
      encode_attributes_concat attr_tlv_def tlv_bytes_def pad4_eq is_scalar_def utf8_char_def split: ice_role.splits)

lemma split_once_colon: "58 \<notin> set u \<Longrightarrow> split_once 58 (u @ 58 # w) = Some (u, w)"
  by (induction u) (simp_all add: split_once_def)

text \<open>A check on the wire: it verifies under the receiver's password and decodes to the message with its HMAC.\<close>

lemma check_sent:
  assumes "ufrags_ok (ia_config a)" and "length tid = 12" and "hmac_total (ev_hash e)"
  obtains bs t where "agent_request e a tid pair nominate = Ok bs"
    and "verify_integrity (ev_hash e) bs (utf8 (ic_remote_pwd (ia_config a))) = Ok ()"
    and "stun_decode bs = Ok ((check_message (ia_config a) tid (cd_priority (cp_local pair)) nominate)\<lparr>sm_attributes :=
       sm_attributes (check_message (ia_config a) tid (cd_priority (cp_local pair)) nominate) @ [MessageIntegrity t]\<rparr>)"
proof -
  let ?m = "check_message (ia_config a) tid (cd_priority (cp_local pair)) nominate"
  have "message_norm (?m\<lparr>sm_attributes := sm_attributes ?m @ [MessageIntegrity t]\<rparr>) = ?m\<lparr>sm_attributes := sm_attributes ?m @ [MessageIntegrity t]\<rparr>" for t
    by (simp add: message_norm_def check_message_def attr_norm_def split: ice_role.splits)
  then show thesis
    using that signed_message [OF check_message_wf [OF assms(1,2)] assms(3)]
    unfolding agent_request_eq by metis
qed

lemma check_username:
  assumes "58 \<notin> set (ic_remote_ufrag c)"
  shows "list_ex (username_matches uf) (sm_attributes (check_message c tid prio nominate) @ [MessageIntegrity t]) \<longleftrightarrow> ic_local_ufrag c = uf"
  using assms by (auto simp: check_message_def username_matches_def split_once_colon split: ice_role.splits)

text \<open>
  Two agents with mirrored credentials but different user name fragments never complete a check:
  the receiver drops every check of its peer, because it compares the part of the user name after
  the colon, which names the sender, with its own fragment.
\<close>

theorem checks_dropped:
  assumes "ufrags_ok (ia_config a)" and "length tid = 12" and "hmac_total (ev_hash e)"
    and "ic_remote_ufrag (ia_config a) = ic_local_ufrag (ia_config b)" and "ic_remote_pwd (ia_config a) = ic_local_pwd (ia_config b)"
    and "ic_local_ufrag (ia_config a) \<noteq> ic_local_ufrag (ia_config b)"
  shows "\<exists>bs. agent_request e a tid pair nominate = Ok bs \<and> handle_incoming e b bs src = b"
proof -
  obtain bs t where bs: "agent_request e a tid pair nominate = Ok bs"
    and "stun_decode bs = Ok ((check_message (ia_config a) tid (cd_priority (cp_local pair)) nominate)\<lparr>sm_attributes :=
       sm_attributes (check_message (ia_config a) tid (cd_priority (cp_local pair)) nominate) @ [MessageIntegrity t]\<rparr>)"
    using check_sent [OF assms(1-3)] by metis
  moreover have "58 \<notin> set (ic_remote_ufrag (ia_config a))" using assms(1) by (simp add: ufrags_ok_def)
  note check_username [OF this, of "ic_local_ufrag (ia_config b)" tid "cd_priority (cp_local pair)" nominate t]
  ultimately have "handle_incoming e b bs src = b"
    using assms(6) by (auto simp: handle_incoming_def handle_binding_request_def Let_def split: stun_class.splits)
  then show ?thesis using bs by blast
qed

text \<open>An answer to a check: its bytes, that they verify, and what the sender reads in them.\<close>

definition answer_message :: "bytes \<Rightarrow> socket_addr \<Rightarrow> stun_message" where
  "answer_message tid src = (new_binding_response tid)\<lparr>sm_attributes := [XorMappedAddress src]\<rparr>"

lemma answer_message_wf:
  assumes "length tid = 12"
  shows "wf_message (answer_message tid src)" and "\<not> list_ex is_mac (sm_attributes (answer_message tid src))"
  using assms
  by (auto simp: answer_message_def new_binding_response_def wf_message_def wf_attr_def is_mac_def
      encode_attributes_concat attr_tlv_def tlv_bytes_def pad4_eq encode_xor_mapped_address_def Let_def split: socket_addr.splits)

lemma answer_sent:
  assumes "length tid = 12" and "hmac_total h"
  obtains resp t where "encode_with_integrity h (answer_message tid src) key = Ok resp"
    and "verify_integrity h resp key = Ok ()"
    and "stun_decode resp = Ok (message_norm ((answer_message tid src)\<lparr>sm_attributes := sm_attributes (answer_message tid src) @ [MessageIntegrity t]\<rparr>))"
  using signed_message [OF answer_message_wf [OF assms(1)] assms(2)] by metis

lemma triggered_check_states: "map cp_state (ia_check_list (triggered_check e src idx a)) = map cp_state (ia_check_list a)"
proof -
  have upd: "map cp_state (xs[i := (xs ! i)\<lparr>cp_nominated := True\<rparr>]) = map cp_state xs" for xs :: "candidate_pair list" and i
    by (cases "i < length xs") (simp_all add: map_update list_update_same_conv [THEN iffD2] list_update_beyond)
  show ?thesis
    by (simp add: triggered_check_def Let_def route_evolves upd split: option.splits prod.splits sum.splits)
qed

lemma nominate_from_open:
  assumes "j < length (ia_check_list a)" and "open_to src (ia_check_list a ! j)"
  shows "open_to src (ia_check_list (nominate_from src a) ! j) \<or> cp_state (ia_check_list (nominate_from src a) ! j) = Succeeded"
proof (cases "position (\<lambda>p. cd_addr (cp_remote p) = src) (ia_check_list a)")
  case (Some i)
  then show ?thesis using assms by (cases "i = j") (simp_all add: nominate_from_def mark_nominated_def)
qed (use assms in \<open>simp add: nominate_from_def\<close>)

lemma answer_request_opens:
  assumes "j < length (ia_check_list a)" and "open_to src (ia_check_list a ! j)"
  shows "cp_state (ia_check_list (answer_request e bs use_candidate src a) ! j) = Succeeded"
proof -
  define a1 where "a1 = route e (list_ex (\<lambda>p. cd_addr (cp_remote p) = src \<and> cd_kind (cp_remote p) = Relay) (ia_check_list a)) bs src a"
  define a2 where "a2 = (if use_candidate then nominate_from src a1 else a1)"
  define a3 where "a3 = a2\<lparr>ia_check_list := map (\<lambda>p. if open_to src p then p\<lparr>cp_state := Succeeded\<rparr> else p) (ia_check_list a2)\<rparr>"
  have h: "answer_request e bs use_candidate src a =
     (case position (open_to src) (ia_check_list a2) of None \<Rightarrow> a3 | Some idx \<Rightarrow> triggered_check e src idx a3)"
    unfolding answer_request_def Let_def a3_def a2_def a1_def by (rule refl)
  have l: "ia_check_list a1 = ia_check_list a" "length (ia_check_list a2) = length (ia_check_list a)"
    by (simp_all add: a1_def a2_def route_evolves nominate_from_def split: option.splits)
  have "open_to src (ia_check_list a2 ! j) \<or> cp_state (ia_check_list a2 ! j) = Succeeded"
    using assms nominate_from_open [of j a1 src] l(1) by (auto simp: a2_def)
  then have j3: "cp_state (ia_check_list a3 ! j) = Succeeded" using assms(1) l(2) by (auto simp: a3_def)
  have "map cp_state (ia_check_list (answer_request e bs use_candidate src a)) = map cp_state (ia_check_list a3)"
    unfolding h by (simp add: triggered_check_states split: option.splits)
  moreover have "j < length (ia_check_list a3)" using assms(1) l(2) by (simp add: a3_def)
  ultimately show ?thesis using j3 by (metis length_map nth_map)
qed

lemma position_map_of:
  "map_of fs x = Some i \<Longrightarrow> \<exists>pos. position (\<lambda>(y, _). y = x) fs = Some pos \<and> snd (fs ! pos) = i"
  by (induction fs) (auto split: if_splits)

lemma respond_pair_succeeds:
  assumes "i < length (ia_check_list a)" and "cd_addr (cp_remote (ia_check_list a ! i)) = src"
  shows "cp_state (ia_check_list (respond_pair e a i src) ! i) = Succeeded"
    and "ic_role (ia_config a) = Controlling \<Longrightarrow> ia_nominated_idx (respond_pair e a i src) \<noteq> None"
  using assms by (auto simp: respond_pair_def get_at_def Let_def route_evolves split: prod.splits sum.splits)

lemma check_round:
  assumes "ufrags_ok (ia_config a)" and "length tid = 12" and "hmac_total (ev_hash e)"
    and "ic_remote_pwd (ia_config a) = ic_local_pwd (ia_config b)"
    and "ic_local_ufrag (ia_config a) = ic_local_ufrag (ia_config b)"
  shows "\<exists>bs resp. agent_request e a tid pair nominate = Ok bs
    \<and> handle_incoming e b bs src = answer_request e resp (nominate \<and> ic_role (ia_config a) = Controlling) src b
    \<and> (\<forall>j < length (ia_check_list b). open_to src (ia_check_list b ! j) \<longrightarrow>
         cp_state (ia_check_list (handle_incoming e b bs src) ! j) = Succeeded)
    \<and> (\<forall>a' i dst. ia_config a' = ia_config a \<and> map_of (ia_in_flight a') tid = Some i \<and> i < length (ia_check_list a')
           \<and> cd_addr (cp_remote (ia_check_list a' ! i)) = dst \<longrightarrow>
         cp_state (ia_check_list (handle_incoming e a' resp dst) ! i) = Succeeded
         \<and> (ic_role (ia_config a) = Controlling \<longrightarrow> ia_nominated_idx (handle_incoming e a' resp dst) \<noteq> None))"
proof -
  let ?m = "check_message (ia_config a) tid (cd_priority (cp_local pair)) nominate"
  obtain bs t where bs: "agent_request e a tid pair nominate = Ok bs"
    and v: "verify_integrity (ev_hash e) bs (utf8 (ic_remote_pwd (ia_config a))) = Ok ()"
    and d: "stun_decode bs = Ok (?m\<lparr>sm_attributes := sm_attributes ?m @ [MessageIntegrity t]\<rparr>)"
    by (rule check_sent [OF assms(1-3)])
  have nc: "58 \<notin> set (ic_remote_ufrag (ia_config a))" using assms(1) by (simp add: ufrags_ok_def)
  obtain resp where r: "encode_with_integrity (ev_hash e) (answer_message tid src) (utf8 (ic_local_pwd (ia_config b))) = Ok resp"
    and vr: "verify_integrity (ev_hash e) resp (utf8 (ic_local_pwd (ia_config b))) = Ok ()"
    and dr: "\<exists>t. stun_decode resp = Ok (message_norm ((answer_message tid src)\<lparr>sm_attributes := sm_attributes (answer_message tid src) @ [MessageIntegrity t]\<rparr>))"
    using answer_sent [OF assms(2,3), of src "utf8 (ic_local_pwd (ia_config b))"] by metis
  have uc: "(UseCandidate \<in> set (sm_attributes ?m @ [MessageIntegrity t]) \<and> list_ex is_controlling_attr (sm_attributes ?m @ [MessageIntegrity t]))
      \<longleftrightarrow> nominate \<and> ic_role (ia_config a) = Controlling"
    by (auto simp: check_message_def is_controlling_attr_def split: ice_role.splits)
  have h: "handle_incoming e b bs src = answer_request e resp (nominate \<and> ic_role (ia_config a) = Controlling) src b"
    using check_username [OF nc, of "ic_local_ufrag (ia_config b)" tid "cd_priority (cp_local pair)" nominate t] d v r assms(4,5) uc
    by (simp add: handle_incoming_def handle_binding_request_def answer_message_def new_binding_response_def)
  moreover have "cp_state (ia_check_list (handle_incoming e a' resp dst) ! i) = Succeeded
      \<and> (ic_role (ia_config a) = Controlling \<longrightarrow> ia_nominated_idx (handle_incoming e a' resp dst) \<noteq> None)"
    if a': "ia_config a' = ia_config a" "map_of (ia_in_flight a') tid = Some i" "i < length (ia_check_list a')"
      "cd_addr (cp_remote (ia_check_list a' ! i)) = dst" for a' i dst
  proof -
    obtain pos where pos: "position (\<lambda>(x, _). x = tid) (ia_in_flight a') = Some pos" "snd (ia_in_flight a' ! pos) = i"
      using a'(2) position_map_of by metis
    have "handle_incoming e a' resp dst =
        respond_pair e (a'\<lparr>ia_in_flight := take pos (ia_in_flight a') @ drop (Suc pos) (ia_in_flight a')\<rparr>) i dst"
      using dr vr pos assms(4) a'(1)
      by (auto simp: handle_incoming_def handle_binding_response_def message_norm_def answer_message_def new_binding_response_def)
    then show ?thesis
      using respond_pair_succeeds [of i "a'\<lparr>ia_in_flight := take pos (ia_in_flight a') @ drop (Suc pos) (ia_in_flight a')\<rparr>" dst e] a' by simp
  qed
  ultimately show ?thesis using bs answer_request_opens [of _ b src e resp] by (intro exI [of _ bs] exI [of _ resp]) simp
qed

text \<open>
  C30. A check between two agents with mirrored passwords and one common user name fragment
  completes: the request the first agent sends is answered by the second, whose open pairs to the
  sender succeed, and on that answer the pair the request was sent for succeeds at the first, which
  then has a nominated pair if it is the controlling one.
\<close>

theorem check_completes:
  assumes "ufrags_ok (ia_config a)" and "length tid = 12" and "hmac_total (ev_hash e)"
    and "ic_remote_pwd (ia_config a) = ic_local_pwd (ia_config b)"
    and "ic_local_ufrag (ia_config a) = ic_local_ufrag (ia_config b)"
  shows "\<exists>bs resp. agent_request e a tid pair nominate = Ok bs
    \<and> handle_incoming e b bs src = answer_request e resp (nominate \<and> ic_role (ia_config a) = Controlling) src b
    \<and> (\<forall>j < length (ia_check_list b). open_to src (ia_check_list b ! j) \<longrightarrow>
         cp_state (ia_check_list (handle_incoming e b bs src) ! j) = Succeeded)
    \<and> (\<forall>a' i dst. ia_config a' = ia_config a \<and> map_of (ia_in_flight a') tid = Some i \<and> i < length (ia_check_list a')
           \<and> cd_addr (cp_remote (ia_check_list a' ! i)) = dst \<longrightarrow>
         cp_state (ia_check_list (handle_incoming e a' resp dst) ! i) = Succeeded
         \<and> (ic_role (ia_config a) = Controlling \<longrightarrow> ia_nominated_idx (handle_incoming e a' resp dst) \<noteq> None))"
  using assms by (rule check_round)

subsection \<open>Instances\<close>

definition peer_config :: "str \<Rightarrow> str \<Rightarrow> ice_config" where
  "peer_config local_ufrag remote_ufrag = demo_config\<lparr>ic_local_ufrag := local_ufrag, ic_remote_ufrag := remote_ufrag\<rparr>"

definition peer_agent :: "str \<Rightarrow> str \<Rightarrow> (unit, unit) ice_agent" where
  "peer_agent local_ufrag remote_ufrag = (agent_new (peer_config local_ufrag remote_ufrag) () ())
     \<lparr>ia_in_flight := [(replicate 12 0, 0)],
      ia_check_list := [pair_new 0 (candidate_new Host relay_base relay_base 1) (candidate_new Host relay_peer relay_peer 1) True]\<rparr>"

lemma peer_agent_simps:
  "ia_config (peer_agent l r) = peer_config l r" "ic_local_ufrag (peer_config l r) = l" "ic_remote_ufrag (peer_config l r) = r"
  "ic_local_pwd (peer_config l r) = []" "ic_remote_pwd (peer_config l r) = []" "ic_role (peer_config l r) = Controlling"
  "hmac_total (ev_hash quiet_env)" "ufrags_ok (peer_config [97] [98])" "ufrags_ok (peer_config [97] [97])"
  by (simp_all add: peer_agent_def agent_new_def peer_config_def demo_config_def quiet_env_def plain_hash_total ufrags_ok_def
      is_scalar_def utf8_def utf8_char_def)

theorem checks_dropped_witness:
  "\<exists>bs. agent_request quiet_env (peer_agent [97] [98]) (replicate 12 0) (ia_check_list (peer_agent [97] [98]) ! 0) True = Ok bs
     \<and> handle_incoming quiet_env (peer_agent [98] [97]) bs relay_base = peer_agent [98] [97]"
  by (rule checks_dropped) (simp_all add: peer_agent_simps)

lemma peer_agent_pair:
  "map_of (ia_in_flight (peer_agent l r)) (replicate 12 0) = Some 0" "0 < length (ia_check_list (peer_agent l r))"
  "cd_addr (cp_remote (ia_check_list (peer_agent l r) ! 0)) = relay_peer" "cp_state (ia_check_list (peer_agent l r) ! 0) \<noteq> Succeeded"
  by (simp_all add: peer_agent_def cp_simps cd_simps) (simp add: pair_new_def)

lemma peer_agent_ok:
  "ufrags_ok (ia_config (peer_agent [97] [97]))" "length (replicate 12 (0 :: u8)) = 12" "hmac_total (ev_hash quiet_env)"
  "ic_remote_pwd (ia_config (peer_agent [97] [97])) = ic_local_pwd (ia_config (peer_agent [97] [97]))"
  by (simp_all add: peer_agent_simps)

theorem check_completes_witness:
  "\<exists>bs resp. agent_request quiet_env (peer_agent [97] [97]) (replicate 12 0) (ia_check_list (peer_agent [97] [97]) ! 0) True = Ok bs
     \<and> handle_incoming quiet_env (peer_agent [97] [97]) bs relay_base = answer_request quiet_env resp True relay_base (peer_agent [97] [97])
     \<and> cp_state (ia_check_list (handle_incoming quiet_env (peer_agent [97] [97]) resp relay_peer) ! 0) = Succeeded"
proof -
  obtain bs resp where
    "agent_request quiet_env (peer_agent [97] [97]) (replicate 12 0) (ia_check_list (peer_agent [97] [97]) ! 0) True = Ok bs"
    "handle_incoming quiet_env (peer_agent [97] [97]) bs relay_base =
       answer_request quiet_env resp (True \<and> ic_role (ia_config (peer_agent [97] [97])) = Controlling) relay_base (peer_agent [97] [97])"
    "cp_state (ia_check_list (handle_incoming quiet_env (peer_agent [97] [97]) resp relay_peer) ! 0) = Succeeded"
    using check_completes [OF peer_agent_ok refl] peer_agent_pair [of "[97]" "[97]"] by blast
  then show ?thesis by (simp add: peer_agent_simps) blast
qed

theorem incoming_needs_password_witness:
  "\<exists>data m. handle_incoming quiet_env (peer_agent [97] [97]) data relay_peer \<noteq> peer_agent [97] [97]
     \<and> stun_decode data = Ok m \<and> list_ex is_mac (sm_attributes m)"
proof -
  obtain resp where "cp_state (ia_check_list (handle_incoming quiet_env (peer_agent [97] [97]) resp relay_peer) ! 0) = Succeeded"
    using check_round [OF peer_agent_ok refl] peer_agent_pair [of "[97]" "[97]"] by blast
  then have c: "handle_incoming quiet_env (peer_agent [97] [97]) resp relay_peer \<noteq> peer_agent [97] [97]"
    using peer_agent_pair(4) by metis
  obtain m pre t rest where "stun_decode resp = Ok m" "sm_attributes m = pre @ MessageIntegrity t # rest"
    using incoming_needs_password [OF c] by blast
  then show ?thesis using c by (intro exI [of _ resp] exI [of _ m]) (simp add: is_mac_def)
qed

end
