(* ===== verification/Ice_Relay.thy ===== *)
theory Ice_Relay
  imports Ice_Invariant
begin

text \<open>
  Relay candidates added while checks are running: pair ids stay unique until the counter saturates,
  so \<open>add_relay_candidate\<close> finds every in-flight transaction and the nominated pair again; the
  rebuild of \<open>add_remote_candidate\<close>, which goes by addresses and kinds, can confuse two relays.
\<close>

subsection \<open>Pair ids\<close>

text \<open>As long as the id counter has not saturated, ids are unique and below it.\<close>

definition ids_ok :: "('t, 'r) ice_agent \<Rightarrow> bool" where
  "ids_ok a \<longleftrightarrow> ia_next_pair_id a \<noteq> - 1 \<longrightarrow>
     distinct (map cp_pair_id (ia_check_list a)) \<and> (\<forall>p \<in> set (ia_check_list a). cp_pair_id p < ia_next_pair_id a)"

lemma u64_max_iff: "n = (- 1 :: u64) \<longleftrightarrow> unat n = 2 ^ 64 - 1"
  using unat_minus_one_word_pow [where 'a = 64] by (simp add: word_unat_eq_iff)

lemma number_pairs_ids:
  assumes "fst (number_pairs n ps) \<noteq> - 1"
  shows "unat (fst (number_pairs n ps)) = unat n + length ps
    \<and> map (\<lambda>p. unat (cp_pair_id p)) (snd (number_pairs n ps)) = [unat n ..< unat n + length ps]"
  using assms
proof (induction n ps rule: number_pairs.induct)
  case (2 n p ps)
  obtain m qs where r: "number_pairs (sat_add n 1) ps = (m, qs)" by (cases "number_pairs (sat_add n 1) ps")
  then have m: "m \<noteq> - 1" "unat m = unat (sat_add n 1) + length ps" "map (\<lambda>p. unat (cp_pair_id p)) qs = [unat (sat_add n 1) ..< unat (sat_add n 1) + length ps]"
    using 2 by auto
  have "unat (sat_add n 1) \<noteq> 2 ^ 64 - 1" using m(1,2) unat_u64_less [of m] by (auto simp: u64_max_iff)
  then have s: "unat (sat_add n 1) = Suc (unat n)" using unat_u64_less [of n] by (simp add: unat_sat_add)
  show ?case using m r s by (simp add: upt_conv_Cons del: upt_Suc)
qed simp

lemma number_pairs_distinct:
  assumes "fst (number_pairs n ps) \<noteq> - 1"
  shows "distinct (map cp_pair_id (snd (number_pairs n ps)))"
    and "p \<in> set (snd (number_pairs n ps)) \<Longrightarrow> n \<le> cp_pair_id p \<and> cp_pair_id p < fst (number_pairs n ps)"
    and "n \<le> fst (number_pairs n ps)"
proof -
  note ids = number_pairs_ids [OF assms]
  have "distinct (map unat (map cp_pair_id (snd (number_pairs n ps))))" using ids by (simp add: comp_def)
  then show "distinct (map cp_pair_id (snd (number_pairs n ps)))" by (metis distinct_map)
  show "n \<le> fst (number_pairs n ps)" using ids by (simp add: word_le_nat_alt)
  assume "p \<in> set (snd (number_pairs n ps))"
  then have "unat (cp_pair_id p) \<in> set (map (\<lambda>p. unat (cp_pair_id p)) (snd (number_pairs n ps)))" by simp
  then show "n \<le> cp_pair_id p \<and> cp_pair_id p < fst (number_pairs n ps)" using ids by (simp add: word_le_nat_alt word_less_nat_alt)
qed

lemma same_list_ids: "same_list ps qs \<Longrightarrow> map cp_pair_id qs = map cp_pair_id ps"
  by (auto simp: same_list_def list_all2_conv_all_nth same_pair_def intro: nth_equalityI)

lemma ids_ok_cong:
  assumes "map cp_pair_id (ia_check_list b) = map cp_pair_id (ia_check_list a)" and "ia_next_pair_id b = ia_next_pair_id a"
  shows "ids_ok b = ids_ok a"
proof -
  have "(\<forall>p \<in> set (ia_check_list b). cp_pair_id p < n) \<longleftrightarrow> (\<forall>p \<in> set (ia_check_list a). cp_pair_id p < n)" for n
    using arg_cong [OF assms(1), of "\<lambda>xs. \<forall>i \<in> set xs. i < n"] by simp
  then show ?thesis using assms by (simp add: ids_ok_def)
qed

lemma evolves_ids: "evolves a b \<Longrightarrow> ids_ok b = ids_ok a"
  by (intro ids_ok_cong) (simp_all add: evolves_def same_list_ids)

lemma sort_pairs_ids:
  "distinct (map cp_pair_id (sort_pairs ps)) = distinct (map cp_pair_id ps)"
  by (rule mset_eq_imp_distinct_iff) (simp add: mset_sort_pairs)

lemma rebuild_ids: "ids_ok (rebuild_check_list a)"
proof -
  obtain next_id pairs where n: "number_pairs (ia_next_pair_id a) (all_pairs a) = (next_id, pairs)"
    by (cases "number_pairs (ia_next_pair_id a) (all_pairs a)")
  define idx where "idx = Option.bind (nominated_pair a) (\<lambda>old. position (\<lambda>p. same_key p old) (sort_pairs pairs))"
  have "same_list (sort_pairs pairs) (mark_at idx (sort_pairs pairs))"
    by (rule mark_at_same) (auto simp: idx_def bind_eq_Some_conv dest: position_Some)
  then have m: "map cp_pair_id (mark_at idx (sort_pairs pairs)) = map cp_pair_id (sort_pairs pairs)" by (rule same_list_ids)
  let ?b = "a\<lparr>ia_check_list := sort_pairs pairs, ia_next_pair_id := next_id\<rparr>"
  have "ids_ok ?b"
    using number_pairs_distinct [of "ia_next_pair_id a" "all_pairs a"] n by (simp add: ids_ok_def sort_pairs_ids)
  moreover have "ids_ok (rebuild_check_list a) = ids_ok ?b"
    unfolding rebuild_eq [OF n idx_def] by (rule ids_ok_cong) (simp_all add: m)
  ultimately show ?thesis by simp
qed

text \<open>What \<open>extend_check_list\<close> works on, named once for the lemmas below.\<close>

definition relay_pairs :: "('t, 'r) ice_agent \<Rightarrow> candidate \<Rightarrow> u64 \<times> candidate_pair list" where
  "relay_pairs a c = number_pairs (ia_next_pair_id a)
     (map (\<lambda>rem. pair_new 0 c rem (ic_role (ia_config a) = Controlling)) (ia_remote_candidates a))"

definition relay_list :: "('t, 'r) ice_agent \<Rightarrow> candidate \<Rightarrow> candidate_pair list" where
  "relay_list a c = sort_pairs (ia_check_list a @ snd (relay_pairs a c))"

definition find_id :: "candidate_pair list \<Rightarrow> u64 \<Rightarrow> nat option" where
  "find_id ps pid = position (\<lambda>p. cp_pair_id p = pid) ps"

lemma extend_by_id:
  assumes "agent_inv a"
  shows "extend_check_list a c =
    (let idx = Option.bind (nominated_pair a) (\<lambda>p. find_id (relay_list a c) (cp_pair_id p))
     in a\<lparr>ia_check_list := mark_at idx (relay_list a c), ia_nominated_idx := idx,
       ia_in_flight := List.map_filter (\<lambda>(tid, pid). map_option (\<lambda>i. (tid, i)) (find_id (relay_list a c) pid)) (in_flight_ids a),
       ia_next_pair_id := fst (relay_pairs a c)\<rparr>)"
proof -
  have "ia_nominated_idx a \<noteq> None \<longrightarrow> nominated_pair a \<noteq> None"
    using assms by (auto simp: agent_inv_def idx_ok_def nominated_pair_def get_at_def)
  then show ?thesis
    using extend_eq [where a = a and c = c, OF _ refl refl] by (simp add: relay_pairs_def relay_list_def find_id_def Let_def)
qed

lemma find_id_bound: "find_id ps pid = Some i \<Longrightarrow> i < length ps \<and> cp_pair_id (ps ! i) = pid"
  using position_Some by (simp add: find_id_def)

lemma find_id_mem:
  assumes "distinct (map cp_pair_id ps)" and "p \<in> set ps"
  obtains i where "find_id ps (cp_pair_id p) = Some i" and "i < length ps" and "ps ! i = p"
proof -
  obtain i where i: "i < length ps" "ps ! i = p" using assms(2) by (auto simp: in_set_conv_nth)
  then show thesis using that [of i] position_unique [OF assms(1) i(1)] by (simp add: find_id_def)
qed

lemma extend_mark_same:
  "same_list (relay_list a c) (mark_at (Option.bind (nominated_pair a) (\<lambda>p. find_id (relay_list a c) (cp_pair_id p))) (relay_list a c))"
  by (rule mark_at_same) (auto simp: bind_eq_Some_conv dest: find_id_bound)

lemma relay_list_ids:
  assumes "ids_ok a" and "fst (relay_pairs a c) \<noteq> - 1"
  shows "distinct (map cp_pair_id (relay_list a c))" and "p \<in> set (relay_list a c) \<Longrightarrow> cp_pair_id p < fst (relay_pairs a c)"
proof -
  let ?new = "snd (relay_pairs a c)"
  note new = number_pairs_distinct [OF assms(2) [unfolded relay_pairs_def], folded relay_pairs_def]
  have "ia_next_pair_id a \<noteq> - 1" using new(3) assms(2) by (metis word_order.extremum_uniqueI)
  then have old: "distinct (map cp_pair_id (ia_check_list a))" "\<And>p. p \<in> set (ia_check_list a) \<Longrightarrow> cp_pair_id p < ia_next_pair_id a"
    using assms(1) by (auto simp: ids_ok_def)
  have "cp_pair_id ` set (ia_check_list a) \<inter> cp_pair_id ` set ?new = {}" using old(2) new(2) by fastforce
  then show "distinct (map cp_pair_id (relay_list a c))" using old(1) new(1) by (simp add: relay_list_def sort_pairs_ids)
  show "cp_pair_id p < fst (relay_pairs a c)" if "p \<in> set (relay_list a c)"
    using that old(2) new(2,3) by (auto simp: relay_list_def intro: order.strict_trans2)
qed

lemma extend_ids:
  assumes "agent_inv a" and "ids_ok a"
  shows "ids_ok (extend_check_list a c)"
proof -
  let ?b = "a\<lparr>ia_check_list := relay_list a c, ia_next_pair_id := fst (relay_pairs a c)\<rparr>"
  have "ids_ok ?b" using relay_list_ids [OF assms(2)] by (auto simp: ids_ok_def)
  moreover have "ids_ok (extend_check_list a c) = ids_ok ?b"
    unfolding extend_by_id [OF assms(1)] Let_def by (rule ids_ok_cong) (simp_all add: same_list_ids [OF extend_mark_same])
  ultimately show ?thesis by simp
qed

lemma ids_ok_simps [simp]:
  "ids_ok (fst (finish_step out a)) = ids_ok a" "ids_ok (fst (gather a)) = ids_ok a" "ids_ok (a\<lparr>ia_state := s\<rparr>) = ids_ok a"
  "ids_ok (a\<lparr>ia_local_candidates := cs\<rparr>) = ids_ok a" "ids_ok (a\<lparr>ia_outgoing := os\<rparr>) = ids_ok a"
  "ids_ok (a\<lparr>ia_checking_started_us := t\<rparr>) = ids_ok a"
  by (simp_all add: ids_ok_def finish_step_def gather_def Let_def)

lemma add_relay_ids:
  assumes inv: "agent_inv a" and ids: "ids_ok a"
  shows "ids_ok (fst (add_relay_candidate a relay base))"
proof -
  let ?c = "candidate_new Relay relay base 1"
  let ?a1 = "a\<lparr>ia_local_candidates := ia_local_candidates a @ [?c]\<rparr>"
  have "agent_inv ?a1" using inv by (auto simp: agent_inv_def idx_ok_def pairs_from_def)
  then have "ids_ok (extend_check_list ?a1 ?c)" using ids by (intro extend_ids) simp_all
  then show ?thesis using ids rebuild_ids [of ?a1] by (simp add: add_relay_candidate_def Let_def)
qed

lemma drain_ids: "idx_ok a \<Longrightarrow> ids_ok (drain_transport_inbox e a) = ids_ok a"
  unfolding drain_transport_inbox_def by (meson drain_loop_evolves evolves_ids)

lemma handle_incoming_ids: "idx_ok a \<Longrightarrow> ids_ok (handle_incoming e a data src) = ids_ok a"
  by (meson handle_incoming_evolves evolves_ids)

lemma check_pairs_ids: "idx_ok a \<Longrightarrow> ids_ok (fst (check_pairs e a)) = ids_ok a"
  by (meson check_pairs_evolves evolves_ids)

lemma checking_step_ids: "agent_inv a \<Longrightarrow> ids_ok (fst (checking_step e now out a)) = ids_ok a"
  using check_pairs_inv [of a e] by (simp add: checking_step_def Let_def drain_ids check_pairs_ids agent_inv_def)

lemma agent_step_ids:
  assumes inv: "agent_inv a" and ids: "ids_ok a"
  shows "ids_ok (fst (agent_step e now a incoming))"
proof -
  define a1 where "a1 = (case incoming of None \<Rightarrow> a | Some (data, src) \<Rightarrow> handle_incoming e a data src)"
  define a3 where "a3 = (drain_transport_inbox e a1)\<lparr>ia_outgoing := []\<rparr>"
  have i: "idx_ok a" using inv by (simp add: agent_inv_def)
  have a1: "ids_ok a1" "agent_inv a1"
    using ids inv handle_incoming_ids [OF i] handle_incoming_inv [OF inv] by (auto simp: a1_def split: option.splits)
  then have a3: "ids_ok a3" "agent_inv a3"
    using drain_inv [OF a1(2)] by (simp_all add: a3_def drain_ids agent_inv_def idx_ok_def pairs_from_def)
  have reset: "ids_ok (a3\<lparr>ia_state := New, ia_local_candidates := [], ia_remote_candidates := [], ia_check_list := [],
      ia_nominated_idx := None, ia_checking_started_us := None, ia_in_flight := []\<rparr>)" by (simp add: ids_ok_def)
  have g: "ids_ok (fst (gather a3))" using a3(1) by simp
  show ?thesis
    unfolding agent_step_def Let_def a1_def [symmetric] a3_def [symmetric]
    using a3 g reset rebuild_ids [of a3] checking_step_ids [OF a3(2)]
    by (cases "ia_state a3") (auto split: prod.splits sum.splits simp del: ids_ok_simps(2))
qed

lemma run_ops_ids: "agent_inv a \<Longrightarrow> ids_ok a \<Longrightarrow> ids_ok (run_ops e a ops)"
proof (induction ops arbitrary: a)
  case (Cons op ops)
  have "ids_ok (run_op e a op)"
    using Cons.prems by (cases op) (simp_all add: run_op_def add_remote_candidate_def rebuild_ids add_relay_ids check_pairs_ids agent_inv_def agent_step_ids)
  then show ?case using Cons run_op_inv [of a e op] by (simp add: run_ops_def)
qed (simp add: run_ops_def)

lemma agent_new_ids: "ids_ok (agent_new config t r)"
  by (simp add: agent_new_def ids_ok_def)

subsection \<open>A relay candidate while checks are in flight\<close>

lemma relay_list_mem: "p \<in> set (ia_check_list a) \<Longrightarrow> p \<in> set (relay_list a c)"
  by (simp add: relay_list_def)

lemma find_extended:
  assumes "ids_ok a" and "fst (relay_pairs a c) \<noteq> - 1" and "agent_inv a" and "p \<in> set (ia_check_list a)"
  obtains j where "find_id (relay_list a c) (cp_pair_id p) = Some j"
    and "same_pair p (ia_check_list (extend_check_list a c) ! j)" and "j < length (ia_check_list (extend_check_list a c))"
proof -
  obtain j where j: "find_id (relay_list a c) (cp_pair_id p) = Some j" "j < length (relay_list a c)" "relay_list a c ! j = p"
    using find_id_mem [OF relay_list_ids(1) [OF assms(1,2)] relay_list_mem [OF assms(4)]] .
  then show thesis
    using that [OF j(1)] same_list_nth [OF extend_mark_same j(2)] same_list_length [OF extend_mark_same, of a c]
    by (simp add: extend_by_id [OF assms(3)] Let_def)
qed

lemma extend_flights:
  assumes "ids_ok a" and "fst (relay_pairs a c) \<noteq> - 1" and "agent_inv a"
  shows "list_all2 (\<lambda>(tid, i) (tid', j). tid' = tid \<and> same_pair (ia_check_list a ! i) (ia_check_list (extend_check_list a c) ! j))
    (ia_in_flight a) (ia_in_flight (extend_check_list a c))"
proof -
  let ?b = "extend_check_list a c"
  have b: "ia_in_flight ?b = List.map_filter (\<lambda>(tid, pid). map_option (\<lambda>i. (tid, i)) (find_id (relay_list a c) pid)) (in_flight_ids a)"
    by (simp add: extend_by_id [OF assms(3)] Let_def)
  have "list_all2 (\<lambda>(tid, i) (tid', j). tid' = tid \<and> same_pair (ia_check_list a ! i) (ia_check_list ?b ! j)) fs
      (List.map_filter (\<lambda>(tid, pid). map_option (\<lambda>i. (tid, i)) (find_id (relay_list a c) pid))
        (List.map_filter (\<lambda>(tid, idx). map_option (\<lambda>p. (tid, cp_pair_id p)) (get_at (ia_check_list a) idx)) fs))"
    if "\<forall>(tid, i) \<in> set fs. i < length (ia_check_list a)" for fs
    using that
  proof (induction fs)
    case (Cons f fs)
    obtain tid i where f: "f = (tid, i)" by (cases f)
    have i: "i < length (ia_check_list a)" using Cons.prems f by simp
    obtain j where "find_id (relay_list a c) (cp_pair_id (ia_check_list a ! i)) = Some j" "same_pair (ia_check_list a ! i) (ia_check_list ?b ! j)"
      using find_extended [OF assms, of "ia_check_list a ! i"] i nth_mem by blast
    then show ?case using Cons f i by (simp add: map_filter_simps get_at_def)
  qed (simp add: map_filter_simps)
  then show ?thesis unfolding b in_flight_ids_def using assms(3) by (auto simp: agent_inv_def idx_ok_def)
qed

lemma extend_nomination:
  assumes "ids_ok a" and "fst (relay_pairs a c) \<noteq> - 1" and "agent_inv a"
  shows "rel_option same_pair (nominated_pair a) (nominated_pair (extend_check_list a c))"
proof (cases "nominated_pair a")
  case None
  then show ?thesis by (simp add: extend_by_id [OF assms(3)] Let_def nominated_pair_def)
next
  case (Some p)
  then have "p \<in> set (ia_check_list a)" by (auto simp: nominated_pair_def bind_eq_Some_conv get_at_def split: if_splits)
  then obtain j where "find_id (relay_list a c) (cp_pair_id p) = Some j"
    "same_pair p (ia_check_list (extend_check_list a c) ! j)" "j < length (ia_check_list (extend_check_list a c))"
    using find_extended [OF assms] by blast
  moreover have "ia_nominated_idx (extend_check_list a c) = Option.bind (nominated_pair a) (\<lambda>p. find_id (relay_list a c) (cp_pair_id p))"
    by (simp add: extend_by_id [OF assms(3)] Let_def)
  ultimately show ?thesis using Some by (simp add: nominated_pair_def [of "extend_check_list a c"] get_at_def)
qed

lemma extend_covers:
  assumes "agent_inv a" and "rem \<in> set (ia_remote_candidates a)"
  shows "\<exists>p \<in> set (ia_check_list (extend_check_list a c)). cp_local p = c \<and> cp_remote p = rem"
proof -
  have "map cp_remote (snd (relay_pairs a c)) = ia_remote_candidates a" "map cp_local (snd (relay_pairs a c)) = map (\<lambda>_. c) (ia_remote_candidates a)"
    by (simp_all add: relay_pairs_def number_pairs_parts comp_def pair_new_def)
  then obtain q where q: "q \<in> set (relay_list a c)" "cp_remote q = rem" "cp_local q = c"
    using assms(2) by (auto simp: relay_list_def list_eq_iff_nth_eq in_set_conv_nth) (metis nth_mem)
  obtain i where i: "i < length (relay_list a c)" "relay_list a c ! i = q" using q(1) by (auto simp: in_set_conv_nth)
  have "same_pair q (ia_check_list (extend_check_list a c) ! i)" "i < length (ia_check_list (extend_check_list a c))"
    using same_list_nth [OF extend_mark_same i(1)] same_list_length [OF extend_mark_same, of a c] i
    by (simp_all add: extend_by_id [OF assms(1)] Let_def)
  then show ?thesis using q by (intro bexI [of _ "ia_check_list (extend_check_list a c) ! i"]) (simp_all add: same_pair_def)
qed

text \<open>
  A relay candidate that arrives while checks are running is paired with every remote candidate
  and disturbs nothing: every transaction in flight still belongs to the pair it was sent for, in
  the same order, and the nominated pair stays nominated. This holds in every reachable state as
  long as the 64-bit pair counter has not saturated.
\<close>

theorem relay_candidate_keeps_checks:
  assumes "a = run_ops e (agent_new config t r) ops" and "ia_state a \<in> {Checking, Connected}"
    and "b = fst (add_relay_candidate a relay base)" and "ia_next_pair_id b \<noteq> - 1"
  shows "list_all2 (\<lambda>(tid, i) (tid', j). tid' = tid \<and> same_pair (ia_check_list a ! i) (ia_check_list b ! j))
      (ia_in_flight a) (ia_in_flight b)
    \<and> rel_option same_pair (nominated_pair a) (nominated_pair b)
    \<and> (\<forall>rem \<in> set (ia_remote_candidates a). \<exists>p \<in> set (ia_check_list b).
         cp_local p = candidate_new Relay relay base 1 \<and> cp_remote p = rem)"
proof -
  let ?c = "candidate_new Relay relay base 1"
  let ?a1 = "a\<lparr>ia_local_candidates := ia_local_candidates a @ [?c]\<rparr>"
  have inv: "agent_inv a" "ids_ok a"
    unfolding assms(1) by (rule run_ops_inv [OF agent_new_inv], rule run_ops_ids [OF agent_new_inv agent_new_ids])
  then have a1: "agent_inv ?a1" "ids_ok ?a1" by (auto simp: agent_inv_def idx_ok_def pairs_from_def)
  have n: "nominated_pair ?a1 = nominated_pair a" by (simp add: nominated_pair_def)
  show ?thesis
  proof (cases "ia_remote_candidates a = []")
    case True
    then have "b = ?a1" using assms(2,3) by (auto simp: add_relay_candidate_def Let_def)
    then show ?thesis using True by (auto simp: nominated_pair_def option.rel_refl list_all2_same)
  next
    case False
    then have b: "b = extend_check_list ?a1 ?c" using assms(2,3) by (auto simp: add_relay_candidate_def Let_def)
    then have "fst (relay_pairs ?a1 ?c) \<noteq> - 1" using assms(4) by (simp add: extend_by_id [OF a1(1)] Let_def)
    then show ?thesis
      using extend_flights [OF a1(2) _ a1(1), of ?c] extend_nomination [OF a1(2) _ a1(1), of ?c] extend_covers [OF a1(1), of _ ?c]
      by (simp add: b n)
  qed
qed

subsection \<open>Two relays on one base\<close>

lemma sort_pairs_const: "(\<And>p. p \<in> set ps \<Longrightarrow> cp_priority p = k) \<Longrightarrow> sort_pairs ps = ps"
  unfolding sort_pairs_def by (rule sort_key_id_if_sorted) (simp add: sorted_iff_nth_mono)

text \<open>
  With two relay candidates on the same base (one per TURN server, say) the selected path can
  change when a remote candidate is added: the rebuilt list is searched by base, kind and remote
  address, which the two relays share, and the agent ends up nominated on the other relay.
\<close>

theorem rebuild_moves_nomination:
  "\<exists>a c old p. agent_inv (a :: (unit, unit) ice_agent) \<and> ia_state a = Connected \<and> nominated_pair a = Some old
     \<and> nominated_pair (add_remote_candidate a c) = Some p \<and> cp_local p \<in> set (ia_local_candidates a)
     \<and> cp_local p \<noteq> cp_local old"
proof -
  let ?r1 = "SockV4 0x0B000001 6000" let ?r2 = "SockV4 0x0B000002 7000"
  let ?a = "relayed_agent [?r1, ?r2]"
  let ?c = "candidate_new Host relay_base relay_base 1" let ?rem = "candidate_new Host relay_peer relay_peer 1"
  let ?l1 = "candidate_new Relay ?r1 relay_base 1" let ?l2 = "candidate_new Relay ?r2 relay_base 1"
  let ?b = "?a\<lparr>ia_remote_candidates := ia_remote_candidates ?a @ [?c]\<rparr>"
  have old: "nominated_pair ?a = Some (mark_nominated (pair_new 0 ?l2 ?rem True))" using relayed_nominated [of "[?r1]" ?r2] by simp
  then have oldb: "nominated_pair ?b = Some (mark_nominated (pair_new 0 ?l2 ?rem True))" by (simp add: nominated_pair_def)
  have all: "all_pairs ?b = [pair_new 0 ?l1 ?rem True, pair_new 0 ?l1 ?c True, pair_new 0 ?l2 ?rem True, pair_new 0 ?l2 ?c True]"
    by (simp add: all_pairs_def relayed_agent_def agent_new_def Let_def)
  obtain next_id p ps where n: "number_pairs (ia_next_pair_id ?b) (all_pairs ?b) = (next_id, p # ps)" "cp_local p = ?l1" "cp_remote p = ?rem"
    and pr: "\<forall>q \<in> set (p # ps). cp_priority q = compute_pair_priority (cd_priority ?l1) (cd_priority ?rem) True"
    unfolding all by (simp add: cp_simps cd_simps)
  have sp: "sort_pairs (p # ps) = p # ps" using pr by (intro sort_pairs_const) auto
  have "same_key p (mark_nominated (pair_new 0 ?l2 ?rem True))" using n by (simp add: same_key_def cp_simps cd_simps)
  then have "Some 0 = Option.bind (nominated_pair ?b) (\<lambda>old. position (\<lambda>p. same_key p old) (sort_pairs (p # ps)))"
    by (simp only: oldb sp) simp
  note rebuild = rebuild_eq [OF n(1) this]
  have "nominated_pair (rebuild_check_list ?b) = Some (mark_nominated p)"
    unfolding rebuild by (simp add: nominated_pair_def mark_at_def get_at_def sp)
  moreover have "?l1 \<noteq> ?l2" by (simp add: candidate_new_def)
  moreover have "?l1 \<in> set (ia_local_candidates ?a)" by (simp add: relayed_agent_def Let_def)
  ultimately show ?thesis
    using relayed_inv [of "[?r1, ?r2]"] old n(2)
    by (intro exI [of _ ?a] exI [of _ ?c]) (simp add: add_remote_candidate_def cp_simps, simp add: relayed_agent_def Let_def)
qed

theorem relay_candidate_keeps_checks_witness:
  "\<exists>a b. a = run_ops quiet_env (agent_new demo_config () ()) demo_ops \<and> ia_state a = Checking
     \<and> b = fst (add_relay_candidate a relay_peer relay_base) \<and> ia_next_pair_id b \<noteq> - 1
     \<and> (\<exists>p \<in> set (ia_check_list b). cp_local p = candidate_new Relay relay_peer relay_base 1)"
proof -
  let ?a = "run_ops quiet_env (agent_new demo_config () ()) demo_ops"
  let ?b = "fst (add_relay_candidate ?a relay_peer relay_base)"
  have st: "ia_state ?a = Checking" and rem: "set (ia_remote_candidates ?a) \<noteq> {}" by (simp_all add: demo_run)
  moreover have "ia_next_pair_id ?b \<noteq> - 1"
    unfolding demo_run by (simp add: add_relay_candidate_def extend_check_list_def Let_def nominated_pair_def pair_new_def agent_new_def sat_add_def)
  ultimately show ?thesis using relay_candidate_keeps_checks [OF refl _ refl, of quiet_env demo_config "()" "()" demo_ops relay_peer relay_base] by force
qed

end
