(* ===== verification/Turn_Wire.thy ===== *)
theory Turn_Wire
  imports Stun
begin

text \<open>
  TURN messages (\<open>src/crates/sh-ice/src/turn.rs\<close>): the attribute codec, the header with method and
  class bits interleaved, encoding with MESSAGE-INTEGRITY under a long-term key, and verification.
  The file has its own copies of the helpers of \<open>stun.rs\<close>; they are translated here as they are
  written and shown to compute the same functions, so the theory of sections and HMAC coverage
  carries over. MD5 is a parameter, HMAC-SHA1 that of \<open>stun_hash\<close>.
\<close>

definition METHOD_ALLOCATE :: u16 where "METHOD_ALLOCATE = 0x003"
definition METHOD_REFRESH :: u16 where "METHOD_REFRESH = 0x004"
definition METHOD_SEND :: u16 where "METHOD_SEND = 0x006"
definition METHOD_DATA :: u16 where "METHOD_DATA = 0x007"
definition METHOD_CREATE_PERMISSION :: u16 where "METHOD_CREATE_PERMISSION = 0x008"
definition METHOD_CHANNEL_BIND :: u16 where "METHOD_CHANNEL_BIND = 0x009"
definition STUN_HDR :: nat where "STUN_HDR = 20"

datatype turn_attr =
    TXorRelayedAddress socket_addr
  | TXorPeerAddress socket_addr
  | TXorMappedAddress socket_addr
  | TLifetime u32
  | TChannelNumber u16
  | TData bytes
  | TRealm str
  | TNonce bytes
  | TErrorCode u16 str
  | TRequestedTransport u8
  | TUsername str
  | TMessageIntegrity bytes
  | TUnknown u16 bytes

record turn_message =
  tm_method :: u16
  tm_class :: u8
  tm_transaction_id :: bytes
  tm_attrs :: "turn_attr list"

subsection \<open>Codec helpers\<close>

definition turn_type_word :: "u16 \<Rightarrow> u8 \<Rightarrow> u16" where
  "turn_type_word meth class =
     (let c1 = ucast (drop_bit 1 class AND 1);
          c0 = ucast (class AND 1);
          m_bits = push_bit 2 (meth AND 0xF80) OR push_bit 1 (meth AND 0x070) OR (meth AND 0x00F)
      in m_bits OR push_bit 8 c1 OR push_bit 4 c0)"

definition turn_build_header :: "u16 \<Rightarrow> u8 \<Rightarrow> bytes \<Rightarrow> nat \<Rightarrow> bytes" where
  "turn_build_header meth class tid attr_len =
     to_be 2 (turn_type_word meth class) @ to_be 2 (len16 attr_len) @ to_be 4 MAGIC_COOKIE @ tid"

definition xor_addr :: "socket_addr \<Rightarrow> bytes \<Rightarrow> bytes" where
  "xor_addr addr tid =
     (case addr of
        SockV4 ip port \<Rightarrow>
          (let xport = port XOR ucast (drop_bit 16 MAGIC_COOKIE); xip = ip XOR MAGIC_COOKIE
           in [0, 1] @ to_be 2 xport @ to_be 4 xip)
      | SockV6 ip port _ _ \<Rightarrow>
          (let xport = port XOR ucast (drop_bit 16 MAGIC_COOKIE);
               mask = to_be 4 MAGIC_COOKIE @ tid
           in [0, 2] @ to_be 2 xport @ map2 (XOR) (to_be 16 ip) mask))"

definition turn_push_tlv :: "bytes \<Rightarrow> u16 \<Rightarrow> bytes \<Rightarrow> bytes" where
  "turn_push_tlv buf at value =
     (let out = buf @ to_be 2 at @ to_be 2 (len16 (length value)) @ value;
          pad = pad4 (length value)
      in if pad = 1 then out @ [0] else if pad = 2 then out @ [0, 0] else if pad = 3 then out @ [0, 0, 0] else out)"

definition encode_one_attr :: "turn_attr \<Rightarrow> bytes \<Rightarrow> bytes \<Rightarrow> bytes" where
  "encode_one_attr attr tid buf =
     (case attr of
        TXorRelayedAddress a \<Rightarrow> turn_push_tlv buf 0x0016 (xor_addr a tid)
      | TXorPeerAddress a \<Rightarrow> turn_push_tlv buf 0x0012 (xor_addr a tid)
      | TXorMappedAddress a \<Rightarrow> turn_push_tlv buf 0x0020 (xor_addr a tid)
      | TLifetime s \<Rightarrow> turn_push_tlv buf 0x000D (to_be 4 s)
      | TChannelNumber ch \<Rightarrow> turn_push_tlv buf 0x000C (to_be 2 ch @ [0, 0])
      | TData d \<Rightarrow> turn_push_tlv buf 0x0013 d
      | TRealm r \<Rightarrow> turn_push_tlv buf 0x0014 (utf8 r)
      | TNonce n \<Rightarrow> turn_push_tlv buf 0x0015 n
      | TErrorCode code reason \<Rightarrow>
          turn_push_tlv buf 0x0009 ([0, 0, ucast (code div 100), ucast (code mod 100)] @ utf8 reason)
      | TRequestedTransport proto \<Rightarrow> turn_push_tlv buf 0x0019 [proto, 0, 0, 0]
      | TUsername u \<Rightarrow> turn_push_tlv buf 0x0006 (utf8 u)
      | TMessageIntegrity h \<Rightarrow> turn_push_tlv buf 0x0008 h
      | TUnknown attr_type value \<Rightarrow> turn_push_tlv buf attr_type value)"

definition encode_attrs :: "turn_attr list \<Rightarrow> bytes \<Rightarrow> bytes" where
  "encode_attrs attrs tid = foldl (\<lambda>out attr. encode_one_attr attr tid out) [] attrs"

definition dxor_addr :: "bytes \<Rightarrow> bytes \<Rightarrow> u16 \<Rightarrow> ice_error + socket_addr" where
  "dxor_addr value tid at =
     (let short = StunAttrTruncated at in
      if length value < 4 then Err short
      else let family = get0 value 1;
               xport = be16_at value 2;
               port = xport XOR ucast (drop_bit 16 MAGIC_COOKIE)
        in if family = 1 then
             (if length value < 8 then Err short
              else and_then (ok_or (get_range 4 8 value) short) (\<lambda>xip.
                Ok (SockV4 (from_be xip XOR MAGIC_COOKIE) port)))
           else if family = 2 then
             (if length value < 20 then Err short
              else and_then (ok_or (get_range 4 20 value) short) (\<lambda>xip.
                let mask = to_be 4 MAGIC_COOKIE @ tid
                in Ok (SockV6 (from_be (map2 (XOR) xip mask)) port 0 0)))
           else Err short)"

definition decode_one_attr :: "u16 \<Rightarrow> bytes \<Rightarrow> bytes \<Rightarrow> ice_error + turn_attr" where
  "decode_one_attr at value tid =
     (let short = StunAttrTruncated at in
      if at = 0x0016 then and_then (dxor_addr value tid at) (\<lambda>a. Ok (TXorRelayedAddress a))
      else if at = 0x0012 then and_then (dxor_addr value tid at) (\<lambda>a. Ok (TXorPeerAddress a))
      else if at = 0x0020 then and_then (dxor_addr value tid at) (\<lambda>a. Ok (TXorMappedAddress a))
      else if at = 0x000D then and_then (ok_or (get_range 0 4 value) short) (\<lambda>s. Ok (TLifetime (from_be s)))
      else if at = 0x000C then
        (if length value < 2 then Err short else Ok (TChannelNumber (be16_at value 0)))
      else if at = 0x0013 then Ok (TData value)
      else if at = 0x0014 then Ok (TRealm (from_utf8_lossy value))
      else if at = 0x0015 then Ok (TNonce value)
      else if at = 0x0009 then
        (if length value < 4 then Err short
         else let class = ucast (get0 value 2);
                  num = ucast (get0 value 3);
                  code = sat_add (sat_mul class 100) num
           in Ok (TErrorCode code (from_utf8_lossy (drop 4 value))))
      else if at = 0x0019 then and_then (ok_or (get_at value 0) short) (\<lambda>p. Ok (TRequestedTransport p))
      else if at = 0x0006 then and_then (ok_or (from_utf8 value) short) (\<lambda>s. Ok (TUsername s))
      else if at = 0x0008 then
        (if length value < 20 then Err short
         else and_then (ok_or (get_range 0 20 value) short) (\<lambda>h. Ok (TMessageIntegrity h)))
      else Ok (TUnknown at value))"

text \<open>The reading loop, with \<open>unwrap_or(&0)\<close> reads where \<open>stun.rs\<close> has early returns.\<close>

function decode_attrs_from :: "bytes \<Rightarrow> bytes \<Rightarrow> nat \<Rightarrow> ice_error + turn_attr list" where
  "decode_attrs_from attr_bytes tid pos =
     (if pos < length attr_bytes then
        if length attr_bytes - pos < 4 then Err (StunTruncated (pos + 4) (length attr_bytes + STUN_HDR))
        else let at = be16_at attr_bytes pos;
                 al = unat (be16_at attr_bytes (pos + 2));
                 v_start = pos + 4;
                 v_end = v_start + al
          in if v_end > length attr_bytes then Err (StunAttrTruncated at)
             else and_then (ok_or (get_range v_start v_end attr_bytes) (StunAttrTruncated at)) (\<lambda>value.
               and_then (decode_one_attr at value tid) (\<lambda>attr.
                 and_then (decode_attrs_from attr_bytes tid (v_start + align4 al)) (\<lambda>attrs. Ok (attr # attrs))))
      else Ok [])"
  by pat_completeness auto
termination
  by (relation "measure (\<lambda>(bs, tid, pos). length bs - pos)") auto

declare decode_attrs_from.simps [simp del]

definition decode_attrs :: "bytes \<Rightarrow> bytes \<Rightarrow> ice_error + turn_attr list" where
  "decode_attrs attr_bytes tid = decode_attrs_from attr_bytes tid 0"

function find_attr_from :: "bytes \<Rightarrow> u16 \<Rightarrow> nat \<Rightarrow> ice_error + nat" where
  "find_attr_from ab target pos =
     (if pos + 4 \<le> length ab then
        let t = be16_at ab pos;
            l = unat (be16_at ab (pos + 2));
            ve = pos + 4 + l
        in if ve > length ab then Err (StunAttrTruncated t)
           else if t = target then Ok (STUN_HDR + pos)
           else find_attr_from ab target (pos + 4 + align4 l)
      else Err IntegrityMismatch)"
  by pat_completeness auto
termination
  by (relation "measure (\<lambda>(ab, t, pos). length ab - pos)") auto

declare find_attr_from.simps [simp del]

definition find_attr :: "bytes \<Rightarrow> u16 \<Rightarrow> ice_error + nat" where
  "find_attr raw target =
     (if length raw < STUN_HDR then Err (StunTruncated STUN_HDR (length raw))
      else let total = STUN_HDR + unat (be16_at raw 2) in
        and_then (ok_or (get_range STUN_HDR total raw) (StunTruncated total (length raw))) (\<lambda>ab. find_attr_from ab target 0))"

definition hmac_sha1 :: "stun_hash \<Rightarrow> bytes \<Rightarrow> bytes \<Rightarrow> ice_error + bytes" where
  "hmac_sha1 h key data = map_err (\<lambda>e. IceTransport (''HMAC-SHA1: '' @ e)) (sh_hmac h key data)"

subsection \<open>Messages\<close>

definition turn_decode :: "bytes \<Rightarrow> ice_error + turn_message" where
  "turn_decode raw =
     (if length raw < STUN_HDR then Err (StunTruncated STUN_HDR (length raw))
      else let type_word = be16_at raw 0 in
        if type_word AND 0xC000 \<noteq> 0 then Err InvalidMessageTypeBits
        else let msg_len = be16_at raw 2 in
          if msg_len mod 4 \<noteq> 0 then Err (MessageLengthNotAligned msg_len)
          else let cookie = be32_at raw 4 in
            if cookie \<noteq> MAGIC_COOKIE then Err (BadMagicCookie cookie)
            else let meth = (drop_bit 2 type_word AND 0xF80) OR (drop_bit 1 type_word AND 0x070) OR (type_word AND 0x00F);
                     c1 = drop_bit 8 type_word AND 1;
                     c0 = drop_bit 4 type_word AND 1;
                     class = ucast (push_bit 1 c1 OR c0)
              in and_then (ok_or (get_range 8 20 raw) (StunTruncated 20 (length raw))) (\<lambda>tid.
                let total = STUN_HDR + unat msg_len in
                if length raw < total then Err (StunTruncated total (length raw))
                else and_then (ok_or (get_range STUN_HDR total raw) (StunTruncated total (length raw))) (\<lambda>attr_bytes.
                  and_then (decode_attrs attr_bytes tid) (\<lambda>attrs.
                    Ok \<lparr>tm_method = meth, tm_class = class, tm_transaction_id = tid, tm_attrs = attrs\<rparr>))))"

definition turn_encode :: "turn_message \<Rightarrow> bytes" where
  "turn_encode m =
     (let attr_body = encode_attrs (tm_attrs m) (tm_transaction_id m)
      in turn_build_header (tm_method m) (tm_class m) (tm_transaction_id m) (length attr_body) @ attr_body)"

definition turn_encode_with_integrity :: "stun_hash \<Rightarrow> turn_message \<Rightarrow> bytes \<Rightarrow> ice_error + bytes" where
  "turn_encode_with_integrity h m lt_key =
     (let attr_body = encode_attrs (tm_attrs m) (tm_transaction_id m);
          mi_msg_len = usz_add (length attr_body) 24;
          out = turn_build_header (tm_method m) (tm_class m) (tm_transaction_id m) mi_msg_len @ attr_body
      in and_then (hmac_sha1 h lt_key out) (\<lambda>hmac.
           Ok (out @ to_be 2 (0x0008 :: u16) @ to_be 2 (20 :: u16) @ hmac)))"

definition turn_verify_integrity :: "stun_hash \<Rightarrow> bytes \<Rightarrow> bytes \<Rightarrow> ice_error + unit" where
  "turn_verify_integrity h raw lt_key =
     and_then (find_attr raw 0x0008) (\<lambda>mi_off.
       let mi_end = mi_off + 24;
           body_end = STUN_HDR + unat (be16_at raw 2);
           trailer = (case get_range mi_end body_end raw of None \<Rightarrow> [] | Some t \<Rightarrow> t);
           is_only_fp = (length trailer = 8 \<and> get_range 0 2 trailer = Some (to_be 2 (0x8028 :: u16)))
       in if mi_end < body_end \<and> \<not> is_only_fp then Err (AttrOrderingViolation ''MESSAGE-INTEGRITY'')
          else and_then (ok_or (get_range 0 mi_off raw) (StunTruncated mi_off (length raw))) (\<lambda>prefix.
            let hmac_msg_len = mi_off + 24 - STUN_HDR;
                buf = (if 4 \<le> length prefix then take 2 prefix @ to_be 2 (len16 hmac_msg_len) @ drop 4 prefix else prefix)
            in and_then (hmac_sha1 h lt_key buf) (\<lambda>expected.
              let v_start = mi_off + 4; v_end = v_start + 20 in
              and_then (ok_or (get_range v_start v_end raw) IntegrityMismatch) (\<lambda>stored.
                if expected = stored then Ok () else Err IntegrityMismatch))))"

text \<open>The accessors return the first attribute of their kind.\<close>

fun find_map :: "('a \<Rightarrow> 'b option) \<Rightarrow> 'a list \<Rightarrow> 'b option" where
  "find_map f [] = None"
| "find_map f (x # xs) = (case f x of None \<Rightarrow> find_map f xs | Some y \<Rightarrow> Some y)"

definition relay_address :: "turn_message \<Rightarrow> socket_addr option" where
  "relay_address m = find_map (\<lambda>a. case a of TXorRelayedAddress x \<Rightarrow> Some x | _ \<Rightarrow> None) (tm_attrs m)"

definition tm_realm :: "turn_message \<Rightarrow> str option" where
  "tm_realm m = find_map (\<lambda>a. case a of TRealm r \<Rightarrow> Some r | _ \<Rightarrow> None) (tm_attrs m)"

definition tm_nonce :: "turn_message \<Rightarrow> bytes option" where
  "tm_nonce m = find_map (\<lambda>a. case a of TNonce n \<Rightarrow> Some n | _ \<Rightarrow> None) (tm_attrs m)"

definition tm_error_code :: "turn_message \<Rightarrow> u16 option" where
  "tm_error_code m = find_map (\<lambda>a. case a of TErrorCode code _ \<Rightarrow> Some code | _ \<Rightarrow> None) (tm_attrs m)"

definition tm_lifetime :: "turn_message \<Rightarrow> u32 option" where
  "tm_lifetime m = find_map (\<lambda>a. case a of TLifetime l \<Rightarrow> Some l | _ \<Rightarrow> None) (tm_attrs m)"

definition long_term_key :: "(bytes \<Rightarrow> bytes) \<Rightarrow> str \<Rightarrow> str \<Rightarrow> str \<Rightarrow> bytes" where
  "long_term_key md5 username realm password = md5 (utf8 (username @ [58] @ realm @ [58] @ password))"

subsection \<open>Agreement with the STUN helpers\<close>

lemma and_then_cong: "r = r' \<Longrightarrow> (\<And>x. r' = Ok x \<Longrightarrow> f x = g x) \<Longrightarrow> and_then r f = and_then r' g"
  by (cases r') (simp_all)

lemma xor_addr_eq: "xor_addr = encode_xor_mapped_address"
  by (auto simp: fun_eq_iff xor_addr_def encode_xor_mapped_address_def xor_port_def xor_bytes_def xor_mask_def Let_def split: socket_addr.splits)

lemma turn_push_tlv_eq: "turn_push_tlv = push_tlv"
  by (simp add: fun_eq_iff turn_push_tlv_def push_tlv_def Let_def)

lemma get0_nth: "i < length xs \<Longrightarrow> get0 xs i = xs ! i"
  by (simp add: get0_def get_at_def)

lemma dxor_addr_eq: "dxor_addr value tid at = decode_xor_mapped_address value tid at"
proof (cases "length value < 4")
  case False
  then have "get_at value 1 = Some (get0 value 1)" "get_range 2 4 value = Some (field 2 2 value)" "be16_at value 2 = from_be (field 2 2 value)"
    by (simp_all add: get_at_def get0_nth get_range_field be16_at_field)
  then show ?thesis
    using False by (simp add: dxor_addr_def decode_xor_mapped_address_def xor_port_def xor_bytes_def xor_mask_def Let_def)
qed (simp add: dxor_addr_def decode_xor_mapped_address_def)

lemma decode_attrs_from_eq: "decode_attrs_from bs tid pos = tlv_loop (\<lambda>t v. decode_one_attr t v tid) bs pos"
proof (induction bs tid pos rule: decode_attrs_from.induct)
  case (1 bs tid pos)
  show ?case
  proof (cases "pos < length bs \<and> \<not> length bs - pos < 4")
    case True
    then have l: "pos + 4 \<le> length bs" by linarith
    then have "get_range pos (pos + 2) bs = Some (field pos 2 bs)" "get_range (pos + 2) (pos + 4) bs = Some (field (pos + 2) 2 bs)"
      "be16_at bs pos = from_be (field pos 2 bs)" "be16_at bs (pos + 2) = from_be (field (pos + 2) 2 bs)"
      by (simp_all add: get_range_field be16_at_field del: add_2_eq_Suc add_2_eq_Suc')
    then show ?thesis
      using 1 True by (subst decode_attrs_from.simps, subst tlv_loop.simps)
        (simp add: Let_def del: add_2_eq_Suc add_2_eq_Suc' cong: and_then_cong)
  qed (subst decode_attrs_from.simps, subst tlv_loop.simps, auto simp: STUN_HDR_def STUN_HEADER_LEN_def)
qed

lemma find_attr_from_eq: "find_attr_from ab target pos = find_from IntegrityMismatch ab target pos"
proof (induction ab target pos rule: find_attr_from.induct)
  case (1 ab target pos)
  then show ?case
    by (subst find_attr_from.simps, subst find_from.simps) (simp add: STUN_HDR_def STUN_HEADER_LEN_def Let_def)
qed

lemma find_attr_eq: "find_attr raw target = find_attr_offset IntegrityMismatch raw target"
  by (simp add: find_attr_def find_attr_offset_def find_attr_from_eq STUN_HDR_def STUN_HEADER_LEN_def)

lemma turn_verify_eq: "turn_verify_integrity h raw key = and_then (find_attr_offset IntegrityMismatch raw 0x0008) (check_mac (hmac_sha1 h) raw key)"
  unfolding turn_verify_integrity_def check_mac_def find_attr_eq set_len_def only_fingerprint_def STUN_HDR_def STUN_HEADER_LEN_def Let_def
  by (rule refl)

lemma find_from_missing: "find_from m bs target pos = Ok off \<longleftrightarrow> find_from m' bs target pos = Ok off"
proof (induction m bs target pos rule: find_from.induct)
  case (1 m bs target pos)
  then show ?case by (subst find_from.simps, subst (2) find_from.simps) (simp add: Let_def)
qed

lemma find_attr_missing: "find_attr_offset m raw target = Ok off \<longleftrightarrow> find_attr_offset m' raw target = Ok off"
  using find_from_missing [of m _ target 0 off m'] by (simp add: find_attr_offset_def Let_def)

lemma hmac_sha1_Ok: "hmac_sha1 h key data = Ok t \<longleftrightarrow> compute_hmac_sha1 h key data = Ok t"
  by (simp add: hmac_sha1_def compute_hmac_sha1_def)

lemma check_mac_Ok: "check_mac (hmac_sha1 h) raw key off = Ok () \<longleftrightarrow> check_mac (compute_hmac_sha1 h) raw key off = Ok ()"
  by (simp add: check_mac_def hmac_sha1_Ok Let_def)

lemma turn_verify_ok: "turn_verify_integrity h raw key = Ok () \<longleftrightarrow> verify_integrity h raw key = Ok ()"
  using find_attr_missing [of "AttrNotFound 0x0008" raw "0x0008" _ IntegrityMismatch]
  by (simp add: turn_verify_eq verify_integrity_def check_mac_Ok)

text \<open>
  The copies of the STUN helpers in the TURN code compute the same functions: addresses are
  encoded and decoded alike, attribute sections are read and searched alike, and a message's HMAC is
  accepted under the same conditions.
\<close>

theorem turn_helpers_agree:
  "xor_addr addr tid = encode_xor_mapped_address addr tid
   \<and> dxor_addr value tid at = decode_xor_mapped_address value tid at
   \<and> turn_push_tlv buf at value = push_tlv buf at value
   \<and> decode_attrs bs tid = tlv_loop (\<lambda>t v. decode_one_attr t v tid) bs 0
   \<and> find_attr raw target = find_attr_offset IntegrityMismatch raw target
   \<and> is_ok (turn_verify_integrity h raw key) = is_ok (verify_integrity h raw key)"
  by (simp add: xor_addr_eq dxor_addr_eq turn_push_tlv_eq decode_attrs_def decode_attrs_from_eq find_attr_eq turn_verify_ok is_ok_iff)

subsection \<open>The codec\<close>

definition turn_attr_tlv :: "bytes \<Rightarrow> turn_attr \<Rightarrow> u16 \<times> bytes" where
  "turn_attr_tlv tid attr =
     (case attr of
        TXorRelayedAddress a \<Rightarrow> (0x0016, xor_addr a tid)
      | TXorPeerAddress a \<Rightarrow> (0x0012, xor_addr a tid)
      | TXorMappedAddress a \<Rightarrow> (0x0020, xor_addr a tid)
      | TLifetime s \<Rightarrow> (0x000D, to_be 4 s)
      | TChannelNumber ch \<Rightarrow> (0x000C, to_be 2 ch @ [0, 0])
      | TData d \<Rightarrow> (0x0013, d)
      | TRealm r \<Rightarrow> (0x0014, utf8 r)
      | TNonce n \<Rightarrow> (0x0015, n)
      | TErrorCode code reason \<Rightarrow> (0x0009, [0, 0, ucast (code div 100), ucast (code mod 100)] @ utf8 reason)
      | TRequestedTransport proto \<Rightarrow> (0x0019, [proto, 0, 0, 0])
      | TUsername u \<Rightarrow> (0x0006, utf8 u)
      | TMessageIntegrity h \<Rightarrow> (0x0008, h)
      | TUnknown attr_type value \<Rightarrow> (attr_type, value))"

lemma encode_one_attr_tlv:
  "encode_one_attr a tid buf = buf @ tlv_bytes (fst (turn_attr_tlv tid a)) (snd (turn_attr_tlv tid a))"
  by (cases a) (simp_all add: encode_one_attr_def turn_attr_tlv_def turn_push_tlv_eq push_tlv_eq)

lemma encode_attrs_concat:
  "encode_attrs as tid = concat (map (\<lambda>a. tlv_bytes (fst (turn_attr_tlv tid a)) (snd (turn_attr_tlv tid a))) as)"
proof -
  have "foldl (\<lambda>out a. encode_one_attr a tid out) buf as =
      buf @ concat (map (\<lambda>a. tlv_bytes (fst (turn_attr_tlv tid a)) (snd (turn_attr_tlv tid a))) as)" for buf
    by (induction as arbitrary: buf) (simp_all add: encode_one_attr_tlv)
  then show ?thesis by (simp add: encode_attrs_def)
qed

definition TURN_TYPES :: "u16 list" where
  "TURN_TYPES = [0x0006, 0x0008, 0x0009, 0x000C, 0x000D, 0x0012, 0x0013, 0x0014, 0x0015, 0x0016, 0x0019, 0x0020]"

definition wf_turn_attr :: "turn_attr \<Rightarrow> bool" where
  "wf_turn_attr a =
     (case a of
        TData d \<Rightarrow> length d < 65536
      | TRealm s \<Rightarrow> is_str s \<and> length (utf8 s) < 65536
      | TNonce n \<Rightarrow> length n < 65536
      | TErrorCode code reason \<Rightarrow> code < 25600 \<and> is_str reason \<and> length (utf8 reason) < 65532
      | TUsername s \<Rightarrow> is_str s \<and> length (utf8 s) < 65536
      | TMessageIntegrity t \<Rightarrow> length t = 20
      | TUnknown t v \<Rightarrow> t \<notin> set TURN_TYPES \<and> length v < 65536
      | _ \<Rightarrow> True)"

definition turn_attr_norm :: "turn_attr \<Rightarrow> turn_attr" where
  "turn_attr_norm a = (case a of TXorRelayedAddress x \<Rightarrow> TXorRelayedAddress (addr_norm x)
     | TXorPeerAddress x \<Rightarrow> TXorPeerAddress (addr_norm x)
     | TXorMappedAddress x \<Rightarrow> TXorMappedAddress (addr_norm x) | other \<Rightarrow> other)"

lemma error_code_bytes: "length value = n \<Longrightarrow> get0 ([a, b, c, d] @ r) 2 = c \<and> get0 ([a, b, c, d] @ r) 3 = d"
  by (simp add: get0_def get_at_def)

interpretation turn_attrs: attr_codec turn_attr_tlv "\<lambda>tid t v. decode_one_attr t v tid" wf_turn_attr turn_attr_norm
proof (unfold_locales, goal_cases)
  case (1 tid a)
  then show ?case
    by (cases a) (auto simp: turn_attr_tlv_def wf_turn_attr_def xor_addr_eq
      intro: le_less_trans [OF length_encode_address(1)] le_less_trans [OF length_encode_address(2)])
next
  case (2 tid a)
  then show ?case
    by (cases a)
      (simp_all add: turn_attr_tlv_def decode_one_attr_def wf_turn_attr_def turn_attr_norm_def decode_encode_xor xor_addr_eq dxor_addr_eq
        from_utf8_utf8 from_utf8_lossy_utf8 get_range_def get_at_def get0_def be16_at_field error_code_join TURN_TYPES_def)
qed

subsection \<open>Headers\<close>

lemma upt16: "[0..<16] = [0, 1, 2, 3, 4, 5, 6, 7, 8, 9, 10, 11, 12, 13, 14, 15]"
  by (simp add: upt_rec)

lemma turn_type_word_bits:
  "bit (turn_type_word meth cls) n \<longleftrightarrow>
     (n < 4 \<and> bit meth n) \<or> (n = 4 \<and> bit cls 0) \<or> (5 \<le> n \<and> n < 8 \<and> bit meth (n - 1)) \<or> (n = 8 \<and> bit cls 1)
     \<or> (9 \<le> n \<and> n < 14 \<and> bit meth (n - 2))"
proof (cases "n < 16")
  case True
  then have "n \<in> set [0..<16]" by simp
  then show ?thesis
    unfolding upt16 by (simp only: list.set insert_iff empty_iff) (elim disjE; simp add: turn_type_word_def Let_def bit_simps mult.commute [of meth 2])
next
  case False
  then show ?thesis using bit_imp_le_length [of "turn_type_word meth cls" n] by auto
qed

lemma turn_type_word_top: "turn_type_word meth cls AND 0xC000 = 0"
  by (rule u16_eqI, unfold upt16, simp only: list.set insert_iff empty_iff)
    (elim disjE; simp add: bit_and_iff turn_type_word_bits)

lemma turn_type_word_method:
  assumes "meth < 0x1000" and "w = turn_type_word meth cls"
  shows "(drop_bit 2 w AND 0xF80) OR (drop_bit 1 w AND 0x070) OR (w AND 0x00F) = meth"
proof (rule u16_eqI)
  fix n assume n: "n \<in> set [0..<16]"
  have "\<not> bit meth 12" "\<not> bit meth 13" "\<not> bit meth 14" "\<not> bit meth 15"
    using bit_lt_of_unat [of meth 12 12] bit_lt_of_unat [of meth 12 13] bit_lt_of_unat [of meth 12 14]
      bit_lt_of_unat [of meth 12 15] assms(1) by (auto simp: word_less_nat_alt)
  then show "bit ((drop_bit 2 w AND 0xF80) OR (drop_bit 1 w AND 0x070) OR (w AND 0x00F)) n = bit meth n"
    using n unfolding upt16
    by (simp only: list.set insert_iff empty_iff)
      (elim disjE; simp add: assms(2) bit_or_iff bit_and_iff bit_drop_bit_eq turn_type_word_bits bit_numeral_simps)
qed

lemma u8_below_4: "cls < 4 \<Longrightarrow> cls = 0 \<or> cls = 1 \<or> cls = 2 \<or> cls = (3 :: u8)"
proof -
  assume "cls < 4"
  then have "unat cls < 4" by (simp add: word_less_nat_alt)
  then have "unat cls = 0 \<or> unat cls = 1 \<or> unat cls = 2 \<or> unat cls = 3" by linarith
  then show ?thesis by (auto simp: word_unat_eq_iff)
qed

lemma turn_type_word_class:
  assumes "cls < 4" and "w = turn_type_word meth cls"
  shows "ucast (push_bit 1 (drop_bit 8 w AND 1) OR (drop_bit 4 w AND 1)) = cls"
proof -
  have one: "x AND 1 = of_bool (bit x 0)" for x :: u16
    by (rule bit_word_eqI) (auto simp: bit_simps)
  have "drop_bit 8 w AND 1 = of_bool (bit cls 1)" "drop_bit 4 w AND 1 = of_bool (bit cls 0)"
    by (simp_all add: one bit_drop_bit_eq assms(2) turn_type_word_bits)
  then show ?thesis using u8_below_4 [OF assms(1)] by (elim disjE) simp_all
qed

lemma length_turn_build_header [simp]: "length tid = 12 \<Longrightarrow> length (turn_build_header m c tid n) = 20"
  by (simp add: turn_build_header_def)

lemma set_len_turn_build_header [simp]: "set_len (turn_build_header m c tid n) k = turn_build_header m c tid k"
  by (simp add: set_len_def turn_build_header_def)

lemma turn_header_fields:
  assumes "length tid = 12"
  shows "be16_at (turn_build_header m c tid n @ r) 0 = turn_type_word m c" "be16_at (turn_build_header m c tid n @ r) 2 = len16 n"
    "be32_at (turn_build_header m c tid n @ r) 4 = MAGIC_COOKIE" "field 8 12 (turn_build_header m c tid n @ r) = tid"
proof -
  have "[get0 (turn_build_header m c tid n @ r) 4, get0 (turn_build_header m c tid n @ r) 5,
      get0 (turn_build_header m c tid n @ r) 6, get0 (turn_build_header m c tid n @ r) 7] = to_be 4 MAGIC_COOKIE"
    by (simp add: turn_build_header_def get0_def get_at_def nth_append numeral_2_eq_2 eval_nat_numeral)
  then show "be32_at (turn_build_header m c tid n @ r) 4 = MAGIC_COOKIE"
    by (simp add: be32_at_def)
qed (use assms in \<open>simp_all add: be16_at_field turn_build_header_def\<close>)

lemma turn_decode_parts:
  assumes "length tid = 12" and "length bs \<le> 65535" and "length bs mod 4 = 0" and "m < 0x1000" and "c < 4"
  shows "turn_decode (turn_build_header m c tid (length bs) @ bs @ junk) =
    and_then (decode_attrs bs tid) (\<lambda>as. Ok \<lparr>tm_method = m, tm_class = c, tm_transaction_id = tid, tm_attrs = as\<rparr>)"
proof -
  let ?raw = "turn_build_header m c tid (length bs) @ bs @ junk"
  have l: "unat (len16 (length bs)) = length bs" using assms(2) by (rule unat_len16)
  then have "len16 (length bs) mod 4 = 0" using assms(3) by (simp add: word_unat_eq_iff unat_mod)
  moreover have "get_range 8 20 ?raw = Some tid"
    using turn_header_fields(4) [OF assms(1), of m c "length bs" "bs @ junk"] assms(1) by (simp add: get_range_field)
  moreover have "get_range 20 (20 + length bs) ?raw = Some bs" using assms(1) by (simp add: get_range_def)
  moreover note turn_type_word_method [OF assms(4) refl, of c] turn_type_word_class [OF assms(5) refl, of m]
  ultimately show ?thesis
    using assms(1) unfolding turn_decode_def turn_header_fields [OF assms(1)] Let_def
    by (simp add: l STUN_HDR_def turn_type_word_top del: be16_at_append push_bit_of_1)
qed

text \<open>Messages with a 12-bit method, a 2-bit class and attributes that fit.\<close>

definition wf_turn :: "turn_message \<Rightarrow> bool" where
  "wf_turn m \<longleftrightarrow> tm_method m < 0x1000 \<and> tm_class m < 4 \<and> length (tm_transaction_id m) = 12 \<and> list_all wf_turn_attr (tm_attrs m)
     \<and> length (encode_attrs (tm_attrs m) (tm_transaction_id m)) \<le> 65500"

definition turn_norm :: "turn_message \<Rightarrow> turn_message" where
  "turn_norm m = m\<lparr>tm_attrs := map turn_attr_norm (tm_attrs m)\<rparr>"

lemma encode_attrs_tlvs:
  "length tid = 12 \<Longrightarrow> list_all wf_turn_attr as \<Longrightarrow> tlvs (encode_attrs as tid) (map (turn_attr_tlv tid) as)"
  unfolding encode_attrs_concat by (rule turn_attrs.section_tlvs)

lemma decode_encode_attrs:
  "length tid = 12 \<Longrightarrow> list_all wf_turn_attr as \<Longrightarrow> decode_attrs (encode_attrs as tid) tid = Ok (map turn_attr_norm as)"
  unfolding encode_attrs_concat decode_attrs_def decode_attrs_from_eq by (rule turn_attrs.section_decodes)

lemma turn_decode_built:
  assumes "length tid = 12" and "list_all wf_turn_attr as" and "length (encode_attrs as tid) \<le> 65535" and "m < 0x1000" and "c < 4"
  shows "turn_decode (turn_build_header m c tid (length (encode_attrs as tid)) @ encode_attrs as tid @ junk) =
    Ok \<lparr>tm_method = m, tm_class = c, tm_transaction_id = tid, tm_attrs = map turn_attr_norm as\<rparr>"
  using turn_decode_parts [OF assms(1,3) tlvs_aligned [OF encode_attrs_tlvs [OF assms(1,2)]] assms(4,5), of junk]
  by (simp add: decode_encode_attrs assms)

lemma turn_decode_encode: "wf_turn m \<Longrightarrow> turn_decode (turn_encode m @ junk) = Ok (turn_norm m)"
  using turn_decode_built [of "tm_transaction_id m" "tm_attrs m" "tm_method m" "tm_class m" junk]
  by (simp add: wf_turn_def turn_encode_def turn_norm_def Let_def)

text \<open>
  Decoding an encoded TURN message gives it back, whatever follows it in the buffer: method,
  class, transaction id and every attribute, with flow label and scope id of IPv6 addresses cleared.
\<close>

theorem turn_roundtrip:
  assumes "wf_turn m"
  shows "turn_decode (turn_encode m @ junk) = Ok (turn_norm m)"
  using assms by (rule turn_decode_encode)

subsection \<open>Signed messages\<close>

definition is_turn_mac :: "turn_attr \<Rightarrow> bool" where
  "is_turn_mac a = (case a of TMessageIntegrity _ \<Rightarrow> True | _ \<Rightarrow> False)"

lemma turn_attr_tlv_type: "wf_turn_attr a \<Longrightarrow> fst (turn_attr_tlv tid a) = 0x0008 \<longleftrightarrow> is_turn_mac a"
  by (cases a; auto simp: turn_attr_tlv_def wf_turn_attr_def TURN_TYPES_def is_turn_mac_def)

lemma no_turn_mac_type:
  assumes "list_all wf_turn_attr as" and "\<not> list_ex is_turn_mac as"
  shows "0x0008 \<notin> fst ` set (map (turn_attr_tlv tid) as)"
proof
  assume "0x0008 \<in> fst ` set (map (turn_attr_tlv tid) as)"
  then obtain a where "a \<in> set as" "fst (turn_attr_tlv tid a) = 0x0008" by auto
  then show False using assms turn_attr_tlv_type [of a tid] by (simp add: list_all_iff list_ex_iff)
qed

lemma encode_attrs_append: "encode_attrs (as @ bs) tid = encode_attrs as tid @ encode_attrs bs tid"
  by (simp add: encode_attrs_concat)

lemma encode_attrs_MI: "length t = 20 \<Longrightarrow> encode_attrs [TMessageIntegrity t] tid = tlv_bytes 0x0008 t"
  by (simp add: encode_attrs_concat turn_attr_tlv_def)

lemma turn_signed:
  assumes "wf_turn m" and "\<not> list_ex is_turn_mac (tm_attrs m)" and "hmac_total h"
  obtains out t where "turn_encode_with_integrity h m key = Ok out" and "turn_verify_integrity h out key = Ok ()"
    and "turn_decode out = Ok (turn_norm (m\<lparr>tm_attrs := tm_attrs m @ [TMessageIntegrity t]\<rparr>))"
proof -
  let ?tid = "tm_transaction_id m" let ?H = "turn_build_header (tm_method m) (tm_class m) ?tid"
  define body where "body = encode_attrs (tm_attrs m) ?tid"
  have tid: "length ?tid = 12" and as: "list_all wf_turn_attr (tm_attrs m)" and l: "length body \<le> 65500"
    and mc: "tm_method m < 0x1000" "tm_class m < 4"
    using assms(1) by (simp_all add: wf_turn_def body_def)
  obtain t where t: "hmac_sha1 h key (?H (24 + length body) @ body) = Ok t" "length t = 20"
    using compute_hmac_total [OF assms(3)] by (metis hmac_sha1_Ok)
  let ?out = "?H (24 + length body) @ body @ tlv_bytes 0x0008 t"
  have mi: "tlv_bytes 0x0008 t = to_be 2 (0x0008 :: u16) @ to_be 2 (20 :: u16) @ t" using t(2) by (rule encode_attributes_MI(2))
  have e: "turn_encode_with_integrity h m key = Ok ?out"
    using t l by (simp add: turn_encode_with_integrity_def body_def [symmetric] usize_max_def mi Let_def add.commute [of "length body"])
  have sec: "tlvs body (map (turn_attr_tlv ?tid) (tm_attrs m))" using encode_attrs_tlvs [OF tid as] by (simp add: body_def)
  have len: "unat (be16_at (?H (24 + length body)) 2) = length body + 24 + length ([] :: bytes)"
    using turn_header_fields(2) [OF tid, of "tm_method m" "tm_class m" "24 + length body" "[]"] l by (simp add: unat_len16)
  have hm: "hmac_sha1 h key (set_len (?H (24 + length body)) (24 + length body) @ body) = Ok t" using t(1) by simp
  have v: "turn_verify_integrity h ?out key = Ok ()"
    using mac_complete [where hm = "hmac_sha1 h" and key = key, OF _ sec no_turn_mac_type [OF as assms(2)] t(2) hm _ tlvs_nil len] tid
    by (simp add: turn_verify_eq)
  have d: "turn_decode ?out = Ok (turn_norm (m\<lparr>tm_attrs := tm_attrs m @ [TMessageIntegrity t]\<rparr>))"
    using turn_decode_built [OF tid, of "tm_attrs m @ [TMessageIntegrity t]" "tm_method m" "tm_class m" "[]"] as l t(2) mc
    by (simp add: encode_attrs_append encode_attrs_MI body_def [symmetric] wf_turn_attr_def turn_norm_def mi
        add.commute [of "length body"])
  show thesis by (rule that [OF e v d])
qed

end
