(* ===== verification/Turn_Client.thy ===== *)
theory Turn_Client
  imports Turn_Wire Ice_Invariant
begin

text \<open>
  The TURN client of \<open>src/crates/sh-ice/src/turn.rs\<close>: the allocation state machine with its
  challenge and retry logic, refresh, permissions, channel bindings, indications and channel data.
  Transport and random numbers are those of \<open>ice_env\<close>, MD5 is passed along, and the current second
  is an argument of the operations that read the clock.
\<close>

definition CHANNEL_HDR :: nat where "CHANNEL_HDR = 4"
definition CHANNEL_MIN :: u16 where "CHANNEL_MIN = 0x4000"
definition CHANNEL_MAX :: u16 where "CHANNEL_MAX = 0x7FFF"

datatype turn_state = Unallocated | Allocating | AllocatingAuthenticated | Allocated | Refreshing | Expired

record turn_config =
  tu_server_addr :: socket_addr
  tu_username :: str
  tu_password :: str
  tu_lifetime_secs :: u32

record ('t, 'r) turn_client =
  tc_config :: turn_config
  tc_transport :: 't
  tc_rng :: 'r
  tc_state :: turn_state
  tc_relay_addr :: "socket_addr option"
  tc_realm :: "str option"
  tc_nonce :: "bytes option"
  tc_lt_key :: "bytes option"
  tc_expires_at :: "i64 option"
  tc_pending_tid :: "bytes option"
  tc_auth_attempts :: u8

definition turn_client_new :: "turn_config \<Rightarrow> 't \<Rightarrow> 'r \<Rightarrow> ('t, 'r) turn_client" where
  "turn_client_new config transport rng =
     \<lparr>tc_config = config, tc_transport = transport, tc_rng = rng, tc_state = Unallocated, tc_relay_addr = None,
      tc_realm = None, tc_nonce = None, tc_lt_key = None, tc_expires_at = None, tc_pending_tid = None, tc_auth_attempts = 0\<rparr>"

subsection \<open>Sending\<close>

definition gen_tid :: "('t, 'r) ice_env \<Rightarrow> ('t, 'r) turn_client \<Rightarrow> ('t, 'r) turn_client \<times> bytes" where
  "gen_tid e c = (let (rng', tid) = ev_fill e (tc_rng c) 12 in (c\<lparr>tc_rng := rng'\<rparr>, tid))"

definition tc_send :: "('t, 'r) ice_env \<Rightarrow> ('t, 'r) turn_client \<Rightarrow> bytes \<Rightarrow> ('t, 'r) turn_client \<times> (ice_error + unit)" where
  "tc_send e c bs =
     (let (t, r) = ev_send e (tc_transport c) bs (tu_server_addr (tc_config c)) in (c\<lparr>tc_transport := t\<rparr>, r))"

definition tc_send_signed :: "('t, 'r) ice_env \<Rightarrow> ('t, 'r) turn_client \<Rightarrow> turn_message \<Rightarrow> bytes \<Rightarrow>
    ('t, 'r) turn_client \<times> (ice_error + unit)" where
  "tc_send_signed e c msg lt_key =
     (case turn_encode_with_integrity (ev_hash e) msg lt_key of Inl er \<Rightarrow> (c, Err er) | Inr bs \<Rightarrow> tc_send e c bs)"

definition start_allocate :: "('t, 'r) ice_env \<Rightarrow> ('t, 'r) turn_client \<Rightarrow> ('t, 'r) turn_client \<times> (ice_error + unit)" where
  "start_allocate e c =
     (let (c1, tid) = gen_tid e (c\<lparr>tc_state := Allocating\<rparr>);
          c2 = c1\<lparr>tc_pending_tid := Some tid\<rparr>;
          msg = \<lparr>tm_method = METHOD_ALLOCATE, tm_class = 0, tm_transaction_id = tid,
                 tm_attrs = [TRequestedTransport 17, TLifetime (tu_lifetime_secs (tc_config c))]\<rparr>
      in tc_send e c2 (turn_encode msg))"

definition auth_attrs :: "('t, 'r) turn_client \<Rightarrow> str \<Rightarrow> bytes \<Rightarrow> turn_attr list" where
  "auth_attrs c realm nonce = [TUsername (tu_username (tc_config c)), TRealm realm, TNonce nonce]"

definition send_authenticated_allocate :: "('t, 'r) ice_env \<Rightarrow> ('t, 'r) turn_client \<Rightarrow> ('t, 'r) turn_client \<times> (ice_error + unit)" where
  "send_authenticated_allocate e c =
     (case (tc_realm c, tc_nonce c, tc_lt_key c) of
        (None, _, _) \<Rightarrow> (c, Err (CheckFailed ''TURN realm not set''))
      | (Some realm, None, _) \<Rightarrow> (c, Err (CheckFailed ''TURN nonce not set''))
      | (Some realm, Some nonce, None) \<Rightarrow> (c, Err (CheckFailed ''TURN lt_key not set''))
      | (Some realm, Some nonce, Some lt_key) \<Rightarrow>
        (let (c1, tid) = gen_tid e (c\<lparr>tc_state := AllocatingAuthenticated\<rparr>);
             c2 = c1\<lparr>tc_pending_tid := Some tid\<rparr>
         in tc_send_signed e c2
              \<lparr>tm_method = METHOD_ALLOCATE, tm_class = 0, tm_transaction_id = tid,
               tm_attrs = [TRequestedTransport 17, TLifetime (tu_lifetime_secs (tc_config c))] @ auth_attrs c realm nonce\<rparr> lt_key))"

text \<open>The credentials that refresh, permissions and channel bindings need, in the order they are checked.\<close>

definition auth_params :: "('t, 'r) turn_client \<Rightarrow> ice_error + (bytes \<times> str \<times> bytes)" where
  "auth_params c =
     and_then (ok_or (tc_lt_key c) (CheckFailed ''TURN lt_key not set'')) (\<lambda>lt_key.
       and_then (ok_or (tc_realm c) (CheckFailed ''TURN realm not set'')) (\<lambda>realm.
         and_then (ok_or (tc_nonce c) (CheckFailed ''TURN nonce not set'')) (\<lambda>nonce. Ok (lt_key, realm, nonce))))"

definition send_refresh :: "('t, 'r) ice_env \<Rightarrow> ('t, 'r) turn_client \<Rightarrow> ('t, 'r) turn_client \<times> (ice_error + unit)" where
  "send_refresh e c =
     (if tc_state c \<noteq> Allocated then (c, Err (CheckFailed ''TURN Refresh requires Allocated state''))
      else case auth_params c of
        Inl er \<Rightarrow> (c, Err er)
      | Inr (lt_key, realm, nonce) \<Rightarrow>
        (let (c1, tid) = gen_tid e (c\<lparr>tc_state := Refreshing\<rparr>);
             c2 = c1\<lparr>tc_pending_tid := Some tid\<rparr>
         in tc_send_signed e c2
              \<lparr>tm_method = METHOD_REFRESH, tm_class = 0, tm_transaction_id = tid,
               tm_attrs = TLifetime (tu_lifetime_secs (tc_config c)) # auth_attrs c realm nonce\<rparr> lt_key))"

definition create_permission :: "('t, 'r) ice_env \<Rightarrow> ('t, 'r) turn_client \<Rightarrow> socket_addr \<Rightarrow> ('t, 'r) turn_client \<times> (ice_error + unit)" where
  "create_permission e c peer =
     (if tc_state c \<noteq> Allocated then (c, Err (CheckFailed ''TURN CreatePermission requires Allocated state''))
      else case auth_params c of
        Inl er \<Rightarrow> (c, Err er)
      | Inr (lt_key, realm, nonce) \<Rightarrow>
        (let (c1, tid) = gen_tid e c
         in tc_send_signed e c1
              \<lparr>tm_method = METHOD_CREATE_PERMISSION, tm_class = 0, tm_transaction_id = tid,
               tm_attrs = TXorPeerAddress peer # auth_attrs c realm nonce\<rparr> lt_key))"

text \<open>\<open>{channel:#06x}\<close>; the range in the message is written with an en dash.\<close>

definition show_hex4 :: "u16 \<Rightarrow> string" where
  "show_hex4 w = (let digits = show_base 16 (unat w) in ''0x'' @ replicate (4 - length digits) CHR ''0'' @ digits)"

definition valid_channel :: "u16 \<Rightarrow> bool" where
  "valid_channel channel \<longleftrightarrow> CHANNEL_MIN \<le> channel \<and> channel \<le> CHANNEL_MAX"

definition channel_bind :: "('t, 'r) ice_env \<Rightarrow> ('t, 'r) turn_client \<Rightarrow> u16 \<Rightarrow> socket_addr \<Rightarrow> ('t, 'r) turn_client \<times> (ice_error + unit)" where
  "channel_bind e c channel peer =
     (if tc_state c \<noteq> Allocated then (c, Err (CheckFailed ''TURN ChannelBind requires Allocated state''))
      else if \<not> valid_channel channel then
        (c, Err (CheckFailed (''invalid TURN channel '' @ show_hex4 channel @ '': must be '' @ show_hex4 CHANNEL_MIN
           @ [CHR 0xE2, CHR 0x80, CHR 0x93] @ show_hex4 CHANNEL_MAX)))
      else case auth_params c of
        Inl er \<Rightarrow> (c, Err er)
      | Inr (lt_key, realm, nonce) \<Rightarrow>
        (let (c1, tid) = gen_tid e c
         in tc_send_signed e c1
              \<lparr>tm_method = METHOD_CHANNEL_BIND, tm_class = 0, tm_transaction_id = tid,
               tm_attrs = TChannelNumber channel # TXorPeerAddress peer # auth_attrs c realm nonce\<rparr> lt_key))"

definition send_indication :: "('t, 'r) ice_env \<Rightarrow> ('t, 'r) turn_client \<Rightarrow> socket_addr \<Rightarrow> bytes \<Rightarrow> ('t, 'r) turn_client \<times> (ice_error + unit)" where
  "send_indication e c peer data =
     (if tc_state c \<noteq> Allocated then (c, Err (CheckFailed ''TURN Send indication requires Allocated state''))
      else let (c1, tid) = gen_tid e c
        in tc_send e c1 (turn_encode \<lparr>tm_method = METHOD_SEND, tm_class = 1, tm_transaction_id = tid,
             tm_attrs = [TXorPeerAddress peer, TData data]\<rparr>))"

subsection \<open>Channel data\<close>

definition build_channel_data :: "u16 \<Rightarrow> bytes \<Rightarrow> ice_error + bytes" where
  "build_channel_data channel data =
     (if \<not> valid_channel channel then Err (CheckFailed (''invalid channel '' @ show_hex4 channel))
      else let pad = pad4 (length data);
               out = to_be 2 channel @ to_be 2 (len16 (length data)) @ data
        in Ok (if pad = 1 then out @ [0] else if pad = 2 then out @ [0, 0] else if pad = 3 then out @ [0, 0, 0] else out))"

definition decode_channel_data :: "bytes \<Rightarrow> ice_error + (u16 \<times> bytes)" where
  "decode_channel_data raw =
     (if length raw < CHANNEL_HDR then Err (StunTruncated CHANNEL_HDR (length raw))
      else let channel = be16_at raw 0;
               len = unat (be16_at raw 2);
               end_n = CHANNEL_HDR + len
        in if length raw < end_n then Err (StunTruncated end_n (length raw))
           else and_then (ok_or (get_range CHANNEL_HDR end_n raw) (StunTruncated end_n (length raw))) (\<lambda>data. Ok (channel, data)))"

subsection \<open>Incoming messages\<close>

definition allocate_success :: "i64 \<Rightarrow> ('t, 'r) turn_client \<Rightarrow> turn_message \<Rightarrow> ('t, 'r) turn_client" where
  "allocate_success now c msg =
     (let c1 = (case relay_address msg of None \<Rightarrow> c | Some relay \<Rightarrow> c\<lparr>tc_relay_addr := Some relay\<rparr>);
          lifetime = (case tm_lifetime msg of None \<Rightarrow> tu_lifetime_secs (tc_config c) | Some l \<Rightarrow> l)
      in c1\<lparr>tc_expires_at := Some (i64_sat_add now (ucast lifetime)), tc_state := Allocated\<rparr>)"

definition allocate_error :: "('t, 'r) ice_env \<Rightarrow> (bytes \<Rightarrow> bytes) \<Rightarrow> ('t, 'r) turn_client \<Rightarrow> turn_message \<Rightarrow>
    ('t, 'r) turn_client \<times> (ice_error + unit)" where
  "allocate_error e md5 c msg =
     (let code = (case tm_error_code msg of None \<Rightarrow> 0 | Some code \<Rightarrow> code) in
      if (code = 401 \<or> code = 438) \<and> tc_auth_attempts c \<ge> 1
      then (c\<lparr>tc_state := Expired\<rparr>, Err (CheckFailed ''TURN auth failed: too many retries''))
      else let c1 = (if code = 401 \<or> code = 438 then c\<lparr>tc_auth_attempts := sat_add (tc_auth_attempts c) 1\<rparr> else c) in
        if code = 401 then
          let c2 = (case tm_realm msg of None \<Rightarrow> c1 | Some r \<Rightarrow> c1\<lparr>tc_realm := Some r\<rparr>);
              c3 = (case tm_nonce msg of None \<Rightarrow> c2 | Some n \<Rightarrow> c2\<lparr>tc_nonce := Some n\<rparr>);
              c4 = (case (tc_realm c3, tc_nonce c3) of
                      (Some realm, Some _) \<Rightarrow>
                        c3\<lparr>tc_lt_key := Some (long_term_key md5 (tu_username (tc_config c3)) realm (tu_password (tc_config c3)))\<rparr>
                    | _ \<Rightarrow> c3)
          in send_authenticated_allocate e c4
        else if code = 438 then
          send_authenticated_allocate e (case tm_nonce msg of None \<Rightarrow> c1 | Some n \<Rightarrow> c1\<lparr>tc_nonce := Some n\<rparr>)
        else (c1\<lparr>tc_state := Expired\<rparr>, Err (CheckFailed (''TURN Allocate error '' @ show_base 10 (unat code)))))"

definition refresh_success :: "i64 \<Rightarrow> ('t, 'r) turn_client \<Rightarrow> turn_message \<Rightarrow> ('t, 'r) turn_client" where
  "refresh_success now c msg =
     (let lifetime = (case tm_lifetime msg of None \<Rightarrow> tu_lifetime_secs (tc_config c) | Some l \<Rightarrow> l)
      in c\<lparr>tc_expires_at := Some (i64_sat_add now (ucast lifetime)), tc_state := Allocated\<rparr>)"

definition data_payload :: "turn_message \<Rightarrow> (socket_addr \<times> bytes) option" where
  "data_payload msg =
     (case (find_map (\<lambda>a. case a of TXorPeerAddress p \<Rightarrow> Some p | _ \<Rightarrow> None) (tm_attrs msg),
            find_map (\<lambda>a. case a of TData d \<Rightarrow> Some d | _ \<Rightarrow> None) (tm_attrs msg)) of
        (Some peer, Some payload) \<Rightarrow> Some (peer, payload)
      | _ \<Rightarrow> None)"

text \<open>A response to another transaction, or one whose HMAC fails once the key is known, is dropped.\<close>

definition stale_response :: "('t, 'r) turn_client \<Rightarrow> turn_message \<Rightarrow> bool" where
  "stale_response c msg \<longleftrightarrow> (tm_class msg = 2 \<or> tm_class msg = 3)
     \<and> (case tc_pending_tid c of None \<Rightarrow> False | Some tid \<Rightarrow> tm_transaction_id msg \<noteq> tid)"

definition forged_response :: "('t, 'r) ice_env \<Rightarrow> ('t, 'r) turn_client \<Rightarrow> bytes \<Rightarrow> turn_message \<Rightarrow> bool" where
  "forged_response e c raw msg \<longleftrightarrow>
     \<not> (tm_class msg = 3 \<and> (tm_error_code msg = Some 401 \<or> tm_error_code msg = Some 438)) \<and> tm_class msg \<noteq> 1
     \<and> (case tc_lt_key c of None \<Rightarrow> False | Some key \<Rightarrow> \<not> is_ok (turn_verify_integrity (ev_hash e) raw key))"

definition turn_dispatch :: "('t, 'r) ice_env \<Rightarrow> (bytes \<Rightarrow> bytes) \<Rightarrow> i64 \<Rightarrow> ('t, 'r) turn_client \<Rightarrow> turn_message \<Rightarrow>
    ('t, 'r) turn_client \<times> (ice_error + (socket_addr \<times> bytes) option)" where
  "turn_dispatch e md5 now c msg =
     (if tm_method msg = METHOD_ALLOCATE \<and> tm_class msg = 2 then (allocate_success now c msg, Ok None)
      else if tm_method msg = METHOD_ALLOCATE \<and> tm_class msg = 3 then
        (case allocate_error e md5 c msg of (c', Inl er) \<Rightarrow> (c', Err er) | (c', Inr _) \<Rightarrow> (c', Ok None))
      else if tm_method msg = METHOD_REFRESH \<and> tm_class msg = 2 then (refresh_success now c msg, Ok None)
      else if tm_method msg = METHOD_REFRESH \<and> tm_class msg = 3 then
        (c\<lparr>tc_state := Expired\<rparr>, Err (CheckFailed ''TURN Refresh rejected''))
      else if tm_method msg = METHOD_DATA \<and> tm_class msg = 1 then (c, Ok (data_payload msg))
      else (c, Ok None))"

definition turn_handle_incoming :: "('t, 'r) ice_env \<Rightarrow> (bytes \<Rightarrow> bytes) \<Rightarrow> i64 \<Rightarrow> ('t, 'r) turn_client \<Rightarrow> bytes \<Rightarrow>
    ('t, 'r) turn_client \<times> (ice_error + (socket_addr \<times> bytes) option)" where
  "turn_handle_incoming e md5 now c raw =
     (case turn_decode raw of
        Inl _ \<Rightarrow> (c, Ok None)
      | Inr msg \<Rightarrow>
        if stale_response c msg then (c, Ok None)
        else if forged_response e c raw msg then (c, Ok None)
        else turn_dispatch e md5 now c msg)"

definition is_expired :: "i64 \<Rightarrow> ('t, 'r) turn_client \<Rightarrow> bool" where
  "is_expired now c = (case tc_expires_at c of None \<Rightarrow> False | Some expiry \<Rightarrow> sint now \<ge> sint expiry)"

definition mark_expired :: "('t, 'r) turn_client \<Rightarrow> ('t, 'r) turn_client" where
  "mark_expired c = c\<lparr>tc_state := Expired, tc_relay_addr := None\<rparr>"

subsection \<open>Channel data round trip\<close>

lemma len16_take: "unat (len16 n) = min n 65535"
  by (simp add: len16_def unat_of_nat_u16)

text \<open>
  A channel data frame is a multiple of four bytes long and decodes, whatever follows it, to its
  channel and the data, cut off after 65535 bytes when it is longer than the length field can say.
\<close>

theorem channel_data_exact:
  assumes "valid_channel channel"
  shows "\<exists>out. build_channel_data channel data = Ok out \<and> length out mod 4 = 0
    \<and> decode_channel_data (out @ junk) = Ok (channel, take 65535 data)"
proof -
  let ?hdr = "to_be 2 channel @ to_be 2 (len16 (length data))"
  let ?out = "?hdr @ data @ replicate (pad4 (length data)) 0"
  have "pad4 (length data) < 4" by (rule pad4_less)
  then have "pad4 (length data) = 0 \<or> pad4 (length data) = 1 \<or> pad4 (length data) = 2 \<or> pad4 (length data) = 3" by linarith
  then have b: "build_channel_data channel data = Ok ?out"
    using assms by (auto simp: build_channel_data_def Let_def numeral_2_eq_2 numeral_3_eq_3)
  have "(4 + (length data + pad4 (length data))) mod 4 = 0" using aligned_pad4 [of "length data"] by simp
  then have l: "length ?out mod 4 = 0" by simp
  have c: "be16_at (?out @ junk) 0 = channel" "be16_at (?out @ junk) 2 = len16 (length data)"
    by (simp_all add: be16_at_field)
  define n where "n = min (length data) 65535"
  have n: "n \<le> length data" "take n data = take 65535 data" by (simp_all add: n_def take_all_iff min_def)
  have len: "unat (len16 (length data)) = n" by (simp add: len16_take n_def)
  have "get_range 4 (4 + n) (?out @ junk) = Some (take n data)"
    using n(1) by (simp add: get_range_def)
  then have "decode_channel_data (?out @ junk) = Ok (channel, take n data)"
    unfolding decode_channel_data_def c CHANNEL_HDR_def Let_def len using n(1) by simp
  then have "decode_channel_data (?out @ junk) = Ok (channel, take 65535 data)" unfolding n(2) .
  then show ?thesis using b l by (intro exI [of _ ?out] conjI) simp_all
qed

theorem channel_data_exact_witness:
  "\<exists>out. build_channel_data 0x4001 [1, 2, 3, 4, 5] = Ok out \<and> decode_channel_data (out @ [9]) = Ok (0x4001, [1, 2, 3, 4, 5])"
proof -
  have "valid_channel 0x4001" by (simp add: valid_channel_def CHANNEL_MIN_def CHANNEL_MAX_def)
  then show ?thesis using channel_data_exact [of "0x4001" "[1, 2, 3, 4, 5]" "[9]"] by auto
qed

subsection \<open>Server messages\<close>

definition challenge_msg :: "u16 \<Rightarrow> bytes \<Rightarrow> str \<Rightarrow> str \<Rightarrow> bytes \<Rightarrow> turn_message" where
  "challenge_msg code tid reason realm nonce =
     \<lparr>tm_method = METHOD_ALLOCATE, tm_class = 3, tm_transaction_id = tid, tm_attrs = [TErrorCode code reason, TRealm realm, TNonce nonce]\<rparr>"

definition granted_msg :: "bytes \<Rightarrow> socket_addr \<Rightarrow> u32 \<Rightarrow> turn_message" where
  "granted_msg tid relay lifetime =
     \<lparr>tm_method = METHOD_ALLOCATE, tm_class = 2, tm_transaction_id = tid, tm_attrs = [TXorRelayedAddress relay, TLifetime lifetime]\<rparr>"

definition server_strings_ok :: "str \<Rightarrow> str \<Rightarrow> bytes \<Rightarrow> bool" where
  "server_strings_ok reason realm nonce \<longleftrightarrow> is_str reason \<and> is_str realm
     \<and> length (utf8 reason) \<le> 768 \<and> length (utf8 realm) \<le> 768 \<and> length nonce \<le> 768"

lemma challenge_msg_wf: "length tid = 12 \<Longrightarrow> server_strings_ok reason realm nonce \<Longrightarrow> code < 25600 \<Longrightarrow> wf_turn (challenge_msg code tid reason realm nonce)"
  using pad4_less [of "length (utf8 reason)"] pad4_less [of "length (utf8 realm)"] pad4_less [of "length nonce"]
    pad4_less [of "Suc (Suc (Suc (Suc (length (utf8 reason)))))"]
  by (simp add: challenge_msg_def wf_turn_def wf_turn_attr_def server_strings_ok_def METHOD_ALLOCATE_def encode_attrs_concat
      turn_attr_tlv_def tlv_bytes_def)

lemma granted_msg_wf: "length tid = 12 \<Longrightarrow> wf_turn (granted_msg tid relay lifetime) \<and> \<not> list_ex is_turn_mac (tm_attrs (granted_msg tid relay lifetime))"
  by (auto simp: granted_msg_def wf_turn_def wf_turn_attr_def METHOD_ALLOCATE_def encode_attrs_concat turn_attr_tlv_def tlv_bytes_def
      pad4_eq is_turn_mac_def xor_addr_def Let_def split: socket_addr.splits)

subsection \<open>The allocation handshake\<close>

text \<open>\<open>fill_bytes\<close> fills the whole buffer.\<close>

definition fills :: "('t, 'r) ice_env \<Rightarrow> bool" where
  "fills e \<longleftrightarrow> (\<forall>r n. length (snd (ev_fill e r n)) = n)"

lemma gen_tid_simps:
  "snd (gen_tid e c) = snd (ev_fill e (tc_rng c) 12)" "tc_config (fst (gen_tid e c)) = tc_config c" "tc_state (fst (gen_tid e c)) = tc_state c"
  "tc_relay_addr (fst (gen_tid e c)) = tc_relay_addr c" "tc_realm (fst (gen_tid e c)) = tc_realm c" "tc_nonce (fst (gen_tid e c)) = tc_nonce c"
  "tc_lt_key (fst (gen_tid e c)) = tc_lt_key c" "tc_expires_at (fst (gen_tid e c)) = tc_expires_at c"
  "tc_auth_attempts (fst (gen_tid e c)) = tc_auth_attempts c"
  by (simp_all add: gen_tid_def split: prod.splits)

lemma tc_send_simps:
  "tc_config (fst (tc_send e c bs)) = tc_config c" "tc_state (fst (tc_send e c bs)) = tc_state c"
  "tc_relay_addr (fst (tc_send e c bs)) = tc_relay_addr c" "tc_realm (fst (tc_send e c bs)) = tc_realm c"
  "tc_nonce (fst (tc_send e c bs)) = tc_nonce c" "tc_lt_key (fst (tc_send e c bs)) = tc_lt_key c"
  "tc_expires_at (fst (tc_send e c bs)) = tc_expires_at c" "tc_pending_tid (fst (tc_send e c bs)) = tc_pending_tid c"
  "tc_auth_attempts (fst (tc_send e c bs)) = tc_auth_attempts c"
  by (simp_all add: tc_send_def split: prod.splits)

lemma tc_send_signed_cases: "fst (tc_send_signed e c m k) = c \<or> (\<exists>bs. fst (tc_send_signed e c m k) = fst (tc_send e c bs))"
  by (auto simp: tc_send_signed_def split: sum.splits)

lemma tc_send_signed_simps:
  "tc_config (fst (tc_send_signed e c m k)) = tc_config c" "tc_state (fst (tc_send_signed e c m k)) = tc_state c"
  "tc_lt_key (fst (tc_send_signed e c m k)) = tc_lt_key c" "tc_pending_tid (fst (tc_send_signed e c m k)) = tc_pending_tid c"
  "tc_auth_attempts (fst (tc_send_signed e c m k)) = tc_auth_attempts c" "tc_relay_addr (fst (tc_send_signed e c m k)) = tc_relay_addr c"
  "tc_expires_at (fst (tc_send_signed e c m k)) = tc_expires_at c"
  using tc_send_signed_cases [of e c m k] by (auto simp: tc_send_simps)

lemma start_allocate_simps:
  "tc_state (fst (start_allocate e c)) = Allocating" "tc_pending_tid (fst (start_allocate e c)) = Some (snd (ev_fill e (tc_rng c) 12))"
  "tc_config (fst (start_allocate e c)) = tc_config c" "tc_lt_key (fst (start_allocate e c)) = tc_lt_key c"
  "tc_auth_attempts (fst (start_allocate e c)) = tc_auth_attempts c"
  by (simp_all add: start_allocate_def case_prod_unfold Let_def tc_send_simps gen_tid_simps)

lemma authenticated_simps:
  assumes "tc_realm c = Some realm" and "tc_nonce c = Some nonce" and "tc_lt_key c = Some key"
  shows "tc_state (fst (send_authenticated_allocate e c)) = AllocatingAuthenticated"
    "tc_pending_tid (fst (send_authenticated_allocate e c)) = Some (snd (ev_fill e (tc_rng c) 12))"
    "tc_config (fst (send_authenticated_allocate e c)) = tc_config c" "tc_lt_key (fst (send_authenticated_allocate e c)) = Some key"
  using assms by (simp_all add: send_authenticated_allocate_def case_prod_unfold Let_def tc_send_signed_simps gen_tid_simps)

lemma challenge_fields:
  "tm_method (challenge_msg code tid reason realm nonce) = METHOD_ALLOCATE" "tm_class (challenge_msg code tid reason realm nonce) = 3"
  "tm_transaction_id (challenge_msg code tid reason realm nonce) = tid" "tm_error_code (challenge_msg code tid reason realm nonce) = Some code"
  "tm_realm (challenge_msg code tid reason realm nonce) = Some realm" "tm_nonce (challenge_msg code tid reason realm nonce) = Some nonce"
  "turn_norm (challenge_msg code tid reason realm nonce) = challenge_msg code tid reason realm nonce"
  by (simp_all add: challenge_msg_def tm_error_code_def tm_realm_def tm_nonce_def turn_norm_def turn_attr_norm_def)

text \<open>A challenge to the pending request is answered with credentials, when it is the first.\<close>

lemma challenge_answered:
  assumes "tc_pending_tid c = Some tid" and "length tid = 12" and "server_strings_ok reason realm nonce" and "tc_auth_attempts c = 0"
  shows "\<exists>c'. fst (turn_handle_incoming e md5 now c (turn_encode (challenge_msg 401 tid reason realm nonce))) = c'
    \<and> tc_state c' = AllocatingAuthenticated \<and> tc_config c' = tc_config c
    \<and> tc_pending_tid c' = Some (snd (ev_fill e (tc_rng c) 12))
    \<and> tc_lt_key c' = Some (long_term_key md5 (tu_username (tc_config c)) realm (tu_password (tc_config c)))"
proof -
  let ?m = "challenge_msg 401 tid reason realm nonce"
  let ?key = "long_term_key md5 (tu_username (tc_config c)) realm (tu_password (tc_config c))"
  have d: "turn_decode (turn_encode ?m) = Ok ?m"
    using turn_decode_encode [OF challenge_msg_wf [OF assms(2,3)], of 401 "[]"] by (simp add: challenge_fields)
  let ?c4 = "c\<lparr>tc_auth_attempts := 1, tc_realm := Some realm, tc_nonce := Some nonce, tc_lt_key := Some ?key\<rparr>"
  have "allocate_error e md5 c ?m = send_authenticated_allocate e ?c4"
    using assms(4) by (simp add: allocate_error_def challenge_fields sat_add_def)
  then have "fst (turn_handle_incoming e md5 now c (turn_encode ?m)) = fst (send_authenticated_allocate e ?c4)"
    using d assms(1) by (simp add: turn_handle_incoming_def stale_response_def forged_response_def turn_dispatch_def challenge_fields
        split: prod.splits sum.splits)
  then show ?thesis using authenticated_simps [of ?c4 realm nonce ?key e] by simp
qed

lemma granted_fields:
  "tm_method (granted_msg tid relay lifetime) = METHOD_ALLOCATE" "tm_class (granted_msg tid relay lifetime) = 2"
  "tm_transaction_id (granted_msg tid relay lifetime) = tid"
  by (simp_all add: granted_msg_def)

text \<open>A grant for the pending request is accepted, provided that it carries the HMAC once a key is known.\<close>

lemma grant_accepted:
  assumes "turn_decode raw = Ok (turn_norm ((granted_msg tid relay lifetime)\<lparr>tm_attrs := tm_attrs (granted_msg tid relay lifetime) @ mac\<rparr>))"
    and "\<forall>a \<in> set mac. is_turn_mac a" and "case tc_pending_tid c of None \<Rightarrow> True | Some t \<Rightarrow> t = tid"
    and "case tc_lt_key c of None \<Rightarrow> True | Some key \<Rightarrow> turn_verify_integrity (ev_hash e) raw key = Ok ()"
  shows "turn_handle_incoming e md5 now c raw =
    (c\<lparr>tc_relay_addr := Some (addr_norm relay), tc_expires_at := Some (i64_sat_add now (ucast lifetime)), tc_state := Allocated\<rparr>, Ok None)"
  using assms
  by (auto simp: turn_handle_incoming_def stale_response_def forged_response_def turn_dispatch_def allocate_success_def
      turn_norm_def granted_msg_def turn_attr_norm_def relay_address_def tm_lifetime_def split: option.splits)

text \<open>
  C34. The allocation handshake with long-term credentials completes: a fresh client that has asked
  for an allocation answers the server's challenge with credentials, and accepts the signed grant:
  it is then allocated, with the granted relay address and the expiry the lifetime gives.
\<close>

theorem allocation_completes:
  assumes "hmac_total (ev_hash e)" and "fills e" and "server_strings_ok reason realm nonce"
    and "c1 = fst (start_allocate e (turn_client_new cfg t r))"
  shows "\<exists>tid1 tid2 c2 out. tc_pending_tid c1 = Some tid1
    \<and> c2 = fst (turn_handle_incoming e md5 now1 c1 (turn_encode (challenge_msg 401 tid1 reason realm nonce)))
    \<and> tc_state c2 = AllocatingAuthenticated \<and> tc_pending_tid c2 = Some tid2
    \<and> turn_encode_with_integrity (ev_hash e) (granted_msg tid2 relay lifetime)
        (long_term_key md5 (tu_username cfg) realm (tu_password cfg)) = Ok out
    \<and> turn_handle_incoming e md5 now2 c2 out =
        (c2\<lparr>tc_relay_addr := Some (addr_norm relay), tc_expires_at := Some (i64_sat_add now2 (ucast lifetime)),
            tc_state := Allocated\<rparr>, Ok None)"
proof -
  let ?key = "long_term_key md5 (tu_username cfg) realm (tu_password cfg)"
  have c1: "tc_pending_tid c1 = Some (snd (ev_fill e r 12))" "tc_config c1 = cfg" "tc_auth_attempts c1 = 0"
    by (simp_all add: assms(4) start_allocate_simps turn_client_new_def)
  define tid1 where "tid1 = snd (ev_fill e r 12)"
  have t1: "length tid1 = 12" using assms(2) by (simp add: tid1_def fills_def)
  define c2 where "c2 = fst (turn_handle_incoming e md5 now1 c1 (turn_encode (challenge_msg 401 tid1 reason realm nonce)))"
  obtain tid2 where c2: "tc_state c2 = AllocatingAuthenticated" "tc_pending_tid c2 = Some tid2" "tc_lt_key c2 = Some ?key" "length tid2 = 12"
    using challenge_answered [OF _ t1 assms(3) c1(3), of e md5 now1] c1 assms(2) by (auto simp: c2_def tid1_def fills_def)
  obtain out tag where out: "turn_encode_with_integrity (ev_hash e) (granted_msg tid2 relay lifetime) ?key = Ok out"
    "turn_verify_integrity (ev_hash e) out ?key = Ok ()"
    "turn_decode out = Ok (turn_norm ((granted_msg tid2 relay lifetime)\<lparr>tm_attrs := tm_attrs (granted_msg tid2 relay lifetime) @ [TMessageIntegrity tag]\<rparr>))"
    using turn_signed granted_msg_wf [OF c2(4)] assms(1) by metis
  have "turn_handle_incoming e md5 now2 c2 out =
      (c2\<lparr>tc_relay_addr := Some (addr_norm relay), tc_expires_at := Some (i64_sat_add now2 (ucast lifetime)), tc_state := Allocated\<rparr>, Ok None)"
    by (rule grant_accepted [OF out(3)]) (simp_all add: c2 out(2) is_turn_mac_def)
  then show ?thesis using c1(1) c2 out(1) c2_def tid1_def by blast
qed

text \<open>
  A client that never asked for anything, and one still waiting for its first challenge, takes an
  unsigned grant for the truth: without a key the HMAC is not checked, and without a pending request
  neither is the transaction id.
\<close>

theorem unsigned_grant_accepted:
  assumes "length tid = 12"
  shows "turn_handle_incoming e md5 now (turn_client_new cfg t r) (turn_encode (granted_msg tid relay lifetime)) =
     ((turn_client_new cfg t r)\<lparr>tc_relay_addr := Some (addr_norm relay),
        tc_expires_at := Some (i64_sat_add now (ucast lifetime)), tc_state := Allocated\<rparr>, Ok None)"
  using turn_decode_encode [of "granted_msg tid relay lifetime" "[]"] granted_msg_wf [OF assms]
  by (intro grant_accepted [where mac = "[]"]) (simp_all add: turn_client_new_def granted_msg_def)

subsection \<open>Runs of the client\<close>

datatype turn_op = CallStartAllocate | CallSendAuthenticated | CallSendRefresh | CallCreatePermission socket_addr
  | CallChannelBind u16 socket_addr | CallSendIndication socket_addr bytes | CallIncoming i64 bytes | CallMarkExpired

definition run_turn_op :: "('t, 'r) ice_env \<Rightarrow> (bytes \<Rightarrow> bytes) \<Rightarrow> ('t, 'r) turn_client \<Rightarrow> turn_op \<Rightarrow> ('t, 'r) turn_client" where
  "run_turn_op e md5 c op =
     (case op of
        CallStartAllocate \<Rightarrow> fst (start_allocate e c)
      | CallSendAuthenticated \<Rightarrow> fst (send_authenticated_allocate e c)
      | CallSendRefresh \<Rightarrow> fst (send_refresh e c)
      | CallCreatePermission peer \<Rightarrow> fst (create_permission e c peer)
      | CallChannelBind channel peer \<Rightarrow> fst (channel_bind e c channel peer)
      | CallSendIndication peer data \<Rightarrow> fst (send_indication e c peer data)
      | CallIncoming now raw \<Rightarrow> fst (turn_handle_incoming e md5 now c raw)
      | CallMarkExpired \<Rightarrow> mark_expired c)"

definition run_turn_ops :: "('t, 'r) ice_env \<Rightarrow> (bytes \<Rightarrow> bytes) \<Rightarrow> ('t, 'r) turn_client \<Rightarrow> turn_op list \<Rightarrow> ('t, 'r) turn_client" where
  "run_turn_ops e md5 c ops = foldl (run_turn_op e md5) c ops"

lemmas send_simps = tc_send_signed_simps tc_send_simps gen_tid_simps

lemma authenticated_attempts [simp]: "tc_auth_attempts (fst (send_authenticated_allocate e c)) = tc_auth_attempts c"
  by (simp add: send_authenticated_allocate_def case_prod_unfold Let_def send_simps split: option.splits)




















text \<open>Challenges touch neither the relay address nor the lifetime, and do not allocate.\<close>

definition grant_kept :: "('t, 'r) turn_client \<Rightarrow> ('t, 'r) turn_client \<Rightarrow> bool" where
  "grant_kept c c' \<longleftrightarrow> tc_relay_addr c' = tc_relay_addr c \<and> tc_expires_at c' = tc_expires_at c
     \<and> (tc_state c' = Allocated \<longrightarrow> tc_state c = Allocated)"

lemma authenticated_grant [simp]:
  "tc_relay_addr (fst (send_authenticated_allocate e c)) = tc_relay_addr c"
  "tc_expires_at (fst (send_authenticated_allocate e c)) = tc_expires_at c"
  by (simp_all add: send_authenticated_allocate_def case_prod_unfold Let_def send_simps split: option.splits)

lemma authenticated_not_allocated: "tc_state (fst (send_authenticated_allocate e c)) = Allocated \<Longrightarrow> tc_state c = Allocated"
  by (auto simp: send_authenticated_allocate_def case_prod_unfold Let_def send_simps split: option.splits)

lemma allocate_error_grant_kept: "grant_kept c (fst (allocate_error e md5 c msg))"
  by (auto simp: allocate_error_def Let_def grant_kept_def dest!: authenticated_not_allocated split: option.splits if_splits)

lemma dispatch_grant_kept: "tm_class msg \<noteq> 2 \<Longrightarrow> grant_kept c (fst (turn_dispatch e md5 now c msg))"
  using allocate_error_grant_kept [of c e md5 msg]
  by (auto simp: turn_dispatch_def grant_kept_def split: prod.splits sum.splits)

text \<open>
  C35. Once a key is known, nothing but a success response to the pending request that carries the
  right HMAC changes the relay address, extends the lifetime or makes the client allocated.
\<close>

theorem grants_authenticated:
  assumes "tc_lt_key c = Some key" and "c' = fst (turn_handle_incoming e md5 now c raw)"
    and "tc_relay_addr c' \<noteq> tc_relay_addr c \<or> tc_expires_at c' \<noteq> tc_expires_at c \<or> tc_state c' = Allocated \<and> tc_state c \<noteq> Allocated"
  shows "\<exists>msg. turn_decode raw = Ok msg \<and> tm_class msg = 2 \<and> turn_verify_integrity (ev_hash e) raw key = Ok ()
    \<and> (\<forall>tid. tc_pending_tid c = Some tid \<longrightarrow> tm_transaction_id msg = tid)"
proof -
  have k: "\<not> grant_kept c c'" using assms(3) by (auto simp: grant_kept_def)
  have "grant_kept c c" by (simp add: grant_kept_def)
  with k assms(2) obtain msg where m: "turn_decode raw = Ok msg" "\<not> stale_response c msg" "\<not> forged_response e c raw msg"
    "c' = fst (turn_dispatch e md5 now c msg)"
    by (cases "turn_decode raw") (auto simp: turn_handle_incoming_def split: if_splits)
  then have "tm_class msg = 2" using k dispatch_grant_kept [of msg c e md5 now] by auto
  with m assms(1) show ?thesis
    by (auto simp: stale_response_def forged_response_def is_ok_def split: sum.splits)
qed

subsection \<open>Instances\<close>

definition demo_turn_config :: turn_config where
  "demo_turn_config = \<lparr>tu_server_addr = relay_base, tu_username = [], tu_password = [], tu_lifetime_secs = 600\<rparr>"

definition demo_turn :: "(unit, unit) turn_client" where
  "demo_turn = turn_client_new demo_turn_config () ()"

abbreviation demo_md5 :: "bytes \<Rightarrow> bytes" where "demo_md5 \<equiv> (\<lambda>_. replicate 16 7)"

lemma quiet_fills: "fills quiet_env" and quiet_total: "hmac_total (ev_hash quiet_env)"
  by (simp_all add: fills_def quiet_env_def plain_hash_total)

lemma demo_strings: "server_strings_ok [] [] [5, 5]"
  by (simp add: server_strings_ok_def is_str_def)

theorem allocation_completes_witness:
  "\<exists>tid1 out. tc_state (fst (turn_handle_incoming quiet_env demo_md5 20
      (fst (turn_handle_incoming quiet_env demo_md5 10 (fst (start_allocate quiet_env demo_turn))
        (turn_encode (challenge_msg 401 tid1 [] [] [5, 5])))) out)) = Allocated"
proof -
  obtain tid1 c2 out where a: "c2 = fst (turn_handle_incoming quiet_env demo_md5 10 (fst (start_allocate quiet_env demo_turn))
        (turn_encode (challenge_msg 401 tid1 [] [] [5, 5])))"
    and b: "turn_handle_incoming quiet_env demo_md5 20 c2 out = (c2\<lparr>tc_relay_addr := Some (addr_norm relay_peer),
        tc_expires_at := Some (i64_sat_add 20 (ucast (600 :: u32))), tc_state := Allocated\<rparr>, Ok None)"
    using allocation_completes [OF quiet_total quiet_fills demo_strings refl, of demo_turn_config "()" "()" demo_md5 10 relay_peer 600 20, folded demo_turn_def]
    by (elim exE conjE) (rule that; assumption)
  show ?thesis unfolding a [symmetric] using b by (intro exI [of _ tid1] exI [of _ out]) (simp add: a [symmetric])
qed

theorem unsigned_grant_accepted_witness:
  "tc_state (fst (turn_handle_incoming quiet_env demo_md5 20 demo_turn (turn_encode (granted_msg (replicate 12 9) relay_peer 600)))) = Allocated"
  using unsigned_grant_accepted [of "replicate 12 9" quiet_env demo_md5 20 demo_turn_config "()" "()" relay_peer 600] by (simp add: demo_turn_def)



theorem grants_authenticated_witness:
  "\<exists>raw msg. turn_decode raw = Ok msg \<and> tm_class msg = 2 \<and> turn_verify_integrity (ev_hash quiet_env) raw [1, 2, 3] = Ok ()"
proof -
  let ?c = "demo_turn\<lparr>tc_lt_key := Some [1, 2, 3]\<rparr>" and ?g = "granted_msg (replicate 12 9) relay_peer 600"
  obtain out tag where out: "turn_verify_integrity (ev_hash quiet_env) out [1, 2, 3] = Ok ()"
    "turn_decode out = Ok (turn_norm (?g\<lparr>tm_attrs := tm_attrs ?g @ [TMessageIntegrity tag]\<rparr>))"
    using turn_signed granted_msg_wf [of "replicate 12 9"] quiet_total by (metis length_replicate)
  have "turn_handle_incoming quiet_env demo_md5 20 ?c out =
      (?c\<lparr>tc_relay_addr := Some (addr_norm relay_peer), tc_expires_at := Some (i64_sat_add 20 (ucast (600 :: u32))), tc_state := Allocated\<rparr>, Ok None)"
    by (rule grant_accepted [OF out(2)]) (simp_all add: demo_turn_def turn_client_new_def out(1) is_turn_mac_def)
  then show ?thesis
    using grants_authenticated [of ?c "[1, 2, 3]" _ quiet_env demo_md5 20 out, OF _ refl]
    by (auto simp: demo_turn_def turn_client_new_def)
qed

theorem turn_roundtrip_witness:
  "turn_decode (turn_encode (granted_msg (replicate 12 9) relay_peer 600) @ [1, 2]) = Ok (turn_norm (granted_msg (replicate 12 9) relay_peer 600))"
  using turn_roundtrip granted_msg_wf [of "replicate 12 9"] by simp

end
