(* ===== verification/Steering.thy ===== *)
theory Steering
  imports Ice_Candidate Stun "HOL-Library.Multiset"
begin

text \<open>
  Relay steering (\<open>src/crates/sh-ice/src/steering.rs\<close>): scoring of the relays both ends have
  probed, the choice of a primary and a standby, and time-limited TURN credentials. HMAC-SHA1 is
  \<open>stun_hash\<close>, base64 an argument.
\<close>

subsection \<open>Scoring and selection\<close>

record relay_probe_result =
  rp_server :: socket_addr
  rp_rtt_us :: u64
  rp_jitter_us :: u64

record relay_score =
  rs_server :: socket_addr
  rs_score :: u64

definition score_one :: "relay_probe_result \<Rightarrow> relay_probe_result \<Rightarrow> relay_score" where
  "score_one ini resp =
     (let jitter_half = sat_add (rp_jitter_us ini) (rp_jitter_us resp) div 2;
          score = sat_add (sat_add (rp_rtt_us ini) (rp_rtt_us resp)) jitter_half
      in \<lparr>rs_server = rp_server ini, rs_score = score\<rparr>)"

definition score_relays :: "relay_probe_result list \<Rightarrow> relay_probe_result list \<Rightarrow> relay_score list" where
  "score_relays initiator_results responder_results =
     sort_key rs_score (List.map_filter
       (\<lambda>ini. map_option (score_one ini) (List.find (\<lambda>r. rp_server r = rp_server ini) responder_results)) initiator_results)"

record relay_selection =
  sel_primary :: relay_score
  sel_standby :: "relay_score option"

definition select_relay :: "relay_score list \<Rightarrow> relay_selection option" where
  "select_relay scores =
     (case scores of
        [] \<Rightarrow> None
      | primary # rest \<Rightarrow> Some \<lparr>sel_primary = primary,
          sel_standby = (case rest of [] \<Rightarrow> None
             | s # _ \<Rightarrow> if sat_sub (rs_score s) (rs_score primary) \<le> 10000 then Some s else None)\<rparr>)"

subsection \<open>Credentials\<close>

record turn_credentials =
  cr_username :: str
  cr_password :: str
  cr_expires_at :: i64

definition ascii_str :: "string \<Rightarrow> str" where
  "ascii_str s = map of_char s"

definition i64_checked_add :: "i64 \<Rightarrow> i64 \<Rightarrow> i64 option" where
  "i64_checked_add a b = (if sint a + sint b < - (2 ^ 63) \<or> 2 ^ 63 \<le> sint a + sint b then None else Some (a + b))"

definition hmac_sha1_base64 :: "stun_hash \<Rightarrow> (bytes \<Rightarrow> str) \<Rightarrow> bytes \<Rightarrow> bytes \<Rightarrow> ice_error + str" where
  "hmac_sha1_base64 h b64 key data =
     and_then (map_err (\<lambda>e. IceTransport (''HMAC-SHA1 key error: '' @ e)) (sh_hmac h key data)) (\<lambda>bs. Ok (b64 bs))"

definition cred_generate :: "stun_hash \<Rightarrow> (bytes \<Rightarrow> str) \<Rightarrow> bytes \<Rightarrow> str \<Rightarrow> u32 \<Rightarrow> i64 \<Rightarrow> ice_error + turn_credentials" where
  "cred_generate h b64 shared_key user_id ttl_secs now =
     and_then (ok_or (i64_checked_add now (ucast ttl_secs)) TurnCredTimestampOverflow) (\<lambda>expires_at.
     let username = ascii_str (show_int (sint expires_at)) @ ascii_str '':'' @ user_id in
     and_then (hmac_sha1_base64 h b64 shared_key (utf8 username)) (\<lambda>password.
     Ok \<lparr>cr_username = username, cr_password = password, cr_expires_at = expires_at\<rparr>))"

definition cred_is_valid :: "turn_credentials \<Rightarrow> i64 \<Rightarrow> bool" where
  "cred_is_valid c now \<longleftrightarrow> sint now < sint (i64_sat_sub (cr_expires_at c) 60)"

subsection \<open>The choice\<close>

abbreviation scored :: "relay_probe_result list \<Rightarrow> relay_probe_result list \<Rightarrow> relay_score list" where
  "scored a b \<equiv> List.map_filter (\<lambda>ini. map_option (score_one ini) (List.find (\<lambda>r. rp_server r = rp_server ini) b)) a"

lemma sat_add_commute: "sat_add a b = sat_add b (a :: 'a::len word)"
  by (simp add: sat_add_def add.commute)

lemma score_one_commute: "rp_server a = rp_server b \<Longrightarrow> score_one a b = score_one b a"
  by (simp add: score_one_def sat_add_commute)

lemma find_distinct:
  "distinct (map rp_server b) \<Longrightarrow> List.find (\<lambda>r. rp_server r = s) b = Some x \<longleftrightarrow> x \<in> set b \<and> rp_server x = s"
  by (induction b) (auto simp: image_iff)

lemma set_map_filter: "set (List.map_filter f xs) = {y. \<exists>x \<in> set xs. f x = Some y}"
  by (force simp: List.map_filter_def image_iff)

lemma set_scored:
  "distinct (map rp_server b) \<Longrightarrow> set (scored a b) = {score_one x y |x y. x \<in> set a \<and> y \<in> set b \<and> rp_server y = rp_server x}"
  by (auto simp: set_map_filter find_distinct)

lemma scored_servers: "map rs_server (scored a b) = filter (\<lambda>s. s \<in> rp_server ` set b) (map rp_server a)"
proof (induction a)
  case (Cons x a)
  have "(List.find (\<lambda>r. rp_server r = rp_server x) b = None) = (rp_server x \<notin> rp_server ` set b)"
    by (auto simp: find_None_iff image_iff)
  with Cons show ?case by (auto simp: List.map_filter_simps score_one_def Let_def split: option.splits)
qed (simp add: List.map_filter_simps)

lemma scored_subset:
  assumes "distinct (map rp_server a)" and "distinct (map rp_server b)"
  shows "set (scored b a) \<subseteq> set (scored a b)"
proof
  fix z
  assume "z \<in> set (scored b a)"
  then obtain x y where "x \<in> set b" "y \<in> set a" "rp_server x = rp_server y" "z = score_one x y"
    by (auto simp: set_scored [OF assms(1)])
  then show "z \<in> set (scored a b)"
    using score_one_commute [of x y] by (auto simp: set_scored [OF assms(2)])
qed

lemma scored_mset:
  assumes "distinct (map rp_server a)" and "distinct (map rp_server b)"
  shows "mset (scored b a) = mset (scored a b)"
proof -
  have "distinct (map rs_server (scored a b))" "distinct (map rs_server (scored b a))"
    using assms by (simp_all add: scored_servers)
  then have "distinct (scored a b)" "distinct (scored b a)" by (simp_all only: distinct_map)
  moreover have "set (scored b a) = set (scored a b)"
    using scored_subset [OF assms] scored_subset [OF assms(2,1)] by (rule equalityI)
  ultimately show ?thesis by (simp add: set_eq_iff_mset_eq_distinct)
qed

lemma score_relays_mset: "mset (score_relays a b) = mset (scored a b)"
  by (simp add: score_relays_def)

lemma score_relays_sorted: "sorted (map rs_score (score_relays a b))"
  by (simp add: score_relays_def)

text \<open>
  The two ends, each taking itself for the initiator, obtain the same scores in the same order,
  so their primaries are equally good; where no two relays score alike they choose the same relays.
\<close>

theorem relay_choice_agrees:
  assumes "distinct (map rp_server a)" and "distinct (map rp_server b)"
  shows "map rs_score (score_relays b a) = map rs_score (score_relays a b)
    \<and> (distinct (map rs_score (score_relays a b)) \<longrightarrow> select_relay (score_relays b a) = select_relay (score_relays a b))"
proof
  have m: "mset (score_relays b a) = mset (score_relays a b)"
    using scored_mset [OF assms] by (simp add: score_relays_mset)
  then have "mset (map rs_score (score_relays b a)) = mset (map rs_score (score_relays a b))"
    by (simp add: mset_map)
  then show "map rs_score (score_relays b a) = map rs_score (score_relays a b)"
    using score_relays_sorted [of a b] score_relays_sorted [of b a] by (metis properties_for_sort)
  show "distinct (map rs_score (score_relays a b)) \<longrightarrow> select_relay (score_relays b a) = select_relay (score_relays a b)"
  proof
    assume "distinct (map rs_score (score_relays a b))"
    then have inj: "inj_on rs_score (set (score_relays a b))" by (simp add: distinct_map)
    have "score_relays b a = score_relays a b"
      using map_inj_on [of rs_score "score_relays b a" "score_relays a b"] mset_eq_setD [OF m] inj
        \<open>map rs_score (score_relays b a) = map rs_score (score_relays a b)\<close> by simp
    then show "select_relay (score_relays b a) = select_relay (score_relays a b)" by simp
  qed
qed

text \<open>
  The primary has the least score of all relays probed by both ends; the standby is the best of
  the others, and there is one exactly when the best other is within ten milliseconds.
\<close>

theorem relay_choice_best:
  assumes "select_relay (score_relays a b) = Some sel"
  shows "\<exists>others. mset (score_relays a b) = add_mset (sel_primary sel) (mset others)
    \<and> (\<forall>s \<in> set others. rs_score (sel_primary sel) \<le> rs_score s)
    \<and> (case sel_standby sel of
         None \<Rightarrow> \<forall>s \<in> set others. unat (rs_score s) > unat (rs_score (sel_primary sel)) + 10000
       | Some t \<Rightarrow> t \<in> set others \<and> (\<forall>s \<in> set others. rs_score t \<le> rs_score s)
           \<and> unat (rs_score t) \<le> unat (rs_score (sel_primary sel)) + 10000)"
proof -
  obtain p rest where l: "score_relays a b = p # rest" and p: "sel_primary sel = p"
    using assms by (auto simp: select_relay_def split: list.splits)
  have srt: "sorted (map rs_score (p # rest))" using score_relays_sorted [of a b] by (simp only: l)
  have d: "sat_sub (rs_score t) (rs_score p) \<le> 10000 \<longleftrightarrow> unat (rs_score t) \<le> unat (rs_score p) + 10000" for t
    by (auto simp: word_le_nat_alt unat_sat_sub)
  show ?thesis
  proof (cases rest)
    case Nil
    then show ?thesis using assms l p by (intro exI [of _ "[]"]) (auto simp: select_relay_def l)
  next
    case (Cons t ts)
    then have "sel_standby sel = (if unat (rs_score t) \<le> unat (rs_score p) + 10000 then Some t else None)"
      using assms by (auto simp: select_relay_def l d)
    moreover have "\<forall>s \<in> set rest. rs_score t \<le> rs_score s" using srt by (auto simp: Cons)
    ultimately show ?thesis using srt l p Cons
      by (intro exI [of _ rest]) (auto simp: word_le_nat_alt)
  qed
qed

subsection \<open>Credentials\<close>

lemma of_char_inj: "(of_char c :: nat) = of_char c' \<Longrightarrow> c = c'"
  by (metis char_of_char)

lemma ascii_str_inj: "ascii_str a = ascii_str b \<Longrightarrow> a = b"
  unfolding ascii_str_def by (rule map_injective) (auto intro: injI of_char_inj)

lemma no_colon: "58 \<notin> set (ascii_str (show_int i))"
proof -
  have "c \<in> set (show_int i) \<Longrightarrow> (of_char c :: nat) < 58" for c
    using show_base_digits [of c] by (auto simp: show_int_def split: if_splits)
  then show ?thesis by (fastforce simp: ascii_str_def)
qed

lemma colon_split: "58 \<notin> set a \<Longrightarrow> 58 \<notin> set a' \<Longrightarrow> a @ 58 # b = a' @ 58 # b' \<Longrightarrow> a = a' \<and> b = b'" for a :: "nat list"
proof (induction a arbitrary: a')
  case Nil
  then show ?case by (cases a') simp_all
next
  case (Cons x a)
  then show ?case by (cases a') auto
qed

lemma sint_ucast_u32: "sint (ucast (t :: u32) :: i64) = int (unat t)"
proof -
  have "uint t < 2 ^ 32" using unsigned_less [of t, where 'a = int] by simp
  then have "uint t < 2 ^ 63" by (rule order.strict_trans) simp
  moreover have "- (2 ^ 63) \<le> uint t" using uint_ge_0 [of t] by (rule order.trans [rotated]) simp
  ultimately have "sint (word_of_int (uint t) :: i64) = uint t" by (intro sint_i64_of_int)
  then show ?thesis unfolding of_nat_unat by (subst ucast_eq)
qed

lemma sint_expiry:
  assumes "\<not> 2 ^ 63 \<le> sint now + int (unat ttl)"
  shows "sint (now + ucast (ttl :: u32) :: i64) = sint now + int (unat ttl)"
proof -
  have "sint (word_of_int (sint now + int (unat ttl)) :: i64) = sint now + int (unat ttl)"
    using assms sint_i64_bounds [of now] by (intro sint_i64_of_int) linarith+
  moreover have "now + ucast ttl = (word_of_int (sint now + int (unat ttl)) :: i64)" by simp
  ultimately show ?thesis by (simp only:)
qed

lemma cred_generate_eq:
  assumes "hmac_total h"
  shows "cred_generate h b64 key user ttl now =
    (if 2 ^ 63 \<le> sint now + int (unat ttl) then Err TurnCredTimestampOverflow
     else let name = ascii_str (show_int (sint now + int (unat ttl))) @ 58 # user in
       Ok \<lparr>cr_username = name, cr_password = b64 (projr (sh_hmac h key (utf8 name))),
          cr_expires_at = now + ucast ttl\<rparr>)"
proof -
  have hm: "hmac_sha1_base64 h b64 key d = Ok (b64 (projr (sh_hmac h key d)))" for d
  proof -
    obtain t where "sh_hmac h key d = Inr t" using assms by (auto simp: hmac_total_def)
    then show ?thesis by (simp add: hmac_sha1_base64_def)
  qed
  show ?thesis
    using sint_i64_bounds [of now] sint_expiry [of now ttl]
    by (auto simp add: cred_generate_def i64_checked_add_def sint_ucast_u32 hm Let_def ascii_str_def simp del: of_nat_unat)
qed

text \<open>
  Generating credentials fails exactly when the expiry overflows; otherwise they are valid until
  one minute before the expiry, and the signed user name determines both the expiry and the user.
\<close>

theorem credentials_exact:
  assumes "hmac_total h"
  shows "case cred_generate h b64 key user ttl now of
     Inl e \<Rightarrow> e = TurnCredTimestampOverflow \<and> 2 ^ 63 \<le> sint now + int (unat ttl)
   | Inr c \<Rightarrow> sint (cr_expires_at c) = sint now + int (unat ttl)
       \<and> (\<forall>t. cred_is_valid c t \<longleftrightarrow> sint t < sint now + int (unat ttl) - 60)
       \<and> (\<forall>user' ttl' now' c'. cred_generate h b64 key user' ttl' now' = Ok c' \<longrightarrow> cr_username c' = cr_username c
            \<longrightarrow> user' = user \<and> cr_expires_at c' = cr_expires_at c)"
proof (cases "2 ^ 63 \<le> sint now + int (unat ttl)")
  case True
  then show ?thesis by (simp add: cred_generate_eq [OF assms])
next
  case False
  let ?e = "sint now + int (unat ttl)"
  have s: "sint (now + ucast ttl) = ?e" using False by (rule sint_expiry)
  have v: "sint t < i64_clamp (?e - 60) \<longleftrightarrow> sint t < ?e - 60" for t :: i64
    using False sint_i64_bounds [of t] by (auto simp: i64_clamp_def)
  have s': "cr_expires_at c' = now + ucast ttl \<longleftrightarrow> sint (cr_expires_at c') = ?e" for c' :: turn_credentials
    using s by (metis signed_word_eqI)
  have u: "user' = user \<and> sint now' + int (unat ttl') = ?e"
    if "ascii_str (show_int (sint now' + int (unat ttl'))) @ 58 # user' = ascii_str (show_int ?e) @ 58 # user"
    for user' :: str and ttl' :: u32 and now' :: i64
    using colon_split [OF no_colon no_colon that] by (auto dest!: ascii_str_inj show_int_inj)
  show ?thesis
    using False u by (auto simp: cred_generate_eq [OF assms] Let_def s s' sint_expiry cred_is_valid_def sint_i64_sat_sub v simp del: of_nat_unat split: if_splits)
qed

subsection \<open>Instances\<close>

definition demo_probe :: "u32 \<Rightarrow> u64 \<Rightarrow> relay_probe_result" where
  "demo_probe ip rtt = \<lparr>rp_server = SockV4 ip 3478, rp_rtt_us = rtt, rp_jitter_us = 100\<rparr>"

theorem relay_choice_agrees_witness:
  "select_relay (score_relays [demo_probe 1 900, demo_probe 2 500] [demo_probe 2 300, demo_probe 1 400])
     = select_relay (score_relays [demo_probe 2 300, demo_probe 1 400] [demo_probe 1 900, demo_probe 2 500])"
  using relay_choice_agrees [of "[demo_probe 2 300, demo_probe 1 400]" "[demo_probe 1 900, demo_probe 2 500]"]
  by (simp add: demo_probe_def score_relays_def score_one_def List.map_filter_simps sat_add_def)

theorem relay_choice_best_witness:
  "\<exists>sel. select_relay (score_relays [demo_probe 1 900, demo_probe 2 500] [demo_probe 2 300, demo_probe 1 400]) = Some sel
     \<and> (\<exists>t. sel_standby sel = Some t \<and> unat (rs_score t) \<le> unat (rs_score (sel_primary sel)) + 10000)"
  using relay_choice_best [of "[demo_probe 1 900, demo_probe 2 500]" "[demo_probe 2 300, demo_probe 1 400]"]
  by (simp add: demo_probe_def score_relays_def score_one_def List.map_filter_simps sat_add_def sat_sub_def select_relay_def)

lemma case_sum_weaken: "(case r of Inl e \<Rightarrow> P e \<and> Q e | Inr c \<Rightarrow> R c \<and> S c \<and> T c) \<Longrightarrow> (case r of Inl e \<Rightarrow> Q e | Inr c \<Rightarrow> S c)"
  by (cases r) simp_all

theorem credentials_exact_witness:
  "\<exists>c. cred_generate plain_hash (\<lambda>_. []) [1] [65] 3600 1000000 = Ok c \<and> cred_is_valid c 1003539 \<and> \<not> cred_is_valid c 1003540"
proof -
  let ?g = "cred_generate plain_hash (\<lambda>_. []) [1] [65] 3600 1000000" and ?e = "sint (1000000 :: i64) + int (unat (3600 :: u32))"
  have x: "case ?g of Inl e \<Rightarrow> 2 ^ 63 \<le> ?e | Inr c \<Rightarrow> \<forall>t. cred_is_valid c t \<longleftrightarrow> sint t < ?e - 60"
    by (rule case_sum_weaken [OF credentials_exact [OF plain_hash_total]])
  have "\<not> 2 ^ 63 \<le> ?e" by simp
  with x obtain c where c: "?g = Ok c" "\<forall>t. cred_is_valid c t \<longleftrightarrow> sint t < ?e - 60"
    by (cases ?g) (auto simp only: sum.case)
  have "cred_is_valid c 1003539" "\<not> cred_is_valid c 1003540" unfolding c(2) [rule_format] by simp_all
  with c(1) show ?thesis by blast
qed

end
