(* ===== verification/Sig_Envelope.thy ===== *)
theory Sig_Envelope
  imports Peer_Auth Show_Num Utf8
begin

text \<open>
  Signalling envelopes (\<open>src/crates/sh-signaling/src/envelope.rs\<close>) and the errors of the crate
  (\<open>error.rs\<close>). A fingerprint is a Rust string, given as the characters of its bytes; a session
  id is its 16 bytes.
\<close>

definition MAX_PAYLOAD_LEN :: u32 where "MAX_PAYLOAD_LEN = 64 * 1024"
definition ENVELOPE_HEADER_LEN :: nat where "ENVELOPE_HEADER_LEN = 149"
definition FROM_FP_OFFSET :: nat where "FROM_FP_OFFSET = 17"
definition TO_FP_OFFSET :: nat where "TO_FP_OFFSET = 81"
definition PAYLOAD_LEN_OFFSET :: nat where "PAYLOAD_LEN_OFFSET = 145"
definition FP_LEN :: nat where "FP_LEN = 64"

lemmas envelope_layout = ENVELOPE_HEADER_LEN_def FROM_FP_OFFSET_def TO_FP_OFFSET_def PAYLOAD_LEN_OFFSET_def FP_LEN_def

datatype signaling_error =
    EnvelopeTooShort nat
  | UnknownMessageKind u8
  | PayloadTooLarge u64
  | TruncatedPayload u32 nat
  | InvalidFingerprint
  | SigWebSocket string
  | SigIo string
  | SessionNotFound bytes
  | PeerNotFound string
  | FingerprintSpoofAttempt string string
  | SessionTableFull nat
  | SessionFull nat
  | SigNotConnected
  | ServerError string
  | UnexpectedMessageType
  | AlreadyRegistered
  | InvalidChallenge
  | SigCrypto crypto_error
  | AuthenticationFailed

datatype message_kind = Hello | Offer | Answer | Candidate | EndOfCandidates | Bye | Error | Challenge | Noise

definition kind_u8 :: "message_kind \<Rightarrow> u8" where
  "kind_u8 k = (case k of Hello \<Rightarrow> 0 | Offer \<Rightarrow> 1 | Answer \<Rightarrow> 2 | Candidate \<Rightarrow> 3 | EndOfCandidates \<Rightarrow> 4
     | Bye \<Rightarrow> 5 | Error \<Rightarrow> 6 | Challenge \<Rightarrow> 7 | Noise \<Rightarrow> 8)"

definition kind_from_u8 :: "u8 \<Rightarrow> signaling_error + message_kind" where
  "kind_from_u8 b =
     (if b = 0 then Ok Hello else if b = 1 then Ok Offer else if b = 2 then Ok Answer else if b = 3 then Ok Candidate
      else if b = 4 then Ok EndOfCandidates else if b = 5 then Ok Bye else if b = 6 then Ok Error
      else if b = 7 then Ok Challenge else if b = 8 then Ok Noise else Err (UnknownMessageKind b))"

record signaling_envelope =
  en_kind :: message_kind
  en_session_id :: bytes
  en_from_fp :: string
  en_to_fp :: string
  en_payload :: bytes

definition is_hex_char :: "char \<Rightarrow> bool" where
  "is_hex_char c = (let b = of_char c :: nat in 48 \<le> b \<and> b \<le> 57 \<or> 97 \<le> b \<and> b \<le> 102)"

definition validate_fp :: "string \<Rightarrow> signaling_error + unit" where
  "validate_fp fp = (if length fp \<noteq> FP_LEN \<or> \<not> list_all is_hex_char fp then Err InvalidFingerprint else Ok ())"

definition sig_encode :: "signaling_envelope \<Rightarrow> signaling_error + bytes" where
  "sig_encode env =
     (let n = length (en_payload env) in
      if n > unat MAX_PAYLOAD_LEN then Err (PayloadTooLarge (of_nat n)) else
      and_then (validate_fp (en_from_fp env)) (\<lambda>_.
      and_then (validate_fp (en_to_fp env)) (\<lambda>_.
      if ENVELOPE_HEADER_LEN + n > usize_max then Err (PayloadTooLarge (of_nat n)) else
      Ok ([kind_u8 (en_kind env)] @ en_session_id env @ ascii (en_from_fp env) @ ascii (en_to_fp env)
          @ to_be 4 (of_nat n :: u32) @ en_payload env))))"

definition fp_field :: "bytes \<Rightarrow> nat \<Rightarrow> signaling_error + string" where
  "fp_field buf i =
     and_then (ok_or (get_range i (i + FP_LEN) buf) (EnvelopeTooShort (length buf))) (\<lambda>b.
     if from_utf8 b = None then Err InvalidFingerprint else
     let fp = map (\<lambda>x. char_of (unat x)) b in
     and_then (validate_fp fp) (\<lambda>_. Ok fp))"

definition sig_decode :: "bytes \<Rightarrow> signaling_error + signaling_envelope" where
  "sig_decode buf =
     (if length buf < ENVELOPE_HEADER_LEN then Err (EnvelopeTooShort (length buf)) else
      and_then (ok_or (get_at buf 0) (EnvelopeTooShort 0)) (\<lambda>k.
      and_then (kind_from_u8 k) (\<lambda>kind.
      and_then (ok_or (get_range 1 17 buf) (EnvelopeTooShort (length buf))) (\<lambda>session_id.
      and_then (fp_field buf FROM_FP_OFFSET) (\<lambda>from_fp.
      and_then (fp_field buf TO_FP_OFFSET) (\<lambda>to_fp.
      and_then (ok_or (get_range PAYLOAD_LEN_OFFSET (PAYLOAD_LEN_OFFSET + 4) buf) (EnvelopeTooShort (length buf))) (\<lambda>len_bytes.
      let payload_len = (from_be len_bytes :: u32) in
      if payload_len > MAX_PAYLOAD_LEN then Err (PayloadTooLarge (ucast payload_len)) else
      let available = length buf - ENVELOPE_HEADER_LEN; n = unat payload_len in
      if available < n then Err (TruncatedPayload payload_len available) else
      and_then (ok_or (get_range ENVELOPE_HEADER_LEN (usz_add ENVELOPE_HEADER_LEN n) buf) (TruncatedPayload payload_len available)) (\<lambda>payload.
      Ok \<lparr>en_kind = kind, en_session_id = session_id, en_from_fp = from_fp, en_to_fp = to_fp, en_payload = payload\<rparr>))))))))"

subsection \<open>Round trip\<close>

lemma kind_roundtrip: "kind_from_u8 b = Ok k \<longleftrightarrow> b = kind_u8 k"
  by (cases k) (auto simp: kind_from_u8_def kind_u8_def)

lemma unat_max_payload: "unat MAX_PAYLOAD_LEN = 65536"
  by (simp add: MAX_PAYLOAD_LEN_def)

lemma from_utf8_ascii: "list_all (\<lambda>b. b < 0x80) bs \<Longrightarrow> from_utf8 bs = Some (map unat bs)"
proof (induction bs)
  case (Cons b bs)
  then have "next_char (b # bs) = Some (unat b, bs)" by (simp add: next_char_def Let_def word_less_nat_alt)
  then show ?case using Cons by (simp add: from_utf8_step)
qed simp

lemma unat_of_char: "unat (of_char c :: u8) = of_char c"
proof -
  have "(of_char c :: u8) = of_nat (of_char c)" by (rule of_nat_of_char [symmetric])
  moreover have "(of_char c :: nat) < 256" by (cases c) (simp add: of_char_def horner_sum_simps of_bool_def)
  ultimately show ?thesis by (simp only: unat_of_nat) simp
qed

lemma byte_char [simp]: "char_of (unat (of_char c :: u8)) = c"
  by (simp only: unat_of_char char_of_char)

lemma char_byte [simp]: "of_char (char_of (unat (x :: u8))) = x"
proof -
  have "unat x < 256" using unsigned_less [of x, where 'a = nat] by simp
  then have "unat (of_char (char_of (unat x)) :: u8) = unat x" by (simp add: unat_of_char)
  then show ?thesis by (simp only: word_unat_eq_iff)
qed

lemma ascii_chars: "ascii (map (\<lambda>x. char_of (unat x)) b) = b" "map (\<lambda>x. char_of (unat x)) (ascii s) = s"
  by (simp_all add: ascii_def comp_def map_idI)

lemma hex_small: "is_hex_char c \<Longrightarrow> (of_char c :: u8) < 0x80"
  by (auto simp: is_hex_char_def word_less_nat_alt unat_of_char Let_def)

lemma validate_fp_iff: "validate_fp fp = Ok () \<longleftrightarrow> length fp = 64 \<and> list_all is_hex_char fp"
  by (simp add: validate_fp_def FP_LEN_def)

lemma fp_field_iff:
  "fp_field buf i = Ok fp \<longleftrightarrow> i + 64 \<le> length buf \<and> validate_fp fp = Ok () \<and> field i 64 buf = ascii fp"
proof (cases "i + 64 \<le> length buf")
  case True
  then have g: "get_range i (i + FP_LEN) buf = Some (field i 64 buf)" by (simp add: get_range_field FP_LEN_def)
  have "from_utf8 (ascii fp) \<noteq> None" if "list_all is_hex_char fp"
    using that by (subst from_utf8_ascii) (auto simp: ascii_def list_all_iff hex_small)
  then show ?thesis using True
    by (auto simp: fp_field_def g Let_def ascii_chars validate_fp_iff)
qed (auto simp: fp_field_def get_range_def FP_LEN_def)

lemma sig_encode_iff:
  "sig_encode env = Ok enc \<longleftrightarrow> length (en_payload env) \<le> 65536 \<and> validate_fp (en_from_fp env) = Ok () \<and> validate_fp (en_to_fp env) = Ok ()
     \<and> enc = [kind_u8 (en_kind env)] @ en_session_id env @ ascii (en_from_fp env) @ ascii (en_to_fp env)
          @ to_be 4 (of_nat (length (en_payload env)) :: u32) @ en_payload env"
  by (auto simp: sig_encode_def Let_def unat_max_payload ENVELOPE_HEADER_LEN_def usize_max_def split: if_splits)

lemma sig_decode_iff:
  "sig_decode buf = Ok env \<longleftrightarrow> (let n = unat (from_be (field 145 4 buf) :: u32) in
     149 + n \<le> length buf \<and> n \<le> 65536 \<and> buf ! 0 = kind_u8 (en_kind env) \<and> en_session_id env = field 1 16 buf
     \<and> validate_fp (en_from_fp env) = Ok () \<and> field 17 64 buf = ascii (en_from_fp env)
     \<and> validate_fp (en_to_fp env) = Ok () \<and> field 81 64 buf = ascii (en_to_fp env) \<and> en_payload env = field 149 n buf)"
proof (cases "149 \<le> length buf")
  case True
  let ?n = "unat (from_be (field 145 4 buf) :: u32)"
  have g: "get_at buf 0 = Some (buf ! 0)" "get_range (Suc 0) 17 buf = Some (field 1 16 buf)" "get_range 145 149 buf = Some (field 145 4 buf)"
    using True by (auto simp: get_at_def get_range_field)
  have p: "get_range 149 (149 + ?n) buf = Some (field 149 ?n buf)" if "149 + ?n \<le> length buf"
    using that by (simp add: get_range_field)
  have m: "MAX_PAYLOAD_LEN < w \<longleftrightarrow> 65536 < unat w" for w by (simp add: word_less_nat_alt unat_max_payload)
  have u: "unat w \<le> 65536 \<Longrightarrow> usz_add 149 (unat w) = 149 + unat w" for w :: u32 by (simp add: usize_max_def)
  show ?thesis using True
    by (cases env, auto simp: sig_decode_def envelope_layout Let_def g p u m kind_roundtrip fp_field_iff split: if_splits)
      (rule exI, rule conjI, rule refl, rule exI, auto)
qed (auto simp: sig_decode_def ENVELOPE_HEADER_LEN_def Let_def)

lemma envelope_exact:
  "sig_decode buf = Ok env \<longleftrightarrow> length (en_session_id env) = 16 \<and> (\<exists>enc junk. sig_encode env = Ok enc \<and> buf = enc @ junk)"
proof
  let ?n = "unat (from_be (field 145 4 buf) :: u32)"
  assume "sig_decode buf = Ok env"
  then have d: "149 + ?n \<le> length buf" "?n \<le> 65536" "buf ! 0 = kind_u8 (en_kind env)" "en_session_id env = field 1 16 buf"
    "validate_fp (en_from_fp env) = Ok ()" "field 17 64 buf = ascii (en_from_fp env)"
    "validate_fp (en_to_fp env) = Ok ()" "field 81 64 buf = ascii (en_to_fp env)" "en_payload env = field 149 ?n buf"
    unfolding sig_decode_iff Let_def by blast+
  have "[kind_u8 (en_kind env)] @ en_session_id env @ ascii (en_from_fp env) @ ascii (en_to_fp env) @ to_be 4 (of_nat (length (en_payload env)) :: u32) @ en_payload env
      = [buf ! 0] @ field 1 16 buf @ field 17 64 buf @ field 81 64 buf @ field 145 4 buf @ field 149 ?n buf"
    using d by (simp add: to_from_be_len)
  also have "[buf ! 0] = field 0 1 buf" using d(1) by (intro nth_field_single) linarith
  also have "field 0 1 buf @ field 1 16 buf @ field 17 64 buf @ field 81 64 buf @ field 145 4 buf @ field 149 ?n buf = field 0 (149 + ?n) buf"
    by (simp add: field_joins del: field_whole)
  finally have "sig_encode env = Ok (field 0 (149 + ?n) buf)" using d unfolding sig_encode_iff by simp
  moreover have "buf = field 0 (149 + ?n) buf @ drop (149 + ?n) buf" by (simp add: field_def)
  ultimately show "length (en_session_id env) = 16 \<and> (\<exists>enc junk. sig_encode env = Ok enc \<and> buf = enc @ junk)"
    using d(1,4) by auto
next
  assume "length (en_session_id env) = 16 \<and> (\<exists>enc junk. sig_encode env = Ok enc \<and> buf = enc @ junk)"
  then obtain junk where l: "length (en_session_id env) = 16" "length (en_payload env) \<le> 65536"
      "validate_fp (en_from_fp env) = Ok ()" "validate_fp (en_to_fp env) = Ok ()"
    and b: "buf = [kind_u8 (en_kind env)] @ en_session_id env @ ascii (en_from_fp env) @ ascii (en_to_fp env)
          @ to_be 4 (of_nat (length (en_payload env)) :: u32) @ en_payload env @ junk"
    by (auto simp: sig_encode_iff)
  have f: "length (ascii (en_from_fp env)) = 64" "length (ascii (en_to_fp env)) = 64"
    using l(3,4) by (simp_all add: validate_fp_iff ascii_def)
  have "from_be (field 145 4 buf) = (of_nat (length (en_payload env)) :: u32)" unfolding b using l(1) f by simp
  then have n: "unat (from_be (field 145 4 buf) :: u32) = length (en_payload env)" using l(2) by (simp add: unat_of_nat)
  show "sig_decode buf = Ok env" unfolding sig_decode_iff Let_def n using l f by (simp add: b)
qed

text \<open>
  Decoding accepts exactly the encodings of envelopes with a 16-byte session id, followed by
  anything: an envelope survives the wire, no two envelopes share an encoding, and what is decoded
  has hexadecimal fingerprints and a payload of at most 64 KiB.
\<close>

theorem envelope_wire_exact:
  "sig_decode buf = Ok env \<longleftrightarrow> length (en_session_id env) = 16 \<and> (\<exists>enc junk. sig_encode env = Ok enc \<and> buf = enc @ junk)"
  by (rule envelope_exact)

lemma decode_encode: "sig_encode env = Ok enc \<Longrightarrow> length (en_session_id env) = 16 \<Longrightarrow> sig_decode enc = Ok env"
  unfolding envelope_exact by (metis append_Nil2)

end
