(* ===== verification/Sig_Server.thy ===== *)
theory Sig_Server
  imports Sig_Envelope "HOL-Library.AList"
begin

text \<open>
  The signalling relay (\<open>src/crates/sh-signaling/src/server.rs\<close>) and the authenticator behind its
  \<open>Hello\<close> (\<open>auth.rs\<close>). A connection task is numbered, and its number stands for the sending half
  of its queue. WebSocket and queue are the environment: an event says what the socket or the queue
  yields, \<open>ws_ok\<close> whether the socket takes a frame, and \<open>accepts\<close> whether \<open>try_send\<close> succeeds on a
  queue. A hash map is an association list; \<open>values().next()\<close> is its first entry.
\<close>

subsection \<open>Authenticators\<close>

datatype auth_error = MalformedProof | ProofRejected | PolicyDenied

record auth_context =
  ac_claimed_fp :: string
  ac_session_id :: bytes
  ac_challenge :: bytes
  ac_proof :: bytes

definition identity_proof_authenticate :: "suite \<Rightarrow> auth_context \<Rightarrow> auth_error + unit" where
  "identity_proof_authenticate su ctx =
     and_then (map_err (\<lambda>_. MalformedProof) (proof_decode (ac_proof ctx))) (\<lambda>proof.
     map_err (\<lambda>_. ProofRejected) (proof_verify su proof (ac_claimed_fp ctx) (ac_session_id ctx) (ac_challenge ctx)))"

definition accept_all :: "auth_context \<Rightarrow> auth_error + unit" where
  "accept_all ctx = Ok ()"

subsection \<open>State\<close>

definition MAX_SESSIONS :: nat where "MAX_SESSIONS = 10000"
definition MAX_PEERS_PER_SESSION :: nat where "MAX_PEERS_PER_SESSION = 2"
definition MAX_CONNECTIONS :: nat where "MAX_CONNECTIONS = 20000"

type_synonym registry = "(bytes \<times> (string \<times> nat) list) list"

record sig_conn =
  sc_challenge :: bytes
  sc_fp :: "string option"
  sc_session :: "bytes option"
  sc_hello_received :: bool
  sc_should_exit :: bool

record sig_env =
  se_auth :: "auth_context \<Rightarrow> auth_error + unit"
  se_show_crypto :: "crypto_error \<Rightarrow> string"

definition zero_fp :: string where
  "zero_fp = replicate 64 CHR ''0''"

definition make_challenge_envelope :: "bytes \<Rightarrow> signaling_envelope" where
  "make_challenge_envelope challenge =
     \<lparr>en_kind = Challenge, en_session_id = replicate 16 0, en_from_fp = zero_fp, en_to_fp = zero_fp, en_payload = challenge\<rparr>"

definition make_error_envelope :: "bytes option \<Rightarrow> string \<Rightarrow> bytes \<Rightarrow> signaling_envelope" where
  "make_error_envelope session_id from_fp reason =
     (let payload_end = min (length reason) (unat MAX_PAYLOAD_LEN);
          payload = (if payload_end > 0 then (case get_range 0 payload_end reason of None \<Rightarrow> ascii ''error'' | Some p \<Rightarrow> p) else []);
          from_fp_padded = (if length from_fp = 64 then from_fp else zero_fp)
      in \<lparr>en_kind = Error, en_session_id = (case session_id of None \<Rightarrow> replicate 16 0 | Some s \<Rightarrow> s),
          en_from_fp = from_fp_padded, en_to_fp = from_fp_padded, en_payload = payload\<rparr>)"

subsection \<open>Error texts\<close>

definition dec :: "nat \<Rightarrow> string" where
  "dec n = show_base 10 n"

definition show_session :: "bytes \<Rightarrow> bytes" where
  "show_session s = ascii (''SessionId('' @ hex_bytes (take 4 s)) @ [0xE2, 0x80, 0xA6] @ ascii '')''"

definition show_sig_error :: "sig_env \<Rightarrow> signaling_error \<Rightarrow> bytes" where
  "show_sig_error e er =
     (case er of
        EnvelopeTooShort actual \<Rightarrow> ascii (''envelope too short: need at least '' @ dec ENVELOPE_HEADER_LEN @ '' bytes, got '' @ dec actual)
      | UnknownMessageKind b \<Rightarrow> ascii (''unknown message kind byte: 0x'' @ hex_byte b)
      | PayloadTooLarge n \<Rightarrow> ascii (''payload too large: '' @ dec (unat n) @ '' bytes (max '' @ dec (unat MAX_PAYLOAD_LEN) @ '')'')
      | TruncatedPayload declared available \<Rightarrow> ascii (''truncated payload: declared '' @ dec (unat declared) @ '' bytes but only ''
          @ dec available @ '' bytes remain'')
      | InvalidFingerprint \<Rightarrow> ascii ''invalid fingerprint: must be 64 lowercase hex characters [0-9a-f]''
      | SigWebSocket t \<Rightarrow> ascii (''WebSocket error: '' @ t)
      | SigIo t \<Rightarrow> ascii (''I/O error: '' @ t)
      | SessionNotFound s \<Rightarrow> ascii ''session not found: '' @ show_session s
      | PeerNotFound fp \<Rightarrow> ascii (''peer not found in session: '' @ fp)
      | FingerprintSpoofAttempt _ _ \<Rightarrow> ascii ''fingerprint mismatch''
      | SessionTableFull m \<Rightarrow> ascii (''session table full (max '' @ dec m @ '' sessions)'')
      | SessionFull m \<Rightarrow> ascii (''session full (max '' @ dec m @ '' peers)'')
      | SigNotConnected \<Rightarrow> ascii ''client not connected''
      | ServerError reason \<Rightarrow> ascii (''connection refused by server: '' @ reason)
      | UnexpectedMessageType \<Rightarrow> ascii ''unexpected WebSocket message type''
      | AlreadyRegistered \<Rightarrow> ascii ''connection already registered''
      | InvalidChallenge \<Rightarrow> ascii ''invalid challenge from server''
      | SigCrypto c \<Rightarrow> ascii (''crypto error: '' @ se_show_crypto e c)
      | AuthenticationFailed \<Rightarrow> ascii ''authentication failed'')"

subsection \<open>Messages\<close>

definition register_peer :: "registry \<Rightarrow> bytes \<Rightarrow> string \<Rightarrow> nat \<Rightarrow> signaling_error + registry" where
  "register_peer reg session_id fp tx =
     (if map_of reg session_id = None \<and> length reg \<ge> MAX_SESSIONS then Err (SessionTableFull MAX_SESSIONS) else
      let session = (case map_of reg session_id of None \<Rightarrow> [] | Some s \<Rightarrow> s) in
      if length session \<ge> MAX_PEERS_PER_SESSION \<and> map_of session fp = None then Err (SessionFull MAX_PEERS_PER_SESSION) else
      Ok (AList.update session_id (AList.update fp tx session) reg))"

definition handle_hello :: "sig_env \<Rightarrow> nat \<Rightarrow> sig_conn \<Rightarrow> registry \<Rightarrow> signaling_envelope \<Rightarrow>
    sig_conn \<times> registry \<times> (signaling_error + signaling_envelope option)" where
  "handle_hello e tx c reg env =
     (if sc_fp c \<noteq> None then (c, reg, Err AlreadyRegistered) else
      case se_auth e \<lparr>ac_claimed_fp = en_from_fp env, ac_session_id = en_session_id env, ac_challenge = sc_challenge c,
          ac_proof = en_payload env\<rparr> of
        Inl _ \<Rightarrow> (c, reg, Err AuthenticationFailed)
      | Inr _ \<Rightarrow>
        (case register_peer reg (en_session_id env) (en_from_fp env) tx of
           Inl er \<Rightarrow> (c, reg, Err er)
         | Inr reg' \<Rightarrow> (c\<lparr>sc_fp := Some (en_from_fp env), sc_session := Some (en_session_id env)\<rparr>, reg',
             Ok (Some \<lparr>en_kind = Hello, en_session_id = en_session_id env, en_from_fp = en_from_fp env,
               en_to_fp = en_from_fp env, en_payload = []\<rparr>))))"

definition forward_to_peer :: "(nat \<Rightarrow> bool) \<Rightarrow> registry \<Rightarrow> signaling_envelope \<Rightarrow> signaling_error + nat" where
  "forward_to_peer accepts reg env =
     and_then (ok_or (map_of reg (en_session_id env)) (SessionNotFound (en_session_id env))) (\<lambda>session.
     and_then (ok_or (map_of session (en_to_fp env)) (PeerNotFound (en_to_fp env))) (\<lambda>peer_tx.
     if accepts peer_tx then Ok peer_tx else Err (PeerNotFound (en_to_fp env))))"

text \<open>The third component is what was put into which queue.\<close>

definition handle_message :: "sig_env \<Rightarrow> (nat \<Rightarrow> bool) \<Rightarrow> nat \<Rightarrow> sig_conn \<Rightarrow> registry \<Rightarrow> bytes \<Rightarrow>
    sig_conn \<times> registry \<times> (nat \<times> signaling_envelope) list \<times> (signaling_error + signaling_envelope option)" where
  "handle_message e accepts tx c reg raw =
     (case sig_decode raw of
        Inl er \<Rightarrow> (c, reg, [], Err er)
      | Inr env \<Rightarrow>
        if (case sc_fp c of None \<Rightarrow> False | Some registered \<Rightarrow> en_from_fp env \<noteq> registered)
        then (c, reg, [], Err (FingerprintSpoofAttempt (the (sc_fp c)) (en_from_fp env)))
        else (case en_kind env of
            Hello \<Rightarrow> (case handle_hello e tx c reg env of (c', reg', r) \<Rightarrow> (c', reg', [], r))
          | Bye \<Rightarrow> (c, reg, (case forward_to_peer accepts reg env of Inl _ \<Rightarrow> [] | Inr p \<Rightarrow> [(p, env)]), Ok None)
          | Error \<Rightarrow> (c, reg, [], Err UnexpectedMessageType)
          | Challenge \<Rightarrow> (c, reg, [], Err UnexpectedMessageType)
          | _ \<Rightarrow> (case forward_to_peer accepts reg env of Inl er \<Rightarrow> (c, reg, [], Err er) | Inr p \<Rightarrow> (c, reg, [(p, env)], Ok None))))"

subsection \<open>A connection\<close>

datatype ws_event = WsEnd | WsReadError | WsBinary bytes | WsCloseFrame | WsPing bytes | WsOther

datatype ws_frame = BinaryFrame bytes | PongFrame bytes

datatype conn_event = Inbound ws_event | Routed "signaling_envelope option" | HelloDeadline

definition conn_new :: "bytes \<Rightarrow> sig_conn" where
  "conn_new challenge = \<lparr>sc_challenge = challenge, sc_fp = None, sc_session = None, sc_hello_received = False, sc_should_exit = False\<rparr>"

definition send_env :: "bool \<Rightarrow> sig_conn \<Rightarrow> signaling_envelope \<Rightarrow> sig_conn \<times> ws_frame list" where
  "send_env ws_ok c env =
     (case sig_encode env of
        Inl _ \<Rightarrow> (c, [])
      | Inr encoded \<Rightarrow> (if ws_ok then c else c\<lparr>sc_should_exit := True\<rparr>, [BinaryFrame encoded]))"

definition closes_connection :: "signaling_error \<Rightarrow> bool" where
  "closes_connection er = (case er of FingerprintSpoofAttempt _ _ \<Rightarrow> True | AuthenticationFailed \<Rightarrow> True | _ \<Rightarrow> False)"

definition handle_binary :: "sig_env \<Rightarrow> (nat \<Rightarrow> bool) \<Rightarrow> bool \<Rightarrow> nat \<Rightarrow> sig_conn \<Rightarrow> registry \<Rightarrow> bytes \<Rightarrow>
    sig_conn \<times> registry \<times> (nat \<times> signaling_envelope) list \<times> ws_frame list" where
  "handle_binary e accepts ws_ok tx c reg raw =
     (case handle_message e accepts tx c reg raw of (c1, reg', sent, result) \<Rightarrow>
        let c2 = (if sc_fp c1 \<noteq> None then c1\<lparr>sc_hello_received := True\<rparr> else c1) in
        (case result of
           Inr (Some reply) \<Rightarrow> (case send_env ws_ok c2 reply of (c3, fs) \<Rightarrow> (c3, reg', sent, fs))
         | Inr None \<Rightarrow> (c2, reg', sent, [])
         | Inl er \<Rightarrow>
           let reason = (case er of FingerprintSpoofAttempt _ _ \<Rightarrow> ascii ''fingerprint mismatch'' | _ \<Rightarrow> show_sig_error e er);
               err_env = make_error_envelope (sc_session c2) (case sc_fp c2 of None \<Rightarrow> [] | Some fp \<Rightarrow> fp) reason
           in (if closes_connection er then c2\<lparr>sc_should_exit := True\<rparr> else c2, reg', sent,
               case sig_encode err_env of Inl _ \<Rightarrow> [] | Inr encoded \<Rightarrow> [BinaryFrame encoded])))"

definition conn_step :: "sig_env \<Rightarrow> (nat \<Rightarrow> bool) \<Rightarrow> bool \<Rightarrow> nat \<Rightarrow> sig_conn \<Rightarrow> registry \<Rightarrow> conn_event \<Rightarrow>
    sig_conn \<times> registry \<times> (nat \<times> signaling_envelope) list \<times> ws_frame list" where
  "conn_step e accepts ws_ok tx c reg ev =
     (case ev of
        Inbound w \<Rightarrow>
          (case w of
             WsEnd \<Rightarrow> (c\<lparr>sc_should_exit := True\<rparr>, reg, [], [])
           | WsReadError \<Rightarrow> (c\<lparr>sc_should_exit := True\<rparr>, reg, [], [])
           | WsBinary raw \<Rightarrow> handle_binary e accepts ws_ok tx c reg raw
           | WsCloseFrame \<Rightarrow> (c\<lparr>sc_should_exit := True\<rparr>, reg, [], [])
           | WsPing data \<Rightarrow> (if ws_ok then c else c\<lparr>sc_should_exit := True\<rparr>, reg, [], [PongFrame data])
           | WsOther \<Rightarrow> (c, reg, [], []))
      | Routed None \<Rightarrow> (c\<lparr>sc_should_exit := True\<rparr>, reg, [], [])
      | Routed (Some env) \<Rightarrow> (case send_env ws_ok c env of (c', fs) \<Rightarrow> (c', reg, [], fs))
      | HelloDeadline \<Rightarrow> (c\<lparr>sc_should_exit := True\<rparr>, reg, [], []))"

definition cleanup :: "(nat \<Rightarrow> bool) \<Rightarrow> registry \<Rightarrow> sig_conn \<Rightarrow> registry \<times> (nat \<times> signaling_envelope) list" where
  "cleanup accepts reg c =
     (case (sc_session c, sc_fp c) of
        (Some session_id, Some fp) \<Rightarrow>
          (case map_of reg session_id of
             None \<Rightarrow> (reg, [])
           | Some session \<Rightarrow>
             let session' = AList.delete fp session;
                 reg' = (if session' = [] then AList.delete session_id reg else AList.update session_id session' reg);
                 bye = \<lparr>en_kind = Bye, en_session_id = session_id, en_from_fp = fp, en_to_fp = zero_fp, en_payload = []\<rparr>
             in (reg', case session' of [] \<Rightarrow> [] | (_, peer_tx) # _ \<Rightarrow> if accepts peer_tx then [(peer_tx, bye)] else []))
      | _ \<Rightarrow> (reg, []))"

end
