(* ===== verification/Sig_Relay.thy ===== *)
theory Sig_Relay
  imports Sig_Server
begin

text \<open>
  The relay as a transition system: connections are accepted, handle their events in any
  interleaving, and clean up when they end. One handler runs as one step: its only shared access
  is a single critical section on the registry. Invariants of all reachable states, and what a
  connection can make the relay send.
\<close>

record sig_world =
  sw_registry :: registry
  sw_conns :: "nat \<rightharpoonup> sig_conn"
  sw_next :: nat
  sw_sent :: "(nat \<times> signaling_envelope) list"

definition world_init :: sig_world where
  "world_init = \<lparr>sw_registry = [], sw_conns = Map.empty, sw_next = 0, sw_sent = []\<rparr>"

text \<open>A queue yields only what was put into it, and the deadline is watched only before the first \<open>Hello\<close>.\<close>

definition event_enabled :: "sig_world \<Rightarrow> nat \<Rightarrow> sig_conn \<Rightarrow> conn_event \<Rightarrow> bool" where
  "event_enabled w i c ev =
     (case ev of Routed (Some env) \<Rightarrow> (i, env) \<in> set (sw_sent w) | HelloDeadline \<Rightarrow> \<not> sc_hello_received c | _ \<Rightarrow> True)"

inductive world_step :: "sig_env \<Rightarrow> sig_world \<Rightarrow> sig_world \<Rightarrow> bool" for e where
  accept: "card (dom (sw_conns w)) < MAX_CONNECTIONS \<Longrightarrow> length challenge = PEER_AUTH_CHALLENGE_LEN \<Longrightarrow>
    world_step e w (w\<lparr>sw_conns := (sw_conns w)(sw_next w \<mapsto> conn_new challenge), sw_next := Suc (sw_next w)\<rparr>)"
| event: "sw_conns w i = Some c \<Longrightarrow> \<not> sc_should_exit c \<Longrightarrow> event_enabled w i c ev \<Longrightarrow>
    conn_step e accepts ws_ok i c (sw_registry w) ev = (c', reg', sent, frames) \<Longrightarrow>
    world_step e w (w\<lparr>sw_registry := reg', sw_conns := (sw_conns w)(i \<mapsto> c'), sw_sent := sw_sent w @ sent\<rparr>)"
| close: "sw_conns w i = Some c \<Longrightarrow> sc_should_exit c \<Longrightarrow> cleanup accepts (sw_registry w) c = (reg', sent) \<Longrightarrow>
    world_step e w (w\<lparr>sw_registry := reg', sw_conns := (sw_conns w)(i := None), sw_sent := sw_sent w @ sent\<rparr>)"

inductive reachable :: "sig_env \<Rightarrow> sig_world \<Rightarrow> bool" for e where
  init: "reachable e world_init"
| step: "reachable e w \<Longrightarrow> world_step e w w' \<Longrightarrow> reachable e w'"

subsection \<open>The registry\<close>

definition registry_ok :: "registry \<Rightarrow> bool" where
  "registry_ok reg \<longleftrightarrow> distinct (map fst reg) \<and> length reg \<le> MAX_SESSIONS
     \<and> (\<forall>s peers. map_of reg s = Some peers \<longrightarrow> peers \<noteq> [] \<and> length peers \<le> MAX_PEERS_PER_SESSION \<and> distinct (map fst peers))"

definition lookup :: "registry \<Rightarrow> bytes \<Rightarrow> string \<Rightarrow> nat option" where
  "lookup reg s fp = (case map_of reg s of None \<Rightarrow> None | Some peers \<Rightarrow> map_of peers fp)"

lemma length_update: "length (AList.update k v xs) = (if map_of xs k = None then Suc (length xs) else length xs)"
  by (induction xs) auto

lemma length_delete_le: "length (AList.delete k xs) \<le> length xs"
  by (simp add: AList.delete_eq)

lemma update_not_Nil [simp]: "AList.update k v xs \<noteq> []"
  by (cases xs) auto

lemma register_peer_ok:
  assumes "register_peer reg s fp tx = Ok reg'" and "registry_ok reg"
  shows "registry_ok reg'" and "lookup reg' s' fp' = (if s' = s \<and> fp' = fp then Some tx else lookup reg s' fp')"
proof -
  define peers where "peers = (case map_of reg s of None \<Rightarrow> [] | Some p \<Rightarrow> p)"
  have r: "reg' = AList.update s (AList.update fp tx peers) reg" "map_of reg s = None \<longrightarrow> length reg < MAX_SESSIONS"
    "map_of peers fp = None \<longrightarrow> length peers < MAX_PEERS_PER_SESSION"
    using assms(1) by (auto simp: register_peer_def Let_def peers_def split: if_splits)
  have "length peers \<le> MAX_PEERS_PER_SESSION" "distinct (map fst peers)"
    using assms(2) by (auto simp: peers_def registry_ok_def split: option.splits)
  then show "registry_ok reg'"
    using r assms(2) by (auto simp: registry_ok_def update_conv' length_update distinct_update)
  show "lookup reg' s' fp' = (if s' = s \<and> fp' = fp then Some tx else lookup reg s' fp')"
    by (auto simp: lookup_def r(1) update_conv' peers_def split: option.splits)
qed

lemma cleanup_ok:
  assumes "cleanup accepts reg c = (reg', sent)" and "registry_ok reg"
  shows "registry_ok reg'" and "lookup reg' s' fp' = (if sc_session c = Some s' \<and> sc_fp c = Some fp' then None else lookup reg s' fp')"
proof -
  have "registry_ok reg' \<and> lookup reg' s' fp' = (if sc_session c = Some s' \<and> sc_fp c = Some fp' then None else lookup reg s' fp')"
  proof (cases "\<exists>s fp peers. sc_session c = Some s \<and> sc_fp c = Some fp \<and> map_of reg s = Some peers")
    case True
    then obtain s fp peers where s: "sc_session c = Some s" "sc_fp c = Some fp" "map_of reg s = Some peers" by blast
    have p: "length peers \<le> MAX_PEERS_PER_SESSION" "distinct (map fst peers)" "distinct (map fst reg)" "length reg \<le> MAX_SESSIONS"
      using assms(2) s(3) by (auto simp: registry_ok_def)
    let ?p = "AList.delete fp peers"
    have d: "length ?p \<le> MAX_PEERS_PER_SESSION" "distinct (map fst ?p)" "map_of ?p = (map_of peers)(fp := None)"
      using p length_delete_le [of fp peers] by (auto simp: distinct_delete delete_conv')
    have r: "reg' = (if ?p = [] then AList.delete s reg else AList.update s ?p reg)"
      using assms(1) s by (auto simp: cleanup_def Let_def)
    have "registry_ok reg'"
      using assms(2) p d s(3) length_delete_le [of s reg]
      by (auto simp: r registry_ok_def update_conv' delete_conv' distinct_update distinct_delete length_update
          simp del: map_of_eq_Some_iff Some_eq_map_of_iff)
    moreover have "lookup reg' s' fp' = (if sc_session c = Some s' \<and> sc_fp c = Some fp' then None else lookup reg s' fp')"
    proof (cases "s' = s")
      case True
      have "?p = [] \<Longrightarrow> fp' \<noteq> fp \<Longrightarrow> map_of peers fp' = None" using d(3) by (metis fun_upd_other map_of.simps(1))
      then show ?thesis using True s d(3) by (auto simp: lookup_def r update_conv' delete_conv')
    qed (use s in \<open>auto simp: lookup_def r update_conv' delete_conv'\<close>)
    ultimately show ?thesis by blast
  next
    case False
    then have "reg' = reg" using assms(1) by (auto simp: cleanup_def split: option.splits)
    then show ?thesis using assms(2) False by (auto simp: lookup_def split: option.splits)
  qed
  then show "registry_ok reg'" and "lookup reg' s' fp' = (if sc_session c = Some s' \<and> sc_fp c = Some fp' then None else lookup reg s' fp')"
    by blast+
qed

subsection \<open>One step of a connection\<close>

text \<open>A successful \<open>Hello\<close>: the only event that changes the registry or what a connection is bound to.\<close>

definition registers :: "sig_env \<Rightarrow> nat \<Rightarrow> sig_conn \<Rightarrow> registry \<Rightarrow> sig_conn \<Rightarrow> registry \<Rightarrow> bool" where
  "registers e i c reg c' reg' \<longleftrightarrow> sc_fp c = None \<and> (\<exists>s fp proof. sc_fp c' = Some fp \<and> sc_session c' = Some s
     \<and> register_peer reg s fp i = Ok reg' \<and> length s = 16 \<and> validate_fp fp = Ok ()
     \<and> se_auth e \<lparr>ac_claimed_fp = fp, ac_session_id = s, ac_challenge = sc_challenge c, ac_proof = proof\<rparr> = Ok ())"

definition same_binding :: "sig_conn \<Rightarrow> sig_conn \<Rightarrow> bool" where
  "same_binding c c' \<longleftrightarrow> sc_fp c' = sc_fp c \<and> sc_session c' = sc_session c"

lemma handle_hello_effect:
  assumes "handle_hello e i c reg env = (c', reg', r)" and "sig_decode raw = Ok env"
  shows "sc_challenge c' = sc_challenge c \<and> (reg' = reg \<and> same_binding c c' \<or> registers e i c reg c' reg')"
proof -
  have w: "length (en_session_id env) = 16" "validate_fp (en_from_fp env) = Ok ()"
    using assms(2) by (auto simp: sig_decode_iff Let_def)
  show ?thesis using assms(1) w
    by (auto simp: handle_hello_def registers_def same_binding_def split: if_splits sum.splits)
qed

lemma handle_message_effect:
  assumes "handle_message e accepts i c reg raw = (c', reg', sent, r)"
  shows "sc_challenge c' = sc_challenge c \<and> (reg' = reg \<and> same_binding c c' \<or> registers e i c reg c' reg')"
proof (cases "sig_decode raw")
  case (Inr env)
  show ?thesis
  proof (cases "handle_hello e i c reg env")
    case (fields c1 reg1 r1)
    show ?thesis using assms handle_hello_effect [OF fields Inr]
      by (auto simp: handle_message_def Inr fields same_binding_def split: if_splits message_kind.splits sum.splits)
  qed
qed (use assms in \<open>auto simp: handle_message_def same_binding_def\<close>)

lemma send_env_binding: "send_env ws_ok c env = (c', fs) \<Longrightarrow> sc_challenge c' = sc_challenge c \<and> same_binding c c'"
  by (auto simp: send_env_def same_binding_def split: sum.splits)

lemma handle_binary_effect:
  assumes "handle_binary e accepts ws_ok i c reg raw = (c', reg', sent, fs)"
  shows "sc_challenge c' = sc_challenge c \<and> (reg' = reg \<and> same_binding c c' \<or> registers e i c reg c' reg')"
proof -
  obtain c1 sent1 r where m: "handle_message e accepts i c reg raw = (c1, reg', sent1, r)" and b: "sc_challenge c' = sc_challenge c1" "same_binding c1 c'"
    using assms by (auto simp: handle_binary_def Let_def same_binding_def dest!: send_env_binding
        split: prod.splits sum.splits option.splits if_splits)
  show ?thesis using handle_message_effect [OF m] b by (auto simp: same_binding_def registers_def)
qed

lemma conn_step_effect:
  assumes "conn_step e accepts ws_ok i c reg ev = (c', reg', sent, fs)"
  shows "sc_challenge c' = sc_challenge c \<and> (reg' = reg \<and> same_binding c c' \<or> registers e i c reg c' reg')"
proof (cases "\<exists>raw. ev = Inbound (WsBinary raw)")
  case True
  then obtain raw where "handle_binary e accepts ws_ok i c reg raw = (c', reg', sent, fs)"
    using assms by (auto simp: conn_step_def)
  then show ?thesis by (rule handle_binary_effect)
next
  case False
  then show ?thesis using assms
    by (auto simp: conn_step_def same_binding_def dest!: send_env_binding split: conn_event.splits ws_event.splits option.splits prod.splits if_splits)
qed

subsection \<open>Invariants\<close>

definition conn_ok :: "sig_env \<Rightarrow> sig_conn \<Rightarrow> bool" where
  "conn_ok e c \<longleftrightarrow> length (sc_challenge c) = PEER_AUTH_CHALLENGE_LEN \<and> (sc_fp c = None \<longleftrightarrow> sc_session c = None)
     \<and> (\<forall>s fp. sc_session c = Some s \<longrightarrow> sc_fp c = Some fp \<longrightarrow> length s = 16 \<and> validate_fp fp = Ok ()
        \<and> (\<exists>proof. se_auth e \<lparr>ac_claimed_fp = fp, ac_session_id = s, ac_challenge = sc_challenge c, ac_proof = proof\<rparr> = Ok ()))"

definition world_inv :: "sig_env \<Rightarrow> sig_world \<Rightarrow> bool" where
  "world_inv e w \<longleftrightarrow> registry_ok (sw_registry w) \<and> (\<forall>i \<ge> sw_next w. sw_conns w i = None) \<and> (\<forall>c \<in> ran (sw_conns w). conn_ok e c)
     \<and> finite (dom (sw_conns w)) \<and> card (dom (sw_conns w)) \<le> MAX_CONNECTIONS
     \<and> (\<forall>s fp i. lookup (sw_registry w) s fp = Some i \<longrightarrow> (\<exists>c. sw_conns w i = Some c \<and> sc_session c = Some s \<and> sc_fp c = Some fp))"

lemma world_inv_init: "world_inv e world_init"
  by (simp add: world_inv_def world_init_def registry_ok_def lookup_def)

lemma conn_ok_step:
  assumes "conn_ok e c" and "sc_challenge c' = sc_challenge c \<and> (reg' = reg \<and> same_binding c c' \<or> registers e i c reg c' reg')"
  shows "conn_ok e c'"
  using assms by (auto simp: conn_ok_def same_binding_def registers_def)

lemma world_invD:
  assumes "world_inv e w"
  shows "registry_ok (sw_registry w)" and "sw_conns w i = Some c \<Longrightarrow> i < sw_next w \<and> conn_ok e c"
    and "lookup (sw_registry w) s fp = Some i \<Longrightarrow> \<exists>c. sw_conns w i = Some c \<and> sc_session c = Some s \<and> sc_fp c = Some fp"
  using assms by (auto simp: world_inv_def ran_def not_less [symmetric])

lemma world_inv_accept:
  assumes "world_inv e w" and "card (dom (sw_conns w)) < MAX_CONNECTIONS" and "length challenge = PEER_AUTH_CHALLENGE_LEN"
  shows "world_inv e (w\<lparr>sw_conns := (sw_conns w)(sw_next w \<mapsto> conn_new challenge), sw_next := Suc (sw_next w)\<rparr>)"
proof -
  have n: "sw_conns w (sw_next w) = None" using assms(1) by (simp add: world_inv_def)
  have "conn_ok e (conn_new challenge)" using assms(3) by (simp add: conn_ok_def conn_new_def)
  moreover have "card (dom ((sw_conns w)(sw_next w \<mapsto> conn_new challenge))) \<le> MAX_CONNECTIONS"
    using assms(1,2) n by (simp add: world_inv_def domIff)
  ultimately show ?thesis using assms(1) n by (fastforce simp: world_inv_def ran_def)
qed

lemma world_inv_event:
  assumes "world_inv e w" and "sw_conns w i = Some c" and "conn_step e accepts ws_ok i c (sw_registry w) ev = (c', reg', sent, frames)"
  shows "world_inv e (w\<lparr>sw_registry := reg', sw_conns := (sw_conns w)(i \<mapsto> c'), sw_sent := log\<rparr>)"
proof -
  note inv = world_invD [OF assms(1)]
  have e: "sc_challenge c' = sc_challenge c \<and> (reg' = sw_registry w \<and> same_binding c c' \<or> registers e i c (sw_registry w) c' reg')"
    by (rule conn_step_effect [OF assms(3)])
  have ok: "conn_ok e c'" using inv(2) [OF assms(2)] e by (blast intro: conn_ok_step)
  have d: "dom ((sw_conns w)(i \<mapsto> c')) = dom (sw_conns w)" using assms(2) by auto
  have "registry_ok reg' \<and> (\<forall>s fp j. lookup reg' s fp = Some j \<longrightarrow>
      (\<exists>d. ((sw_conns w)(i \<mapsto> c')) j = Some d \<and> sc_session d = Some s \<and> sc_fp d = Some fp))"
  proof (cases "registers e i c (sw_registry w) c' reg'")
    case True
    then obtain s fp where n: "sc_fp c = None" "sc_fp c' = Some fp" "sc_session c' = Some s" "register_peer (sw_registry w) s fp i = Ok reg'"
      by (auto simp: registers_def)
    have "sw_conns w i = Some c \<Longrightarrow> lookup (sw_registry w) s' fp' \<noteq> Some i" for s' fp'
      using inv(3) [of s' fp' i] n(1) by auto
    then show ?thesis using register_peer_ok [OF n(4) inv(1)] inv(3) assms(2) n(2,3) by (auto split: if_splits)
  next
    case False
    then have "reg' = sw_registry w" "same_binding c c'" using e by auto
    then show ?thesis using inv(1,3) assms(2) by (fastforce simp: same_binding_def)
  qed
  moreover have "i < sw_next w" using inv(2) [OF assms(2)] by blast
  ultimately show ?thesis using assms(1) ok d
    by (auto simp: world_inv_def ran_def split: if_splits)
qed

lemma world_inv_close:
  assumes "world_inv e w" and "sw_conns w i = Some c" and "cleanup accepts (sw_registry w) c = (reg', sent)"
  shows "world_inv e (w\<lparr>sw_registry := reg', sw_conns := (sw_conns w)(i := None), sw_sent := log\<rparr>)"
proof -
  note inv = world_invD [OF assms(1)]
  have l: "lookup reg' s fp = Some j \<Longrightarrow> j \<noteq> i \<and> lookup (sw_registry w) s fp = Some j" for s fp j
    using cleanup_ok(2) [OF assms(3) inv(1), of s fp] inv(3) [of s fp j] assms(2) by (auto split: if_splits)
  have "dom ((sw_conns w)(i := None)) = dom (sw_conns w) - {i}" by auto
  then have "card (dom ((sw_conns w)(i := None))) \<le> MAX_CONNECTIONS" "finite (dom ((sw_conns w)(i := None)))"
    using assms(1) card_Diff1_le [of "dom (sw_conns w)" i] by (auto simp: world_inv_def)
  moreover have "lookup reg' s fp = Some j \<Longrightarrow> \<exists>d. ((sw_conns w)(i := None)) j = Some d \<and> sc_session d = Some s \<and> sc_fp d = Some fp" for s fp j
    using l [of s fp j] inv(3) [of s fp j] by auto
  moreover have "\<forall>d \<in> ran ((sw_conns w)(i := None)). conn_ok e d" using inv(2) by (auto simp: ran_def)
  ultimately show ?thesis using assms(1) cleanup_ok(1) [OF assms(3) inv(1)] by (simp add: world_inv_def)
qed

lemma world_inv_step: "world_step e w w' \<Longrightarrow> world_inv e w \<Longrightarrow> world_inv e w'"
  by (induction rule: world_step.induct) (auto intro: world_inv_accept world_inv_event world_inv_close)

lemma reachable_inv: "reachable e w \<Longrightarrow> world_inv e w"
  by (induction rule: reachable.induct) (auto intro: world_inv_init world_inv_step)

subsection \<open>Properties\<close>

text \<open>
  C22. In every reachable state of the relay, over all interleavings of its connections, there are at
  most 10000 sessions of one or two peers each and at most 20000 connections, and every registered
  peer is a live connection bound to exactly that session and fingerprint.
\<close>

theorem relay_invariant:
  assumes "reachable e w"
  shows "length (sw_registry w) \<le> 10000 \<and> card (dom (sw_conns w)) \<le> 20000
    \<and> (\<forall>s peers. map_of (sw_registry w) s = Some peers \<longrightarrow> length peers \<in> {1, 2})
    \<and> (\<forall>s fp i. lookup (sw_registry w) s fp = Some i \<longrightarrow> (\<exists>c. sw_conns w i = Some c \<and> sc_session c = Some s \<and> sc_fp c = Some fp))"
proof -
  have inv: "world_inv e w" using assms by (rule reachable_inv)
  have "peers \<noteq> [] \<and> length peers \<le> 2" if "map_of (sw_registry w) s = Some peers" for s peers
    using inv that by (auto simp: world_inv_def registry_ok_def MAX_PEERS_PER_SESSION_def simp del: map_of_eq_Some_iff)
  moreover have "n \<noteq> 0 \<Longrightarrow> n \<le> 2 \<Longrightarrow> n \<in> {1, 2}" for n :: nat by auto
  ultimately have "length peers \<in> {1, 2}" if "map_of (sw_registry w) s = Some peers" for s peers
    using that by (metis length_0_conv)
  then show ?thesis using inv world_invD(3) [OF inv]
    by (simp add: world_inv_def registry_ok_def MAX_SESSIONS_def MAX_CONNECTIONS_def)
qed

text \<open>
  C23. With the production authenticator, every fingerprint in the registry belongs to a key that has
  signed the session id and the challenge of the very connection registered under it.
\<close>

theorem relay_authenticated:
  assumes "reachable \<lparr>se_auth = identity_proof_authenticate su, se_show_crypto = sc\<rparr> w" and "lookup (sw_registry w) s fp = Some i"
  shows "\<exists>c pk sig. sw_conns w i = Some c \<and> s_point su pk \<and> \<not> s_weak su pk \<and> fp = hex_bytes (s_sha su pk)
    \<and> s_verify su pk (AUTH_DOMAIN_TAG @ AUTH_TBS_VERSION # s @ pk @ sc_challenge c) sig"
proof -
  have inv: "world_inv \<lparr>se_auth = identity_proof_authenticate su, se_show_crypto = sc\<rparr> w" using assms(1) by (rule reachable_inv)
  obtain c where c: "sw_conns w i = Some c" "sc_session c = Some s" "sc_fp c = Some fp" using world_invD(3) [OF inv assms(2)] by blast
  then obtain bs where s: "length s = 16"
      and a: "identity_proof_authenticate su \<lparr>ac_claimed_fp = fp, ac_session_id = s, ac_challenge = sc_challenge c, ac_proof = bs\<rparr> = Ok ()"
    using world_invD(2) [OF inv c(1)] by (auto simp: conn_ok_def)
  then obtain p where "proof_decode bs = Ok p" "proof_verify su p fp s (sc_challenge c) = Ok ()"
    by (auto simp: identity_proof_authenticate_def map_err_def split: sum.splits)
  then show ?thesis using proof_verify_eq [of p s su fp "sc_challenge c"] s c(1) by (auto simp: proof_decode_iff)
qed

subsection \<open>What is sent to whom\<close>

text \<open>The envelope is for the peer it names, or a notice that the peer named in it has gone.\<close>

definition addressed :: "registry \<Rightarrow> nat \<Rightarrow> signaling_envelope \<Rightarrow> bool" where
  "addressed reg i env \<longleftrightarrow> (\<exists>peers. map_of reg (en_session_id env) = Some peers \<and>
     (map_of peers (en_to_fp env) = Some i \<or> en_kind env = Bye \<and> en_payload env = [] \<and> en_to_fp env = zero_fp \<and> i \<in> snd ` set peers))"

lemma handle_message_sent:
  assumes "handle_message e accepts j c reg raw = (c', reg', sent, r)" and "(i, env) \<in> set sent"
  shows "addressed reg i env \<and> (\<forall>fp. sc_fp c = Some fp \<longrightarrow> en_from_fp env = fp)"
  using assms
  by (auto simp: handle_message_def forward_to_peer_def addressed_def and_then_def ok_or_def
      split: sum.splits option.splits if_splits message_kind.splits prod.splits simp del: map_of_eq_Some_iff Some_eq_map_of_iff)

lemma conn_step_sent:
  assumes "conn_step e accepts ws_ok j c reg ev = (c', reg', sent, fs)" and "(i, env) \<in> set sent"
  shows "addressed reg i env \<and> (\<forall>fp. sc_fp c = Some fp \<longrightarrow> en_from_fp env = fp)"
proof -
  obtain raw c1 r where "handle_message e accepts j c reg raw = (c1, reg', sent, r)"
    using assms by (auto simp: conn_step_def handle_binary_def Let_def
        split: conn_event.splits ws_event.splits option.splits prod.splits sum.splits)
  then show ?thesis using assms(2) by (rule handle_message_sent)
qed

lemma cleanup_sent:
  assumes "cleanup accepts reg c = (reg', sent)" and "(i, env) \<in> set sent"
  shows "addressed reg i env \<and> sc_fp c = Some (en_from_fp env)"
proof -
  obtain s fp peers where s: "sc_session c = Some s" "sc_fp c = Some fp" "map_of reg s = Some peers"
    using assms by (auto simp: cleanup_def split: option.splits simp del: map_of_eq_Some_iff)
  have e: "env = \<lparr>en_kind = Bye, en_session_id = s, en_from_fp = fp, en_to_fp = zero_fp, en_payload = []\<rparr>"
    and p: "i \<in> snd ` set (AList.delete fp peers)"
    using assms s by (auto simp: cleanup_def Let_def split: list.splits if_splits)
  then show ?thesis using s by (auto simp: addressed_def AList.delete_eq simp del: map_of_eq_Some_iff)
qed

text \<open>The steps of one connection: the rules \<open>event\<close> and \<open>close\<close> with the connection that takes them.\<close>

inductive acts :: "sig_env \<Rightarrow> nat \<Rightarrow> sig_conn \<Rightarrow> sig_world \<Rightarrow> sig_world \<Rightarrow> bool" for e where
  event: "sw_conns w j = Some c \<Longrightarrow> \<not> sc_should_exit c \<Longrightarrow> event_enabled w j c ev \<Longrightarrow>
    conn_step e accepts ws_ok j c (sw_registry w) ev = (c', reg', sent, frames) \<Longrightarrow>
    acts e j c w (w\<lparr>sw_registry := reg', sw_conns := (sw_conns w)(j \<mapsto> c'), sw_sent := sw_sent w @ sent\<rparr>)"
| close: "sw_conns w j = Some c \<Longrightarrow> sc_should_exit c \<Longrightarrow> cleanup accepts (sw_registry w) c = (reg', sent) \<Longrightarrow>
    acts e j c w (w\<lparr>sw_registry := reg', sw_conns := (sw_conns w)(j := None), sw_sent := sw_sent w @ sent\<rparr>)"

lemma acts_step: "acts e j c w w' \<Longrightarrow> world_step e w w'"
  by (induction rule: acts.induct) (auto intro: world_step.event world_step.close)

lemma step_acts: "world_step e w w' \<Longrightarrow> sw_sent w' = sw_sent w \<or> (\<exists>j c. acts e j c w w')"
proof (induction rule: world_step.induct)
  case event
  then show ?case using acts.event by blast
next
  case close
  then show ?case using acts.close by blast
qed simp

lemma acts_sent:
  assumes "acts e j c w w'" and "(i, env) \<in> set (drop (length (sw_sent w)) (sw_sent w'))"
  shows "sw_conns w j = Some c \<and> addressed (sw_registry w) i env \<and> (sc_fp c = None \<or> sc_fp c = Some (en_from_fp env))"
  using assms(1)
proof cases
  case (event ev accepts ws_ok c' reg' sent frames)
  then show ?thesis using assms(2) conn_step_sent [OF event(5), of i env] by (cases "sc_fp c") auto
next
  case (close accepts reg' sent)
  then show ?thesis using assms(2) cleanup_sent [OF close(4), of i env] by auto
qed

text \<open>
  C25. Whatever the relay puts into a queue in a step goes to the peer registered under the session
  and the recipient it names, or tells a peer that the other one has left. It is put there by a step
  of some connection, and every connection whose step this can be has not registered or is
  registered under the fingerprint the envelope is from: a registered connection can only send
  under its own fingerprint.
\<close>

theorem routing_confined:
  assumes "world_step e w w'" and "(i, env) \<in> set (drop (length (sw_sent w)) (sw_sent w'))"
  shows "addressed (sw_registry w) i env \<and> (\<exists>j c. acts e j c w w')
    \<and> (\<forall>j c. acts e j c w w' \<longrightarrow> sw_conns w j = Some c \<and> (sc_fp c = None \<or> sc_fp c = Some (en_from_fp env)))"
  using step_acts [OF assms(1)] acts_sent [OF _ assms(2)] assms(2) by fastforce

lemma send_acts:
  assumes "sw_conns w j = Some c" and "\<not> sc_should_exit c" and "sc_fp c = None \<or> sc_fp c = Some (en_from_fp env)"
    and "sig_encode env = Ok raw" and "length (en_session_id env) = 16"
    and "en_kind env \<in> {Offer, Answer, Candidate, EndOfCandidates, Noise, Bye}"
    and "lookup (sw_registry w) (en_session_id env) (en_to_fp env) = Some i"
  shows "\<exists>w'. acts e j c w w' \<and> sw_sent w' = sw_sent w @ [(i, env)]"
proof -
  have "forward_to_peer (\<lambda>_. True) (sw_registry w) env = Ok i"
    using assms(7) by (auto simp: forward_to_peer_def lookup_def split: option.splits)
  then have "handle_message e (\<lambda>_. True) j c (sw_registry w) raw = (c, sw_registry w, [(i, env)], Ok None)"
    using assms(3,6) decode_encode [OF assms(4,5)] by (auto simp: handle_message_def)
  then obtain c' where "conn_step e (\<lambda>_. True) True j c (sw_registry w) (Inbound (WsBinary raw)) = (c', sw_registry w, [(i, env)], [])"
    by (simp add: conn_step_def handle_binary_def)
  from acts.event [OF assms(1,2) _ this] show ?thesis
    by (auto simp: event_enabled_def)
qed

text \<open>
  C27. A connection that has not said \<open>Hello\<close>, and so has proved nothing, can send an envelope under
  any fingerprint to any registered peer of any session.
\<close>

theorem unregistered_injects:
  assumes "sw_conns w j = Some c" and "\<not> sc_should_exit c" and "sc_fp c = None"
    and "sig_encode env = Ok raw" and "length (en_session_id env) = 16"
    and "en_kind env \<in> {Offer, Answer, Candidate, EndOfCandidates, Noise, Bye}"
    and "lookup (sw_registry w) (en_session_id env) (en_to_fp env) = Some i"
  shows "\<exists>w'. world_step e w w' \<and> sw_sent w' = sw_sent w @ [(i, env)]"
  using send_acts [OF assms(1,2) disjI1 [OF assms(3)] assms(4-7)] acts_step by blast

text \<open>
  C28. When a peer has connected anew under the same session and fingerprint, the end of its old
  connection takes the new one out of the registry: the new connection lives on, and nothing
  reaches it any more.
\<close>

theorem reconnect_lost:
  assumes "reachable e w" and "sw_conns w i = Some c" and "sc_should_exit c" and "sc_session c = Some s" and "sc_fp c = Some fp"
    and "sw_conns w j = Some d" and "j \<noteq> i" and "sc_session d = Some s" and "sc_fp d = Some fp"
  shows "\<exists>w'. world_step e w w' \<and> sw_conns w' j = Some d \<and> lookup (sw_registry w') s fp = None"
proof -
  obtain reg' sent where cl: "cleanup (\<lambda>_. True) (sw_registry w) c = (reg', sent)" by fastforce
  have "lookup reg' s fp = None"
    using cleanup_ok(2) [OF cl world_invD(1) [OF reachable_inv [OF assms(1)]], of s fp] assms(4,5) by simp
  then show ?thesis using assms(6,7)
    by (intro exI [of _ "w\<lparr>sw_registry := reg', sw_conns := (sw_conns w)(i := None), sw_sent := sw_sent w @ sent\<rparr>"])
      (simp add: world_step.close [OF assms(2,3) cl])
qed

text \<open>
  The relay does not look at payloads: two messages that differ only there, other than
  \<open>Hello\<close>, have the same effect, the same answer and go to the same queue.
\<close>

theorem payload_opaque:
  assumes "sig_decode raw = Ok env" and "sig_decode raw' = Ok (env\<lparr>en_payload := p\<rparr>)" and "en_kind env \<noteq> Hello"
    and "handle_message e accepts i c reg raw = (c1, reg1, sent, r)"
  shows "handle_message e accepts i c reg raw' = (c1, reg1, map (\<lambda>(k, m). (k, m\<lparr>en_payload := p\<rparr>)) sent, r)"
proof -
  have "forward_to_peer accepts reg (env\<lparr>en_payload := p\<rparr>) = forward_to_peer accepts reg env"
    by (simp add: forward_to_peer_def and_then_def ok_or_def split: option.splits)
  moreover have "(case sc_fp c of None \<Rightarrow> False | Some f \<Rightarrow> en_from_fp (env\<lparr>en_payload := p\<rparr>) \<noteq> f)
      = (case sc_fp c of None \<Rightarrow> False | Some f \<Rightarrow> en_from_fp env \<noteq> f)"
    by (simp split: option.splits)
  ultimately show ?thesis using assms
    by (auto simp: handle_message_def split: message_kind.splits sum.splits if_splits)
qed

end
