(* ===== verification/Sig_Client.thy ===== *)
theory Sig_Client
  imports Sig_Relay
begin

text \<open>
  The signalling client (\<open>src/crates/sh-signaling/src/client.rs\<close>) and its reconnect delays
  (\<open>backoff.rs\<close>). The WebSocket library is the record \<open>ws_env\<close>: opening a connection, reading the
  next message and sending a frame. Loops that wait for messages need not end, so they are partial.
\<close>

subsection \<open>Backoff\<close>

record exponential_backoff =
  eb_base_ms :: u64
  eb_max_ms :: u64
  eb_max_attempts :: u32
  eb_current_ms :: u64
  eb_attempts :: u32

definition backoff_new :: "u64 \<Rightarrow> u64 \<Rightarrow> u32 \<Rightarrow> exponential_backoff" where
  "backoff_new base_ms max_ms max_attempts =
     \<lparr>eb_base_ms = base_ms, eb_max_ms = max_ms, eb_max_attempts = max_attempts, eb_current_ms = base_ms, eb_attempts = 0\<rparr>"

definition backoff_default :: exponential_backoff where
  "backoff_default = backoff_new 100 30000 8"

definition next_delay :: "exponential_backoff \<Rightarrow> exponential_backoff \<times> u64 option" where
  "next_delay b =
     (if eb_attempts b \<ge> eb_max_attempts b then (b, None) else
      (b\<lparr>eb_attempts := sat_add (eb_attempts b) 1, eb_current_ms := min (sat_mul (eb_current_ms b) 2) (eb_max_ms b)\<rparr>,
       Some (eb_current_ms b)))"

definition backoff_reset :: "exponential_backoff \<Rightarrow> exponential_backoff" where
  "backoff_reset b = b\<lparr>eb_current_ms := eb_base_ms b, eb_attempts := 0\<rparr>"

text \<open>The trait: a delay or giving up, and the reset after a success.\<close>

record 'b backoff_strategy =
  bs_next_delay :: "'b \<Rightarrow> 'b \<times> u64 option"
  bs_reset :: "'b \<Rightarrow> 'b"

definition exponential :: "exponential_backoff backoff_strategy" where
  "exponential = \<lparr>bs_next_delay = next_delay, bs_reset = backoff_reset\<rparr>"

definition immediate_backoff :: "unit backoff_strategy" where
  "immediate_backoff = \<lparr>bs_next_delay = (\<lambda>b. (b, Some 0)), bs_reset = id\<rparr>"

definition no_reconnect :: "unit backoff_strategy" where
  "no_reconnect = \<lparr>bs_next_delay = (\<lambda>b. (b, None)), bs_reset = id\<rparr>"

subsection \<open>Connecting\<close>

datatype ws_msg = MBinary bytes | MPing bytes | MClose | MOther

record 'w ws_env =
  wc_open :: "'w \<Rightarrow> 'w \<times> (string + unit)"
  wc_next :: "'w \<Rightarrow> 'w \<times> (string + ws_msg) option"
  wc_send :: "'w \<Rightarrow> ws_frame \<Rightarrow> 'w \<times> (string + unit)"

partial_function (option) recv_challenge :: "'w ws_env \<Rightarrow> 'w \<Rightarrow> ('w \<times> (signaling_error + bytes)) option" where
  "recv_challenge e w =
     (case wc_next e w of (w1, m) \<Rightarrow>
        (case m of
           None \<Rightarrow> Some (w1, Err SigNotConnected)
         | Some (Inl er) \<Rightarrow> Some (w1, Err (SigWebSocket er))
         | Some (Inr (MBinary raw)) \<Rightarrow>
             Some (w1, and_then (sig_decode raw) (\<lambda>env.
               if en_kind env \<noteq> Challenge then Err UnexpectedMessageType
               else if length (en_payload env) \<noteq> PEER_AUTH_CHALLENGE_LEN then Err InvalidChallenge else Ok (en_payload env)))
         | Some (Inr (MPing data)) \<Rightarrow>
             (case wc_send e w1 (PongFrame data) of (w2, r) \<Rightarrow>
               (case r of Inl er \<Rightarrow> Some (w2, Err (SigWebSocket er)) | Inr _ \<Rightarrow> recv_challenge e w2))
         | Some (Inr _) \<Rightarrow> Some (w1, Err UnexpectedMessageType)))"

partial_function (option) await_ack :: "'w ws_env \<Rightarrow> 'w \<Rightarrow> ('w \<times> (signaling_error + unit)) option" where
  "await_ack e w =
     (case wc_next e w of (w1, m) \<Rightarrow>
        (case m of
           None \<Rightarrow> Some (w1, Err SigNotConnected)
         | Some (Inl er) \<Rightarrow> Some (w1, Err (SigWebSocket er))
         | Some (Inr (MBinary raw)) \<Rightarrow>
             Some (w1, and_then (sig_decode raw) (\<lambda>env. if en_kind env = Hello then Ok () else Err UnexpectedMessageType))
         | Some (Inr (MPing data)) \<Rightarrow>
             (case wc_send e w1 (PongFrame data) of (w2, r) \<Rightarrow>
               (case r of Inl er \<Rightarrow> Some (w2, Err (SigWebSocket er)) | Inr _ \<Rightarrow> await_ack e w2))
         | Some (Inr _) \<Rightarrow> Some (w1, Err UnexpectedMessageType)))"

definition proof_payload :: "suite \<Rightarrow> keystore option \<Rightarrow> bytes \<Rightarrow> bytes \<Rightarrow> signaling_error + bytes" where
  "proof_payload su ks session_id challenge =
     (case ks of
        None \<Rightarrow> Ok []
      | Some k \<Rightarrow> and_then (map_err SigCrypto (proof_create su k session_id challenge)) (\<lambda>proof. Ok (proof_encode proof)))"

definition hello_envelope :: "bytes \<Rightarrow> string \<Rightarrow> bytes \<Rightarrow> signaling_envelope" where
  "hello_envelope session_id my_fp payload =
     \<lparr>en_kind = Hello, en_session_id = session_id, en_from_fp = my_fp, en_to_fp = zero_fp, en_payload = payload\<rparr>"

definition try_connect :: "suite \<Rightarrow> 'w ws_env \<Rightarrow> bytes \<Rightarrow> string \<Rightarrow> keystore option \<Rightarrow> 'w \<Rightarrow> ('w \<times> (signaling_error + unit)) option" where
  "try_connect su e session_id my_fp ks w =
     (case wc_open e w of
        (w1, Inl er) \<Rightarrow> Some (w1, Err (SigWebSocket er))
      | (w1, Inr _) \<Rightarrow>
        (case recv_challenge e w1 of
           None \<Rightarrow> None
         | Some (w2, Inl er) \<Rightarrow> Some (w2, Err er)
         | Some (w2, Inr challenge) \<Rightarrow>
           (case and_then (proof_payload su ks session_id challenge) (\<lambda>p. sig_encode (hello_envelope session_id my_fp p)) of
              Inl er \<Rightarrow> Some (w2, Err er)
            | Inr encoded \<Rightarrow>
              (case wc_send e w2 (BinaryFrame encoded) of
                 (w3, Inl er) \<Rightarrow> Some (w3, Err (SigWebSocket er))
               | (w3, Inr _) \<Rightarrow> await_ack e w3))))"

text \<open>The delays slept through are returned last.\<close>

partial_function (option) connect_with_retry :: "suite \<Rightarrow> 'w ws_env \<Rightarrow> 'b backoff_strategy \<Rightarrow> bytes \<Rightarrow> string \<Rightarrow> keystore option \<Rightarrow>
    'w \<Rightarrow> 'b \<Rightarrow> u64 list \<Rightarrow> ('w \<times> 'b \<times> (signaling_error + unit) \<times> u64 list) option" where
  "connect_with_retry su e bs session_id my_fp ks w b slept =
     (case try_connect su e session_id my_fp ks w of
        None \<Rightarrow> None
      | Some (w1, r) \<Rightarrow>
        (case r of
           Inr _ \<Rightarrow> Some (w1, b, Ok (), slept)
         | Inl _ \<Rightarrow>
           (case bs_next_delay bs b of (b1, d) \<Rightarrow>
             (case d of
                Some delay \<Rightarrow> connect_with_retry su e bs session_id my_fp ks w1 b1 (if delay = 0 then slept else slept @ [delay])
              | None \<Rightarrow> Some (w1, b1, Err SigNotConnected, slept)))))"

subsection \<open>The client\<close>

record 'b signaling_client =
  cl_session_id :: bytes
  cl_my_fp :: string
  cl_keystore :: "keystore option"
  cl_backoff :: 'b

definition connect_inner :: "suite \<Rightarrow> 'w ws_env \<Rightarrow> 'b backoff_strategy \<Rightarrow> bytes \<Rightarrow> string \<Rightarrow> keystore option \<Rightarrow> 'b \<Rightarrow> 'w \<Rightarrow>
    ('w \<times> (signaling_error + 'b signaling_client)) option" where
  "connect_inner su e bs session_id my_fp ks backoff w =
     (case connect_with_retry su e bs session_id my_fp ks w backoff [] of
        None \<Rightarrow> None
      | Some (w1, b, Inl er, _) \<Rightarrow> Some (w1, Err er)
      | Some (w1, b, Inr _, _) \<Rightarrow>
          Some (w1, Ok \<lparr>cl_session_id = session_id, cl_my_fp = my_fp, cl_keystore = ks, cl_backoff = bs_reset bs b\<rparr>))"

definition connect_authenticated :: "suite \<Rightarrow> 'w ws_env \<Rightarrow> 'b backoff_strategy \<Rightarrow> bytes \<Rightarrow> keystore \<Rightarrow> 'b \<Rightarrow> 'w \<Rightarrow>
    ('w \<times> (signaling_error + 'b signaling_client)) option" where
  "connect_authenticated su e bs session_id ks backoff w =
     (case ks_device_identity ks of
        Inl er \<Rightarrow> Some (w, Err (SigCrypto er))
      | Inr identity \<Rightarrow> connect_inner su e bs session_id (di_fingerprint identity) (Some ks) backoff w)"

definition client_send :: "'w ws_env \<Rightarrow> signaling_envelope \<Rightarrow> 'w \<Rightarrow> 'w \<times> (signaling_error + unit)" where
  "client_send e env w =
     (case sig_encode env of
        Inl er \<Rightarrow> (w, Err er)
      | Inr encoded \<Rightarrow> (case wc_send e w (BinaryFrame encoded) of (w1, r) \<Rightarrow> (w1, map_err SigWebSocket r)))"

partial_function (option) client_recv :: "suite \<Rightarrow> 'w ws_env \<Rightarrow> 'b backoff_strategy \<Rightarrow> 'b signaling_client \<Rightarrow> 'w \<Rightarrow>
    ('w \<times> 'b signaling_client \<times> (signaling_error + signaling_envelope option)) option" where
  "client_recv su e bs cl w =
     (case wc_next e w of (w1, m) \<Rightarrow>
        (case (case m of None \<Rightarrow> None | Some (Inl _) \<Rightarrow> None | Some (Inr x) \<Rightarrow> Some x) of
           None \<Rightarrow>
             (case connect_with_retry su e bs (cl_session_id cl) (cl_my_fp cl) (cl_keystore cl) w1 (cl_backoff cl) [] of
                None \<Rightarrow> None
              | Some (w2, b, r, _) \<Rightarrow>
                (case r of
                   Inl er \<Rightarrow> Some (w2, cl\<lparr>cl_backoff := b\<rparr>, Err er)
                 | Inr _ \<Rightarrow> client_recv su e bs (cl\<lparr>cl_backoff := bs_reset bs b\<rparr>) w2))
         | Some x \<Rightarrow>
           (case x of
              MBinary raw \<Rightarrow>
                Some (w1, cl, and_then (sig_decode raw) (\<lambda>env. if en_kind env = Bye then Ok None else Ok (Some env)))
            | MClose \<Rightarrow> Some (w1, cl, Ok None)
            | MPing data \<Rightarrow> client_recv su e bs cl (fst (wc_send e w1 (PongFrame data)))
            | MOther \<Rightarrow> client_recv su e bs cl w1)))"

subsection \<open>Delays\<close>

lemma next_delay_iter:
  assumes "k \<le> unat n"
  shows "\<exists>cur. ((\<lambda>b. fst (next_delay b)) ^^ k) (backoff_new base mx n) =
      \<lparr>eb_base_ms = base, eb_max_ms = mx, eb_max_attempts = n, eb_current_ms = cur, eb_attempts = of_nat k\<rparr>
    \<and> unat cur = (if k = 0 then unat base else min (unat mx) (unat base * 2 ^ k))"
  using assms
proof (induction k)
  case 0
  then show ?case by (simp add: backoff_new_def)
next
  case (Suc k)
  then obtain cur where c: "((\<lambda>b. fst (next_delay b)) ^^ k) (backoff_new base mx n) =
      \<lparr>eb_base_ms = base, eb_max_ms = mx, eb_max_attempts = n, eb_current_ms = cur, eb_attempts = of_nat k\<rparr>"
    "unat cur = (if k = 0 then unat base else min (unat mx) (unat base * 2 ^ k))" by auto
  have lt: "unat n < 2 ^ 32" using unsigned_less [of n, where 'a = nat] by simp
  have u: "j \<le> unat n \<Longrightarrow> unat (of_nat j :: u32) = j" for j using lt by (simp add: unat_of_nat take_bit_nat_eq_self del: of_nat_Suc)
  have "unat (sat_add (of_nat k) (1 :: u32)) = Suc k" using u [of k] Suc.prems lt by (simp add: unat_sat_add)
  then have a: "sat_add (of_nat k) 1 = (of_nat (Suc k) :: u32)" "\<not> n \<le> of_nat k"
    using Suc.prems u [of k] u [of "Suc k"] by (auto simp only: word_unat_eq_iff word_le_nat_alt)
  have m: "unat (min x y) = min (unat x) (unat y)" for x y :: u64 by (simp add: min_def word_le_nat_alt)
  have "unat mx < 2 ^ 64" using unsigned_less [of mx, where 'a = nat] by simp
  then have "unat (min (sat_mul cur 2) mx) = min (unat mx) (unat cur * 2)" by (simp add: m unat_sat_mul)
  also have "\<dots> = min (unat mx) (unat base * 2 ^ Suc k)" using c(2) by (auto simp: min_def)
  finally show ?case using c(1) a by (simp add: next_delay_def)
qed

text \<open>
  The reconnect delays double from the base and are capped, from the second one on, by the
  maximum; after the configured number of attempts the strategy gives up, and stays that way.
\<close>

theorem backoff_schedule:
  "snd (next_delay (((\<lambda>b. fst (next_delay b)) ^^ k) (backoff_new base mx n))) =
    (if k < unat n then Some (of_nat (if k = 0 then unat base else min (unat mx) (unat base * 2 ^ k))) else None)"
proof (cases "k < unat n")
  case True
  then obtain cur where c: "((\<lambda>b. fst (next_delay b)) ^^ k) (backoff_new base mx n) =
      \<lparr>eb_base_ms = base, eb_max_ms = mx, eb_max_attempts = n, eb_current_ms = cur, eb_attempts = of_nat k\<rparr>"
    "unat cur = (if k = 0 then unat base else min (unat mx) (unat base * 2 ^ k))"
    using next_delay_iter [of k n base mx] by auto
  have "unat n < 2 ^ 32" using unsigned_less [of n, where 'a = nat] by simp
  then have "\<not> n \<le> of_nat k" using True by (simp add: word_le_nat_alt unat_of_nat)
  moreover have "cur = of_nat (unat cur)" by simp
  ultimately show ?thesis using c True by (simp add: next_delay_def)
next
  case False
  define b where "b = ((\<lambda>b. fst (next_delay b)) ^^ unat n) (backoff_new base mx n)"
  have b: "eb_max_attempts b = n" "eb_attempts b = n" using next_delay_iter [of "unat n" n base mx] by (auto simp: b_def)
  have s: "next_delay b = (b, None)" using b by (simp add: next_delay_def)
  then have "((\<lambda>b. fst (next_delay b)) ^^ j) b = b" for j by (induction j) simp_all
  moreover have "((\<lambda>b. fst (next_delay b)) ^^ k) (backoff_new base mx n) = ((\<lambda>b. fst (next_delay b)) ^^ (k - unat n)) b"
    unfolding b_def comp_apply [of "_ ^^ (k - unat n)", symmetric] funpow_add [symmetric] using False by simp
  ultimately show ?thesis using s False by simp
qed

subsection \<open>Retrying ends\<close>

text \<open>The world after the first \<open>k\<close> connection attempts, when each of them has failed.\<close>

primrec after_fails :: "suite \<Rightarrow> 'w ws_env \<Rightarrow> bytes \<Rightarrow> string \<Rightarrow> keystore option \<Rightarrow> nat \<Rightarrow> 'w \<Rightarrow> 'w option" where
  "after_fails su e sid fp ks 0 w = Some w"
| "after_fails su e sid fp ks (Suc k) w =
     (case after_fails su e sid fp ks k w of
        None \<Rightarrow> None
      | Some v \<Rightarrow> (case try_connect su e sid fp ks v of Some (v', Inl _) \<Rightarrow> Some v' | _ \<Rightarrow> None))"

abbreviation delayed :: "nat \<Rightarrow> exponential_backoff \<Rightarrow> exponential_backoff" where
  "delayed k b \<equiv> ((\<lambda>b. fst (next_delay b)) ^^ k) b"

text \<open>The first \<open>k\<close> delays a strategy gives; a delay of zero is not slept through.\<close>

definition slept_delays :: "nat \<Rightarrow> exponential_backoff \<Rightarrow> u64 list" where
  "slept_delays k b = filter (\<lambda>d. d \<noteq> 0) (map (\<lambda>i. eb_current_ms (delayed i b)) [0..<k])"

definition retries_left :: "exponential_backoff \<Rightarrow> nat" where
  "retries_left b = unat (eb_max_attempts b) - unat (eb_attempts b)"

lemma retries_left_delayed: "retries_left (fst (next_delay b)) = retries_left b - 1"
proof (cases "eb_attempts b \<ge> eb_max_attempts b")
  case False
  then have "unat (eb_attempts b) + 1 < 2 ^ 32"
    using unsigned_less [of "eb_max_attempts b", where 'a = nat] by (simp add: word_le_nat_alt)
  then have "unat (eb_attempts (fst (next_delay b))) = unat (eb_attempts b) + 1" "eb_max_attempts (fst (next_delay b)) = eb_max_attempts b"
    using False by (simp_all add: next_delay_def unat_sat_add)
  then show ?thesis by (simp add: retries_left_def)
qed (simp add: retries_left_def next_delay_def word_le_nat_alt)

lemma retries_left_iter: "retries_left (delayed k b) = retries_left b - k"
  by (induction k) (simp_all add: retries_left_delayed)

lemma retries_left_zero: "retries_left b = 0 \<longleftrightarrow> eb_attempts b \<ge> eb_max_attempts b"
  by (simp add: retries_left_def word_le_nat_alt)

lemma retry_after_fails:
  assumes "after_fails su e sid fp ks k w = Some v" and "k \<le> retries_left b"
  shows "connect_with_retry su e exponential sid fp ks w b slept =
    connect_with_retry su e exponential sid fp ks v (delayed k b) (slept @ slept_delays k b)"
  using assms
proof (induction k arbitrary: v)
  case (Suc k)
  then obtain u er where u: "after_fails su e sid fp ks k w = Some u" "try_connect su e sid fp ks u = Some (v, Inl er)"
    by (auto split: option.splits prod.splits sum.splits)
  have "retries_left (delayed k b) \<noteq> 0" using Suc.prems(2) by (simp add: retries_left_iter)
  then have "next_delay (delayed k b) = (fst (next_delay (delayed k b)), Some (eb_current_ms (delayed k b)))"
    by (simp add: retries_left_zero next_delay_def)
  then have n: "bs_next_delay exponential (delayed k b) = (delayed (Suc k) b, Some (eb_current_ms (delayed k b)))"
    by (simp add: exponential_def)
  have "connect_with_retry su e exponential sid fp ks w b slept =
      connect_with_retry su e exponential sid fp ks u (delayed k b) (slept @ slept_delays k b)"
    using Suc u(1) by simp
  also have "\<dots> = connect_with_retry su e exponential sid fp ks v (delayed (Suc k) b) (slept @ slept_delays (Suc k) b)"
    by (subst connect_with_retry.simps) (simp add: u(2) n slept_delays_def)
  finally show ?case .
qed (simp add: slept_delays_def)

lemma attempts_exhaustive:
  "(\<exists>k\<le>n. \<exists>v. after_fails su e sid fp ks k w = Some v \<and> try_connect su e sid fp ks v = None)
   \<or> (\<exists>k\<le>n. \<exists>v w'. after_fails su e sid fp ks k w = Some v \<and> try_connect su e sid fp ks v = Some (w', Ok ()))
   \<or> (\<exists>v. after_fails su e sid fp ks (Suc n) w = Some v)"
proof (induction n)
  case 0
  show ?case by (auto split: option.splits sum.splits prod.splits)
next
  case (Suc n)
  have "?case" if f: "after_fails su e sid fp ks (Suc n) w = Some v" for v
  proof (cases "try_connect su e sid fp ks v")
    case None
    then show ?thesis using f by blast
  next
    case (Some p)
    then show ?thesis using f by (cases p; cases "snd p") (auto simp del: after_fails.simps simp: after_fails.simps(2) [of _ _ _ _ _ "Suc n"])
  qed
  then show ?case using Suc by (meson le_Suc_eq)
qed

lemma retry_hangs:
  "after_fails su e sid fp ks k w = Some v \<Longrightarrow> k \<le> retries_left b \<Longrightarrow> try_connect su e sid fp ks v = None \<Longrightarrow>
     connect_with_retry su e exponential sid fp ks w b slept = None"
  unfolding retry_after_fails by (subst connect_with_retry.simps) simp

lemma retry_connects:
  "after_fails su e sid fp ks k w = Some v \<Longrightarrow> k \<le> retries_left b \<Longrightarrow> try_connect su e sid fp ks v = Some (w', Ok ()) \<Longrightarrow>
     connect_with_retry su e exponential sid fp ks w b slept = Some (w', delayed k b, Ok (), slept @ slept_delays k b)"
  unfolding retry_after_fails by (subst connect_with_retry.simps) simp

lemma retry_gives_up:
  assumes "after_fails su e sid fp ks (Suc (retries_left b)) w = Some w'"
  shows "connect_with_retry su e exponential sid fp ks w b slept =
    Some (w', delayed (retries_left b) b, Err SigNotConnected, slept @ slept_delays (retries_left b) b)"
proof -
  obtain v er where v: "after_fails su e sid fp ks (retries_left b) w = Some v" "try_connect su e sid fp ks v = Some (w', Inl er)"
    using assms by (auto split: option.splits prod.splits sum.splits)
  have "next_delay (delayed (retries_left b) b) = (delayed (retries_left b) b, None)"
    using retries_left_iter [of "retries_left b" b] by (simp add: retries_left_zero next_delay_def)
  then show ?thesis unfolding retry_after_fails [OF v(1) order_refl]
    by (subst connect_with_retry.simps) (simp add: v(2) exponential_def)
qed

lemma retry_cases:
  obtains (hangs) k v where "k \<le> retries_left b" "after_fails su e sid fp ks k w = Some v" "try_connect su e sid fp ks v = None"
      "connect_with_retry su e exponential sid fp ks w b slept = None"
  | (connects) k v w' where "k \<le> retries_left b" "after_fails su e sid fp ks k w = Some v" "try_connect su e sid fp ks v = Some (w', Ok ())"
      "connect_with_retry su e exponential sid fp ks w b slept = Some (w', delayed k b, Ok (), slept @ slept_delays k b)"
  | (gives_up) w' where "after_fails su e sid fp ks (Suc (retries_left b)) w = Some w'"
      "connect_with_retry su e exponential sid fp ks w b slept =
        Some (w', delayed (retries_left b) b, Err SigNotConnected, slept @ slept_delays (retries_left b) b)"
  using attempts_exhaustive [of "retries_left b" su e sid fp ks w] retry_hangs retry_connects retry_gives_up
  by (elim disjE exE conjE) (rule hangs connects gives_up; assumption?; rule retry_hangs retry_connects retry_gives_up; assumption)+

text \<open>
  C26. Connecting with exponential backoff makes at most one attempt more than the retries that are
  left. It returns the connection of the first attempt that succeeds, having slept through the delays
  of the failed ones, or \<open>NotConnected\<close> when all of them have failed. It fails to return only
  when one of these attempts does not return, which can happen because an attempt waits for
  the challenge and for the acknowledgement without a timeout.
\<close>

theorem retry_terminates:
  "case connect_with_retry su e exponential sid fp ks w b slept of
     None \<Rightarrow> \<exists>k v. k \<le> retries_left b \<and> after_fails su e sid fp ks k w = Some v \<and> try_connect su e sid fp ks v = None
   | Some (w', b', Inr _, slept') \<Rightarrow>
       \<exists>k v. k \<le> retries_left b \<and> after_fails su e sid fp ks k w = Some v \<and> try_connect su e sid fp ks v = Some (w', Ok ())
         \<and> b' = delayed k b \<and> slept' = slept @ slept_delays k b
   | Some (w', b', Inl er, slept') \<Rightarrow>
       after_fails su e sid fp ks (Suc (retries_left b)) w = Some w' \<and> er = SigNotConnected
         \<and> b' = delayed (retries_left b) b \<and> slept' = slept @ slept_delays (retries_left b) b"
proof (rule retry_cases [of b su e sid fp ks w slept])
  fix k v assume "k \<le> retries_left b" "after_fails su e sid fp ks k w = Some v" "try_connect su e sid fp ks v = None"
    and c: "connect_with_retry su e exponential sid fp ks w b slept = None"
  then show ?thesis unfolding c option.case by blast
next
  fix k v w' assume "k \<le> retries_left b" "after_fails su e sid fp ks k w = Some v" "try_connect su e sid fp ks v = Some (w', Ok ())"
    and c: "connect_with_retry su e exponential sid fp ks w b slept = Some (w', delayed k b, Ok (), slept @ slept_delays k b)"
  then show ?thesis unfolding c option.case prod.case sum.case by blast
next
  fix w' assume a: "after_fails su e sid fp ks (Suc (retries_left b)) w = Some w'"
    and c: "connect_with_retry su e exponential sid fp ks w b slept =
      Some (w', delayed (retries_left b) b, Err SigNotConnected, slept @ slept_delays (retries_left b) b)"
  show ?thesis unfolding c option.case prod.case sum.case using a by blast
qed

subsection \<open>Client against relay\<close>

text \<open>
  The client's WebSocket with the relay at the other end: opening it makes the relay accept
  connection \<open>i\<close> and send its challenge, and every frame the client sends is one event of that
  connection, whose frames the client reads in order.
\<close>

type_synonym relay_link = "sig_conn \<times> registry \<times> ws_frame list"

fun ws_msg_of :: "ws_frame \<Rightarrow> ws_msg" where
  "ws_msg_of (BinaryFrame b) = MBinary b"
| "ws_msg_of (PongFrame b) = MOther"

fun ws_event_of :: "ws_frame \<Rightarrow> ws_event" where
  "ws_event_of (BinaryFrame b) = WsBinary b"
| "ws_event_of (PongFrame b) = WsOther"

definition open_challenge :: "bytes \<Rightarrow> ws_frame list" where
  "open_challenge challenge = (case sig_encode (make_challenge_envelope challenge) of Inl _ \<Rightarrow> [] | Inr b \<Rightarrow> [BinaryFrame b])"

definition relay_ws :: "sig_env \<Rightarrow> nat \<Rightarrow> bytes \<Rightarrow> relay_link ws_env" where
  "relay_ws e i challenge =
     \<lparr>wc_open = (\<lambda>(c, reg, q). ((conn_new challenge, reg, open_challenge challenge), Ok ())),
      wc_next = (\<lambda>(c, reg, q). case q of [] \<Rightarrow> ((c, reg, q), None) | f # q' \<Rightarrow> ((c, reg, q'), Some (Ok (ws_msg_of f)))),
      wc_send = (\<lambda>(c, reg, q) f. case conn_step e (\<lambda>_. True) True i c reg (Inbound (ws_event_of f)) of
         (c', reg', _, fs) \<Rightarrow> ((c', reg', q @ fs), Ok ()))\<rparr>"

lemma hex_digit_char: "n < 16 \<Longrightarrow> is_hex_char (hex_digit n)"
proof -
  have "\<forall>k < 16. is_hex_char (hex_digit k)" by code_simp
  then show "n < 16 \<Longrightarrow> is_hex_char (hex_digit n)" by blast
qed

lemma hex_byte_chars: "list_all is_hex_char (hex_byte b)" "length (hex_byte b) = 2"
proof -
  have "unat b < 256" using unsigned_less [of b, where 'a = nat] by simp
  then show "list_all is_hex_char (hex_byte b)" by (auto simp: hex_byte_def intro!: hex_digit_char)
qed (simp add: hex_byte_def)

lemma hex_bytes_chars: "list_all is_hex_char (hex_bytes bs) \<and> length (hex_bytes bs) = 2 * length bs"
  by (induction bs) (simp_all add: hex_bytes_def hex_byte_chars)

lemma own_fp_valid: "sha_total su \<Longrightarrow> validate_fp (fingerprint_of_key su k) = Ok ()"
  using hex_bytes_chars [of "s_sha su k"] by (simp add: validate_fp_iff fingerprint_of_key_def sha_total_def)

lemma zero_fp_valid: "validate_fp zero_fp = Ok ()"
  by (simp add: validate_fp_iff zero_fp_def is_hex_char_def list_all_iff)

lemma own_proof_payload:
  assumes "sign_correct su" and "length sid = 16" and "length ch = 32"
  shows "\<exists>p. proof_payload su (Some (from_signing_key su sk)) sid ch = Ok p \<and> length p = 128
    \<and> identity_proof_authenticate su \<lparr>ac_claimed_fp = fingerprint_of_key su (s_public su sk), ac_session_id = sid, ac_challenge = ch, ac_proof = p\<rparr> = Ok ()"
proof -
  let ?pk = "s_public su sk"
  let ?p = "\<lparr>ip_device_pubkey = ?pk, ip_challenge = ch, ip_signature = s_sign su sk (auth_build_tbs sid ?pk ch)\<rparr>"
  have wf: "wf_proof ?p" using assms by (simp add: wf_proof_def sign_correct_def)
  have "proof_create su (from_signing_key su sk) sid ch = Inr ?p"
    by (simp add: proof_create_def ks_device_identity_def ks_sign_def from_signing_key_def from_verifying_key_def Let_def)
  moreover have "proof_verify su ?p (fingerprint_of_key su ?pk) sid ch = Ok ()"
    using assms(1) by (simp add: proof_verify_def from_public_key_bytes_def from_verifying_key_def signature_verify_def Let_def sign_correct_def)
  moreover have "proof_decode (proof_encode ?p) = Ok ?p" using wf by (simp add: proof_decode_iff)
  moreover have "length (proof_encode ?p) = 128" using wf by (simp add: proof_encode_eq) (simp add: wf_proof_def)
  ultimately show ?thesis
    by (intro exI [of _ "proof_encode ?p"]) (simp add: proof_payload_def identity_proof_authenticate_def)
qed

lemma encode_ok:
  assumes "length (en_payload env) \<le> 65536" and "validate_fp (en_from_fp env) = Ok ()" and "validate_fp (en_to_fp env) = Ok ()"
    and "length (en_session_id env) = 16"
  shows "\<exists>raw. sig_encode env = Ok raw \<and> sig_decode raw = Ok env"
  using assms decode_encode [of env] by (auto simp: sig_encode_iff)

lemma hello_accepted:
  assumes auth: "se_auth e \<lparr>ac_claimed_fp = fp, ac_session_id = sid, ac_challenge = sc_challenge c, ac_proof = p\<rparr> = Ok ()"
    and reg: "register_peer reg sid fp i = Ok reg'" and c: "sc_fp c = None"
    and raw: "sig_decode raw = Ok (hello_envelope sid fp p)"
    and ack: "sig_encode \<lparr>en_kind = Hello, en_session_id = sid, en_from_fp = fp, en_to_fp = fp, en_payload = []\<rparr> = Ok out"
  shows "conn_step e accepts True i c reg (Inbound (WsBinary raw)) =
    (c\<lparr>sc_fp := Some fp, sc_session := Some sid, sc_hello_received := True\<rparr>, reg', [], [BinaryFrame out])"
  using assms by (simp add: conn_step_def handle_binary_def handle_message_def handle_hello_def hello_envelope_def send_env_def)

text \<open>
  C24. A client with a signing key that connects to a relay with room in its session completes the
  handshake: it receives the challenge, its proof is accepted, it reads the acknowledgement, and
  it is registered under its own fingerprint.
\<close>

theorem client_registers:
  assumes "sign_correct su" and "sha_total su" and "length sid = 16" and "length ch = 32" and "registry_ok reg"
    and room: "map_of reg sid = None \<and> length reg < 10000 \<or> (\<exists>peers. map_of reg sid = Some peers \<and> length peers < 2)"
    and "fp = fingerprint_of_key su (s_public su sk)"
  shows "\<exists>c' reg'. try_connect su (relay_ws \<lparr>se_auth = identity_proof_authenticate su, se_show_crypto = sc\<rparr> i ch) sid fp
      (Some (from_signing_key su sk)) (c0, reg, q) = Some ((c', reg', []), Ok ())
    \<and> registry_ok reg' \<and> lookup reg' sid fp = Some i \<and> sc_fp c' = Some fp \<and> sc_session c' = Some sid"
proof -
  let ?e = "\<lparr>se_auth = identity_proof_authenticate su, se_show_crypto = sc\<rparr>"
  let ?ws = "relay_ws ?e i ch"
  have fp: "validate_fp fp = Ok ()" using assms(2,7) by (simp add: own_fp_valid)
  obtain p where p: "proof_payload su (Some (from_signing_key su sk)) sid ch = Ok p" "length p = 128"
      "se_auth ?e \<lparr>ac_claimed_fp = fp, ac_session_id = sid, ac_challenge = sc_challenge (conn_new ch), ac_proof = p\<rparr> = Ok ()"
    using own_proof_payload [OF assms(1,3,4), of sk] assms(7) by (auto simp: conn_new_def)
  obtain reg' where reg': "register_peer reg sid fp i = Ok reg'"
    using room by (auto simp: register_peer_def MAX_SESSIONS_def MAX_PEERS_PER_SESSION_def Let_def simp del: map_of_eq_Some_iff)
  obtain cb where cb: "sig_encode (make_challenge_envelope ch) = Ok cb" "sig_decode cb = Ok (make_challenge_envelope ch)"
    using encode_ok [of "make_challenge_envelope ch"] assms(4) by (auto simp: make_challenge_envelope_def zero_fp_valid)
  obtain raw where raw: "sig_encode (hello_envelope sid fp p) = Ok raw" "sig_decode raw = Ok (hello_envelope sid fp p)"
    using encode_ok [of "hello_envelope sid fp p"] assms(3) p(2) fp by (auto simp: hello_envelope_def zero_fp_valid)
  define a where "a = \<lparr>en_kind = Hello, en_session_id = sid, en_from_fp = fp, en_to_fp = fp, en_payload = []\<rparr>"
  obtain ab where ab: "sig_encode a = Ok ab" "sig_decode ab = Ok a"
    using encode_ok [of a] assms(3) fp by (auto simp: a_def)
  let ?c' = "(conn_new ch)\<lparr>sc_fp := Some fp, sc_session := Some sid, sc_hello_received := True\<rparr>"
  have r1: "recv_challenge ?ws (conn_new ch, reg, [BinaryFrame cb]) = Some ((conn_new ch, reg, []), Ok ch)"
    using assms(4) by (subst recv_challenge.simps) (simp add: relay_ws_def cb make_challenge_envelope_def PEER_AUTH_CHALLENGE_LEN_def)
  have r2: "wc_send ?ws (conn_new ch, reg, []) (BinaryFrame raw) = ((?c', reg', [BinaryFrame ab]), Ok ())"
    using hello_accepted [OF p(3) reg' _ raw(2) ab(1) [unfolded a_def]] by (simp add: relay_ws_def conn_new_def)
  have r3: "await_ack ?ws (?c', reg', [BinaryFrame ab]) = Some ((?c', reg', []), Ok ())"
    by (subst await_ack.simps) (simp add: relay_ws_def ab(2), simp add: a_def)
  have o: "wc_open ?ws (c0, reg, q) = ((conn_new ch, reg, [BinaryFrame cb]), Ok ())"
    by (simp add: relay_ws_def open_challenge_def cb)
  have "try_connect su ?ws sid fp (Some (from_signing_key su sk)) (c0, reg, q) = Some ((?c', reg', []), Ok ())"
    by (simp add: try_connect_def o r1 p(1) raw(1) r2 r3)
  then show ?thesis using register_peer_ok [OF reg' assms(5)] by (intro exI [of _ ?c'] exI [of _ reg']) simp
qed

subsection \<open>Instances\<close>

definition demo_relay :: sig_env where
  "demo_relay = \<lparr>se_auth = identity_proof_authenticate plain_suite, se_show_crypto = (\<lambda>_. [])\<rparr>"

abbreviation demo_sid :: bytes where "demo_sid \<equiv> replicate 16 3"
abbreviation demo_fp :: string where "demo_fp \<equiv> fingerprint_of_key plain_suite (s_public plain_suite [8])"

text \<open>A fresh connection of a reachable relay can be registered under the fingerprint of a key.\<close>

lemma hello_step:
  assumes "reachable demo_relay w" and "sw_conns w i = Some (conn_new ch)" and "length ch = 32"
    and "register_peer (sw_registry w) demo_sid demo_fp i = Ok reg'"
  shows "\<exists>w' c'. reachable demo_relay w' \<and> sw_registry w' = reg' \<and> sw_next w' = sw_next w
    \<and> sw_conns w' = (sw_conns w)(i \<mapsto> c') \<and> sc_fp c' = Some demo_fp \<and> sc_session c' = Some demo_sid \<and> \<not> sc_should_exit c'"
proof -
  obtain p where p: "length p = 128"
      "se_auth demo_relay \<lparr>ac_claimed_fp = demo_fp, ac_session_id = demo_sid, ac_challenge = sc_challenge (conn_new ch), ac_proof = p\<rparr> = Ok ()"
    using own_proof_payload [OF plain_suite_correct, of demo_sid ch "[8]"] assms(3) by (auto simp: demo_relay_def conn_new_def)
  have fp: "validate_fp demo_fp = Ok ()" by (rule own_fp_valid [OF plain_suite_total])
  obtain raw where raw: "sig_decode raw = Ok (hello_envelope demo_sid demo_fp p)"
    using encode_ok [of "hello_envelope demo_sid demo_fp p"] p(1) fp by (auto simp: hello_envelope_def zero_fp_valid)
  obtain out where out: "sig_encode \<lparr>en_kind = Hello, en_session_id = demo_sid, en_from_fp = demo_fp, en_to_fp = demo_fp, en_payload = []\<rparr> = Ok out"
    using encode_ok [of "\<lparr>en_kind = Hello, en_session_id = demo_sid, en_from_fp = demo_fp, en_to_fp = demo_fp, en_payload = []\<rparr>"] fp by auto
  have x: "\<not> sc_should_exit (conn_new ch)" "event_enabled w i (conn_new ch) (Inbound (WsBinary raw))" "sc_fp (conn_new ch) = None"
    by (simp_all add: conn_new_def event_enabled_def)
  note world_step.event [OF assms(2) x(1,2) hello_accepted [OF p(2) assms(4) x(3) raw out]]
  then show ?thesis using reachable.step [OF assms(1)] by (intro exI conjI) (assumption | simp add: conn_new_def)+
qed

abbreviation demo_challenge :: bytes where "demo_challenge \<equiv> replicate 32 4"

lemma demo_accept:
  assumes "reachable demo_relay w" and "card (dom (sw_conns w)) < 20000"
  shows "reachable demo_relay (w\<lparr>sw_conns := (sw_conns w)(sw_next w \<mapsto> conn_new demo_challenge), sw_next := Suc (sw_next w)\<rparr>)"
  by (rule reachable.step [OF assms(1)], rule world_step.accept) (simp_all add: assms(2) MAX_CONNECTIONS_def PEER_AUTH_CHALLENGE_LEN_def)

text \<open>Two connections, the first one registered.\<close>

lemma demo_world:
  "\<exists>w c. reachable demo_relay w \<and> sw_registry w = [(demo_sid, [(demo_fp, 0)])] \<and> sw_conns w = [0 \<mapsto> c, 1 \<mapsto> conn_new demo_challenge]
     \<and> sc_fp c = Some demo_fp \<and> sc_session c = Some demo_sid \<and> \<not> sc_should_exit c"
proof -
  let ?w1 = "world_init\<lparr>sw_conns := [0 \<mapsto> conn_new demo_challenge], sw_next := 1\<rparr>"
  let ?w2 = "?w1\<lparr>sw_conns := [0 \<mapsto> conn_new demo_challenge, 1 \<mapsto> conn_new demo_challenge], sw_next := 2\<rparr>"
  have "reachable demo_relay ?w1" using demo_accept [OF reachable.init] by (simp add: world_init_def)
  then have w2: "reachable demo_relay ?w2" using demo_accept [of ?w1] by (simp add: world_init_def numeral_2_eq_2)
  have r: "register_peer (sw_registry ?w2) demo_sid demo_fp 0 = Ok [(demo_sid, [(demo_fp, 0)])]"
    by (simp add: world_init_def register_peer_def MAX_SESSIONS_def MAX_PEERS_PER_SESSION_def)
  have c: "sw_conns ?w2 0 = Some (conn_new demo_challenge)" by (simp add: world_init_def)
  obtain w c where w: "reachable demo_relay w" "sw_registry w = [(demo_sid, [(demo_fp, 0)])]" "sw_conns w = (sw_conns ?w2)(0 \<mapsto> c)"
    "sc_fp c = Some demo_fp" "sc_session c = Some demo_sid" "\<not> sc_should_exit c"
    using hello_step [OF w2 c _ r] by auto
  have "sw_conns w = [0 \<mapsto> c, 1 \<mapsto> conn_new demo_challenge]" unfolding w(3) by (simp add: fun_upd_twist)
  with w show ?thesis by blast
qed

lemma demo_lookup: "lookup [(demo_sid, [(demo_fp, 0)])] demo_sid demo_fp = Some 0"
  by (simp add: lookup_def)

text \<open>The same peer twice, the first connection at its end.\<close>

lemma demo_reconnected:
  "\<exists>w c d. reachable demo_relay w \<and> sw_conns w 0 = Some c \<and> sc_should_exit c \<and> sc_session c = Some demo_sid \<and> sc_fp c = Some demo_fp
     \<and> sw_conns w 1 = Some d \<and> sc_session d = Some demo_sid \<and> sc_fp d = Some demo_fp"
proof -
  obtain w c where w: "reachable demo_relay w" "sw_registry w = [(demo_sid, [(demo_fp, 0)])]" "sw_conns w = [0 \<mapsto> c, 1 \<mapsto> conn_new demo_challenge]"
     "sc_fp c = Some demo_fp" "sc_session c = Some demo_sid" "\<not> sc_should_exit c" using demo_world by blast
  have r: "register_peer (sw_registry w) demo_sid demo_fp 1 = Ok [(demo_sid, [(demo_fp, 1)])]"
    by (simp add: w(2) register_peer_def MAX_SESSIONS_def MAX_PEERS_PER_SESSION_def)
  have c1: "sw_conns w 1 = Some (conn_new demo_challenge)" by (simp add: w(3))
  obtain w' d where w': "reachable demo_relay w'" "sw_conns w' = (sw_conns w)(1 \<mapsto> d)" "sc_fp d = Some demo_fp" "sc_session d = Some demo_sid"
    using hello_step [OF w(1) c1 _ r] by auto
  have c0: "sw_conns w' 0 = Some c" by (simp add: w'(2) w(3))
  have "conn_step demo_relay (\<lambda>_. True) True 0 c (sw_registry w') (Inbound WsEnd) = (c\<lparr>sc_should_exit := True\<rparr>, sw_registry w', [], [])"
    by (simp add: conn_step_def)
  then obtain v where v: "reachable demo_relay v" "sw_conns v = (sw_conns w')(0 \<mapsto> c\<lparr>sc_should_exit := True\<rparr>)"
    using reachable.step [OF w'(1) world_step.event [OF c0 w(6)]] by (force simp: event_enabled_def)
  then show ?thesis using w' w(4,5) by (intro exI [of _ v]) simp
qed

theorem relay_invariant_witness:
  "\<exists>w. reachable demo_relay w \<and> lookup (sw_registry w) demo_sid demo_fp = Some 0 \<and> length (sw_registry w) \<le> 10000
     \<and> (\<exists>c. sw_conns w 0 = Some c \<and> sc_session c = Some demo_sid \<and> sc_fp c = Some demo_fp)"
proof -
  obtain w where "reachable demo_relay w" "lookup (sw_registry w) demo_sid demo_fp = Some 0" using demo_world demo_lookup by metis
  then show ?thesis using relay_invariant [of demo_relay w] by blast
qed

theorem relay_authenticated_witness:
  "\<exists>w c pk sig. reachable demo_relay w \<and> sw_conns w 0 = Some c \<and> demo_fp = hex_bytes (s_sha plain_suite pk)
     \<and> s_verify plain_suite pk (AUTH_DOMAIN_TAG @ AUTH_TBS_VERSION # demo_sid @ pk @ sc_challenge c) sig"
proof -
  obtain w where w: "reachable demo_relay w" "lookup (sw_registry w) demo_sid demo_fp = Some 0" using demo_world demo_lookup by metis
  show ?thesis using relay_authenticated [OF w(1) [unfolded demo_relay_def] w(2)] w(1) by blast
qed

text \<open>An offer under a fingerprint of another peer, sent by the connection that has proved nothing.\<close>

definition forged_offer :: signaling_envelope where
  "forged_offer = \<lparr>en_kind = Offer, en_session_id = demo_sid, en_from_fp = zero_fp, en_to_fp = demo_fp, en_payload = [1, 2, 3]\<rparr>"

lemma forged_encodes: "\<exists>raw. sig_encode forged_offer = Ok raw \<and> sig_decode raw = Ok forged_offer"
  by (rule encode_ok) (simp_all add: forged_offer_def zero_fp_valid own_fp_valid [OF plain_suite_total])

lemma demo_forger:
  "\<exists>w raw. reachable demo_relay w \<and> sig_encode forged_offer = Ok raw \<and> sw_conns w 1 = Some (conn_new demo_challenge)
     \<and> lookup (sw_registry w) (en_session_id forged_offer) (en_to_fp forged_offer) = Some 0"
proof -
  obtain w c where "reachable demo_relay w" "sw_registry w = [(demo_sid, [(demo_fp, 0)])]"
    "sw_conns w = [0 \<mapsto> c, 1 \<mapsto> conn_new demo_challenge]" using demo_world by blast
  then show ?thesis using forged_encodes demo_lookup by (auto simp: forged_offer_def)
qed

theorem unregistered_injects_witness:
  "\<exists>w w'. reachable demo_relay w \<and> world_step demo_relay w w' \<and> sw_sent w' = sw_sent w @ [(0, forged_offer)]"
proof -
  obtain w raw where w: "reachable demo_relay w" "sig_encode forged_offer = Ok raw" "sw_conns w 1 = Some (conn_new demo_challenge)"
     "lookup (sw_registry w) (en_session_id forged_offer) (en_to_fp forged_offer) = Some 0" using demo_forger by blast
  show ?thesis using unregistered_injects [OF w(3) _ _ w(2) _ _ w(4), of demo_relay] w(1)
    by (auto simp: conn_new_def forged_offer_def)
qed

lemma demo_fp_not_zero: "demo_fp \<noteq> zero_fp"
  by code_simp

text \<open>An offer of the registered peer under its own fingerprint is delivered; the forged one never by a step of this peer.\<close>

theorem routing_confined_witness:
  "\<exists>w w' c. reachable demo_relay w \<and> sc_fp c = Some demo_fp \<and> acts demo_relay 0 c w w'
     \<and> sw_sent w' = sw_sent w @ [(0, forged_offer\<lparr>en_from_fp := demo_fp\<rparr>)]
     \<and> addressed (sw_registry w) 0 (forged_offer\<lparr>en_from_fp := demo_fp\<rparr>)
     \<and> (\<forall>w''. acts demo_relay 0 c w w'' \<longrightarrow> (0, forged_offer) \<notin> set (drop (length (sw_sent w)) (sw_sent w'')))"
proof -
  let ?o = "forged_offer\<lparr>en_from_fp := demo_fp\<rparr>"
  obtain w c where w: "reachable demo_relay w" "sw_registry w = [(demo_sid, [(demo_fp, 0)])]"
    "sw_conns w 0 = Some c" "sc_fp c = Some demo_fp" "\<not> sc_should_exit c" using demo_world by auto
  obtain raw where raw: "sig_encode ?o = Ok raw"
    using encode_ok [of ?o] by (auto simp: forged_offer_def own_fp_valid [OF plain_suite_total])
  obtain w' where w': "acts demo_relay 0 c w w'" "sw_sent w' = sw_sent w @ [(0, ?o)]"
    using send_acts [OF w(3,5) _ raw, of 0 demo_relay] w(2,4) by (auto simp: forged_offer_def lookup_def)
  have "addressed (sw_registry w) 0 ?o" using routing_confined [OF acts_step [OF w'(1)], of 0 ?o] w'(2) by simp
  moreover have "(0, forged_offer) \<notin> set (drop (length (sw_sent w)) (sw_sent w''))" if "acts demo_relay 0 c w w''" for w''
  proof
    assume "(0, forged_offer) \<in> set (drop (length (sw_sent w)) (sw_sent w''))"
    then have "sc_fp c = None \<or> sc_fp c = Some (en_from_fp forged_offer)" using routing_confined [OF acts_step [OF that]] that by blast
    then show False using w(4) demo_fp_not_zero by (simp add: forged_offer_def)
  qed
  ultimately show ?thesis using w w' by blast
qed

theorem reconnect_lost_witness:
  "\<exists>w w' d. reachable demo_relay w \<and> world_step demo_relay w w' \<and> sw_conns w' 1 = Some d \<and> lookup (sw_registry w') demo_sid demo_fp = None"
proof -
  obtain w c d where w: "reachable demo_relay w" "sw_conns w 0 = Some c" "sc_should_exit c" "sc_session c = Some demo_sid" "sc_fp c = Some demo_fp"
    "sw_conns w 1 = Some d" "sc_session d = Some demo_sid" "sc_fp d = Some demo_fp" using demo_reconnected by blast
  show ?thesis using reconnect_lost [OF w(1-6) _ w(7,8)] w(1) by auto
qed

theorem payload_opaque_witness:
  "\<exists>raw'. handle_message demo_relay (\<lambda>_. True) 1 (conn_new demo_challenge) [(demo_sid, [(demo_fp, 0)])] raw' =
     (conn_new demo_challenge, [(demo_sid, [(demo_fp, 0)])], [(0, forged_offer\<lparr>en_payload := [7]\<rparr>)], Ok None)"
proof -
  obtain raw where r: "sig_decode raw = Ok forged_offer" using forged_encodes by blast
  obtain raw' where r': "sig_decode raw' = Ok (forged_offer\<lparr>en_payload := [7]\<rparr>)"
    using encode_ok [of "forged_offer\<lparr>en_payload := [7]\<rparr>"]
    by (auto simp: forged_offer_def zero_fp_valid own_fp_valid [OF plain_suite_total])
  have h: "handle_message demo_relay (\<lambda>_. True) 1 (conn_new demo_challenge) [(demo_sid, [(demo_fp, 0)])] raw =
      (conn_new demo_challenge, [(demo_sid, [(demo_fp, 0)])], [(0, forged_offer)], Ok None)"
    by (simp add: handle_message_def r conn_new_def) (simp add: forged_offer_def forward_to_peer_def)
  have "en_kind forged_offer \<noteq> Hello" by (simp add: forged_offer_def)
  from payload_opaque [OF r r' this h] show ?thesis by (intro exI [of _ raw']) simp
qed

theorem client_registers_witness:
  "\<exists>c' reg'. try_connect plain_suite (relay_ws demo_relay 0 demo_challenge) demo_sid demo_fp
      (Some (from_signing_key plain_suite [8])) (conn_new [], [], []) = Some ((c', reg', []), Ok ())
    \<and> lookup reg' demo_sid demo_fp = Some 0"
  using client_registers [OF plain_suite_correct plain_suite_total _ _ _ _ refl, of demo_sid demo_challenge "[]" "\<lambda>_. []" 0 "[8]" "conn_new []" "[]"]
  by (auto simp: demo_relay_def registry_ok_def)

text \<open>A server that cannot be reached.\<close>

definition dead_ws :: "unit ws_env" where
  "dead_ws = \<lparr>wc_open = (\<lambda>w. (w, Err ''refused'')), wc_next = (\<lambda>w. (w, None)), wc_send = (\<lambda>w _. (w, Err ''closed''))\<rparr>"

text \<open>With three retries four attempts are made; the third delay is capped.\<close>

theorem retry_terminates_witness:
  "connect_with_retry plain_suite dead_ws exponential demo_sid demo_fp None () (backoff_new 100 300 3) [] =
     Some ((), delayed 3 (backoff_new 100 300 3), Err SigNotConnected, [100, 200, 300])"
proof -
  let ?b = "backoff_new 100 300 3"
  have t: "try_connect plain_suite dead_ws demo_sid demo_fp None () = Some ((), Err (SigWebSocket ''refused''))"
    by (simp add: try_connect_def dead_ws_def)
  have n: "retries_left ?b = 3" by (simp add: retries_left_def backoff_new_def)
  have "delayed 0 ?b = \<lparr>eb_base_ms = 100, eb_max_ms = 300, eb_max_attempts = 3, eb_current_ms = 100, eb_attempts = 0\<rparr>"
    "delayed 1 ?b = \<lparr>eb_base_ms = 100, eb_max_ms = 300, eb_max_attempts = 3, eb_current_ms = 200, eb_attempts = 1\<rparr>"
    "delayed (Suc 1) ?b = \<lparr>eb_base_ms = 100, eb_max_ms = 300, eb_max_attempts = 3, eb_current_ms = 300, eb_attempts = 2\<rparr>"
    by (simp_all add: backoff_new_def next_delay_def sat_add_def sat_mul_def min_def word_le_nat_alt)
  moreover have "[0..<3] = [0, 1, Suc 1]" by (simp add: upt_rec)
  ultimately have d: "slept_delays 3 ?b = [100, 200, 300]" unfolding slept_delays_def by (simp del: funpow.simps)
  show ?thesis
  proof (cases "connect_with_retry plain_suite dead_ws exponential demo_sid demo_fp None () ?b []")
    case None
    then show ?thesis using retry_terminates [of ?b plain_suite dead_ws demo_sid demo_fp None "()" "[]"] by (simp add: t)
  next
    case (Some x)
    then show ?thesis using retry_terminates [of ?b plain_suite dead_ws demo_sid demo_fp None "()" "[]"]
      by (cases x; cases "fst (snd (snd x))") (simp_all add: t n d)
  qed
qed

end
