(* ===== verification/Allocator.thy ===== *)
theory Allocator
  imports Shp_Types
begin

text \<open>
  The cross-channel rate allocator (\<open>src/crates/sh-adaptive/src/allocator.rs\<close>): a waterfall in
  saturating 64-bit arithmetic over the six channels.
\<close>

record allocator_config =
  ag_input_reserve :: bitrate
  ag_control_reserve :: bitrate
  ag_clipboard_reserve :: bitrate
  ag_audio_min :: bitrate
  ag_video_max :: bitrate

definition allocator_default :: allocator_config where
  "allocator_default = \<lparr>ag_input_reserve = from_kbps 32, ag_control_reserve = from_kbps 32, ag_clipboard_reserve = from_kbps 32,
     ag_audio_min = from_kbps 96, ag_video_max = from_mbps 20\<rparr>"

record channel_allocation =
  al_input :: bitrate
  al_control :: bitrate
  al_clipboard :: bitrate
  al_audio :: bitrate
  al_video :: bitrate
  al_file :: bitrate
  al_total :: bitrate

definition al_get :: "channel_allocation \<Rightarrow> channel_id \<Rightarrow> bitrate" where
  "al_get a ch = (case ch of Input \<Rightarrow> al_input a | Control \<Rightarrow> al_control a | Clipboard \<Rightarrow> al_clipboard a
     | Audio \<Rightarrow> al_audio a | Video \<Rightarrow> al_video a | File \<Rightarrow> al_file a)"

definition al_sum :: "channel_allocation \<Rightarrow> bitrate" where
  "al_sum a = bitrate_saturating_add (bitrate_saturating_add (bitrate_saturating_add (bitrate_saturating_add
     (bitrate_saturating_add (al_input a) (al_control a)) (al_clipboard a)) (al_audio a)) (al_video a)) (al_file a)"

definition bitrate_zero :: bitrate where
  "bitrate_zero = \<lparr>bps = 0\<rparr>"

definition allocate :: "allocator_config \<Rightarrow> bitrate \<Rightarrow> channel_allocation" where
  "allocate c budget =
     (let input = bitrate_clamp (ag_input_reserve c) bitrate_zero budget;
          r1 = bitrate_saturating_sub budget input;
          control = bitrate_clamp (ag_control_reserve c) bitrate_zero r1;
          r2 = bitrate_saturating_sub r1 control;
          clipboard = bitrate_clamp (ag_clipboard_reserve c) bitrate_zero r2;
          r3 = bitrate_saturating_sub r2 clipboard;
          audio = bitrate_clamp (ag_audio_min c) bitrate_zero r3;
          r4 = bitrate_saturating_sub r3 audio;
          video = bitrate_clamp r4 bitrate_zero (ag_video_max c);
          r5 = bitrate_saturating_sub r4 video
      in \<lparr>al_input = input, al_control = control, al_clipboard = clipboard, al_audio = audio, al_video = video,
          al_file = r5, al_total = budget\<rparr>)"

subsection \<open>The waterfall in plain numbers\<close>

abbreviation rate :: "bitrate \<Rightarrow> nat" where "rate r \<equiv> unat (bps r)"

lemma rate_clamp_zero: "rate (bitrate_clamp r bitrate_zero t) = min (rate r) (rate t)"
  by (auto simp: bitrate_clamp_def bitrate_zero_def word_less_nat_alt min_def)

lemma rate_sub: "rate (bitrate_saturating_sub a b) = rate a - rate b"
  by (simp add: bitrate_saturating_sub_def unat_sat_sub)

lemma rate_add: "rate (bitrate_saturating_add a b) = min (2 ^ 64 - 1) (rate a + rate b)"
  by (simp add: bitrate_saturating_add_def unat_sat_add)

lemma rate_bound: "rate r \<le> 2 ^ 64 - 1"
  using unsigned_less [of "bps r", where 'a = nat] by simp

lemmas waterfall = allocate_def Let_def rate_clamp_zero rate_sub

lemma allocate_steps:
  "al_input (allocate c t) = bitrate_clamp (ag_input_reserve c) bitrate_zero t"
  "al_control (allocate c t) = bitrate_clamp (ag_control_reserve c) bitrate_zero (bitrate_saturating_sub t (al_input (allocate c t)))"
  "al_clipboard (allocate c t) = bitrate_clamp (ag_clipboard_reserve c) bitrate_zero
     (bitrate_saturating_sub (bitrate_saturating_sub t (al_input (allocate c t))) (al_control (allocate c t)))"
  "al_audio (allocate c t) = bitrate_clamp (ag_audio_min c) bitrate_zero (bitrate_saturating_sub
     (bitrate_saturating_sub (bitrate_saturating_sub t (al_input (allocate c t))) (al_control (allocate c t))) (al_clipboard (allocate c t)))"
  "al_video (allocate c t) = bitrate_clamp (bitrate_saturating_sub (bitrate_saturating_sub
     (bitrate_saturating_sub (bitrate_saturating_sub t (al_input (allocate c t))) (al_control (allocate c t))) (al_clipboard (allocate c t)))
     (al_audio (allocate c t))) bitrate_zero (ag_video_max c)"
  "al_file (allocate c t) = bitrate_saturating_sub (bitrate_saturating_sub (bitrate_saturating_sub
     (bitrate_saturating_sub (bitrate_saturating_sub t (al_input (allocate c t))) (al_control (allocate c t))) (al_clipboard (allocate c t)))
     (al_audio (allocate c t))) (al_video (allocate c t))"
  by (simp_all add: allocate_def Let_def)

text \<open>Each channel takes its share of what is left, and the rest flows on.\<close>

lemma allocate_flow:
  obtains r1 r2 r3 r4 where
    "rate (al_input (allocate c t)) = min (rate (ag_input_reserve c)) (rate t)" "rate t = rate (al_input (allocate c t)) + r1"
    "rate (al_control (allocate c t)) = min (rate (ag_control_reserve c)) r1" "r1 = rate (al_control (allocate c t)) + r2"
    "rate (al_clipboard (allocate c t)) = min (rate (ag_clipboard_reserve c)) r2" "r2 = rate (al_clipboard (allocate c t)) + r3"
    "rate (al_audio (allocate c t)) = min (rate (ag_audio_min c)) r3" "r3 = rate (al_audio (allocate c t)) + r4"
    "rate (al_video (allocate c t)) = min (rate (ag_video_max c)) r4" "r4 = rate (al_video (allocate c t)) + rate (al_file (allocate c t))"
proof -
  let ?a = "allocate c t"
  note a = allocate_steps [of c t]
  let ?r1 = "rate t - rate (al_input ?a)"
  let ?r2 = "?r1 - rate (al_control ?a)"
  let ?r3 = "?r2 - rate (al_clipboard ?a)"
  let ?r4 = "?r3 - rate (al_audio ?a)"
  have s: "x = min b n \<Longrightarrow> n = x + (n - x)" for x b n :: nat by simp
  have i: "rate (al_input ?a) = min (rate (ag_input_reserve c)) (rate t)" by (subst a(1)) (rule rate_clamp_zero)
  have c: "rate (al_control ?a) = min (rate (ag_control_reserve c)) ?r1" by (subst a(2)) (simp only: rate_clamp_zero rate_sub)
  have p: "rate (al_clipboard ?a) = min (rate (ag_clipboard_reserve c)) ?r2" by (subst a(3)) (simp only: rate_clamp_zero rate_sub)
  have u: "rate (al_audio ?a) = min (rate (ag_audio_min c)) ?r3" by (subst a(4)) (simp only: rate_clamp_zero rate_sub)
  have v: "rate (al_video ?a) = min (rate (ag_video_max c)) ?r4"
    by (subst a(5)) (simp only: rate_clamp_zero rate_sub min.commute [of "rate (ag_video_max c)"])
  have f: "rate (al_file ?a) = ?r4 - rate (al_video ?a)" by (subst a(6)) (simp only: rate_sub)
  show ?thesis
    by (rule that [OF i s [OF i] c s [OF c] p s [OF p] u s [OF u] v]) (simp only: f s [OF v, symmetric])
qed

lemma bitrate_eqI: "rate a = rate b \<Longrightarrow> a = (b :: bitrate)"
  by (cases a; cases b) (simp add: word_unat_eq_iff)

text \<open>The rate the allocator gives a channel.\<close>

definition share :: "allocator_config \<Rightarrow> bitrate \<Rightarrow> channel_id \<Rightarrow> nat" where
  "share c t ch = rate (al_get (allocate c t) ch)"

lemma share_prefix:
  "S = min t A \<Longrightarrow> t = S + r \<Longrightarrow> x = min a r \<Longrightarrow> r = x + r' \<Longrightarrow> S + x = min t (A + a) \<and> t = (S + x) + r'" for t r x a r' :: nat
  by linarith

text \<open>
  C39. The allocation is the priority waterfall, whatever the configuration and the budget. It spends
  the budget exactly; no channel gets more than its reserve, its minimum or its cap; and the first
  channels in the order of priority (input, control, clipboard, audio, video) get together all they
  may, or the whole budget if that is less, so files get what is left when all of them are full.
\<close>

theorem allocation_exact:
  "al_sum (allocate c t) = t
   \<and> share c t Input \<le> rate (ag_input_reserve c) \<and> share c t Control \<le> rate (ag_control_reserve c)
   \<and> share c t Clipboard \<le> rate (ag_clipboard_reserve c) \<and> share c t Audio \<le> rate (ag_audio_min c)
   \<and> share c t Video \<le> rate (ag_video_max c)
   \<and> share c t Input = min (rate t) (rate (ag_input_reserve c))
   \<and> share c t Input + share c t Control = min (rate t) (rate (ag_input_reserve c) + rate (ag_control_reserve c))
   \<and> share c t Input + share c t Control + share c t Clipboard =
       min (rate t) (rate (ag_input_reserve c) + rate (ag_control_reserve c) + rate (ag_clipboard_reserve c))
   \<and> share c t Input + share c t Control + share c t Clipboard + share c t Audio =
       min (rate t) (rate (ag_input_reserve c) + rate (ag_control_reserve c) + rate (ag_clipboard_reserve c) + rate (ag_audio_min c))
   \<and> share c t Input + share c t Control + share c t Clipboard + share c t Audio + share c t Video =
       min (rate t) (rate (ag_input_reserve c) + rate (ag_control_reserve c) + rate (ag_clipboard_reserve c) + rate (ag_audio_min c)
         + rate (ag_video_max c))
   \<and> share c t Input + share c t Control + share c t Clipboard + share c t Audio + share c t Video + share c t File = rate t"
proof (rule allocate_flow [of c t])
  fix r1 r2 r3 r4
  let ?a = "allocate c t"
  assume f: "rate (al_input ?a) = min (rate (ag_input_reserve c)) (rate t)" "rate t = rate (al_input ?a) + r1"
    "rate (al_control ?a) = min (rate (ag_control_reserve c)) r1" "r1 = rate (al_control ?a) + r2"
    "rate (al_clipboard ?a) = min (rate (ag_clipboard_reserve c)) r2" "r2 = rate (al_clipboard ?a) + r3"
    "rate (al_audio ?a) = min (rate (ag_audio_min c)) r3" "r3 = rate (al_audio ?a) + r4"
    "rate (al_video ?a) = min (rate (ag_video_max c)) r4" "r4 = rate (al_video ?a) + rate (al_file ?a)"
  have sh: "share c t Input = rate (al_input ?a)" "share c t Control = rate (al_control ?a)"
    "share c t Clipboard = rate (al_clipboard ?a)" "share c t Audio = rate (al_audio ?a)"
    "share c t Video = rate (al_video ?a)" "share c t File = rate (al_file ?a)"
    by (simp_all add: share_def al_get_def)
  have "rate (al_sum ?a) = rate t"
    using rate_bound [of t] f(2,4,6,8,10) unfolding al_sum_def rate_add by (simp only: min_absorb2)
  then have "al_sum ?a = t" by (rule bitrate_eqI)
  moreover have i: "rate (al_input ?a) = min (rate t) (rate (ag_input_reserve c))" using f(1) by (simp only: min.commute)
  note p2 = share_prefix [OF i f(2-4)]
  note p3 = share_prefix [OF conjunct1 [OF p2] conjunct2 [OF p2] f(5,6)]
  note p4 = share_prefix [OF conjunct1 [OF p3] conjunct2 [OF p3] f(7,8)]
  note p5 = share_prefix [OF conjunct1 [OF p4] conjunct2 [OF p4] f(9,10)]
  moreover have "rate (al_input ?a) \<le> rate (ag_input_reserve c)" "rate (al_control ?a) \<le> rate (ag_control_reserve c)"
    "rate (al_clipboard ?a) \<le> rate (ag_clipboard_reserve c)" "rate (al_audio ?a) \<le> rate (ag_audio_min c)"
    "rate (al_video ?a) \<le> rate (ag_video_max c)"
    unfolding f(1,3,5,7,9) by simp_all
  ultimately show ?thesis using i p2 p3 p4 p5 unfolding sh by metis
qed

text \<open>
  No channel loses when the budget grows.
\<close>

theorem allocation_monotone:
  assumes "rate t \<le> rate t'"
  shows "rate (al_get (allocate c t) ch) \<le> rate (al_get (allocate c t') ch)"
proof -
  have m: "r \<le> r' \<Longrightarrow> min b r \<le> min b r' \<and> r - min b r \<le> r' - min b r'" for b r r' :: nat by linarith
  have step: "r1 \<le> r1' \<and> x \<le> x'" if "x = min b r" "r = x + r1" "x' = min b r'" "r' = x' + r1'" "r \<le> r'" for b r r' x x' r1 r1' :: nat
    using that by linarith
  show ?thesis
  proof (rule allocate_flow [of c t], rule allocate_flow [of c t'], goal_cases)
    case (1 r1 r2 r3 r4 s1 s2 s3 s4)
    note a = step [OF 1(1,2,11,12) assms]
    note b = step [OF 1(3,4,13,14) conjunct1 [OF a]]
    note c = step [OF 1(5,6,15,16) conjunct1 [OF b]]
    note d = step [OF 1(7,8,17,18) conjunct1 [OF c]]
    note e = step [OF 1(9,10,19,20) conjunct1 [OF d]]
    show ?case using a b c d e by (cases ch) (simp_all only: al_get_def channel_id.case)
  qed
qed

theorem allocation_monotone_witness:
  "rate (al_get (allocate allocator_default (from_mbps 2)) File) \<le> rate (al_get (allocate allocator_default (from_mbps 30)) File)"
  by (rule allocation_monotone) (simp add: from_mbps_def sat_mul_def)

end
