(* ===== verification/Loss_Recovery.thy ===== *)
theory Loss_Recovery
  imports Shp_Prelude Complex_Main
begin

text \<open>
  Loss recovery (\<open>src/crates/sh-adaptive/src/loss_recovery.rs\<close>): the action chosen per feedback,
  the ratio of forward error correction, the detector of sequence gaps and the intra-refresh
  schedule. The floating-point numbers here are only compared and clamped, never computed with, so a
  finite one is its exact rational value and the literals are the doubles nearest to the decimals.
  Durations and instants are nanoseconds; an instant that reads a clock is an argument.
\<close>

unbundle bit_operations_syntax

subsection \<open>Floating-point numbers\<close>

datatype f64 = NaN | Fin rat | PosInf | NegInf

definition f64_lt :: "f64 \<Rightarrow> f64 \<Rightarrow> bool" where
  "f64_lt a b = (case (a, b) of
     (Fin x, Fin y) \<Rightarrow> x < y | (Fin _, PosInf) \<Rightarrow> True | (NegInf, Fin _) \<Rightarrow> True | (NegInf, PosInf) \<Rightarrow> True | _ \<Rightarrow> False)"

definition f64_le :: "f64 \<Rightarrow> f64 \<Rightarrow> bool" where
  "f64_le a b = (f64_lt a b \<or> a = b \<and> a \<noteq> NaN)"

text \<open>\<open>f64::clamp\<close> panics unless the bounds are ordered; \<open>None\<close> is the panic.\<close>

definition f64_clamp :: "f64 \<Rightarrow> f64 \<Rightarrow> f64 \<Rightarrow> f64 option" where
  "f64_clamp x lo hi = (if f64_le lo hi then Some (if f64_lt x lo then lo else if f64_lt hi x then hi else x) else None)"

definition unit_clamp :: "f64 \<Rightarrow> f64" where
  "unit_clamp x = (if f64_lt x (Fin 0) then Fin 0 else if f64_lt (Fin 1) x then Fin 1 else x)"

subsection \<open>Actions\<close>

type_synonym duration = nat
type_synonym instant = nat

definition DURATION_MAX :: duration where "DURATION_MAX = (2 ^ 64 - 1) * 1000000000 + 999999999"
definition millis :: "nat \<Rightarrow> duration" where "millis n = n * 1000000"
definition RTT_MID_BAND_LOW :: duration where "RTT_MID_BAND_LOW = millis 150"
definition RTT_HIGH :: duration where "RTT_HIGH = millis 300"
definition IDR_SUPPRESS_MIN :: duration where "IDR_SUPPRESS_MIN = millis 500"
definition NACK_MAX_CONSECUTIVE_LOSS :: u32 where "NACK_MAX_CONSECUTIVE_LOSS = 2"
definition FEC_LOSS_THRESHOLD :: f64 where "FEC_LOSS_THRESHOLD = Fin (3602879701896397 / 72057594037927936)"
definition IDR_FRAME_GAP_THRESHOLD :: u32 where "IDR_FRAME_GAP_THRESHOLD = 3"
definition IDR_FRAME_GAP_THRESHOLD_MID :: u32 where "IDR_FRAME_GAP_THRESHOLD_MID = 2"
definition IDR_FRAME_GAP_THRESHOLD_HIGH :: u32 where "IDR_FRAME_GAP_THRESHOLD_HIGH = 1"
definition MAX_KEYFRAME_AGE :: duration where "MAX_KEYFRAME_AGE = millis 10000"
definition STALE_KEYFRAME_LOSS_THRESHOLD :: f64 where "STALE_KEYFRAME_LOSS_THRESHOLD = Fin (5764607523034235 / 576460752303423488)"

datatype recovery_action = NoAction | Nack "u16 list" | RelyOnFec | ForcedIdr

record loss_state =
  ls_rtt :: duration
  ls_consecutive_loss :: u32
  ls_loss_5s :: f64
  ls_frame_gap :: u32
  ls_time_since_keyframe :: duration
  ls_fec_ratio :: f64
  ls_missing_seqs :: "u16 list"

record loss_controller =
  lc_last_idr_request :: "instant option"

definition controller_new :: loss_controller where
  "controller_new = \<lparr>lc_last_idr_request = None\<rparr>"

definition suppress_window :: "duration \<Rightarrow> duration" where
  "suppress_window rtt = max IDR_SUPPRESS_MIN (min DURATION_MAX (rtt * 2))"

definition determine_action :: "duration \<Rightarrow> u32 \<Rightarrow> f64 \<Rightarrow> u32 \<Rightarrow> duration \<Rightarrow> f64 \<Rightarrow> u16 list \<Rightarrow> recovery_action" where
  "determine_action rtt consecutive_loss loss_5s frame_gap time_since_keyframe fec_ratio missing_seqs =
     (if rtt < RTT_MID_BAND_LOW \<and> consecutive_loss \<le> NACK_MAX_CONSECUTIVE_LOSS \<and> f64_lt loss_5s FEC_LOSS_THRESHOLD
         \<and> frame_gap < IDR_FRAME_GAP_THRESHOLD \<and> missing_seqs \<noteq> []
      then Nack (take 16 missing_seqs) else
      let idr_gap_threshold = (if rtt < RTT_MID_BAND_LOW then IDR_FRAME_GAP_THRESHOLD
            else if rtt \<le> RTT_HIGH then IDR_FRAME_GAP_THRESHOLD_MID else IDR_FRAME_GAP_THRESHOLD_HIGH);
          needs_idr = (frame_gap \<ge> idr_gap_threshold \<or> f64_le FEC_LOSS_THRESHOLD loss_5s
            \<or> time_since_keyframe > MAX_KEYFRAME_AGE \<and> f64_lt STALE_KEYFRAME_LOSS_THRESHOLD loss_5s)
      in if needs_idr then ForcedIdr
         else if f64_lt loss_5s fec_ratio \<and> frame_gap \<le> 1 then RelyOnFec else NoAction)"

definition elapsed_since :: "instant \<Rightarrow> instant \<Rightarrow> duration" where
  "elapsed_since now t = (if t \<le> now then now - t else 0)"

definition loss_on_feedback :: "loss_controller \<Rightarrow> loss_state \<Rightarrow> instant \<Rightarrow> loss_controller \<times> recovery_action" where
  "loss_on_feedback c s now =
     (let rtt = max (ls_rtt s) 100000; window = suppress_window rtt in
      if (case lc_last_idr_request c of None \<Rightarrow> False | Some t \<Rightarrow> elapsed_since now t < window) then (c, NoAction) else
      let action = determine_action rtt (ls_consecutive_loss s) (unit_clamp (ls_loss_5s s)) (ls_frame_gap s)
            (ls_time_since_keyframe s) (unit_clamp (ls_fec_ratio s)) (ls_missing_seqs s)
      in (if action = ForcedIdr then c\<lparr>lc_last_idr_request := Some now\<rparr> else c, action))"

definition suppression_remaining :: "loss_controller \<Rightarrow> duration \<Rightarrow> instant \<Rightarrow> duration option" where
  "suppression_remaining c rtt now =
     (case lc_last_idr_request c of
        None \<Rightarrow> None
      | Some t \<Rightarrow> let window = suppress_window (max rtt 100000); e = elapsed_since now t
          in if e \<le> window then Some (window - e) else None)"

subsection \<open>Forward error correction\<close>

record fec_policy =
  fp_min_ratio :: f64
  fp_max_ratio :: f64

definition fec_policy_new :: "f64 \<Rightarrow> f64 \<Rightarrow> fec_policy" where
  "fec_policy_new min_ratio max_ratio = \<lparr>fp_min_ratio = unit_clamp min_ratio, fp_max_ratio = unit_clamp max_ratio\<rparr>"

definition target_ratio :: "fec_policy \<Rightarrow> f64 \<Rightarrow> f64 option" where
  "target_ratio p loss_5s =
     (let loss = unit_clamp loss_5s;
          raw = (if f64_le loss (Fin (5764607523034235 / 576460752303423488)) then Fin (3602879701896397 / 72057594037927936)
            else if f64_le loss (Fin (1080863910568919 / 36028797018963968)) then Fin (3602879701896397 / 36028797018963968)
            else if f64_le loss (Fin (3602879701896397 / 72057594037927936)) then Fin (3602879701896397 / 18014398509481984)
            else if f64_le loss (Fin (3602879701896397 / 36028797018963968)) then Fin (5404319552844595 / 18014398509481984)
            else Fin (1 / 2))
      in f64_clamp raw (fp_min_ratio p) (fp_max_ratio p))"

subsection \<open>Gaps\<close>

record gap_report =
  gr_consecutive_loss :: u32
  gr_frame_gap :: u32
  gr_nack_bitmap :: u16
  gr_missing_seqs :: "u16 list"

record gap_detector =
  gd_highest_seq :: "u16 option"
  gd_received_mask :: u16
  gd_last_received_seq :: "u16 option"
  gd_seqs_tracked :: u16

definition gap_new :: gap_detector where
  "gap_new = \<lparr>gd_highest_seq = None, gd_received_mask = 0, gd_last_received_seq = None, gd_seqs_tracked = 0\<rparr>"

definition trailing_zeros :: "u16 \<Rightarrow> nat" where
  "trailing_zeros m = length (takeWhile (\<lambda>i. \<not> bit m i) [0..<16])"

definition build_report :: "gap_detector \<Rightarrow> gap_report" where
  "build_report g =
     (case gd_highest_seq g of
        None \<Rightarrow> \<lparr>gr_consecutive_loss = 0, gr_frame_gap = 0, gr_nack_bitmap = 0, gr_missing_seqs = []\<rparr>
      | Some highest \<Rightarrow>
        let frame_gap = (case gd_last_received_seq g of None \<Rightarrow> 0 | Some l \<Rightarrow> ucast (highest - l));
            tracked = gd_seqs_tracked g;
            tracked_mask = (if tracked \<ge> 16 then 0xFFFF else sat_sub (push_bit (unat tracked) 1) 1);
            nack_bitmap = NOT (gd_received_mask g) AND tracked_mask;
            consecutive_loss = of_nat (min (trailing_zeros (gd_received_mask g)) (unat tracked));
            missing = map (\<lambda>i. highest - (1 + of_nat i)) (filter (\<lambda>i. bit nack_bitmap i) (takeWhile (\<lambda>i. i < unat tracked) [0..<16]))
        in \<lparr>gr_consecutive_loss = consecutive_loss, gr_frame_gap = frame_gap, gr_nack_bitmap = nack_bitmap, gr_missing_seqs = missing\<rparr>)"

definition gap_record :: "gap_detector \<Rightarrow> u16 \<Rightarrow> gap_detector" where
  "gap_record g seq =
     (case gd_highest_seq g of
        None \<Rightarrow> \<lparr>gd_highest_seq = Some seq, gd_received_mask = 0, gd_last_received_seq = Some seq, gd_seqs_tracked = 0\<rparr>
      | Some highest \<Rightarrow>
        let delta = seq - highest in
        if delta > 0 \<and> delta < 32768 then
          let shifted = (if unat delta \<ge> 16 then 0 else push_bit (unat delta) (gd_received_mask g));
              old_highest_bit = (if unat delta \<le> 16 then push_bit ((unat delta - 1) mod 16) 1 else 0)
          in \<lparr>gd_highest_seq = Some seq, gd_received_mask = shifted OR old_highest_bit, gd_last_received_seq = Some seq,
              gd_seqs_tracked = min (sat_add (gd_seqs_tracked g) (min delta 16)) 16\<rparr>
        else if delta = 0 then g\<lparr>gd_last_received_seq := Some seq\<rparr>
        else let back = highest - seq in
          if back > 0 \<and> back \<le> 16 then g\<lparr>gd_received_mask := gd_received_mask g OR push_bit ((unat back - 1) mod 16) 1\<rparr> else g)"

definition gap_on_receive :: "gap_detector \<Rightarrow> u16 \<Rightarrow> gap_detector \<times> gap_report" where
  "gap_on_receive g seq = (let g' = gap_record g seq in (g', build_report g'))"

subsection \<open>Rolling intra refresh\<close>

record refresh_stripe =
  st_stripe_index :: u32
  st_period :: u32

record intra_refresh =
  rr_fps :: u32
  rr_current_stripe :: u32
  rr_period :: u32

definition compute_period :: "u32 \<Rightarrow> u32" where
  "compute_period fps = max (fps div 4 + (if fps mod 4 > 0 then 1 else 0)) 1"

definition refresh_new :: "u32 \<Rightarrow> intra_refresh" where
  "refresh_new fps = \<lparr>rr_fps = fps, rr_current_stripe = 0, rr_period = compute_period fps\<rparr>"

definition refresh_advance :: "intra_refresh \<Rightarrow> intra_refresh \<times> refresh_stripe" where
  "refresh_advance r =
     (let stripe = \<lparr>st_stripe_index = rr_current_stripe r, st_period = rr_period r\<rparr>; next = rr_current_stripe r + 1
      in (r\<lparr>rr_current_stripe := if next \<ge> rr_period r then 0 else next\<rparr>, stripe))"

definition refresh_set_fps :: "intra_refresh \<Rightarrow> u32 \<Rightarrow> intra_refresh" where
  "refresh_set_fps r fps = r\<lparr>rr_fps := fps, rr_period := compute_period fps, rr_current_stripe := 0\<rparr>"

subsection \<open>Keyframe requests are spaced\<close>

fun loss_run :: "loss_controller \<Rightarrow> (loss_state \<times> instant) list \<Rightarrow> instant list" where
  "loss_run c [] = []"
| "loss_run c ((s, now) # fs) =
     (case loss_on_feedback c s now of (c', a) \<Rightarrow> (if a = ForcedIdr then [now] else []) @ loss_run c' fs)"

lemma forced_idr_spaced:
  assumes "loss_on_feedback c s now = (c', a)"
  shows "a = ForcedIdr \<Longrightarrow> lc_last_idr_request c' = Some now \<and> (\<forall>t. lc_last_idr_request c = Some t \<longrightarrow> t + millis 500 \<le> now)"
    and "a \<noteq> ForcedIdr \<Longrightarrow> c' = c"
proof -
  have w: "millis 500 \<le> suppress_window r" for r by (simp add: suppress_window_def IDR_SUPPRESS_MIN_def)
  have "t + millis 500 \<le> now" if "\<not> elapsed_since now t < suppress_window r" for t r
    using that w [of r] by (auto simp: elapsed_since_def millis_def not_less split: if_splits)
  then show "a = ForcedIdr \<Longrightarrow> lc_last_idr_request c' = Some now \<and> (\<forall>t. lc_last_idr_request c = Some t \<longrightarrow> t + millis 500 \<le> now)"
    using assms by (auto simp: loss_on_feedback_def Let_def split: if_splits option.splits)
  show "a \<noteq> ForcedIdr \<Longrightarrow> c' = c"
    using assms by (auto simp: loss_on_feedback_def Let_def split: if_splits)
qed

lemma loss_run_spaced:
  "sorted_wrt (\<lambda>t u. t + millis 500 \<le> u) (loss_run c fs) \<and> (\<forall>t u. lc_last_idr_request c = Some t \<longrightarrow> u \<in> set (loss_run c fs) \<longrightarrow> t + millis 500 \<le> u)"
proof (induction fs arbitrary: c)
  case (Cons f fs)
  obtain s now where f: "f = (s, now)" by (cases f)
  obtain c' a where a: "loss_on_feedback c s now = (c', a)" by (cases "loss_on_feedback c s now")
  show ?case
  proof (cases "a = ForcedIdr")
    case True
    then have t: "lc_last_idr_request c' = Some now" "\<forall>t. lc_last_idr_request c = Some t \<longrightarrow> t + millis 500 \<le> now"
      using forced_idr_spaced(1) [OF a] by auto
    then show ?thesis using Cons.IH [of c'] True by (fastforce simp: f a)
  next
    case False
    then show ?thesis using Cons.IH [of c'] forced_idr_spaced(2) [OF a] by (simp add: f a)
  qed
qed simp

text \<open>
  C38. Over any sequence of feedback, also with a clock that steps back, keyframes are requested at
  least half a second apart.
\<close>

theorem keyframe_requests_spaced: "sorted_wrt (\<lambda>t u. t + 500 * 1000000 \<le> u) (loss_run controller_new fs)"
  using loss_run_spaced [of controller_new fs] by (simp add: millis_def)

subsection \<open>The gap report is exact\<close>

text \<open>
  The sequence numbers are those of an unbounded counter, cut to 16 bits on the wire. \<open>gap_inv\<close>
  relates the detector to the first number, the highest one and the set of all received.
\<close>

definition gap_inv :: "gap_detector \<Rightarrow> int \<Rightarrow> int \<Rightarrow> int set \<Rightarrow> bool" where
  "gap_inv g n0 h R \<longleftrightarrow> gd_highest_seq g = Some (word_of_int h) \<and> gd_last_received_seq g = Some (word_of_int h)
     \<and> gd_seqs_tracked g = of_nat (min 16 (nat (h - n0))) \<and> n0 \<le> h \<and> h \<in> R \<and> (\<forall>n \<in> R. n \<le> h)
     \<and> (\<forall>i < 16. bit (gd_received_mask g) i \<longleftrightarrow> h - 1 - int i \<in> R)"

fun seq_close :: "int \<Rightarrow> int list \<Rightarrow> bool" where
  "seq_close h [] = True"
| "seq_close h (n # ns) = (\<bar>n - h\<bar> < 32768 \<and> seq_close (max h n) ns)"

lemma unat_seq_diff:
  assumes "0 \<le> n - h" and "n - h < 65536"
  shows "unat (word_of_int n - word_of_int h :: u16) = nat (n - h)"
proof -
  have "(word_of_int n - word_of_int h :: u16) = word_of_int (n - h)" by simp
  then show ?thesis using assms by (simp only: unat_eq_nat_uint uint_word_of_int) simp
qed

lemma gap_inv_first: "gap_inv (gap_record gap_new (word_of_int n)) n n {n}"
  by (auto simp: gap_inv_def gap_record_def gap_new_def)

lemma of_nat_unat_u16: "of_nat (unat (w :: u16)) = w"
  by simp

lemma unat_min_u16: "unat (min a b :: u16) = min (unat a) (unat b)"
  by (simp add: min_def word_le_nat_alt)

lemma gap_mask_shift:
  assumes i: "gap_inv g n0 h R" and j: "j < 16" and d: "0 < n - h" and u: "unat (delta :: u16) = nat (n - h)"
  shows "bit ((if unat delta \<ge> 16 then 0 else push_bit (unat delta) (gd_received_mask g)) OR
    (if unat delta \<le> 16 then push_bit ((unat delta - 1) mod 16) 1 else 0)) j \<longleftrightarrow> n - 1 - int j \<in> R"
proof -
  have m: "bit (gd_received_mask g) k \<longleftrightarrow> h - 1 - int k \<in> R" if "k < 16" for k using i that by (simp add: gap_inv_def)
  have R: "h \<in> R" "\<And>n. n \<in> R \<Longrightarrow> n \<le> h" using i by (auto simp: gap_inv_def)
  consider "j < unat delta - 1" | "j = unat delta - 1" | "unat delta \<le> j" by linarith
  then show ?thesis
  proof cases
    case 1
    moreover have "n - 1 - int j \<notin> R" using R(2) [of "n - 1 - int j"] 1 u d by linarith
    moreover have "j \<noteq> (unat delta - 1) mod 16" if "unat delta \<le> 16" using 1 that by simp
    ultimately show ?thesis using j by (auto simp: bit_simps)
  next
    case 2
    then have "n - 1 - int j = h" using u d by simp
    then show ?thesis using 2 j R(1) u d by (auto simp: bit_simps)
  next
    case 3
    moreover have "n - 1 - int j = h - 1 - int (j - unat delta)" using 3 u d by simp
    moreover have "bit (gd_received_mask g) (j - unat delta) \<longleftrightarrow> h - 1 - int (j - unat delta) \<in> R" using j by (intro m) simp
    moreover have "\<not> 16 \<le> unat delta" "j \<noteq> (unat delta - 1) mod 16" using 3 j u d by auto
    ultimately show ?thesis using j by (simp only:) (simp add: bit_simps)
  qed
qed

lemma track_min: "min (min 65535 (min 16 a + min b 16)) 16 = min 16 (a + b :: nat)"
  by (simp add: min_def)

lemma gap_record_ahead:
  assumes i: "gap_inv g n0 h R" and d: "0 < n - h" "n - h < 32768"
  shows "gap_inv (gap_record g (word_of_int n)) n0 n (insert n R)"
proof -
  define delta :: u16 where "delta = word_of_int n - word_of_int h"
  have u: "unat delta = nat (n - h)" unfolding delta_def using d by (intro unat_seq_diff) simp_all
  have dd: "delta > 0" "delta < 32768" using u d by (simp_all add: word_less_nat_alt)
  let ?m = "(if unat delta \<ge> 16 then 0 else push_bit (unat delta) (gd_received_mask g)) OR
    (if unat delta \<le> 16 then push_bit ((unat delta - 1) mod 16) 1 else 0)"
  have r: "gap_record g (word_of_int n) = \<lparr>gd_highest_seq = Some (word_of_int n), gd_received_mask = ?m,
      gd_last_received_seq = Some (word_of_int n), gd_seqs_tracked = min (sat_add (gd_seqs_tracked g) (min delta 16)) 16\<rparr>"
    using i dd by (simp add: gap_record_def gap_inv_def delta_def [symmetric] Let_def)
  have t: "gd_seqs_tracked g = of_nat (min 16 (nat (h - n0)))" "n0 \<le> h" using i by (simp_all add: gap_inv_def)
  have "unat (min (sat_add (gd_seqs_tracked g) (min delta 16)) 16) = min 16 (nat (n - n0))"
  proof -
    have "unat (of_nat (min 16 (nat (h - n0))) :: u16) = min 16 (nat (h - n0))" by (simp add: unat_of_nat del: of_nat_min)
    moreover have "nat (n - n0) = nat (h - n0) + nat (n - h)" using d t(2) by linarith
    ultimately show ?thesis unfolding t(1) unat_min_u16 unat_sat_add u by (simp add: track_min)
  qed
  then have "of_nat (unat (min (sat_add (gd_seqs_tracked g) (min delta 16)) 16)) = (of_nat (min 16 (nat (n - n0))) :: u16)"
    by (rule arg_cong)
  then have "min (sat_add (gd_seqs_tracked g) (min delta 16)) 16 = of_nat (min 16 (nat (n - n0)))"
    unfolding of_nat_unat_u16 .
  moreover have "bit ?m j \<longleftrightarrow> n - 1 - int j \<in> insert n R" if "j < 16" for j
    unfolding gap_mask_shift [OF i that d(1) u] by auto
  moreover have "n0 \<le> n" "\<forall>k \<in> insert n R. k \<le> n" using i d by (auto simp: gap_inv_def)
  ultimately show ?thesis unfolding gap_inv_def r gap_detector.simps by (intro conjI allI impI refl insertI1) assumption+
qed

lemma gap_record_late:
  assumes i: "gap_inv g n0 h R" and d: "n < h" "h - n < 32768"
  shows "gap_inv (gap_record g (word_of_int n)) n0 h (insert n R)"
proof -
  define delta :: u16 where "delta = word_of_int n - word_of_int h"
  define dist :: u16 where "dist = word_of_int h - word_of_int n"
  have u: "unat dist = nat (h - n)" unfolding dist_def using d by (intro unat_seq_diff) simp_all
  have "delta = word_of_int (n + 65536 - h)" unfolding delta_def by simp
  then have "unat delta = nat (n + 65536 - h)" using d by (simp only: unat_eq_nat_uint uint_word_of_int) simp
  then have dd: "\<not> delta < 32768" "delta \<noteq> 0" using d by (auto simp: word_less_nat_alt)
  have r: "gap_record g (word_of_int n) = (if dist > 0 \<and> dist \<le> 16
      then g\<lparr>gd_received_mask := gd_received_mask g OR push_bit ((unat dist - 1) mod 16) 1\<rparr> else g)"
    using i dd by (simp add: gap_record_def gap_inv_def delta_def [symmetric] dist_def [symmetric] Let_def)
  have b: "0 < dist" using u d by (simp add: word_less_nat_alt)
  have m: "bit (gd_received_mask g) k \<longleftrightarrow> h - 1 - int k \<in> R" if "k < 16" for k using i that by (simp add: gap_inv_def)
  show ?thesis
  proof (cases "dist \<le> 16")
    case True
    then have "nat (h - n) \<le> 16" using u by (simp add: word_le_nat_alt)
    then have "(bit (push_bit ((unat dist - 1) mod 16) 1 :: u16) k) = (h - 1 - int k = n)" if "k < 16" for k
      using that d by (auto simp: bit_simps u)
    then show ?thesis using i d b True m by (auto simp: r gap_inv_def bit_or_iff)
  next
    case False
    then have "16 < nat (h - n)" using u by (simp add: word_le_nat_alt)
    then show ?thesis using i d False by (auto simp: r gap_inv_def)
  qed
qed

lemma gap_record_step:
  assumes i: "gap_inv g n0 h R" and d: "\<bar>n - h\<bar> < 32768"
  shows "gap_inv (gap_record g (word_of_int n)) n0 (max h n) (insert n R)"
proof -
  consider "0 < n - h" | "n = h" | "n < h" by linarith
  then show ?thesis
  proof cases
    case 1
    then show ?thesis using gap_record_ahead [OF i 1] d by simp
  next
    case 2
    then show ?thesis using i by (simp add: gap_record_def gap_inv_def insert_absorb)
  next
    case 3
    then show ?thesis using gap_record_late [OF i 3] d by simp
  qed
qed

lemma gap_run_inv:
  assumes "gap_inv g n0 h R" and "seq_close h ns"
  shows "gap_inv (foldl gap_record g (map word_of_int ns)) n0 (foldl max h ns) (R \<union> set ns)"
  using assms
proof (induction ns arbitrary: g h R)
  case (Cons n ns)
  then show ?case using gap_record_step [OF Cons.prems(1), of n] Cons.IH [of "gap_record g (word_of_int n)" "max h n" "insert n R"] by simp
qed simp

lemma takeWhile_less_upt: "t \<le> n \<Longrightarrow> takeWhile (\<lambda>i. i < t) [0..<n] = [0..<t]"
proof -
  assume "t \<le> n"
  then have "[0..<n] = [0..<t] @ [t..<n]" using upt_add_eq_append [of 0 t "n - t"] by simp
  moreover have "takeWhile (\<lambda>i. i < t) [t..<n] = []" by (cases "t < n") (simp_all add: upt_conv_Cons)
  ultimately show ?thesis by (simp add: takeWhile_append)
qed

lemma length_takeWhile_take: "length (takeWhile P (take t xs)) = min (length (takeWhile P xs)) t"
  by (induction xs arbitrary: t) (auto simp: take_Cons split: nat.split)

lemma min_length_takeWhile_upt: "t \<le> n \<Longrightarrow> min (length (takeWhile P [0..<n])) t = length (takeWhile P [0..<t])"
proof -
  assume "t \<le> n"
  then have "[0..<t] = take t [0..<n]" by simp
  then show ?thesis by (simp only: length_takeWhile_take)
qed

lemma tracked_mask:
  assumes "unat (w :: u16) = t" and "t \<le> 16"
  shows "(if w \<ge> 16 then 0xFFFF else sat_sub (push_bit (unat w) 1) 1) = (mask t :: u16)"
proof -
  have p: "(push_bit t 1 :: u16) \<noteq> 0" if "t < 16"
  proof -
    have "bit (push_bit t 1 :: u16) t" using that by (simp add: bit_simps)
    then show ?thesis by (metis bit_0_eq bot_apply bot_bool_def)
  qed
  show ?thesis
  proof (cases "t = 16")
    case True
    then have "16 \<le> w" using assms(1) by (simp add: word_le_nat_alt)
    then show ?thesis using True by (simp add: mask_eq_exp_minus_1)
  next
    case False
    then have "\<not> 16 \<le> w" "\<not> (push_bit t 1 :: u16) < 1" using assms p by (simp_all add: word_le_nat_alt)
    then show ?thesis using assms(1) by (simp add: sat_sub_def mask_eq_exp_minus_1 push_bit_eq_mult)
  qed
qed

lemma gap_inv_report:
  assumes i: "gap_inv g n0 h R" and t: "t = min 16 (nat (h - n0))"
  shows "gr_frame_gap (build_report g) = 0"
    and "gr_missing_seqs (build_report g) = map (\<lambda>i. word_of_int (h - 1 - int i)) (filter (\<lambda>i. h - 1 - int i \<notin> R) [0..<t])"
    and "unat (gr_consecutive_loss (build_report g)) = length (takeWhile (\<lambda>i. h - 1 - int i \<notin> R) [0..<t])"
proof -
  have tr: "gd_seqs_tracked g = of_nat t" "unat (gd_seqs_tracked g) = t" "t \<le> 16"
    using i by (simp_all add: gap_inv_def t unat_of_nat del: of_nat_min)
  have h: "gd_highest_seq g = Some (word_of_int h)" "gd_last_received_seq g = Some (word_of_int h)" using i by (simp_all add: gap_inv_def)
  have m: "bit (gd_received_mask g) k \<longleftrightarrow> h - 1 - int k \<in> R" if "k < 16" for k using i that by (simp add: gap_inv_def)
  show "gr_frame_gap (build_report g) = 0" by (simp add: build_report_def h Let_def)
  let ?mask = "if gd_seqs_tracked g \<ge> 16 then 0xFFFF else sat_sub (push_bit (unat (gd_seqs_tracked g)) 1) 1 :: u16"
  have "?mask = mask t" by (rule tracked_mask) (use tr in auto)
  then have "bit (NOT (gd_received_mask g) AND ?mask) k \<longleftrightarrow> h - 1 - int k \<notin> R" if "k < t" for k
    using that tr(3) m [of k] by (simp add: bit_simps)
  then have f: "filter (\<lambda>k. bit (NOT (gd_received_mask g) AND ?mask) k) [0..<t] = filter (\<lambda>k. h - 1 - int k \<notin> R) [0..<t]"
    by (intro filter_cong) auto
  have tw: "takeWhile (\<lambda>i. i < t) [0..<16] = [0..<t]" using tr(3) by (rule takeWhile_less_upt)
  have w: "(word_of_int h - (1 + of_nat k) :: u16) = word_of_int (h - 1 - int k)" for k by simp
  show "gr_missing_seqs (build_report g) = map (\<lambda>i. word_of_int (h - 1 - int i)) (filter (\<lambda>i. h - 1 - int i \<notin> R) [0..<t])"
    unfolding f [symmetric] w [symmetric] by (simp only: build_report_def h Let_def option.case gap_report.simps tr(2) tw)
  have "min (trailing_zeros (gd_received_mask g)) t = length (takeWhile (\<lambda>i. h - 1 - int i \<notin> R) [0..<t])"
    unfolding trailing_zeros_def min_length_takeWhile_upt [OF tr(3)] using m tr(3) by (intro arg_cong [of _ _ length] takeWhile_cong) auto
  moreover have "gr_consecutive_loss (build_report g) = of_nat (min (trailing_zeros (gd_received_mask g)) t)"
    by (simp add: build_report_def h Let_def tr(2) del: of_nat_min)
  ultimately show "unat (gr_consecutive_loss (build_report g)) = length (takeWhile (\<lambda>i. h - 1 - int i \<notin> R) [0..<t])"
    using tr(3) by (simp add: unat_of_nat)
qed

text \<open>
  C37. Whatever the loss, reordering and wrap-around of the 16-bit numbers, as long as no packet is
  half the number space away from the newest, the report lists exactly the numbers among the last
  sixteen before the newest, newest first and none before the first packet, that have not been
  received, and counts those at the end of the sequence; its frame gap is always zero.
\<close>

theorem gap_report_exact:
  assumes "seq_close n ns"
  shows "let r = build_report (foldl gap_record gap_new (map word_of_int (n # ns)));
             h = foldl max n ns; t = min 16 (nat (h - n)); lost = \<lambda>i. h - 1 - int i \<notin> set (n # ns)
         in gr_missing_seqs r = map (\<lambda>i. word_of_int (h - 1 - int i)) (filter lost [0..<t])
          \<and> unat (gr_consecutive_loss r) = length (takeWhile lost [0..<t]) \<and> gr_frame_gap r = 0"
proof -
  have "gap_inv (foldl gap_record gap_new (map word_of_int (n # ns))) n (foldl max n ns) (set (n # ns))"
    using gap_run_inv [OF gap_inv_first assms] by simp
  from gap_inv_report [OF this refl] show ?thesis by (simp only: Let_def)
qed

theorem gap_report_exact_witness:
  "gr_missing_seqs (build_report (foldl gap_record gap_new (map word_of_int [65534, 65537, 65535, 65539]))) = [2, 0]"
proof -
  have c: "seq_close 65534 [65537, 65535, 65539]" by simp
  have h: "foldl max 65534 [65537, 65535, 65539 :: int] = 65539" by simp
  have u: "[0..<min 16 (nat (65539 - 65534))] = [0, 1, 2, 3, 4]" by (simp add: upt_rec)
  have "map (\<lambda>i. word_of_int (65539 - 1 - int i)) (filter (\<lambda>i. 65539 - 1 - int i \<notin> set [65534, 65537, 65535, 65539]) [0, 1, 2, 3, 4])
      = [2, 0 :: u16]" by simp
  then show ?thesis using gap_report_exact [OF c] by (simp only: Let_def h u)
qed

subsection \<open>Refresh cycles and correction ratios\<close>

lemma compute_period_pos: "1 \<le> compute_period fps"
  by (simp add: compute_period_def)

lemma refresh_stripes:
  assumes "rr_current_stripe r < rr_period r"
  shows "rr_period ((fst \<circ> refresh_advance) r) = rr_period r"
    and "unat (rr_current_stripe ((fst \<circ> refresh_advance) r)) = (unat (rr_current_stripe r) + 1) mod unat (rr_period r)"
proof -
  have "unat (rr_current_stripe r + 1) = unat (rr_current_stripe r) + 1"
    using assms unsigned_less [of "rr_period r", where 'a = nat] by (simp add: unat_word_ariths word_less_nat_alt)
  then show "unat (rr_current_stripe ((fst \<circ> refresh_advance) r)) = (unat (rr_current_stripe r) + 1) mod unat (rr_period r)"
    using assms by (cases "unat (rr_current_stripe r) + 1 = unat (rr_period r)") (auto simp: refresh_advance_def Let_def word_le_nat_alt word_less_nat_alt)
qed (simp add: refresh_advance_def Let_def)

text \<open>
  The stripes of a rolling refresh run round: the n-th frame refreshes stripe n modulo the
  period, so any period of consecutive frames refreshes the whole picture.
\<close>

theorem refresh_cycles:
  "unat (st_stripe_index (snd (refresh_advance (((fst \<circ> refresh_advance) ^^ n) (refresh_new fps))))) = n mod unat (compute_period fps)"
proof -
  have p: "0 < unat (compute_period fps)" using compute_period_pos [of fps] by (simp add: word_le_nat_alt)
  have "rr_period (((fst \<circ> refresh_advance) ^^ n) (refresh_new fps)) = compute_period fps
      \<and> unat (rr_current_stripe (((fst \<circ> refresh_advance) ^^ n) (refresh_new fps))) = n mod unat (compute_period fps)"
  proof (induction n)
    case (Suc n)
    let ?r = "((fst \<circ> refresh_advance) ^^ n) (refresh_new fps)"
    have "rr_current_stripe ?r < rr_period ?r" using Suc p by (simp only: word_less_nat_alt) simp
    from refresh_stripes [OF this] show ?case using Suc
      by (simp only: funpow.simps comp_apply [of "fst \<circ> refresh_advance" "(fst \<circ> refresh_advance) ^^ n"]) (simp add: mod_Suc_eq)
  qed (simp add: refresh_new_def)
  then show ?thesis by (simp add: refresh_advance_def Let_def)
qed

text \<open>
  The correction ratio is undefined, and the code panics, exactly when the policy was built
  with bounds that are out of order after clamping to the unit interval or not numbers.
\<close>

theorem target_ratio_panics:
  "target_ratio (fec_policy_new lo hi) loss = None \<longleftrightarrow> \<not> f64_le (unit_clamp lo) (unit_clamp hi)"
  by (simp add: target_ratio_def fec_policy_new_def f64_clamp_def Let_def)

end
