(* ===== verification/Paste_Sanitize.thy ===== *)
theory Paste_Sanitize
  imports Utf8
begin

text \<open>
  Sanitising of clipboard text before a paste (\<open>src/crates/sh-clipboard/src/sanitize.rs\<close>). A
  string is the list of its scalar values.
\<close>

unbundle bit_operations_syntax

definition is_forbidden_in_paste_output :: "scalar \<Rightarrow> bool" where
  "is_forbidden_in_paste_output u \<longleftrightarrow>
     u \<le> 0x08 \<or> 0x0B \<le> u \<and> u \<le> 0x1F \<or> u = 0x7F \<or> 0x80 \<le> u \<and> u \<le> 0x9F \<or> u = 0xAD \<or> u = 0x061C \<or> u = 0x180E
     \<or> u = 0x2028 \<or> u = 0x2029 \<or> 0x200B \<le> u \<and> u \<le> 0x200F \<or> 0x202A \<le> u \<and> u \<le> 0x202E \<or> 0x2060 \<le> u \<and> u \<le> 0x2064
     \<or> 0x2066 \<le> u \<and> u \<le> 0x2069 \<or> 0x206A \<le> u \<and> u \<le> 0x206F \<or> u = 0xFEFF \<or> 0xFFF9 \<le> u \<and> u \<le> 0xFFFB
     \<or> 0xFDD0 \<le> u \<and> u \<le> 0xFDEF \<or> 0x1D173 \<le> u \<and> u \<le> 0x1D17A \<or> 0xE0000 \<le> u \<and> u \<le> 0xE007F
     \<or> u AND 0xFFFE = 0xFFFE"

function sanitize_clipboard_text :: "str \<Rightarrow> str" where
  "sanitize_clipboard_text [] = []"
| "sanitize_clipboard_text (c # cs) =
     (if c = 0x0D then 0x0A # sanitize_clipboard_text (case cs of d # ds \<Rightarrow> if d = 0x0A then ds else cs | [] \<Rightarrow> cs)
      else if c = 0x2028 \<or> c = 0x2029 then 0x0A # sanitize_clipboard_text cs
      else if is_forbidden_in_paste_output c then sanitize_clipboard_text cs
      else c # sanitize_clipboard_text cs)"
  by pat_completeness auto
termination
  by (relation "measure length") (auto split: list.splits)

definition sanitize_for_paste :: "str \<Rightarrow> str option" where
  "sanitize_for_paste input = (let out = sanitize_clipboard_text input in if out \<noteq> [] then Some out else None)"

text \<open>What the filter should do: line ends first, then the removal of what must not survive.\<close>

fun line_ends :: "str \<Rightarrow> str" where
  "line_ends [] = []"
| "line_ends [c] = [if c = 0x0D \<or> c = 0x2028 \<or> c = 0x2029 then 0x0A else c]"
| "line_ends (c # d # cs) =
     (if c = 0x0D \<and> d = 0x0A then 0x0A # line_ends cs
      else (if c = 0x0D \<or> c = 0x2028 \<or> c = 0x2029 then 0x0A else c) # line_ends (d # cs))"

lemma forbidden_simps [simp]: "\<not> is_forbidden_in_paste_output 0x0A" "\<not> is_forbidden_in_paste_output 0x09"
  "is_forbidden_in_paste_output 0x0D" "is_forbidden_in_paste_output 0x2028" "is_forbidden_in_paste_output 0x2029"
  by (simp_all add: is_forbidden_in_paste_output_def)

lemma sanitize_two_pass: "sanitize_clipboard_text s = filter (\<lambda>c. \<not> is_forbidden_in_paste_output c) (line_ends s)"
  by (induction s rule: line_ends.induct) auto

lemma sanitize_clean: "\<forall>c \<in> set (sanitize_clipboard_text s). \<not> is_forbidden_in_paste_output c"
  by (simp add: sanitize_two_pass)

lemma sanitize_id: "\<forall>c \<in> set s. \<not> is_forbidden_in_paste_output c \<Longrightarrow> sanitize_clipboard_text s = s"
proof (induction s)
  case (Cons c s)
  then have "c \<noteq> 0x0D" "c \<noteq> 0x2028" "c \<noteq> 0x2029" by auto
  with Cons show ?case by simp
qed simp

lemma line_ends_set: "set (line_ends s) \<subseteq> insert 0x0A (set s)"
  by (induction s rule: line_ends.induct) auto

lemma sanitize_is_str: "is_str s \<Longrightarrow> is_str (sanitize_clipboard_text s)"
proof -
  assume "is_str s"
  moreover have "is_scalar 0x0A" by (simp add: is_scalar_def)
  ultimately show ?thesis using line_ends_set [of s] by (auto simp: is_str_def list_all_iff sanitize_two_pass)
qed

lemma utf8_char_pos: "1 \<le> length (utf8_char c)"
  by (simp add: utf8_char_def)

lemma utf8_char_lf: "length (utf8_char 0x0A) = 1"
  by (simp add: utf8_char_def)

lemma sanitize_shorter: "length (utf8 (sanitize_clipboard_text s)) \<le> length (utf8 s)"
proof (induction s rule: sanitize_clipboard_text.induct)
  case (2 c cs)
  have "length (utf8 (case cs of d # ds \<Rightarrow> if d = 0x0A then ds else cs | [] \<Rightarrow> cs)) \<le> length (utf8 cs)"
    by (simp split: list.splits)
  with 2 show ?case using utf8_char_pos [of c] by (auto simp: utf8_char_lf)
qed simp

text \<open>
  C40. Sanitising is normalising line ends and then removing the forbidden scalars: the result has
  none of them, is never longer in bytes, is a fixed point, and text without them is unchanged.
\<close>

theorem sanitize_safe:
  "sanitize_clipboard_text s = filter (\<lambda>c. \<not> is_forbidden_in_paste_output c) (line_ends s)
   \<and> (\<forall>c \<in> set (sanitize_clipboard_text s). \<not> is_forbidden_in_paste_output c)
   \<and> length (utf8 (sanitize_clipboard_text s)) \<le> length (utf8 s)
   \<and> sanitize_clipboard_text (sanitize_clipboard_text s) = sanitize_clipboard_text s
   \<and> ((\<forall>c \<in> set s. \<not> is_forbidden_in_paste_output c) \<longrightarrow> sanitize_clipboard_text s = s)
   \<and> (is_str s \<longrightarrow> is_str (sanitize_clipboard_text s))
   \<and> (sanitize_for_paste s = None \<longleftrightarrow> sanitize_clipboard_text s = [])"
proof (intro conjI)
  show "sanitize_clipboard_text s = filter (\<lambda>c. \<not> is_forbidden_in_paste_output c) (line_ends s)" by (rule sanitize_two_pass)
  show "\<forall>c \<in> set (sanitize_clipboard_text s). \<not> is_forbidden_in_paste_output c" by (rule sanitize_clean)
  show "length (utf8 (sanitize_clipboard_text s)) \<le> length (utf8 s)" by (rule sanitize_shorter)
  show "sanitize_clipboard_text (sanitize_clipboard_text s) = sanitize_clipboard_text s" by (rule sanitize_id [OF sanitize_clean])
  show "(\<forall>c \<in> set s. \<not> is_forbidden_in_paste_output c) \<longrightarrow> sanitize_clipboard_text s = s" by (rule impI [OF sanitize_id])
  show "is_str s \<longrightarrow> is_str (sanitize_clipboard_text s)" by (rule impI [OF sanitize_is_str])
qed (simp add: sanitize_for_paste_def Let_def)

theorem sanitize_safe_witness:
  "sanitize_clipboard_text [0x6C, 0x0D, 0x0A, 0x1B, 0x5B] = [0x6C, 0x0A, 0x5B] \<and> sanitize_clipboard_text [0x61, 0x09] = [0x61, 0x09]"
proof
  show "sanitize_clipboard_text [0x6C, 0x0D, 0x0A, 0x1B, 0x5B] = [0x6C, 0x0A, 0x5B]"
    by (simp add: is_forbidden_in_paste_output_def)
  have "\<forall>c \<in> set [0x61, 0x09]. \<not> is_forbidden_in_paste_output c" by (simp add: is_forbidden_in_paste_output_def)
  then show "sanitize_clipboard_text [0x61, 0x09] = [0x61, 0x09]" using sanitize_safe [of "[0x61, 0x09]"] by blast
qed

end
