(* ===== verification/Coord_Map.thy ===== *)
theory Coord_Map
  imports Shp_Prelude
begin

text \<open>
  Pointer coordinates (\<open>src/crates/sh-input/src/coord.rs\<close>): normalised 16-bit positions to
  pixels of the virtual desktop, in integer arithmetic with rounding. A signed 32-bit coordinate is
  a word read by \<open>sint\<close>.
\<close>

type_synonym i32 = "32 word"

datatype input_error = ZeroSizeAxis u32 u32 | Unsupported string | Backend string

record target_rect =
  tr_origin_x :: i32
  tr_origin_y :: i32
  tr_width :: u32
  tr_height :: u32

definition rect_new :: "i32 \<Rightarrow> i32 \<Rightarrow> u32 \<Rightarrow> u32 \<Rightarrow> input_error + target_rect" where
  "rect_new origin_x origin_y width height =
     (if width = 0 \<or> height = 0 then Err (ZeroSizeAxis width height)
      else Ok \<lparr>tr_origin_x = origin_x, tr_origin_y = origin_y, tr_width = width, tr_height = height\<rparr>)"

definition mapper_new :: "target_rect \<Rightarrow> input_error + target_rect" where
  "mapper_new rect =
     (if tr_width rect = 0 \<or> tr_height rect = 0 then Err (ZeroSizeAxis (tr_width rect) (tr_height rect)) else Ok rect)"

definition i32_sat_add :: "i32 \<Rightarrow> i32 \<Rightarrow> i32" where
  "i32_sat_add a b = word_of_int (max (- (2 ^ 31)) (min (2 ^ 31 - 1) (sint a + sint b)))"

definition map_axis :: "u16 \<Rightarrow> u32 \<Rightarrow> i32" where
  "map_axis norm extent =
     (if extent = 1 then 0 else
      let n = (ucast norm :: u64); e = (ucast (extent - 1) :: u64); offset = (n * e + 32767) div 65535
      in if unat offset < 2 ^ 31 then ucast offset else 0x7FFFFFFF)"

definition coord_map :: "target_rect \<Rightarrow> u16 \<Rightarrow> u16 \<Rightarrow> i32 \<times> i32" where
  "coord_map r norm_x norm_y =
     (i32_sat_add (tr_origin_x r) (map_axis norm_x (tr_width r)), i32_sat_add (tr_origin_y r) (map_axis norm_y (tr_height r)))"

subsection \<open>One axis\<close>

definition pixel :: "nat \<Rightarrow> nat \<Rightarrow> nat" where
  "pixel norm extent = (norm * (extent - 1) + 32767) div 65535"

lemma pixel_range: "norm \<le> 65535 \<Longrightarrow> 1 \<le> extent \<Longrightarrow> pixel norm extent \<le> extent - 1"
proof -
  assume "norm \<le> 65535" "1 \<le> extent"
  then have "norm * (extent - 1) + 32767 < 65535 * (extent - 1) + 65535" using mult_le_mono1 [of norm 65535 "extent - 1"] by linarith
  then have "(norm * (extent - 1) + 32767) div 65535 < extent - 1 + 1" by (subst div_less_iff_less_mult) simp_all
  then show ?thesis by (simp add: pixel_def)
qed

lemma pixel_ends: "1 \<le> extent \<Longrightarrow> pixel 0 extent = 0 \<and> pixel 65535 extent = extent - 1"
  by (simp add: pixel_def)

lemma pixel_mono: "norm \<le> norm' \<Longrightarrow> pixel norm extent \<le> pixel norm' extent"
  by (simp add: pixel_def div_le_mono)

lemma pixel_nearest: "2 * \<bar>int (pixel norm extent) * 65535 - int norm * int (extent - 1)\<bar> \<le> 65535"
proof -
  let ?a = "norm * (extent - 1) + 32767"
  have "?a div 65535 * 65535 \<le> ?a" "?a < ?a div 65535 * 65535 + 65535"
    using div_mult_mod_eq [of ?a 65535] by (linarith, simp add: dividend_less_div_times)
  then have "int (?a div 65535) * 65535 \<le> int (norm * (extent - 1)) + 32767"
      "int (norm * (extent - 1)) + 32767 < int (?a div 65535) * 65535 + 65535" by linarith+
  then have "\<bar>int (?a div 65535) * 65535 - int (norm * (extent - 1))\<bar> \<le> 32767" unfolding abs_le_iff by linarith
  moreover have "\<bar>x\<bar> \<le> 32767 \<Longrightarrow> 2 * \<bar>x\<bar> \<le> 65535" for x :: int by linarith
  ultimately have "2 * \<bar>int (?a div 65535) * 65535 - int (norm * (extent - 1))\<bar> \<le> 65535" by blast
  then show ?thesis by (simp only: pixel_def of_nat_mult)
qed

lemma pixel_onto:
  assumes "k < extent" and "extent \<le> 65536"
  shows "\<exists>norm \<le> 65535. pixel norm extent = k"
proof (cases "extent = 1")
  case True
  then show ?thesis using assms by (intro exI [of _ 0]) (simp add: pixel_def)
next
  case False
  define e where "e = extent - 1"
  have e: "0 < e" "e \<le> 65535" "k \<le> e" using assms False by (auto simp: e_def)
  define n where "n = (65535 * k + e div 2) div e"
  have lo: "n * e \<le> 65535 * k + e div 2" by (simp add: n_def)
  have hi: "65535 * k + e div 2 < n * e + e" using e(1) dividend_less_div_times [of e "65535 * k + e div 2"] by (simp add: n_def add.commute)
  have "n * e \<le> 65535 * e + e div 2" using lo e(3) mult_le_mono2 [of k e 65535] by linarith
  then have "n * e < 65536 * e" using e(1) by linarith
  then have "n \<le> 65535" using e(1) by simp
  moreover have "e div 2 \<le> 32767" "e \<le> 2 * (e div 2) + 1" using e(2) by linarith+
  then have "(n * e + 32767) div 65535 = k"
    by (intro div_nat_eqI) (use lo hi e in \<open>simp_all add: algebra_simps\<close>)
  ultimately show ?thesis by (intro exI [of _ n]) (simp add: pixel_def e_def)
qed

lemma unat_offset:
  assumes "1 \<le> extent"
  shows "unat ((ucast (norm :: u16) * ucast ((extent :: u32) - 1) + 32767) div 65535 :: u64) = pixel (unat norm) (unat extent)"
proof -
  have e: "unat (extent - 1) = unat extent - 1" using assms by (simp add: unat_sub word_le_nat_alt)
  have n: "unat norm \<le> 65535" "unat extent - 1 \<le> 4294967295"
    using unsigned_less [of norm, where 'a = nat] unsigned_less [of extent, where 'a = nat] by simp_all
  have u: "unat (ucast norm :: u64) = unat norm" "unat (ucast (extent - 1) :: u64) = unat extent - 1"
    by (simp_all add: unat_ucast_up e)
  have b: "unat norm * (unat extent - 1) \<le> 65535 * 4294967295" using n by (rule mult_le_mono)
  then have "unat (ucast norm * ucast (extent - 1) :: u64) = unat norm * (unat extent - 1)"
    by (simp add: unat_word_ariths u)
  then have "unat (ucast norm * ucast (extent - 1) + 32767 :: u64) = unat norm * (unat extent - 1) + 32767"
    using b by (subst unat_word_ariths) simp
  then show ?thesis by (simp add: unat_div pixel_def)
qed

lemma sint_of_nat_i32: "k < 2 ^ 31 \<Longrightarrow> sint (of_nat k :: i32) = int k"
  by (simp add: signed_of_nat signed_take_bit_int_eq_self_iff)

lemma sint_map_axis:
  assumes "1 \<le> extent" and "unat extent \<le> 2 ^ 31"
  shows "sint (map_axis norm extent) = int (pixel (unat norm) (unat extent))"
proof (cases "extent = 1")
  case True
  then show ?thesis by (simp add: map_axis_def pixel_def)
next
  case False
  let ?o = "(ucast norm * ucast (extent - 1) + 32767) div 65535 :: u64"
  have o: "unat ?o = pixel (unat norm) (unat extent)" using assms(1) by (rule unat_offset)
  have "unat norm \<le> 65535" using unsigned_less [of norm, where 'a = nat] by simp
  moreover have "1 \<le> unat extent" using assms(1) by (simp add: word_le_nat_alt)
  ultimately have "pixel (unat norm) (unat extent) \<le> unat extent - 1" by (rule pixel_range)
  then have lt: "unat ?o < 2 ^ 31" using assms(2) \<open>1 \<le> unat extent\<close> o by linarith
  have "map_axis norm extent = ucast ?o" using False lt by (simp add: map_axis_def Let_def)
  also have "\<dots> = of_nat (unat ?o)" by simp
  finally show ?thesis using sint_of_nat_i32 [OF lt] o by (simp only:)
qed

subsection \<open>A point\<close>

lemma sint_i32_sat_add:
  assumes "- (2 ^ 31) \<le> sint a + sint b" and "sint a + sint b < 2 ^ 31"
  shows "sint (i32_sat_add a b) = sint a + sint b"
proof -
  have "max (- (2 ^ 31)) (min (2 ^ 31 - 1) (sint a + sint b)) = sint a + sint b" using assms by simp
  then have "i32_sat_add a b = word_of_int (sint a + sint b)" by (simp add: i32_sat_add_def)
  moreover have "sint (word_of_int k :: i32) = k" if "- (2 ^ 31) \<le> k" "k < 2 ^ 31" for k
    using that by (simp only: signed_of_int) (simp add: signed_take_bit_int_eq_self)
  then have "sint (word_of_int (sint a + sint b) :: i32) = sint a + sint b" using assms by blast
  ultimately show ?thesis by (simp only:)
qed

definition axis_fits :: "i32 \<Rightarrow> u32 \<Rightarrow> bool" where
  "axis_fits origin extent \<longleftrightarrow> 1 \<le> extent \<and> sint origin + int (unat extent) \<le> 2 ^ 31 \<and> unat extent \<le> 2 ^ 31"

lemma sint_axis:
  assumes "axis_fits origin extent"
  shows "sint (i32_sat_add origin (map_axis norm extent)) = sint origin + int (pixel (unat norm) (unat extent))"
    and "pixel (unat norm) (unat extent) \<le> unat extent - 1"
proof -
  have a: "1 \<le> extent" "unat extent \<le> 2 ^ 31" "sint origin + int (unat extent) \<le> 2 ^ 31" using assms by (simp_all add: axis_fits_def)
  have e: "1 \<le> unat extent" using a(1) by (simp add: word_le_nat_alt)
  show p: "pixel (unat norm) (unat extent) \<le> unat extent - 1"
    using unsigned_less [of norm, where 'a = nat] e by (intro pixel_range) simp_all
  have m: "sint (map_axis norm extent) = int (pixel (unat norm) (unat extent))" using a(1,2) by (rule sint_map_axis)
  have "- (2 ^ 31) \<le> sint origin" using sint_range_size [of origin] by (simp add: word_size)
  then show "sint (i32_sat_add origin (map_axis norm extent)) = sint origin + int (pixel (unat norm) (unat extent))"
    using a(3) p e m by (subst sint_i32_sat_add) linarith+
qed

text \<open>
  On a desktop whose pixels all have 32-bit coordinates, every pointer position maps into the
  rectangle, to a pixel nearest to the exact position, in order, with the corners on the corners;
  and up to an extent of 65536 every pixel can be reached.
\<close>

theorem pointer_mapping:
  assumes "axis_fits (tr_origin_x r) (tr_width r)" and "axis_fits (tr_origin_y r) (tr_height r)"
  shows "sint (tr_origin_x r) \<le> sint (fst (coord_map r nx ny))
    \<and> sint (fst (coord_map r nx ny)) \<le> sint (tr_origin_x r) + int (unat (tr_width r)) - 1
    \<and> sint (tr_origin_y r) \<le> sint (snd (coord_map r nx ny))
    \<and> sint (snd (coord_map r nx ny)) \<le> sint (tr_origin_y r) + int (unat (tr_height r)) - 1
    \<and> 2 * \<bar>(sint (fst (coord_map r nx ny)) - sint (tr_origin_x r)) * 65535 - int (unat nx) * int (unat (tr_width r) - 1)\<bar> \<le> 65535
    \<and> (unat nx \<le> unat mx \<longrightarrow> sint (fst (coord_map r nx ny)) \<le> sint (fst (coord_map r mx ny)))
    \<and> sint (fst (coord_map r 0 ny)) = sint (tr_origin_x r)
    \<and> sint (fst (coord_map r 65535 ny)) = sint (tr_origin_x r) + int (unat (tr_width r)) - 1
    \<and> (\<forall>k < unat (tr_width r). unat (tr_width r) \<le> 65536 \<longrightarrow> (\<exists>n. sint (fst (coord_map r n ny)) = sint (tr_origin_x r) + int k))"
proof -
  have x: "sint (fst (coord_map r n ny)) = sint (tr_origin_x r) + int (pixel (unat n) (unat (tr_width r)))"
      "pixel (unat n) (unat (tr_width r)) \<le> unat (tr_width r) - 1" for n
    using sint_axis [OF assms(1), of n] by (simp_all add: coord_map_def)
  have y: "sint (snd (coord_map r nx ny)) = sint (tr_origin_y r) + int (pixel (unat ny) (unat (tr_height r)))"
      "pixel (unat ny) (unat (tr_height r)) \<le> unat (tr_height r) - 1"
    using sint_axis [OF assms(2), of ny] by (simp_all add: coord_map_def)
  have w: "1 \<le> unat (tr_width r)" "1 \<le> unat (tr_height r)" using assms by (simp_all add: axis_fits_def word_le_nat_alt)
  have "\<exists>n :: u16. pixel (unat n) (unat (tr_width r)) = k" if k: "k < unat (tr_width r)" "unat (tr_width r) \<le> 65536" for k
  proof -
    obtain m where "m \<le> 65535" "pixel m (unat (tr_width r)) = k" using pixel_onto [OF k] by blast
    then show ?thesis by (intro exI [of _ "of_nat m"]) (simp add: unat_of_nat)
  qed
  moreover have "int (pixel (unat nx) (unat (tr_width r))) < int (unat (tr_width r))"
      "int (pixel (unat ny) (unat (tr_height r))) < int (unat (tr_height r))"
    using x(2) [of nx] y(2) w by linarith+
  ultimately show ?thesis
    using w pixel_nearest [of "unat nx" "unat (tr_width r)"] pixel_mono [of "unat nx" "unat mx"] pixel_ends [OF w(1)]
    by (auto simp: x(1) y(1) of_nat_diff)
qed

theorem pointer_mapping_witness:
  "let r = \<lparr>tr_origin_x = - 1920, tr_origin_y = 0, tr_width = 1920, tr_height = 1080\<rparr> in
     sint (fst (coord_map r 65535 7)) = - 1 \<and> (\<exists>n. sint (fst (coord_map r n 7)) = - 1000)"
proof -
  let ?r = "\<lparr>tr_origin_x = - 1920, tr_origin_y = 0, tr_width = 1920, tr_height = 1080\<rparr> :: target_rect"
  have f: "axis_fits (tr_origin_x ?r) (tr_width ?r)" "axis_fits (tr_origin_y ?r) (tr_height ?r)"
    by (simp_all add: axis_fits_def)
  show ?thesis using pointer_mapping [OF f, of 0 7 0] by (auto simp: Let_def dest!: spec [of _ 920])
qed

end
