(* ===== verification/Av_Sync.thy ===== *)
theory Av_Sync
  imports Shp_Prelude
begin

text \<open>
  Audio/video synchronisation (\<open>src/crates/sh-media/src/avsync.rs\<close>). The monotonic clock is an
  argument of the operations that read it; timestamps are 64-bit microseconds.
\<close>

record av_sync =
  av_capture_epoch :: "u64 option"
  av_local_epoch :: "u64 option"
  av_last_video_capture_ts :: "u64 option"
  av_last_audio_capture_ts :: "u64 option"

definition av_new :: av_sync where
  "av_new = \<lparr>av_capture_epoch = None, av_local_epoch = None, av_last_video_capture_ts = None, av_last_audio_capture_ts = None\<rparr>"

definition i64_from_u64 :: "u64 \<Rightarrow> i64" where
  "i64_from_u64 v = (if unat v < 2 ^ 63 then ucast v else i64_max)"

definition playout_time :: "av_sync \<Rightarrow> u64 \<Rightarrow> u64 \<Rightarrow> av_sync \<times> u64" where
  "playout_time a now capture_ts =
     (case (av_capture_epoch a, av_local_epoch a) of
        (Some cap_epoch, Some local_epoch) \<Rightarrow>
          let offset = i64_sat_sub (i64_from_u64 capture_ts) (i64_from_u64 cap_epoch);
              playout = (if sint offset \<ge> 0 then sat_add local_epoch (ucast offset) else local_epoch)
          in (a, playout)
      | _ \<Rightarrow> (a\<lparr>av_capture_epoch := Some capture_ts, av_local_epoch := Some now\<rparr>, now))"

definition present_video :: "av_sync \<Rightarrow> u64 \<Rightarrow> u64 \<Rightarrow> av_sync \<times> u64" where
  "present_video a now capture_ts = playout_time (a\<lparr>av_last_video_capture_ts := Some capture_ts\<rparr>) now capture_ts"

definition present_audio :: "av_sync \<Rightarrow> u64 \<Rightarrow> u64 \<Rightarrow> av_sync \<times> u64" where
  "present_audio a now capture_ts = playout_time (a\<lparr>av_last_audio_capture_ts := Some capture_ts\<rparr>) now capture_ts"

definition skew_us :: "av_sync \<Rightarrow> i64 option" where
  "skew_us a =
     (case av_last_video_capture_ts a of None \<Rightarrow> None | Some v \<Rightarrow>
      (case av_last_audio_capture_ts a of None \<Rightarrow> None | Some u \<Rightarrow> Some (i64_sat_sub (i64_from_u64 v) (i64_from_u64 u))))"

definition in_sync :: "av_sync \<Rightarrow> u64 \<Rightarrow> bool" where
  "in_sync a tolerance_us = (case skew_us a of None \<Rightarrow> False | Some skew \<Rightarrow> nat \<bar>sint skew\<bar> \<le> unat tolerance_us)"

definition MAX_HINT_US :: int where "MAX_HINT_US = 500000"

text \<open>\<open>saturating_div\<close> truncates towards zero.\<close>

definition audio_correction_hint_us :: "av_sync \<Rightarrow> i64 option" where
  "audio_correction_hint_us a =
     (case skew_us a of None \<Rightarrow> None | Some skew \<Rightarrow>
      let hint = sgn (sint skew) * (\<bar>sint skew\<bar> div 2)
      in Some (word_of_int (max (- MAX_HINT_US) (min MAX_HINT_US hint))))"

subsection \<open>Playout keeps the spacing of captures\<close>

datatype av_frame = VideoFrame u64 | AudioFrame u64

fun av_ts :: "av_frame \<Rightarrow> u64" where
  "av_ts (VideoFrame t) = t"
| "av_ts (AudioFrame t) = t"

definition av_present :: "av_sync \<Rightarrow> u64 \<times> av_frame \<Rightarrow> av_sync \<times> u64" where
  "av_present a f = (case snd f of VideoFrame t \<Rightarrow> present_video a (fst f) t | AudioFrame t \<Rightarrow> present_audio a (fst f) t)"

fun av_run :: "av_sync \<Rightarrow> (u64 \<times> av_frame) list \<Rightarrow> u64 list" where
  "av_run a [] = []"
| "av_run a (f # fs) = (case av_present a f of (a', p) \<Rightarrow> p # av_run a' fs)"

lemma sint_from_u64: "unat v < 2 ^ 63 \<Longrightarrow> sint (i64_from_u64 v) = int (unat v)"
  using sint_small_word [of v] by (simp add: i64_from_u64_def)

lemma playout_epoch:
  assumes "av_capture_epoch a = Some c" and "av_local_epoch a = Some l" and "unat c < 2 ^ 63" and "unat t < 2 ^ 63"
  shows "playout_time a now t = (a, snd (playout_time a now t))"
    and "unat (snd (playout_time a now t)) = min (2 ^ 64 - 1) (unat l + (unat t - unat c))"
proof -
  show "playout_time a now t = (a, snd (playout_time a now t))" using assms(1,2) by (simp add: playout_time_def Let_def)
  let ?o = "i64_sat_sub (i64_from_u64 t) (i64_from_u64 c)"
  have "- (2 ^ 63) \<le> int (unat t) - int (unat c)" "int (unat t) - int (unat c) \<le> 2 ^ 63 - 1"
    using sint_small_word [OF assms(3)] sint_small_word [OF assms(4)] sint_i64_bounds(2) [of t] sint_i64_bounds(2) [of c] by linarith+
  then have s: "sint ?o = int (unat t) - int (unat c)"
    using assms(3,4) by (simp only: sint_i64_sat_sub sint_from_u64 i64_clamp_def max_def min_def if_True) auto
  have u: "0 \<le> sint ?o \<Longrightarrow> unat ?o = unat t - unat c" using s unat_nonneg_word [of ?o] by linarith
  have n: "\<not> 0 \<le> sint ?o \<Longrightarrow> unat t - unat c = 0" using s by linarith
  have l: "unat l \<le> 2 ^ 64 - 1" using unsigned_less [of l, where 'a = nat] by simp
  have "snd (playout_time a now t) = (if 0 \<le> sint ?o then sat_add l ?o else l)"
    using assms(1,2) by (simp add: playout_time_def Let_def)
  then show "unat (snd (playout_time a now t)) = min (2 ^ 64 - 1) (unat l + (unat t - unat c))"
    using u n l by (simp add: unat_sat_add)
qed

lemma av_present_epoch:
  assumes "av_capture_epoch a = Some c" and "av_local_epoch a = Some l" and "unat c < 2 ^ 63" and "unat (av_ts (snd f)) < 2 ^ 63"
  shows "\<exists>a'. av_present a f = (a', of_nat (min (2 ^ 64 - 1) (unat l + (unat (av_ts (snd f)) - unat c))))
    \<and> av_capture_epoch a' = Some c \<and> av_local_epoch a' = Some l"
proof -
  have "\<exists>b. av_present a f = playout_time b (fst f) (av_ts (snd f)) \<and> av_capture_epoch b = Some c \<and> av_local_epoch b = Some l"
    using assms(1,2) by (cases "snd f") (auto simp: av_present_def present_video_def present_audio_def)
  then obtain b where b: "av_present a f = playout_time b (fst f) (av_ts (snd f))" "av_capture_epoch b = Some c" "av_local_epoch b = Some l"
    by blast
  note p = playout_epoch [OF b(2,3) assms(3,4), of "fst f"]
  have "snd (playout_time b (fst f) (av_ts (snd f))) = of_nat (min (2 ^ 64 - 1) (unat l + (unat (av_ts (snd f)) - unat c)))"
    unfolding p(2) [symmetric] by simp
  then show ?thesis using b p(1) by (metis prod.exhaust_sel)
qed

lemma av_run_epoch:
  assumes "av_capture_epoch a = Some c" and "av_local_epoch a = Some l" and "unat c < 2 ^ 63" and "\<forall>f \<in> set fs. unat (av_ts (snd f)) < 2 ^ 63"
  shows "av_run a fs = map (\<lambda>f. of_nat (min (2 ^ 64 - 1) (unat l + (unat (av_ts (snd f)) - unat c)))) fs"
  using assms
proof (induction fs arbitrary: a)
  case (Cons f fs)
  then obtain a' where "av_present a f = (a', of_nat (min (2 ^ 64 - 1) (unat l + (unat (av_ts (snd f)) - unat c))))"
      "av_capture_epoch a' = Some c" "av_local_epoch a' = Some l"
    using av_present_epoch [of a c l f] by auto
  then show ?case using Cons by simp
qed simp

text \<open>
  The first frame, audio or video, is played at once; every later frame of either stream is
  played as long after it as it was captured after it, and at once when it was captured before:
  the two streams keep their relative timing whenever and in whatever order their frames arrive.
\<close>

theorem playout_keeps_spacing:
  assumes "\<forall>f \<in> set ((now, f0) # fs). unat (av_ts (snd f)) < 2 ^ 63"
  shows "av_run av_new ((now, f0) # fs) =
    now # map (\<lambda>f. of_nat (min (2 ^ 64 - 1) (unat now + (unat (av_ts (snd f)) - unat (av_ts f0))))) fs"
proof -
  obtain a where a: "av_present av_new (now, f0) = (a, now)" "av_capture_epoch a = Some (av_ts f0)" "av_local_epoch a = Some now"
    by (cases f0) (auto simp: av_present_def present_video_def present_audio_def playout_time_def av_new_def)
  then show ?thesis using assms av_run_epoch [OF a(2,3), of fs] by simp
qed

theorem playout_keeps_spacing_witness:
  "av_run av_new [(50, VideoFrame 1000), (70, AudioFrame 900), (75, AudioFrame 1020), (75, VideoFrame 1030)] = [50, 50, 70, 80]"
  by (subst playout_keeps_spacing) simp_all

lemma skew_bounds:
  assumes "audio_correction_hint_us a = Some h"
  shows "\<bar>sint h\<bar> \<le> 500000"
proof -
  obtain k :: int where h: "h = word_of_int (max (- MAX_HINT_US) (min MAX_HINT_US k))"
    using assms by (auto simp: audio_correction_hint_us_def Let_def split: option.splits)
  have "sint (word_of_int (max (- MAX_HINT_US) (min MAX_HINT_US k)) :: i64) = max (- MAX_HINT_US) (min MAX_HINT_US k)"
    by (rule sint_i64_of_int) (simp_all add: MAX_HINT_US_def)
  then show ?thesis by (simp add: h MAX_HINT_US_def)
qed

end
