(* ===== verification/Noise_Handshake.thy ===== *)
theory Noise_Handshake
  imports Bind_Cert Channel_Crypto
begin

text \<open>
  The Noise handshake wrapper of \<open>src/crates/sh-crypto/src/noise.rs\<close>: prologue, position of the
  certificates in the exchange, the handshake state machine with its poison flag, and the outcome.
  The Noise state machine itself is the crate \<open>snow\<close>, the parameter \<open>snow\<close> here, over opaque handshake
  and transport states.
\<close>

subsection \<open>The Noise library as a parameter\<close>

text \<open>
  \<open>sn_public\<close> is the X25519 public key of a secret; \<open>sn_parse\<close> tells whether a pattern name is known;
  \<open>sn_build name secret remote prologue initiator\<close> is \<open>build_initiator\<close> or \<open>build_responder\<close>;
  \<open>sn_write\<close> and \<open>sn_read\<close> are \<open>write_message\<close> and \<open>read_message\<close> into a buffer of 65535 bytes, with the
  state after the call; \<open>sn_encrypt t m n\<close> and \<open>sn_decrypt\<close> write into \<open>n\<close> bytes.
\<close>

record ('h, 't) snow =
  sn_public :: "bytes \<Rightarrow> bytes"
  sn_parse :: "string \<Rightarrow> bool"
  sn_build :: "string \<Rightarrow> bytes \<Rightarrow> bytes option \<Rightarrow> bytes \<Rightarrow> bool \<Rightarrow> 'h option"
  sn_write :: "'h \<Rightarrow> bytes \<Rightarrow> 'h \<times> bytes option"
  sn_read :: "'h \<Rightarrow> bytes \<Rightarrow> 'h \<times> bytes option"
  sn_finished :: "'h \<Rightarrow> bool"
  sn_remote_static :: "'h \<Rightarrow> bytes option"
  sn_hash :: "'h \<Rightarrow> bytes"
  sn_split :: "'h \<Rightarrow> 't option"
  sn_encrypt :: "'t \<Rightarrow> bytes \<Rightarrow> nat \<Rightarrow> 't \<times> bytes option"
  sn_decrypt :: "'t \<Rightarrow> bytes \<Rightarrow> nat \<Rightarrow> 't \<times> bytes option"

subsection \<open>Patterns and prologue\<close>

definition PATTERN_ID_XK :: u8 where "PATTERN_ID_XK = 0x01"
definition PATTERN_ID_IK :: u8 where "PATTERN_ID_IK = 0x02"
definition SUITE_ID_25519_CHACHA_SHA256 :: u8 where "SUITE_ID_25519_CHACHA_SHA256 = 0x01"
definition NOISE_SHP_VERSION :: u16 where "NOISE_SHP_VERSION = 1"
definition PROLOGUE_VERSION :: u8 where "PROLOGUE_VERSION = 0x01"
definition PROLOGUE_TAG :: bytes where "PROLOGUE_TAG = ascii ''SHP-NOISE'' @ [0]"

datatype noise_pattern = Xk | Ik

definition build_prologue :: "u8 \<Rightarrow> bytes \<Rightarrow> bytes" where
  "build_prologue pattern_id session_context =
     PROLOGUE_TAG @ [PROLOGUE_VERSION] @ [pattern_id] @ [SUITE_ID_25519_CHACHA_SHA256] @ to_be 2 NOISE_SHP_VERSION
     @ to_be 4 (of_nat (length session_context) :: u32) @ session_context"

fun send_bind_cert_at :: "handshake_role \<Rightarrow> noise_pattern \<Rightarrow> u8" where
  "send_bind_cert_at Initiator Xk = 2"
| "send_bind_cert_at Responder Xk = 1"
| "send_bind_cert_at Initiator Ik = 0"
| "send_bind_cert_at Responder Ik = 1"

fun receive_bind_cert_at :: "handshake_role \<Rightarrow> noise_pattern \<Rightarrow> u8" where
  "receive_bind_cert_at Initiator Xk = 1"
| "receive_bind_cert_at Responder Xk = 2"
| "receive_bind_cert_at Initiator Ik = 1"
| "receive_bind_cert_at Responder Ik = 0"

subsection \<open>The transport session\<close>

record 't noise_session =
  ns_transport :: 't
  ns_prk :: bytes

definition noise_session_new :: "crypto \<Rightarrow> 't \<Rightarrow> bytes \<Rightarrow> crypto_error + 't noise_session" where
  "noise_session_new cr transport handshake_hash =
     Ok \<lparr>ns_transport = transport, ns_prk = noise_session_prk cr handshake_hash\<rparr>"

definition session_encrypt :: "('h, 't) snow \<Rightarrow> 't noise_session \<Rightarrow> bytes \<Rightarrow> nat \<Rightarrow> 't noise_session \<times> (crypto_error + bytes)" where
  "session_encrypt sn s plaintext n =
     (case sn_encrypt sn (ns_transport s) plaintext n of (t, r) \<Rightarrow>
       (s\<lparr>ns_transport := t\<rparr>, ok_or r (HandshakeFailed ''AEAD encryption failed'')))"

definition session_decrypt :: "('h, 't) snow \<Rightarrow> 't noise_session \<Rightarrow> bytes \<Rightarrow> nat \<Rightarrow> 't noise_session \<times> (crypto_error + bytes)" where
  "session_decrypt sn s ciphertext n =
     (case sn_decrypt sn (ns_transport s) ciphertext n of (t, r) \<Rightarrow>
       (s\<lparr>ns_transport := t\<rparr>, ok_or r (HandshakeFailed ''AEAD decryption or authentication failed'')))"

definition zeroize_prk :: "'t noise_session \<Rightarrow> 't noise_session" where
  "zeroize_prk s = s\<lparr>ns_prk := replicate (length (ns_prk s)) 0\<rparr>"

record 't handshake_outcome =
  ho_transport :: "'t noise_session"
  ho_handshake_hash :: bytes
  ho_peer_identity :: device_identity
  ho_peer_bind_cert :: bind_cert
  ho_role :: handshake_role
  ho_pattern :: noise_pattern

definition outcome_peer_dtls_pin :: "'t handshake_outcome \<Rightarrow> (u8 \<times> bytes) option" where
  "outcome_peer_dtls_pin o1 = dtls_pin (ho_peer_bind_cert o1)"

definition outcome_require_webrtc_dtls_pin :: "'t handshake_outcome \<Rightarrow> crypto_error + bytes" where
  "outcome_require_webrtc_dtls_pin o1 = require_webrtc_dtls_pin (ho_peer_bind_cert o1)"

subsection \<open>The handshake\<close>

record 'h noise_handshake =
  nh_state :: 'h
  nh_role :: handshake_role
  nh_pattern :: noise_pattern
  nh_send_at :: u8
  nh_receive_at :: u8
  nh_message_idx :: u8
  nh_local_bind_cert :: bind_cert
  nh_local_ed25519_pub :: bytes
  nh_peer_bind_cert :: "bind_cert option"
  nh_peer_identity :: "device_identity option"
  nh_failed :: bool

definition build_snow_state :: "('h, 't) snow \<Rightarrow> string \<Rightarrow> bytes \<Rightarrow> bytes option \<Rightarrow> bytes \<Rightarrow> bool \<Rightarrow> crypto_error + 'h" where
  "build_snow_state sn pattern_str local_static peer_static_pub prologue initiator =
     (if \<not> sn_parse sn pattern_str then Err (HandshakeFailed ''failed to parse Noise pattern string'')
      else ok_or (sn_build sn pattern_str local_static peer_static_pub prologue initiator)
        (HandshakeFailed (if initiator then ''snow build_initiator failed'' else ''snow build_responder failed'')))"

definition make_bind_cert :: "suite \<Rightarrow> keystore \<Rightarrow> bytes \<Rightarrow> dtls_commitment option \<Rightarrow> i64 \<Rightarrow> crypto_error + bind_cert" where
  "make_bind_cert su ks local_static_pub commitment now =
     (let builder = builder_valid_for_secs (builder_noise_static (builder_new ks) local_static_pub) BIND_CERT_VALIDITY_SECS
      in builder_build su (case commitment of None \<Rightarrow> builder | Some c \<Rightarrow> builder_dtls_commitment builder c) now)"

definition pattern_name :: "noise_pattern \<Rightarrow> string" where
  "pattern_name p = (case p of Xk \<Rightarrow> ''Noise_XK_25519_ChaChaPoly_SHA256'' | Ik \<Rightarrow> ''Noise_IK_25519_ChaChaPoly_SHA256'')"

definition pattern_id :: "noise_pattern \<Rightarrow> u8" where
  "pattern_id p = (case p of Xk \<Rightarrow> PATTERN_ID_XK | Ik \<Rightarrow> PATTERN_ID_IK)"

definition handshake_new_inner :: "suite \<Rightarrow> ('h, 't) snow \<Rightarrow> keystore \<Rightarrow> bytes \<Rightarrow> bytes option \<Rightarrow> bytes \<Rightarrow> dtls_commitment option \<Rightarrow> i64
    \<Rightarrow> noise_pattern \<Rightarrow> handshake_role \<Rightarrow> crypto_error + 'h noise_handshake" where
  "handshake_new_inner su sn ks local_static peer_static_pub session_context commitment now pattern role =
     and_then (build_snow_state sn (pattern_name pattern) local_static peer_static_pub
       (build_prologue (pattern_id pattern) session_context) (role = Initiator)) (\<lambda>state.
     and_then (make_bind_cert su ks (sn_public sn local_static) commitment now) (\<lambda>local_bind_cert.
     and_then (ks_device_identity ks) (\<lambda>identity.
     Ok \<lparr>nh_state = state, nh_role = role, nh_pattern = pattern, nh_send_at = send_bind_cert_at role pattern,
         nh_receive_at = receive_bind_cert_at role pattern, nh_message_idx = 0, nh_local_bind_cert = local_bind_cert,
         nh_local_ed25519_pub = di_key identity, nh_peer_bind_cert = None, nh_peer_identity = None, nh_failed = False\<rparr>)))"

definition initiator_xk where
  "initiator_xk su sn ks local_static peer_static_pub session_context now =
     handshake_new_inner su sn ks local_static (Some peer_static_pub) session_context None now Xk Initiator"

definition initiator_xk_with_dtls where
  "initiator_xk_with_dtls su sn ks local_static peer_static_pub session_context commitment now =
     handshake_new_inner su sn ks local_static (Some peer_static_pub) session_context (Some commitment) now Xk Initiator"

definition responder_xk where
  "responder_xk su sn ks local_static session_context now =
     handshake_new_inner su sn ks local_static None session_context None now Xk Responder"

definition responder_xk_with_dtls where
  "responder_xk_with_dtls su sn ks local_static session_context commitment now =
     handshake_new_inner su sn ks local_static None session_context (Some commitment) now Xk Responder"

definition initiator_ik where
  "initiator_ik su sn ks local_static peer_static_pub session_context now =
     handshake_new_inner su sn ks local_static (Some peer_static_pub) session_context None now Ik Initiator"

definition initiator_ik_with_dtls where
  "initiator_ik_with_dtls su sn ks local_static peer_static_pub session_context commitment now =
     handshake_new_inner su sn ks local_static (Some peer_static_pub) session_context (Some commitment) now Ik Initiator"

definition responder_ik where
  "responder_ik su sn ks local_static session_context now =
     handshake_new_inner su sn ks local_static None session_context None now Ik Responder"

definition responder_ik_with_dtls where
  "responder_ik_with_dtls su sn ks local_static session_context commitment now =
     handshake_new_inner su sn ks local_static None session_context (Some commitment) now Ik Responder"

definition aborted :: crypto_error where
  "aborted = HandshakeFailed ''handshake already aborted''"

definition bind_payload :: "'h noise_handshake \<Rightarrow> bytes" where
  "bind_payload hs = (if nh_message_idx hs = nh_send_at hs
     then nh_local_ed25519_pub hs @ bind_encode (nh_local_bind_cert hs) else [])"

definition write_message :: "('h, 't) snow \<Rightarrow> 'h noise_handshake \<Rightarrow> 'h noise_handshake \<times> (crypto_error + bytes)" where
  "write_message sn hs =
     (if nh_failed hs then (hs, Err aborted) else
      case sn_write sn (nh_state hs) (bind_payload hs) of
        (st, None) \<Rightarrow> (hs\<lparr>nh_state := st, nh_failed := True\<rparr>, Err (HandshakeFailed ''snow write_message failed''))
      | (st, Some buf) \<Rightarrow> (hs\<lparr>nh_state := st, nh_message_idx := sat_add (nh_message_idx hs) 1\<rparr>, Ok buf))"

definition get_remote_static_now :: "('h, 't) snow \<Rightarrow> 'h noise_handshake \<Rightarrow> crypto_error + bytes" where
  "get_remote_static_now sn hs =
     and_then (ok_or (sn_remote_static sn (nh_state hs)) (HandshakeFailed ''remote static not available yet at BindCert receive time'')) (\<lambda>s.
     if length s \<noteq> 32 then Err (HandshakeFailed ''remote static is not 32 bytes'') else Ok s)"

definition read_message_bind_cert :: "suite \<Rightarrow> ('h, 't) snow \<Rightarrow> 'h noise_handshake \<Rightarrow> bytes \<Rightarrow> i64 \<Rightarrow> crypto_error + 'h noise_handshake" where
  "read_message_bind_cert su sn hs payload now =
     (if nh_message_idx hs = nh_receive_at hs then
        and_then (ok_or (get_range 0 32 payload) (mbc ''BindCert payload too short for Ed25519 pubkey prefix'')) (\<lambda>pubkey.
        and_then (ok_or (get_range 32 (length payload) payload) (mbc ''BindCert payload too short after Ed25519 pubkey prefix'')) (\<lambda>wire.
        and_then (from_public_key_bytes su pubkey) (\<lambda>peer_identity.
        and_then (bind_decode wire) (\<lambda>cert.
        and_then (get_remote_static_now sn hs) (\<lambda>live_static.
        and_then (bind_verify su cert peer_identity live_static now) (\<lambda>_.
        Ok (hs\<lparr>nh_peer_identity := Some peer_identity, nh_peer_bind_cert := Some cert\<rparr>)))))))
      else Ok hs)"

definition read_message :: "suite \<Rightarrow> ('h, 't) snow \<Rightarrow> 'h noise_handshake \<Rightarrow> bytes \<Rightarrow> i64 \<Rightarrow> 'h noise_handshake \<times> (crypto_error + unit)" where
  "read_message su sn hs msg now =
     (if nh_failed hs then (hs, Err aborted) else
      case sn_read sn (nh_state hs) msg of
        (st, None) \<Rightarrow> (hs\<lparr>nh_state := st, nh_failed := True\<rparr>, Err (HandshakeFailed ''snow read_message failed (MAC failure or state error)''))
      | (st, Some payload) \<Rightarrow>
        (case read_message_bind_cert su sn (hs\<lparr>nh_state := st\<rparr>) payload now of
           Inl e \<Rightarrow> (hs\<lparr>nh_state := st, nh_failed := True\<rparr>, Err e)
         | Inr hs' \<Rightarrow> (hs'\<lparr>nh_message_idx := sat_add (nh_message_idx hs') 1\<rparr>, Ok ())))"

definition complete :: "crypto \<Rightarrow> ('h, 't) snow \<Rightarrow> 'h noise_handshake \<Rightarrow> keystore \<Rightarrow> crypto_error + 't handshake_outcome" where
  "complete cr sn hs ks =
     (if nh_failed hs then Err aborted
      else if \<not> sn_finished sn (nh_state hs) then Err (HandshakeFailed ''handshake not yet complete'') else
      and_then (ok_or (nh_peer_identity hs) (HandshakeFailed ''peer BindCert was never received or verified'')) (\<lambda>peer_identity.
      and_then (ok_or (nh_peer_bind_cert hs) (HandshakeFailed ''peer BindCert was never received or verified'')) (\<lambda>peer_bind_cert.
      and_then (is_trusted ks peer_identity) (\<lambda>trusted.
      if \<not> trusted then Err UntrustedPeer else
      let h = sn_hash sn (nh_state hs) in
      if length h \<noteq> 32 then Err (HandshakeFailed ''handshake hash is not 32 bytes (expected SHA-256)'') else
      and_then (ok_or (sn_split sn (nh_state hs)) (HandshakeFailed ''snow into_transport_mode failed'')) (\<lambda>transport.
      and_then (noise_session_new cr transport h) (\<lambda>session.
      Ok \<lparr>ho_transport = session, ho_handshake_hash = h, ho_peer_identity = peer_identity, ho_peer_bind_cert = peer_bind_cert,
          ho_role = nh_role hs, ho_pattern = nh_pattern hs\<rparr>))))))"

definition is_finished :: "('h, 't) snow \<Rightarrow> 'h noise_handshake \<Rightarrow> bool" where
  "is_finished sn hs \<longleftrightarrow> \<not> nh_failed hs \<and> sn_finished sn (nh_state hs)"

subsection \<open>What an outcome guarantees\<close>

text \<open>Any use of the handshake: writes and reads of arbitrary messages at arbitrary times.\<close>

datatype noise_op = OpWrite | OpRead bytes i64

definition noise_step :: "suite \<Rightarrow> ('h, 't) snow \<Rightarrow> 'h noise_handshake \<Rightarrow> noise_op \<Rightarrow> 'h noise_handshake \<times> bool" where
  "noise_step su sn hs op = (case op of
     OpWrite \<Rightarrow> (case write_message sn hs of (hs', r) \<Rightarrow> (hs', is_ok r))
   | OpRead msg now \<Rightarrow> (case read_message su sn hs msg now of (hs', r) \<Rightarrow> (hs', is_ok r)))"

definition noise_run :: "suite \<Rightarrow> ('h, 't) snow \<Rightarrow> 'h noise_handshake \<Rightarrow> noise_op list \<Rightarrow> 'h noise_handshake \<times> bool" where
  "noise_run su sn hs ops = foldl (\<lambda>(hs, ok) op. case noise_step su sn hs op of (hs', ok') \<Rightarrow> (hs', ok \<and> ok')) (hs, True) ops"

lemma noise_run_snoc:
  "noise_run su sn hs (ops @ [op]) = (case noise_step su sn (fst (noise_run su sn hs ops)) op of (hs', ok) \<Rightarrow> (hs', snd (noise_run su sn hs ops) \<and> ok))"
  by (simp add: noise_run_def split: prod.splits)

lemma read_bind_cert_Ok:
  assumes "read_message_bind_cert su sn hs payload now = Inr hs'"
  shows "nh_message_idx hs \<noteq> nh_receive_at hs \<and> hs' = hs
    \<or> (\<exists>d c live. hs' = hs\<lparr>nh_peer_identity := Some d, nh_peer_bind_cert := Some c\<rparr> \<and> sn_remote_static sn (nh_state hs) = Some live
        \<and> bind_verify su c d live now = Inr () \<and> wf_cert c \<and> d = from_verifying_key su (di_key d))"
proof (cases "nh_message_idx hs = nh_receive_at hs")
  case True
  then obtain k c live where "hs' = hs\<lparr>nh_peer_identity := Some (from_verifying_key su k), nh_peer_bind_cert := Some c\<rparr>"
      "sn_remote_static sn (nh_state hs) = Some live" "bind_verify su c (from_verifying_key su k) live now = Inr ()" "wf_cert c"
    using assms by (auto simp: read_message_bind_cert_def get_remote_static_now_def from_public_key_bytes_def dest!: bind_decode_exact split: if_splits)
  moreover have "from_verifying_key su k = from_verifying_key su (di_key (from_verifying_key su k))" by (simp add: from_verifying_key_def)
  ultimately show ?thesis by blast
next
  case False
  then show ?thesis using assms by (simp add: read_message_bind_cert_def)
qed

lemma noise_step_failed:
  assumes "noise_step su sn hs op = (hs', ok)"
  shows "nh_failed hs' \<longleftrightarrow> nh_failed hs \<or> \<not> ok"
proof (cases op)
  case OpWrite
  then show ?thesis using assms by (auto simp: noise_step_def write_message_def split: prod.splits option.splits if_splits)
next
  case (OpRead msg now)
  then show ?thesis using assms
    by (auto simp: noise_step_def read_message_def dest!: read_bind_cert_Ok split: prod.splits option.splits if_splits sum.splits)
qed

lemma noise_step_peer:
  assumes "noise_step su sn hs op = (hs', ok)" and "nh_peer_identity hs' = Some d"
  shows "nh_peer_identity hs = Some d \<and> nh_peer_bind_cert hs' = nh_peer_bind_cert hs
    \<or> (\<exists>msg now c live. op = OpRead msg now \<and> nh_peer_bind_cert hs' = Some c \<and> sn_remote_static sn (nh_state hs') = Some live
        \<and> bind_verify su c d live now = Inr () \<and> wf_cert c \<and> d = from_verifying_key su (di_key d))"
proof (cases op)
  case OpWrite
  then show ?thesis using assms by (auto simp: noise_step_def write_message_def split: prod.splits option.splits if_splits)
next
  case (OpRead msg now)
  then show ?thesis using assms
    by (auto simp: noise_step_def read_message_def dest!: read_bind_cert_Ok split: prod.splits option.splits if_splits sum.splits)
qed

lemma noise_run_failed:
  assumes "\<not> nh_failed hs"
  shows "nh_failed (fst (noise_run su sn hs ops)) \<longleftrightarrow> \<not> snd (noise_run su sn hs ops)"
proof (induction ops rule: rev_induct)
  case (snoc op ops)
  then show ?case using noise_step_failed [of su sn "fst (noise_run su sn hs ops)" op]
    by (auto simp: noise_run_snoc split: prod.splits)
qed (simp add: noise_run_def assms)

text \<open>The certificate was verified right after the \<open>i\<close>-th operation, against the static key of the handshake.\<close>

definition verified_at :: "suite \<Rightarrow> ('h, 't) snow \<Rightarrow> 'h noise_handshake \<Rightarrow> noise_op list \<Rightarrow> nat \<Rightarrow> device_identity \<Rightarrow> bind_cert \<Rightarrow> bool" where
  "verified_at su sn hs ops i d c \<longleftrightarrow> i < length ops \<and> (\<exists>msg now live. ops ! i = OpRead msg now
     \<and> sn_remote_static sn (nh_state (fst (noise_run su sn hs (take (Suc i) ops)))) = Some live
     \<and> bind_verify su c d live now = Inr () \<and> wf_cert c \<and> d = from_verifying_key su (di_key d))"

lemma verified_at_snoc: "verified_at su sn hs ops i d c \<Longrightarrow> verified_at su sn hs (ops @ [op]) i d c"
  by (auto simp: verified_at_def nth_append)

lemma noise_run_peer:
  assumes "nh_peer_identity hs = None" and "nh_peer_identity (fst (noise_run su sn hs ops)) = Some d"
  shows "\<exists>i c. nh_peer_bind_cert (fst (noise_run su sn hs ops)) = Some c \<and> verified_at su sn hs ops i d c"
  using assms(2)
proof (induction ops rule: rev_induct)
  case Nil
  then show ?case using assms(1) by (simp add: noise_run_def)
next
  case (snoc op ops)
  obtain hs' ok where s: "noise_step su sn (fst (noise_run su sn hs ops)) op = (hs', ok)" by (cases "noise_step su sn (fst (noise_run su sn hs ops)) op")
  have r: "fst (noise_run su sn hs (ops @ [op])) = hs'" by (simp add: noise_run_snoc s)
  have "nh_peer_identity hs' = Some d" using snoc.prems r by simp
  from noise_step_peer [OF s this] show ?case
  proof
    assume "nh_peer_identity (fst (noise_run su sn hs ops)) = Some d \<and> nh_peer_bind_cert hs' = nh_peer_bind_cert (fst (noise_run su sn hs ops))"
    then show ?thesis using snoc.IH verified_at_snoc r by metis
  next
    assume "\<exists>msg now c live. op = OpRead msg now \<and> nh_peer_bind_cert hs' = Some c \<and> sn_remote_static sn (nh_state hs') = Some live
        \<and> bind_verify su c d live now = Inr () \<and> wf_cert c \<and> d = from_verifying_key su (di_key d)"
    then obtain msg now c live where "op = OpRead msg now" "nh_peer_bind_cert hs' = Some c" "sn_remote_static sn (nh_state hs') = Some live"
        "bind_verify su c d live now = Inr ()" "wf_cert c" "d = from_verifying_key su (di_key d)" by blast
    then have "verified_at su sn hs (ops @ [op]) (length ops) d c" using r by (auto simp: verified_at_def)
    then show ?thesis using r \<open>nh_peer_bind_cert hs' = Some c\<close> by blast
  qed
qed

lemma new_inner_fresh:
  assumes "handshake_new_inner su sn ks local_static peer_static_pub ctx commitment t pattern role = Inr hs"
  shows "nh_peer_identity hs = None" and "\<not> nh_failed hs"
  using assms by (auto simp: handshake_new_inner_def)

text \<open>
  C12. Whatever messages a handshake is fed, an outcome comes only from a run without a single error;
  its peer is trusted by the keystore, and the peer's device key signed a certificate for exactly
  the static key that this handshake authenticated, in force when it was read.
\<close>

theorem outcome_authenticated:
  assumes "handshake_new_inner su sn ks local_static peer_static_pub ctx commitment t pattern role = Inr hs"
    and "complete cr sn (fst (noise_run su sn hs ops)) ks' = Inr oc"
  shows "snd (noise_run su sn hs ops) \<and> is_trusted ks' (ho_peer_identity oc) = Inr True
    \<and> (\<exists>i msg now live. i < length ops \<and> ops ! i = OpRead msg now
        \<and> sn_remote_static sn (nh_state (fst (noise_run su sn hs (take (Suc i) ops)))) = Some live
        \<and> ho_peer_identity oc = from_verifying_key su (di_key (ho_peer_identity oc))
        \<and> s_verify su (di_key (ho_peer_identity oc)) (bind_build_tbs (bc_fields (ho_peer_bind_cert oc))) (bc_signature (ho_peer_bind_cert oc))
        \<and> tf_noise_static (bc_fields (ho_peer_bind_cert oc)) = live
        \<and> sint (tf_issued_at (bc_fields (ho_peer_bind_cert oc))) \<le> sint now + 300
        \<and> sint now < sint (tf_not_after (bc_fields (ho_peer_bind_cert oc))))"
proof -
  let ?hs = "fst (noise_run su sn hs ops)"
  note f = new_inner_fresh [OF assms(1)]
  have c: "\<not> nh_failed ?hs" "nh_peer_identity ?hs = Some (ho_peer_identity oc)" "nh_peer_bind_cert ?hs = Some (ho_peer_bind_cert oc)"
      "is_trusted ks' (ho_peer_identity oc) = Inr True"
    using assms(2) by (auto simp: complete_def Let_def noise_session_new_def split: if_splits)
  obtain i where "verified_at su sn hs ops i (ho_peer_identity oc) (ho_peer_bind_cert oc)"
    using noise_run_peer [OF f(1) c(2)] c(3) by auto
  then show ?thesis using c noise_run_failed [OF f(2), of su sn ops]
    by (auto simp: verified_at_def bind_verify_Ok wf_cert_def)
qed

subsection \<open>Two peers\<close>

text \<open>
  What the Noise specification promises for the two patterns: a payload written by one side is read
  by the other, each side learns the static key of the other with the message that carries it, and
  after the last message both sides are finished with the same 32-byte hash.
\<close>

definition delivers :: "('h, 't) snow \<Rightarrow> 'h \<Rightarrow> 'h \<Rightarrow> bytes \<Rightarrow> 'h \<Rightarrow> 'h \<Rightarrow> bool" where
  "delivers sn h g p h' g' \<longleftrightarrow> (\<exists>m. sn_write sn h p = (h', Some m) \<and> sn_read sn g m = (g', Some p))"

definition agreed :: "('h, 't) snow \<Rightarrow> 'h \<Rightarrow> 'h \<Rightarrow> bool" where
  "agreed sn h g \<longleftrightarrow> sn_finished sn h \<and> sn_finished sn g \<and> sn_hash sn h = sn_hash sn g \<and> length (sn_hash sn h) = 32
     \<and> sn_split sn h \<noteq> None \<and> sn_split sn g \<noteq> None"

definition noise_correct :: "('h, 't) snow \<Rightarrow> bool" where
  "noise_correct sn \<longleftrightarrow> (\<forall>s. length (sn_public sn s) = 32)
     \<and> (\<forall>si sr pro h0 g0 p0 p1 p2. sn_build sn (pattern_name Xk) si (Some (sn_public sn sr)) pro True = Some h0
          \<longrightarrow> sn_build sn (pattern_name Xk) sr None pro False = Some g0
          \<longrightarrow> length p0 \<le> 65000 \<longrightarrow> length p1 \<le> 65000 \<longrightarrow> length p2 \<le> 65000 \<longrightarrow>
          (\<exists>h1 g1 g2 h2 h3 g3. delivers sn h0 g0 p0 h1 g1 \<and> delivers sn g1 h1 p1 g2 h2 \<and> sn_remote_static sn h2 = Some (sn_public sn sr)
             \<and> delivers sn h2 g2 p2 h3 g3 \<and> sn_remote_static sn g3 = Some (sn_public sn si) \<and> agreed sn h3 g3))
     \<and> (\<forall>si sr pro h0 g0 p0 p1. sn_build sn (pattern_name Ik) si (Some (sn_public sn sr)) pro True = Some h0
          \<longrightarrow> sn_build sn (pattern_name Ik) sr None pro False = Some g0
          \<longrightarrow> length p0 \<le> 65000 \<longrightarrow> length p1 \<le> 65000 \<longrightarrow>
          (\<exists>h1 g1 g2 h2. delivers sn h0 g0 p0 h1 g1 \<and> sn_remote_static sn g1 = Some (sn_public sn si)
             \<and> delivers sn g1 h1 p1 g2 h2 \<and> sn_remote_static sn h2 = Some (sn_public sn sr) \<and> agreed sn h2 g2))"

lemma noise_correct_Xk:
  assumes "noise_correct sn" and "sn_build sn (pattern_name Xk) si (Some (sn_public sn sr)) pro True = Some h0"
    and "sn_build sn (pattern_name Xk) sr None pro False = Some g0" and "length p0 \<le> 65000" and "length p1 \<le> 65000" and "length p2 \<le> 65000"
  shows "\<exists>h1 g1 g2 h2 h3 g3. delivers sn h0 g0 p0 h1 g1 \<and> delivers sn g1 h1 p1 g2 h2 \<and> sn_remote_static sn h2 = Some (sn_public sn sr)
    \<and> delivers sn h2 g2 p2 h3 g3 \<and> sn_remote_static sn g3 = Some (sn_public sn si) \<and> agreed sn h3 g3"
  using assms unfolding noise_correct_def by blast

lemma noise_correct_Ik:
  assumes "noise_correct sn" and "sn_build sn (pattern_name Ik) si (Some (sn_public sn sr)) pro True = Some h0"
    and "sn_build sn (pattern_name Ik) sr None pro False = Some g0" and "length p0 \<le> 65000" and "length p1 \<le> 65000"
  shows "\<exists>h1 g1 g2 h2. delivers sn h0 g0 p0 h1 g1 \<and> sn_remote_static sn g1 = Some (sn_public sn si)
    \<and> delivers sn g1 h1 p1 g2 h2 \<and> sn_remote_static sn h2 = Some (sn_public sn sr) \<and> agreed sn h2 g2"
  using assms unfolding noise_correct_def by blast

text \<open>
  An instance of the parameter for concrete inputs: messages carry the payload in the clear, after
  the static key where the pattern sends it.
\<close>

record plain_noise =
  pn_static_at :: nat
  pn_initiator :: bool
  pn_public :: bytes
  pn_remote :: "bytes option"
  pn_idx :: nat

definition plain_snow :: "(plain_noise, unit) snow" where
  "plain_snow = \<lparr>sn_public = pad_to 32, sn_parse = (\<lambda>_. True),
     sn_build = (\<lambda>name s remote pro initiator. Some \<lparr>pn_static_at = (if name = pattern_name Xk then 2 else 0), pn_initiator = initiator,
       pn_public = pad_to 32 s, pn_remote = remote, pn_idx = 0\<rparr>),
     sn_write = (\<lambda>h p. (h\<lparr>pn_idx := pn_idx h + 1\<rparr>, Some ((if pn_initiator h \<and> pn_idx h = pn_static_at h then pn_public h else []) @ p))),
     sn_read = (\<lambda>h m. if \<not> pn_initiator h \<and> pn_idx h = pn_static_at h
       then if length m < 32 then (h, None) else (h\<lparr>pn_idx := pn_idx h + 1, pn_remote := Some (take 32 m)\<rparr>, Some (drop 32 m))
       else (h\<lparr>pn_idx := pn_idx h + 1\<rparr>, Some m)),
     sn_finished = (\<lambda>h. pn_idx h = (if pn_static_at h = 2 then 3 else 2)), sn_remote_static = pn_remote,
     sn_hash = (\<lambda>_. replicate 32 7), sn_split = (\<lambda>_. Some ()), sn_encrypt = (\<lambda>t m n. (t, Some m)), sn_decrypt = (\<lambda>t m n. (t, Some m))\<rparr>"

lemma plain_snow_correct: "noise_correct plain_snow"
  by (simp add: noise_correct_def delivers_def agreed_def plain_snow_def pattern_name_def)

definition exchange :: "suite \<Rightarrow> ('h, 't) snow \<Rightarrow> i64 \<Rightarrow> 'h noise_handshake \<Rightarrow> 'h noise_handshake
    \<Rightarrow> crypto_error + 'h noise_handshake \<times> 'h noise_handshake" where
  "exchange su sn now a b =
     (case write_message sn a of
        (_, Inl e) \<Rightarrow> Err e
      | (a', Inr m) \<Rightarrow> (case read_message su sn b m now of (_, Inl e) \<Rightarrow> Err e | (b', Inr _) \<Rightarrow> Ok (a', b')))"

definition run_handshake :: "suite \<Rightarrow> ('h, 't) snow \<Rightarrow> i64 \<Rightarrow> noise_pattern \<Rightarrow> 'h noise_handshake \<Rightarrow> 'h noise_handshake
    \<Rightarrow> crypto_error + 'h noise_handshake \<times> 'h noise_handshake" where
  "run_handshake su sn now p i r =
     and_then (exchange su sn now i r) (\<lambda>(i1, r1).
     and_then (exchange su sn now r1 i1) (\<lambda>(r2, i2).
     case p of Ik \<Rightarrow> Ok (i2, r2) | Xk \<Rightarrow> exchange su sn now i2 r2))"

text \<open>A keystore made from a signing key, whatever peers it trusts or has revoked.\<close>

definition holds_key :: "suite \<Rightarrow> bytes \<Rightarrow> keystore \<Rightarrow> bool" where
  "holds_key su sk ks \<longleftrightarrow> ks_signing_key ks = sk \<and> ks_identity ks = from_verifying_key su (s_public su sk)"

text \<open>The certificate is in force: read no earlier than 300 seconds before its issue and before its end.\<close>

definition in_force :: "i64 \<Rightarrow> i64 \<Rightarrow> bool" where
  "in_force issued now \<longleftrightarrow> sint issued \<le> sint now + 300 \<and> sint now < sint issued + 86400 \<and> sint now < 2 ^ 63 - 1"

lemma make_bind_cert_Ok:
  assumes "sha_total su" and "sign_correct su" and "holds_key su sk ks" and "length ns = 32"
    and "\<forall>c. commitment = Some c \<longrightarrow> length (dc_commit c) = 32" and "make_bind_cert su ks ns commitment t = Inr c"
  shows "wf_cert c" and "in_force t now \<Longrightarrow> bind_verify su c (from_verifying_key su (s_public su sk)) ns now = Inr ()"
    and "bc_fields c = \<lparr>tf_device_id_digest = s_sha su (s_public su sk), tf_noise_static = ns,
      tf_dtls_fpr_alg = (case commitment of None \<Rightarrow> DTLS_FPR_ALG_NONE | Some d \<Rightarrow> dc_alg d),
      tf_dtls_fpr_commit = (case commitment of None \<Rightarrow> replicate 32 0 | Some d \<Rightarrow> dc_commit d),
      tf_platform_attest = [], tf_not_after = i64_sat_add t BIND_CERT_VALIDITY_SECS, tf_issued_at = t\<rparr>"
proof -
  define b where "b = (case commitment of None \<Rightarrow> builder_valid_for_secs (builder_noise_static (builder_new ks) ns) BIND_CERT_VALIDITY_SECS
    | Some c \<Rightarrow> builder_dtls_commitment (builder_valid_for_secs (builder_noise_static (builder_new ks) ns) BIND_CERT_VALIDITY_SECS) c)"
  have b: "bb_keystore b = ks" "bb_noise_static b = Some ns" "bb_valid_for_secs b = Some BIND_CERT_VALIDITY_SECS" "bb_platform_attest b = []"
      "bb_dtls_fpr_alg b = (case commitment of None \<Rightarrow> DTLS_FPR_ALG_NONE | Some d \<Rightarrow> dc_alg d)"
      "bb_dtls_fpr_commit b = (case commitment of None \<Rightarrow> replicate 32 0 | Some d \<Rightarrow> dc_commit d)"
    by (simp_all add: b_def builder_dtls_commitment_def builder_valid_for_secs_def builder_noise_static_def builder_new_def split: option.splits)
  have bb: "builder_build su b t = Inr c" using assms(6) by (simp add: make_bind_cert_def b_def Let_def)
  obtain ns' secs where B: "bb_noise_static b = Some ns'" "bb_valid_for_secs b = Some secs"
    "bc_fields c = \<lparr>tf_device_id_digest = s_sha su (di_key (ks_identity (bb_keystore b))), tf_noise_static = ns',
       tf_dtls_fpr_alg = bb_dtls_fpr_alg b, tf_dtls_fpr_commit = bb_dtls_fpr_commit b,
       tf_platform_attest = bb_platform_attest b, tf_not_after = i64_sat_add t secs, tf_issued_at = t\<rparr>"
    "bc_tbs_bytes c = bind_build_tbs (bc_fields c)"
    "bc_signature c = s_sign su (ks_signing_key (bb_keystore b)) (bc_tbs_bytes c)"
    "length ns' = 32 \<Longrightarrow> length (bb_dtls_fpr_commit b) = 32 \<Longrightarrow> sha_total su \<Longrightarrow> wf_tbs (bc_fields c)"
    using builder_build_Ok [OF bb] by metis
  have k: "ks_signing_key ks = sk" "di_key (ks_identity ks) = s_public su sk" using assms(3) by (simp_all add: holds_key_def from_verifying_key_def)
  have "length (bb_dtls_fpr_commit b) = 32" using b(6) assms(5) by (simp split: option.splits)
  then show wf: "wf_cert c" using B b assms(1,2,4) k by (simp add: wf_cert_def sign_correct_def)
  show f: "bc_fields c = \<lparr>tf_device_id_digest = s_sha su (s_public su sk), tf_noise_static = ns,
      tf_dtls_fpr_alg = (case commitment of None \<Rightarrow> DTLS_FPR_ALG_NONE | Some d \<Rightarrow> dc_alg d),
      tf_dtls_fpr_commit = (case commitment of None \<Rightarrow> replicate 32 0 | Some d \<Rightarrow> dc_commit d),
      tf_platform_attest = [], tf_not_after = i64_sat_add t BIND_CERT_VALIDITY_SECS, tf_issued_at = t\<rparr>"
    using B(1-3) b k by simp
  assume "in_force t now"
  then show "bind_verify su c (from_verifying_key su (s_public su sk)) ns now = Inr ()"
    using assms(2) B(4,5) b(1) k f
    by (auto simp: bind_verify_Ok from_verifying_key_def sign_correct_def in_force_def sat_simps i64_clamp_def BIND_CERT_VALIDITY_SECS_def)
qed

lemma exchange_plain:
  assumes "\<not> nh_failed a" and "\<not> nh_failed b" and "delivers sn (nh_state a) (nh_state b) (bind_payload a) st st'"
    and "nh_message_idx b \<noteq> nh_receive_at b"
  shows "exchange su sn now a b = Inr (a\<lparr>nh_state := st, nh_message_idx := sat_add (nh_message_idx a) 1\<rparr>,
    b\<lparr>nh_state := st', nh_message_idx := sat_add (nh_message_idx b) 1\<rparr>)"
proof -
  obtain m where m: "sn_write sn (nh_state a) (bind_payload a) = (st, Some m)" "sn_read sn (nh_state b) m = (st', Some (bind_payload a))"
    using assms(3) unfolding delivers_def by blast
  have "write_message sn a = (a\<lparr>nh_state := st, nh_message_idx := sat_add (nh_message_idx a) 1\<rparr>, Inr m)"
    using assms(1) m(1) by (simp add: write_message_def)
  moreover have "read_message su sn b m now = (b\<lparr>nh_state := st', nh_message_idx := sat_add (nh_message_idx b) 1\<rparr>, Inr ())"
    using assms(2,4) m(2) by (simp add: read_message_def read_message_bind_cert_def)
  ultimately show ?thesis by (simp add: exchange_def)
qed

lemma exchange_cert:
  assumes "\<not> nh_failed a" and "\<not> nh_failed b" and "delivers sn (nh_state a) (nh_state b) (bind_payload a) st st'"
    and "nh_message_idx b = nh_receive_at b" and "nh_message_idx a = nh_send_at a"
    and "nh_local_ed25519_pub a = s_public su sk" and "sign_correct su" and "wf_cert (nh_local_bind_cert a)"
    and "sn_remote_static sn st' = Some live" and "length live = 32"
    and "bind_verify su (nh_local_bind_cert a) (from_verifying_key su (s_public su sk)) live now = Inr ()"
  shows "exchange su sn now a b = Inr (a\<lparr>nh_state := st, nh_message_idx := sat_add (nh_message_idx a) 1\<rparr>,
    b\<lparr>nh_state := st', nh_peer_identity := Some (from_verifying_key su (s_public su sk)), nh_peer_bind_cert := Some (nh_local_bind_cert a),
      nh_message_idx := sat_add (nh_message_idx b) 1\<rparr>)"
proof -
  have p: "bind_payload a = s_public su sk @ bind_encode (nh_local_bind_cert a)" using assms(5,6) by (simp add: bind_payload_def)
  have l: "length (s_public su sk) = 32" and i: "from_public_key_bytes su (s_public su sk) = Inr (from_verifying_key su (s_public su sk))"
    using assms(7) by (simp_all add: sign_correct_def from_public_key_bytes_def)
  have "read_message_bind_cert su sn (b\<lparr>nh_state := st'\<rparr>) (bind_payload a) now =
      Inr (b\<lparr>nh_state := st', nh_peer_identity := Some (from_verifying_key su (s_public su sk)), nh_peer_bind_cert := Some (nh_local_bind_cert a)\<rparr>)"
    using assms(4,9-11) l i bind_decode_encode [OF assms(8)]
    by (simp add: read_message_bind_cert_def get_remote_static_now_def p get_range_def del: and_then_eq_Ok)
  moreover obtain m where m: "sn_write sn (nh_state a) (bind_payload a) = (st, Some m)" "sn_read sn (nh_state b) m = (st', Some (bind_payload a))"
    using assms(3) unfolding delivers_def by blast
  ultimately have "read_message su sn b m now = (b\<lparr>nh_state := st', nh_peer_identity := Some (from_verifying_key su (s_public su sk)),
      nh_peer_bind_cert := Some (nh_local_bind_cert a), nh_message_idx := sat_add (nh_message_idx b) 1\<rparr>, Inr ())"
    using assms(2) by (simp add: read_message_def)
  moreover have "write_message sn a = (a\<lparr>nh_state := st, nh_message_idx := sat_add (nh_message_idx a) 1\<rparr>, Inr m)"
    using assms(1) m(1) by (simp add: write_message_def)
  ultimately show ?thesis by (simp add: exchange_def)
qed

lemma wf_cert_length: "wf_cert c \<Longrightarrow> length (bind_encode c) \<le> 4293"
  by (auto simp: wf_cert_def bind_encode_def signature_encode_def) (simp add: wf_tbs_def)

text \<open>What a peer brings to the handshake.\<close>

definition honest :: "suite \<Rightarrow> ('h, 't) snow \<Rightarrow> noise_pattern \<Rightarrow> handshake_role \<Rightarrow> bytes \<Rightarrow> keystore \<Rightarrow> bytes \<Rightarrow> bytes option \<Rightarrow> bytes
    \<Rightarrow> dtls_commitment option \<Rightarrow> i64 \<Rightarrow> i64 \<Rightarrow> 'h noise_handshake \<Rightarrow> bool" where
  "honest su sn p role sk ks s remote ctx commitment issued now hs \<longleftrightarrow> holds_key su sk ks
     \<and> (\<forall>c. commitment = Some c \<longrightarrow> length (dc_commit c) = 32) \<and> in_force issued now
     \<and> handshake_new_inner su sn ks s remote ctx commitment issued p role = Inr hs"

lemma honest_state:
  assumes "honest su sn p role sk ks s remote ctx commitment issued now hs" and "sha_total su" and "sign_correct su" and "noise_correct sn"
  shows "sn_build sn (pattern_name p) s remote (build_prologue (pattern_id p) ctx) (role = Initiator) = Some (nh_state hs)"
    and "wf_cert (nh_local_bind_cert hs)"
    and "bind_verify su (nh_local_bind_cert hs) (from_verifying_key su (s_public su sk)) (sn_public sn s) now = Inr ()"
    and "dtls_pin (nh_local_bind_cert hs) = (case commitment of None \<Rightarrow> None | Some c \<Rightarrow> if dc_alg c = DTLS_FPR_ALG_SHA256 then Some (dc_alg c, dc_commit c) else None)"
    and "nh_local_ed25519_pub hs = s_public su sk" and "\<not> nh_failed hs" and "nh_message_idx hs = 0"
    and "nh_send_at hs = send_bind_cert_at role p" and "nh_receive_at hs = receive_bind_cert_at role p"
    and "nh_role hs = role" and "nh_pattern hs = p"
proof -
  have l: "length (sn_public sn s) = 32" using assms(4) by (simp add: noise_correct_def)
  have h: "holds_key su sk ks" "\<forall>c. commitment = Some c \<longrightarrow> length (dc_commit c) = 32" "in_force issued now"
      "handshake_new_inner su sn ks s remote ctx commitment issued p role = Inr hs"
    using assms(1) by (simp_all add: honest_def)
  have m: "make_bind_cert su ks (sn_public sn s) commitment issued = Inr (nh_local_bind_cert hs)"
    using h(4) by (auto simp: handshake_new_inner_def)
  note M = make_bind_cert_Ok [OF assms(2,3) h(1) l h(2) m]
  show "wf_cert (nh_local_bind_cert hs)" by (rule M(1))
  show "bind_verify su (nh_local_bind_cert hs) (from_verifying_key su (s_public su sk)) (sn_public sn s) now = Inr ()" by (rule M(2) [OF h(3)])
  show "dtls_pin (nh_local_bind_cert hs) = (case commitment of None \<Rightarrow> None | Some c \<Rightarrow> if dc_alg c = DTLS_FPR_ALG_SHA256 then Some (dc_alg c, dc_commit c) else None)"
    using M(3) by (simp add: dtls_pin_def DTLS_FPR_ALG_NONE_def DTLS_FPR_ALG_SHA256_def split: option.splits)
  show "nh_local_ed25519_pub hs = s_public su sk"
    using h(1,4) by (auto simp: handshake_new_inner_def holds_key_def ks_device_identity_def from_verifying_key_def)
qed (use assms(1) in \<open>auto simp: honest_def handshake_new_inner_def build_snow_state_def split: if_splits\<close>)

lemma complete_Ok:
  assumes "\<not> nh_failed hs" and "nh_peer_identity hs = Some d" and "nh_peer_bind_cert hs = Some c" and "is_trusted ks d = Inr True"
    and "sn_finished sn (nh_state hs)" and "length (sn_hash sn (nh_state hs)) = 32" and "sn_split sn (nh_state hs) \<noteq> None"
  shows "\<exists>oc. complete cr sn hs ks = Inr oc \<and> ho_peer_identity oc = d \<and> ho_peer_bind_cert oc = c \<and> ho_handshake_hash oc = sn_hash sn (nh_state hs)
    \<and> ns_prk (ho_transport oc) = noise_session_prk cr (sn_hash sn (nh_state hs)) \<and> ho_role oc = nh_role hs \<and> ho_pattern oc = nh_pattern hs"
proof -
  obtain t where "sn_split sn (nh_state hs) = Some t" using assms(7) by blast
  then show ?thesis using assms(1-6) by (simp add: complete_def noise_session_new_def Let_def del: and_then_eq_Ok)
qed

text \<open>Where both sides stand after the last message.\<close>

definition handshake_ends :: "suite \<Rightarrow> ('h, 't) snow \<Rightarrow> bytes \<Rightarrow> 'h noise_handshake \<Rightarrow> 'h noise_handshake \<Rightarrow> 'h noise_handshake \<Rightarrow> bool" where
  "handshake_ends su sn sk peer hs hs' \<longleftrightarrow> \<not> nh_failed hs' \<and> nh_peer_identity hs' = Some (from_verifying_key su (s_public su sk))
     \<and> nh_peer_bind_cert hs' = Some (nh_local_bind_cert peer) \<and> nh_role hs' = nh_role hs \<and> nh_pattern hs' = nh_pattern hs"

lemma run_handshake_Ok:
  assumes su: "sha_total su" "sign_correct su" and sn: "noise_correct sn"
    and i: "honest su sn p Initiator ski ksi si (Some (sn_public sn sr)) ctx ci ti now hi"
    and r: "honest su sn p Responder skr ksr sr None ctx cr' tr now hr"
  shows "\<exists>hi' hr'. run_handshake su sn now p hi hr = Inr (hi', hr') \<and> agreed sn (nh_state hi') (nh_state hr')
    \<and> handshake_ends su sn skr hr hi hi' \<and> handshake_ends su sn ski hi hr hr'"
proof -
  note I = honest_state [OF i su sn] and R = honest_state [OF r su sn]
  have ln: "length (sn_public sn s) = 32" for s using sn by (simp add: noise_correct_def)
  have sa: "sat_add 0 1 = (1 :: u8)" "sat_add 1 1 = (2 :: u8)" by (simp_all add: sat_add_def)
  define ei where "ei = s_public su ski @ bind_encode (nh_local_bind_cert hi)"
  define er where "er = s_public su skr @ bind_encode (nh_local_bind_cert hr)"
  have len: "length ei \<le> 65000" "length er \<le> 65000"
    using wf_cert_length [OF I(2)] wf_cert_length [OF R(2)] su(2) by (simp_all add: ei_def er_def sign_correct_def)
  show ?thesis
  proof (cases p)
    case Xk
    obtain h1 g1 g2 h2 h3 g3 where d: "delivers sn (nh_state hi) (nh_state hr) [] h1 g1" "delivers sn g1 h1 er g2 h2"
        "sn_remote_static sn h2 = Some (sn_public sn sr)" "delivers sn h2 g2 ei h3 g3" "sn_remote_static sn g3 = Some (sn_public sn si)" "agreed sn h3 g3"
      using noise_correct_Xk [OF sn I(1) [unfolded Xk, simplified] R(1) [unfolded Xk, simplified] _ len(2,1), of "[]"] by auto
    have e1: "exchange su sn now hi hr = Inr (hi\<lparr>nh_state := h1, nh_message_idx := 1\<rparr>, hr\<lparr>nh_state := g1, nh_message_idx := 1\<rparr>)"
      using I R d(1) by (subst exchange_plain [where st = h1 and st' = g1]) (simp_all add: Xk bind_payload_def sa)
    have e2: "exchange su sn now (hr\<lparr>nh_state := g1, nh_message_idx := 1\<rparr>) (hi\<lparr>nh_state := h1, nh_message_idx := 1\<rparr>) =
        Inr (hr\<lparr>nh_state := g2, nh_message_idx := 2\<rparr>, hi\<lparr>nh_state := h2, nh_peer_identity := Some (from_verifying_key su (s_public su skr)),
          nh_peer_bind_cert := Some (nh_local_bind_cert hr), nh_message_idx := 2\<rparr>)"
      using I R d(2,3) ln su(2)
      by (subst exchange_cert [where st = g2 and st' = h2 and sk = skr and live = "sn_public sn sr"]) (simp_all add: Xk bind_payload_def sa er_def)
    have e3: "exchange su sn now (hi\<lparr>nh_state := h2, nh_peer_identity := Some (from_verifying_key su (s_public su skr)),
          nh_peer_bind_cert := Some (nh_local_bind_cert hr), nh_message_idx := 2\<rparr>) (hr\<lparr>nh_state := g2, nh_message_idx := 2\<rparr>) =
        Inr (hi\<lparr>nh_state := h3, nh_peer_identity := Some (from_verifying_key su (s_public su skr)),
          nh_peer_bind_cert := Some (nh_local_bind_cert hr), nh_message_idx := sat_add 2 1\<rparr>,
          hr\<lparr>nh_state := g3, nh_peer_identity := Some (from_verifying_key su (s_public su ski)),
          nh_peer_bind_cert := Some (nh_local_bind_cert hi), nh_message_idx := sat_add 2 1\<rparr>)"
      using I R d(4,5) ln su(2)
      by (subst exchange_cert [where st = h3 and st' = g3 and sk = ski and live = "sn_public sn si"]) (simp_all add: Xk bind_payload_def ei_def)
    show ?thesis using I R d(6) unfolding run_handshake_def Xk by (simp add: e1 e2 e3 handshake_ends_def)
  next
    case Ik
    obtain h1 g1 g2 h2 where d: "delivers sn (nh_state hi) (nh_state hr) ei h1 g1" "sn_remote_static sn g1 = Some (sn_public sn si)"
        "delivers sn g1 h1 er g2 h2" "sn_remote_static sn h2 = Some (sn_public sn sr)" "agreed sn h2 g2"
      using noise_correct_Ik [OF sn I(1) [unfolded Ik, simplified] R(1) [unfolded Ik, simplified] len] by auto
    have e1: "exchange su sn now hi hr = Inr (hi\<lparr>nh_state := h1, nh_message_idx := 1\<rparr>, hr\<lparr>nh_state := g1,
        nh_peer_identity := Some (from_verifying_key su (s_public su ski)), nh_peer_bind_cert := Some (nh_local_bind_cert hi), nh_message_idx := 1\<rparr>)"
      using I R d(1,2) ln su(2)
      by (subst exchange_cert [where st = h1 and st' = g1 and sk = ski and live = "sn_public sn si"]) (simp_all add: Ik bind_payload_def sa ei_def)
    have e2: "exchange su sn now (hr\<lparr>nh_state := g1, nh_peer_identity := Some (from_verifying_key su (s_public su ski)),
          nh_peer_bind_cert := Some (nh_local_bind_cert hi), nh_message_idx := 1\<rparr>) (hi\<lparr>nh_state := h1, nh_message_idx := 1\<rparr>) =
        Inr (hr\<lparr>nh_state := g2, nh_peer_identity := Some (from_verifying_key su (s_public su ski)),
          nh_peer_bind_cert := Some (nh_local_bind_cert hi), nh_message_idx := 2\<rparr>,
          hi\<lparr>nh_state := h2, nh_peer_identity := Some (from_verifying_key su (s_public su skr)),
          nh_peer_bind_cert := Some (nh_local_bind_cert hr), nh_message_idx := 2\<rparr>)"
      using I R d(3,4) ln su(2)
      by (subst exchange_cert [where st = g2 and st' = h2 and sk = skr and live = "sn_public sn sr"]) (simp_all add: Ik bind_payload_def sa er_def)
    show ?thesis using I R d(5) unfolding run_handshake_def Ik by (simp add: e1 e2 handshake_ends_def)
  qed
qed

lemma handshake_outcomes:
  assumes "sha_total su" and "sign_correct su" and "noise_correct sn"
    and "honest su sn p Initiator ski ksi si (Some (sn_public sn sr)) ctx ci ti now hi"
    and "honest su sn p Responder skr ksr sr None ctx cr' tr now hr"
    and "is_trusted ksi (from_verifying_key su (s_public su skr)) = Inr True"
    and "is_trusted ksr (from_verifying_key su (s_public su ski)) = Inr True"
  shows "\<exists>hi' hr' oi or'. run_handshake su sn now p hi hr = Inr (hi', hr') \<and> complete cr sn hi' ksi = Inr oi \<and> complete cr sn hr' ksr = Inr or'
    \<and> ho_peer_identity oi = from_verifying_key su (s_public su skr) \<and> ho_peer_identity or' = from_verifying_key su (s_public su ski)
    \<and> ho_handshake_hash oi = ho_handshake_hash or' \<and> ns_prk (ho_transport oi) = ns_prk (ho_transport or')
    \<and> ns_prk (ho_transport oi) = noise_session_prk cr (ho_handshake_hash oi) \<and> length (ho_handshake_hash oi) = 32
    \<and> ho_role oi = Initiator \<and> ho_role or' = Responder \<and> ho_pattern oi = p \<and> ho_pattern or' = p
    \<and> ho_peer_bind_cert oi = nh_local_bind_cert hr \<and> ho_peer_bind_cert or' = nh_local_bind_cert hi"
proof -
  obtain hi' hr' where h: "run_handshake su sn now p hi hr = Inr (hi', hr')" "agreed sn (nh_state hi') (nh_state hr')"
      "handshake_ends su sn skr hr hi hi'" "handshake_ends su sn ski hi hr hr'"
    using run_handshake_Ok [OF assms(1-5)] by blast
  have ends: "nh_role hi' = Initiator" "nh_role hr' = Responder" "nh_pattern hi' = p" "nh_pattern hr' = p"
    using honest_state(10,11) [OF assms(4,1-3)] honest_state(10,11) [OF assms(5,1-3)] h(3,4) by (simp_all add: handshake_ends_def)
  obtain oi where oi: "complete cr sn hi' ksi = Inr oi" "ho_peer_identity oi = from_verifying_key su (s_public su skr)"
      "ho_peer_bind_cert oi = nh_local_bind_cert hr" "ho_handshake_hash oi = sn_hash sn (nh_state hi')"
      "ns_prk (ho_transport oi) = noise_session_prk cr (sn_hash sn (nh_state hi'))" "ho_role oi = Initiator" "ho_pattern oi = p"
    using complete_Ok [of hi' "from_verifying_key su (s_public su skr)" "nh_local_bind_cert hr" ksi sn cr] h(2,3) assms(6) ends
    by (auto simp: handshake_ends_def agreed_def)
  obtain or' where or': "complete cr sn hr' ksr = Inr or'" "ho_peer_identity or' = from_verifying_key su (s_public su ski)"
      "ho_peer_bind_cert or' = nh_local_bind_cert hi" "ho_handshake_hash or' = sn_hash sn (nh_state hr')"
      "ns_prk (ho_transport or') = noise_session_prk cr (sn_hash sn (nh_state hr'))" "ho_role or' = Responder" "ho_pattern or' = p"
    using complete_Ok [of hr' "from_verifying_key su (s_public su ski)" "nh_local_bind_cert hi" ksr sn cr] h(2,4) assms(7) ends
    by (auto simp: handshake_ends_def agreed_def)
  show ?thesis using h(1,2) oi or' by (auto simp: agreed_def)
qed

text \<open>
  C13. Two peers that hold each other in their trust stores and start a handshake of either pattern
  with the same context finish it: each learns the other's device identity and committed DTLS
  fingerprint, and both hold the same handshake hash and the same session key.
\<close>

theorem handshake_agrees:
  assumes "sha_total su" and "sign_correct su" and "noise_correct sn"
    and "honest su sn p Initiator ski ksi si (Some (sn_public sn sr)) ctx ci ti now hi"
    and "honest su sn p Responder skr ksr sr None ctx cr' tr now hr"
    and "is_trusted ksi (from_verifying_key su (s_public su skr)) = Inr True"
    and "is_trusted ksr (from_verifying_key su (s_public su ski)) = Inr True"
  shows "\<exists>hi' hr' oi or'. run_handshake su sn now p hi hr = Inr (hi', hr') \<and> complete cr sn hi' ksi = Inr oi \<and> complete cr sn hr' ksr = Inr or'
    \<and> ho_peer_identity oi = from_verifying_key su (s_public su skr) \<and> ho_peer_identity or' = from_verifying_key su (s_public su ski)
    \<and> ho_handshake_hash oi = ho_handshake_hash or' \<and> ns_prk (ho_transport oi) = ns_prk (ho_transport or')
    \<and> ns_prk (ho_transport oi) = noise_session_prk cr (ho_handshake_hash oi) \<and> length (ho_handshake_hash oi) = 32
    \<and> ho_role oi = Initiator \<and> ho_role or' = Responder \<and> ho_pattern oi = p \<and> ho_pattern or' = p
    \<and> ho_peer_bind_cert oi = nh_local_bind_cert hr \<and> ho_peer_bind_cert or' = nh_local_bind_cert hi"
  by (rule handshake_outcomes [OF assms])

subsection \<open>Concrete peers\<close>

definition demo_keystore :: "u8 \<Rightarrow> u8 \<Rightarrow> keystore" where
  "demo_keystore sk peer = fst (trust_peer (from_signing_key plain_suite [sk]) (from_verifying_key plain_suite (s_public plain_suite [peer])))"

lemma demo_keystore: "holds_key plain_suite [sk] (demo_keystore sk peer)"
    "is_trusted (demo_keystore sk peer) (from_verifying_key plain_suite (s_public plain_suite [peer])) = Inr True"
  by (simp_all add: demo_keystore_def trust_peer_def from_signing_key_def holds_key_def is_trusted_def)

lemma demo_honest:
  obtains hs where "honest plain_suite plain_snow p role [sk] (demo_keystore sk peer) s remote ctx None 1000 1500 hs"
proof -
  have "\<exists>hs. handshake_new_inner plain_suite plain_snow (demo_keystore sk peer) s remote ctx None 1000 p role = Inr hs"
    by (simp add: handshake_new_inner_def build_snow_state_def plain_snow_def make_bind_cert_def builder_valid_for_secs_def builder_noise_static_def builder_new_def
        builder_build_def ks_device_identity_def ks_sign_def Let_def sat_simps i64_clamp_def BIND_CERT_VALIDITY_SECS_def
        MAX_PLATFORM_ATTEST_LEN_def del: and_then_eq_Ok)
  then show thesis using that demo_keystore by (auto simp: honest_def in_force_def)
qed

theorem handshake_agrees_witness:
  "\<exists>hi hr hi' hr' oi or'. honest plain_suite plain_snow Xk Initiator [5] (demo_keystore 5 6) [1] (Some (sn_public plain_snow [2])) [9] None 1000 1500 hi
    \<and> honest plain_suite plain_snow Xk Responder [6] (demo_keystore 6 5) [2] None [9] None 1000 1500 hr
    \<and> run_handshake plain_suite plain_snow 1500 Xk hi hr = Inr (hi', hr')
    \<and> complete plain_crypto plain_snow hi' (demo_keystore 5 6) = Inr oi \<and> complete plain_crypto plain_snow hr' (demo_keystore 6 5) = Inr or'
    \<and> ho_handshake_hash oi = ho_handshake_hash or'"
proof -
  obtain hi where hi: "honest plain_suite plain_snow Xk Initiator [5] (demo_keystore 5 6) [1] (Some (sn_public plain_snow [2])) [9] None 1000 1500 hi"
    by (rule demo_honest)
  obtain hr where hr: "honest plain_suite plain_snow Xk Responder [6] (demo_keystore 6 5) [2] None [9] None 1000 1500 hr" by (rule demo_honest)
  show ?thesis
    using handshake_agrees [OF plain_suite_total plain_suite_correct plain_snow_correct hi hr demo_keystore(2) demo_keystore(2), of plain_crypto] hi hr by blast
qed

lemma exchange_steps:
  assumes "exchange su sn now a b = Inr (a', b')"
  shows "fst (noise_step su sn a OpWrite) = a'" and "\<exists>m. fst (noise_step su sn b (OpRead m now)) = b'"
proof -
  obtain m where m: "write_message sn a = (a', Inr m)" "read_message su sn b m now = (b', Inr ())"
    using assms by (auto simp: exchange_def split: prod.splits sum.splits)
  show "fst (noise_step su sn a OpWrite) = a'" by (simp add: noise_step_def m)
  show "\<exists>m. fst (noise_step su sn b (OpRead m now)) = b'" by (rule exI [of _ m]) (simp add: noise_step_def m)
qed

theorem outcome_authenticated_witness:
  "\<exists>hi m oc live. handshake_new_inner plain_suite plain_snow (demo_keystore 5 6) [1] (Some (sn_public plain_snow [2])) [9] None 1000 Ik Initiator = Inr hi
    \<and> complete plain_crypto plain_snow (fst (noise_run plain_suite plain_snow hi [OpWrite, OpRead m 1500])) (demo_keystore 5 6) = Inr oc
    \<and> s_verify plain_suite (di_key (ho_peer_identity oc)) (bind_build_tbs (bc_fields (ho_peer_bind_cert oc))) (bc_signature (ho_peer_bind_cert oc))
    \<and> tf_noise_static (bc_fields (ho_peer_bind_cert oc)) = live"
proof -
  obtain hi where hi: "honest plain_suite plain_snow Ik Initiator [5] (demo_keystore 5 6) [1] (Some (sn_public plain_snow [2])) [9] None 1000 1500 hi"
    by (rule demo_honest)
  obtain hr where hr: "honest plain_suite plain_snow Ik Responder [6] (demo_keystore 6 5) [2] None [9] None 1000 1500 hr" by (rule demo_honest)
  obtain hi' hr' where h: "run_handshake plain_suite plain_snow 1500 Ik hi hr = Inr (hi', hr')" "agreed plain_snow (nh_state hi') (nh_state hr')"
      "handshake_ends plain_suite plain_snow [6] hr hi hi'"
    using run_handshake_Ok [OF plain_suite_total plain_suite_correct plain_snow_correct hi hr] by blast
  obtain i1 r1 where "exchange plain_suite plain_snow 1500 hi hr = Inr (i1, r1)" "exchange plain_suite plain_snow 1500 r1 i1 = Inr (hr', hi')"
    using h(1) by (auto simp: run_handshake_def)
  then obtain m where m: "fst (noise_step plain_suite plain_snow hi OpWrite) = i1" "fst (noise_step plain_suite plain_snow i1 (OpRead m 1500)) = hi'"
    using exchange_steps by metis
  have run: "fst (noise_run plain_suite plain_snow hi [OpWrite, OpRead m 1500]) = hi'"
    using m by (cases "noise_step plain_suite plain_snow hi OpWrite", cases "noise_step plain_suite plain_snow i1 (OpRead m 1500)") (simp add: noise_run_def)
  have n: "handshake_new_inner plain_suite plain_snow (demo_keystore 5 6) [1] (Some (sn_public plain_snow [2])) [9] None 1000 Ik Initiator = Inr hi"
    using hi by (simp add: honest_def)
  have "\<exists>oc. complete plain_crypto plain_snow hi' (demo_keystore 5 6) = Inr oc"
    using complete_Ok [of hi' "from_verifying_key plain_suite (s_public plain_suite [6])" "nh_local_bind_cert hr" "demo_keystore 5 6" plain_snow plain_crypto]
      demo_keystore(2) [of 5 6] h(2,3)
    by (auto simp: handshake_ends_def agreed_def)
  then obtain oc where oc: "complete plain_crypto plain_snow (fst (noise_run plain_suite plain_snow hi [OpWrite, OpRead m 1500])) (demo_keystore 5 6) = Inr oc"
    unfolding run by blast
  from outcome_authenticated [OF n oc] oc n show ?thesis by blast
qed

text \<open>
  Distinct patterns or session contexts have distinct prologues, as long as a context has a length of
  32 bits: neither end can be talked into another pattern or another session.
\<close>

lemma prologue_inj:
  assumes "length c < 2 ^ 32" and "length d < 2 ^ 32"
  shows "build_prologue p c = build_prologue q d \<longleftrightarrow> p = q \<and> c = d"
  by (auto simp: build_prologue_def)

text \<open>
  Exported keys are derived from strings that determine label and context.
\<close>

lemma export_info_inj:
  assumes "length l < 2 ^ 32" and "length l' < 2 ^ 32"
  shows "to_be 4 (of_nat (length l) :: u32) @ l @ to_be 4 (of_nat (length c) :: u32) @ c
      = to_be 4 (of_nat (length l') :: u32) @ l' @ to_be 4 (of_nat (length c') :: u32) @ c' \<longleftrightarrow> l = l' \<and> c = c'"
proof -
  have "length l = length l'" if "to_be 4 (of_nat (length l) :: u32) = to_be 4 (of_nat (length l') :: u32)"
  proof -
    have "(of_nat (length l) :: u32) = of_nat (length l')" using that by (metis from_be_u32)
    then have "unat (of_nat (length l) :: u32) = unat (of_nat (length l') :: u32)" by simp
    then show ?thesis using assms by (simp add: unat_of_nat_u32)
  qed
  then show ?thesis by auto
qed

end
