(* ===== verification/Pairing.thy ===== *)
theory Pairing
  imports Noise_Handshake Show_Num
begin

text \<open>
  Pairing (\<open>src/crates/sh-crypto/src/pairing.rs\<close>) and the short authentication string
  (\<open>sas.rs\<close>): codes and their expiry, the password-authenticated exchange with its key
  confirmation, and the two functions that pin a peer. SPAKE2 comes from a crate: it is the parameter
  \<open>spake\<close> over opaque states. A Rust string is given by the characters of its bytes.
\<close>

subsection \<open>Short authentication strings\<close>

definition SAS_HKDF_INFO :: bytes where "SAS_HKDF_INFO = ascii ''SHP-SAS-v1'' @ [0]"

datatype sas_format = SixDigit | EightDigit

definition sas_modulus :: "sas_format \<Rightarrow> u32" where
  "sas_modulus f = (case f of SixDigit \<Rightarrow> 1000000 | EightDigit \<Rightarrow> 100000000)"

definition sas_digit_count :: "sas_format \<Rightarrow> nat" where
  "sas_digit_count f = (case f of SixDigit \<Rightarrow> 6 | EightDigit \<Rightarrow> 8)"

record sas =
  sas_digits :: string
  sas_format :: sas_format

text \<open>\<open>format!("{n:0>width$}")\<close>: zeros on the left up to the width.\<close>

definition zero_padded :: "nat \<Rightarrow> nat \<Rightarrow> string" where
  "zero_padded width n = replicate (width - length (show_base 10 n)) (CHR ''0'') @ show_base 10 n"

definition from_handshake_hash_with_format :: "crypto \<Rightarrow> bytes \<Rightarrow> sas_format \<Rightarrow> sas" where
  "from_handshake_hash_with_format cr h f =
     (let buf = (case c_expand cr (c_extract cr h) SAS_HKDF_INFO 4 of None \<Rightarrow> replicate 4 0 | Some b \<Rightarrow> b);
          raw = (from_be buf :: u32);
          code = raw mod sas_modulus f
      in \<lparr>sas_digits = zero_padded (sas_digit_count f) (unat code), sas_format = f\<rparr>)"

definition from_handshake_hash :: "crypto \<Rightarrow> bytes \<Rightarrow> sas" where
  "from_handshake_hash cr h = from_handshake_hash_with_format cr h SixDigit"

definition sas_ct_eq :: "sas \<Rightarrow> sas \<Rightarrow> bool" where
  "sas_ct_eq a b = (if sas_format a \<noteq> sas_format b then False else sas_digits a = sas_digits b)"

definition sas_display :: "sas \<Rightarrow> string" where
  "sas_display s = (let half = length (sas_digits s) div 2 in take half (sas_digits s) @ '' '' @ drop half (sas_digits s))"

record sas_confirmed =
  sc_peer :: device_identity

definition sas_confirm :: "sas \<Rightarrow> device_identity \<Rightarrow> bool \<Rightarrow> sas_confirmed option" where
  "sas_confirm s peer human_said_match = (if human_said_match then Some \<lparr>sc_peer = peer\<rparr> else None)"

subsection \<open>Pairing codes\<close>

datatype pairing_code_format = CodeEightDigit

definition code_digit_count :: "pairing_code_format \<Rightarrow> nat" where
  "code_digit_count f = (case f of CodeEightDigit \<Rightarrow> 8)"

definition code_modulus :: "pairing_code_format \<Rightarrow> u64" where
  "code_modulus f = (case f of CodeEightDigit \<Rightarrow> 100000000)"

record pairing_code =
  pc_value :: string
  pc_not_after :: i64
  pc_format :: pairing_code_format

definition mpm :: "string \<Rightarrow> crypto_error" where
  "mpm reason = MalformedPakeMessage reason"

definition generate_code :: "bytes \<Rightarrow> pairing_code_format \<Rightarrow> i64 \<Rightarrow> pairing_code" where
  "generate_code raw_bytes f not_after =
     (let raw = (from_be raw_bytes :: u64); code = raw mod code_modulus f
      in \<lparr>pc_value = zero_padded (code_digit_count f) (unat code), pc_not_after = not_after, pc_format = f\<rparr>)"

definition is_ascii_digit :: "char \<Rightarrow> bool" where
  "is_ascii_digit c \<longleftrightarrow> 48 \<le> (of_char c :: nat) \<and> (of_char c :: nat) < 58"

definition from_digits :: "string \<Rightarrow> pairing_code_format \<Rightarrow> i64 \<Rightarrow> crypto_error + pairing_code" where
  "from_digits digits f not_after =
     (if length digits \<noteq> code_digit_count f then Err (mpm ''pairing code has wrong digit count'')
      else if \<not> list_all is_ascii_digit digits then Err (mpm ''pairing code contains non-digit characters'')
      else Ok \<lparr>pc_value = digits, pc_not_after = not_after, pc_format = f\<rparr>)"

datatype valid_pairing_code = ValidPairingCode pairing_code

definition check_not_expired :: "pairing_code \<Rightarrow> i64 \<Rightarrow> crypto_error + valid_pairing_code" where
  "check_not_expired c now = (if sint now \<ge> sint (pc_not_after c) then Err PairingCodeExpired else Ok (ValidPairingCode c))"

fun valid_code_str :: "valid_pairing_code \<Rightarrow> string" where
  "valid_code_str (ValidPairingCode c) = pc_value c"

subsection \<open>The exchange\<close>

text \<open>
  \<open>sp_start_a password id_a id_b rng\<close> is \<open>start_a_with_rng\<close>, \<open>sp_start_b\<close> its counterpart, both with the
  first message; \<open>sp_finish\<close> derives the key. What the crate documents: messages have 33 bytes, and
  two sides with the same password and identities derive the same key.
\<close>

record 'p spake =
  sp_start_a :: "bytes \<Rightarrow> bytes \<Rightarrow> bytes \<Rightarrow> bytes \<Rightarrow> 'p \<times> bytes"
  sp_start_b :: "bytes \<Rightarrow> bytes \<Rightarrow> bytes \<Rightarrow> bytes \<Rightarrow> 'p \<times> bytes"
  sp_finish :: "'p \<Rightarrow> bytes \<Rightarrow> bytes option"

definition spake_correct :: "'p spake \<Rightarrow> bool" where
  "spake_correct sp \<longleftrightarrow> (\<forall>pw ida idb ra rb. length (snd (sp_start_a sp pw ida idb ra)) = 33 \<and> length (snd (sp_start_b sp pw ida idb rb)) = 33
     \<and> (\<exists>k. sp_finish sp (fst (sp_start_a sp pw ida idb ra)) (snd (sp_start_b sp pw ida idb rb)) = Some k
          \<and> sp_finish sp (fst (sp_start_b sp pw ida idb rb)) (snd (sp_start_a sp pw ida idb ra)) = Some k))"

datatype pake_role = PakeInitiator | PakeResponder

record pake_confirmed =
  pf_authorizes_pin :: device_identity

record 'p pake_exchange =
  pe_spake2_state :: "'p option"
  pe_outbound :: bytes
  pe_peer_expected_mac :: "bytes option"
  pe_role :: pake_role
  pe_handshake_hash :: bytes
  pe_local_id :: device_identity
  pe_peer_id :: device_identity
  pe_local_confirmation :: "bytes option"

definition PAKE_CONFIRM_INITIATOR_INFO :: bytes where
  "PAKE_CONFIRM_INITIATOR_INFO = ascii ''SHP-PAKE-v1-confirm-initiator'' @ [0]"
definition PAKE_CONFIRM_RESPONDER_INFO :: bytes where
  "PAKE_CONFIRM_RESPONDER_INFO = ascii ''SHP-PAKE-v1-confirm-responder'' @ [0]"

text \<open>The fingerprints of both sides, the initiator's first.\<close>

definition pake_ids :: "pake_role \<Rightarrow> device_identity \<Rightarrow> device_identity \<Rightarrow> bytes \<times> bytes" where
  "pake_ids role local_id peer_id = (case role of
     PakeInitiator \<Rightarrow> (ascii (di_fingerprint local_id), ascii (di_fingerprint peer_id))
   | PakeResponder \<Rightarrow> (ascii (di_fingerprint peer_id), ascii (di_fingerprint local_id)))"

definition start_with_rng :: "'p spake \<Rightarrow> bytes \<Rightarrow> pake_role \<Rightarrow> valid_pairing_code \<Rightarrow> device_identity \<Rightarrow> device_identity \<Rightarrow> bytes
    \<Rightarrow> crypto_error + 'p pake_exchange" where
  "start_with_rng sp rng role code local_id peer_id handshake_hash =
     (case pake_ids role local_id peer_id of (id_a, id_b) \<Rightarrow>
      case (case role of
          PakeInitiator \<Rightarrow> sp_start_a sp (ascii (valid_code_str code)) id_a id_b rng
        | PakeResponder \<Rightarrow> sp_start_b sp (ascii (valid_code_str code)) id_a id_b rng) of (state, outbound) \<Rightarrow>
      Ok \<lparr>pe_spake2_state = Some state, pe_outbound = outbound, pe_peer_expected_mac = None, pe_role = role,
          pe_handshake_hash = handshake_hash, pe_local_id = local_id, pe_peer_id = peer_id, pe_local_confirmation = None\<rparr>)"

definition local_confirm_info_label :: "'p pake_exchange \<Rightarrow> bytes" where
  "local_confirm_info_label e = (case pe_role e of PakeInitiator \<Rightarrow> PAKE_CONFIRM_INITIATOR_INFO | PakeResponder \<Rightarrow> PAKE_CONFIRM_RESPONDER_INFO)"

definition peer_confirm_info_label :: "'p pake_exchange \<Rightarrow> bytes" where
  "peer_confirm_info_label e = (case pe_role e of PakeInitiator \<Rightarrow> PAKE_CONFIRM_RESPONDER_INFO | PakeResponder \<Rightarrow> PAKE_CONFIRM_INITIATOR_INFO)"

definition confirm_info :: "bytes \<Rightarrow> bytes \<Rightarrow> bytes \<times> bytes \<Rightarrow> bytes" where
  "confirm_info role_label h ids = role_label @ h @ fst ids @ snd ids"

definition derive_confirmation_key :: "crypto \<Rightarrow> 'p pake_exchange \<Rightarrow> bytes \<Rightarrow> bytes \<Rightarrow> crypto_error + bytes" where
  "derive_confirmation_key cr e spake2_key role_label =
     ok_or (c_expand cr (c_extract cr spake2_key)
         (confirm_info role_label (pe_handshake_hash e) (pake_ids (pe_role e) (pe_local_id e) (pe_peer_id e))) 32)
       (mpm ''HKDF expand failed for confirmation key'')"

definition final_mac :: "crypto \<Rightarrow> bytes \<Rightarrow> crypto_error + bytes" where
  "final_mac cr confirm_key =
     ok_or (c_expand cr (c_extract cr confirm_key) (ascii ''mac'' @ [0]) 32) (mpm ''HKDF expand failed for confirmation MAC'')"

definition read_peer_msg :: "crypto \<Rightarrow> 'p spake \<Rightarrow> 'p pake_exchange \<Rightarrow> bytes \<Rightarrow> 'p pake_exchange \<times> (crypto_error + unit)" where
  "read_peer_msg cr sp e peer_msg =
     (if length peer_msg < 33 \<or> length peer_msg > 33 then (e, Err (mpm ''SPAKE2 message has unexpected length'')) else
      case pe_spake2_state e of
        None \<Rightarrow> (e, Err (mpm ''read_peer_msg already called''))
      | Some state \<Rightarrow>
        let e = e\<lparr>pe_spake2_state := None\<rparr> in
        case (and_then (ok_or (sp_finish sp state peer_msg) (mpm ''SPAKE2 key derivation failed (wrong code or malformed message)'')) (\<lambda>raw_key.
              and_then (derive_confirmation_key cr e raw_key (local_confirm_info_label e)) (\<lambda>local_key.
              and_then (derive_confirmation_key cr e raw_key (peer_confirm_info_label e)) (\<lambda>peer_key.
              and_then (final_mac cr local_key) (\<lambda>local_mac.
              and_then (final_mac cr peer_key) (\<lambda>peer_mac. Ok (local_mac, peer_mac))))))) of
          Inl err \<Rightarrow> (e, Err err)
        | Inr (local_mac, peer_mac) \<Rightarrow>
          (e\<lparr>pe_local_confirmation := Some local_mac, pe_peer_expected_mac := Some peer_mac\<rparr>, Ok ()))"

definition local_confirmation_mac :: "'p pake_exchange \<Rightarrow> crypto_error + bytes" where
  "local_confirmation_mac e = ok_or (pe_local_confirmation e) (mpm ''must call read_peer_msg before local_confirmation_mac'')"

definition pake_finish :: "'p pake_exchange \<Rightarrow> bytes \<Rightarrow> crypto_error + pake_confirmed" where
  "pake_finish e peer_confirmation =
     (if length peer_confirmation \<noteq> 32 then Err (mpm ''peer confirmation MAC must be exactly 32 bytes'') else
      and_then (ok_or (pe_peer_expected_mac e) (mpm ''must call read_peer_msg before finish'')) (\<lambda>expected.
      if expected \<noteq> peer_confirmation then Err PakeConfirmationFailed
      else Ok \<lparr>pf_authorizes_pin = pe_peer_id e\<rparr>))"

subsection \<open>Pinning\<close>

datatype pairing_outcome =
    PairPinned device_identity
  | PairAborted string
  | ReTrustAfterRevokeRequiresConfirmation device_identity

definition pin_confirmed :: "keystore \<Rightarrow> device_identity \<Rightarrow> keystore \<times> (crypto_error + pairing_outcome)" where
  "pin_confirmed ks peer =
     (case trust_peer_if_not_revoked ks peer of
        (ks', Inl e) \<Rightarrow> (ks', Err e)
      | (ks', Inr Pinned) \<Rightarrow> (ks', Ok (PairPinned peer))
      | (ks', Inr WasRevoked) \<Rightarrow> (ks', Ok (ReTrustAfterRevokeRequiresConfirmation peer)))"

definition pair_attended :: "sas_confirmed \<Rightarrow> keystore \<Rightarrow> keystore \<times> (crypto_error + pairing_outcome)" where
  "pair_attended c ks = pin_confirmed ks (sc_peer c)"

definition pair_unattended :: "pake_confirmed \<Rightarrow> keystore \<Rightarrow> keystore \<times> (crypto_error + pairing_outcome)" where
  "pair_unattended c ks = pin_confirmed ks (pf_authorizes_pin c)"

subsection \<open>Codes\<close>

lemma show_base_length: "n < 10 ^ Suc k \<Longrightarrow> length (show_base 10 n) \<le> Suc k"
proof (induction k arbitrary: n)
  case (Suc k)
  then have "n div 10 < 10 ^ Suc k" by (simp add: div_less_iff_less_mult)
  then show ?case using Suc.IH [of "n div 10"] by (subst show_base_10) simp
qed (simp add: show_base_10)

lemma zero_padded_length: "n < 10 ^ d \<Longrightarrow> 0 < d \<Longrightarrow> length (zero_padded d n) = d"
  using show_base_length [of n "d - 1"] by (simp add: zero_padded_def)

lemma zero_padded_digits: "list_all is_ascii_digit (zero_padded d n)"
  using show_base_digits [of _ n] by (auto simp: zero_padded_def list_all_iff is_ascii_digit_def)

definition decimal :: "string \<Rightarrow> nat" where
  "decimal s = foldl (\<lambda>acc c. acc * 10 + (of_char c - 48)) 0 s"

lemma decimal_snoc: "decimal (s @ [c]) = decimal s * 10 + (of_char c - 48)"
  by (simp add: decimal_def)

lemma decimal_zeros: "decimal (replicate k (CHR ''0'') @ s) = decimal s"
  by (induction k) (simp_all add: decimal_def)

lemma digit_char_value: "d < 10 \<Longrightarrow> of_char (digit_char d) - 48 = d"
  by (simp add: digit_char_def)

lemma decimal_show: "decimal (show_base 10 n) = n"
proof (induction n rule: less_induct)
  case (less n)
  show ?case
  proof (cases "n < 10")
    case True
    then show ?thesis by (simp add: show_base_10 [of n] decimal_def digit_char_value)
  next
    case False
    then show ?thesis using less [of "n div 10"] by (simp add: show_base_10 [of n] decimal_snoc digit_char_value)
  qed
qed

lemma decimal_zero_padded [simp]: "decimal (zero_padded d n) = n"
  by (simp add: zero_padded_def decimal_zeros decimal_show)

text \<open>
  A generated pairing code always has eight decimal digits that \<open>from_digits\<close> accepts as the same
  code, stands for the random number modulo \<open>10 ^ 8\<close>, and is usable exactly before its expiry.
\<close>

theorem generated_code_valid:
  "from_digits (pc_value (generate_code raw f na)) f na = Inr (generate_code raw f na)
    \<and> decimal (pc_value (generate_code raw f na)) = unat (from_be raw :: u64) mod 10 ^ 8
    \<and> (check_not_expired (generate_code raw f na) now = Inr (ValidPairingCode (generate_code raw f na)) \<longleftrightarrow> sint now < sint na)"
proof (cases f)
  case CodeEightDigit
  have "unat ((from_be raw :: u64) mod 100000000) = unat (from_be raw :: u64) mod 10 ^ 8" by (simp add: unat_mod_distrib)
  moreover have "unat (from_be raw :: u64) mod 10 ^ 8 < 10 ^ 8" by simp
  ultimately show ?thesis using zero_padded_length [of "unat (from_be raw :: u64) mod 10 ^ 8" 8] zero_padded_digits
    by (simp add: CodeEightDigit generate_code_def from_digits_def code_digit_count_def code_modulus_def check_not_expired_def Let_def)
qed

text \<open>
  A short authentication string has six or eight digits and stands for a number below the modulus;
  two strings agree exactly when formats and numbers do.
\<close>

lemma sas_digits_exact:
  "length (sas_digits (from_handshake_hash_with_format cr h f)) = sas_digit_count f
    \<and> list_all is_ascii_digit (sas_digits (from_handshake_hash_with_format cr h f))
    \<and> decimal (sas_digits (from_handshake_hash_with_format cr h f)) < unat (sas_modulus f)"
proof -
  obtain b where b: "sas_digits (from_handshake_hash_with_format cr h f) = zero_padded (sas_digit_count f) (unat ((from_be b :: u32) mod sas_modulus f))"
    by (auto simp: from_handshake_hash_with_format_def Let_def)
  have m: "unat ((from_be b :: u32) mod sas_modulus f) < unat (sas_modulus f)"
    by (cases f) (simp_all add: sas_modulus_def unat_mod_distrib)
  moreover have "unat (sas_modulus f) = 10 ^ sas_digit_count f" "0 < sas_digit_count f" by (cases f; simp add: sas_modulus_def sas_digit_count_def)+
  ultimately show ?thesis using zero_padded_digits zero_padded_length by (simp add: b)
qed

subsection \<open>Key confirmation\<close>

definition label_of :: "pake_role \<Rightarrow> bytes" where
  "label_of r = (case r of PakeInitiator \<Rightarrow> PAKE_CONFIRM_INITIATOR_INFO | PakeResponder \<Rightarrow> PAKE_CONFIRM_RESPONDER_INFO)"

definition other_role :: "pake_role \<Rightarrow> pake_role" where
  "other_role r = (case r of PakeInitiator \<Rightarrow> PakeResponder | PakeResponder \<Rightarrow> PakeInitiator)"

lemma confirm_labels: "local_confirm_info_label e = label_of (pe_role e)" "peer_confirm_info_label e = label_of (other_role (pe_role e))"
  by (simp_all add: local_confirm_info_label_def peer_confirm_info_label_def label_of_def other_role_def split: pake_role.split)

lemma length_label_of [simp]: "length (label_of r) = 30"
  by (simp add: label_of_def PAKE_CONFIRM_INITIATOR_INFO_def PAKE_CONFIRM_RESPONDER_INFO_def ascii_def split: pake_role.split)

lemma label_of_inj: "label_of r = label_of r' \<longleftrightarrow> r = r'"
  by (cases r; cases r') (simp_all add: label_of_def PAKE_CONFIRM_INITIATOR_INFO_def PAKE_CONFIRM_RESPONDER_INFO_def ascii_def)

lemma confirm_info_inj:
  assumes "length h = length h'" and "length (fst ids) = length (fst ids')"
  shows "confirm_info (label_of r) h ids = confirm_info (label_of r') h' ids' \<longleftrightarrow> r = r' \<and> h = h' \<and> ids = ids'"
  using assms by (auto simp: confirm_info_def label_of_inj prod_eq_iff)

text \<open>The confirmation of \<open>role\<close> for a shared key, a handshake and two identities.\<close>

definition confirmation :: "crypto \<Rightarrow> bytes \<Rightarrow> pake_role \<Rightarrow> bytes \<Rightarrow> bytes \<times> bytes \<Rightarrow> crypto_error + bytes" where
  "confirmation cr key role h ids =
     and_then (ok_or (c_expand cr (c_extract cr key) (confirm_info (label_of role) h ids) 32) (mpm ''HKDF expand failed for confirmation key'')) (final_mac cr)"

lemma confirmation_total:
  assumes "hkdf_total cr"
  shows "\<exists>m. confirmation cr key role h ids = Inr m \<and> length m = 32"
proof -
  have e: "length (c_extract cr ikm) = 32" for ikm using assms by (simp add: hkdf_total_def)
  have x: "\<exists>k. c_expand cr (c_extract cr ikm) info 32 = Some k \<and> length k = 32" for ikm info
    using assms [unfolded hkdf_total_def, THEN conjunct2, THEN conjunct2, rule_format, OF e [of ikm], of 32 info] by simp
  obtain k where "c_expand cr (c_extract cr key) (confirm_info (label_of role) h ids) 32 = Some k" using x by blast
  moreover obtain m where "c_expand cr (c_extract cr k) (ascii ''mac'' @ [0]) 32 = Some m" "length m = 32" using x by blast
  ultimately show ?thesis by (simp add: confirmation_def final_mac_def)
qed

lemma read_peer_msg_exact:
  assumes "length m = 33" and "pe_spake2_state e = Some st"
  shows "read_peer_msg cr sp e m =
    (case and_then (ok_or (sp_finish sp st m) (mpm ''SPAKE2 key derivation failed (wrong code or malformed message)'')) (\<lambda>k.
        and_then (derive_confirmation_key cr e k (label_of (pe_role e))) (\<lambda>lk.
        and_then (derive_confirmation_key cr e k (label_of (other_role (pe_role e)))) (\<lambda>pk.
        and_then (final_mac cr lk) (\<lambda>lm. and_then (final_mac cr pk) (\<lambda>pm. Inr (lm, pm)))))) of
      Inl err \<Rightarrow> (e\<lparr>pe_spake2_state := None\<rparr>, Inl err)
    | Inr (lm, pm) \<Rightarrow> (e\<lparr>pe_spake2_state := None, pe_local_confirmation := Some lm, pe_peer_expected_mac := Some pm\<rparr>, Inr ()))"
  using assms by (simp add: read_peer_msg_def confirm_labels derive_confirmation_key_def Let_def del: and_then_eq_Ok)

lemma read_peer_msg_Ok:
  assumes "length m = 33" and "pe_spake2_state e = Some st" and "sp_finish sp st m = Some k"
    and "confirmation cr k (pe_role e) (pe_handshake_hash e) (pake_ids (pe_role e) (pe_local_id e) (pe_peer_id e)) = Inr lm"
    and "confirmation cr k (other_role (pe_role e)) (pe_handshake_hash e) (pake_ids (pe_role e) (pe_local_id e) (pe_peer_id e)) = Inr pm"
  shows "read_peer_msg cr sp e m = (e\<lparr>pe_spake2_state := None, pe_local_confirmation := Some lm, pe_peer_expected_mac := Some pm\<rparr>, Inr ())"
proof -
  obtain lk pk where "derive_confirmation_key cr e k (label_of (pe_role e)) = Inr lk" "final_mac cr lk = Inr lm"
      "derive_confirmation_key cr e k (label_of (other_role (pe_role e))) = Inr pk" "final_mac cr pk = Inr pm"
    using assms(4,5) by (auto simp: confirmation_def derive_confirmation_key_def)
  then show ?thesis by (simp add: read_peer_msg_exact [OF assms(1,2)] assms(3) del: and_then_eq_Ok)
qed

lemma read_peer_msg_expects:
  assumes "pe_peer_expected_mac e = None" and "read_peer_msg cr sp e m = (e', r)" and "pe_peer_expected_mac e' = Some mac"
  shows "pe_peer_id e' = pe_peer_id e \<and> (\<exists>st k. pe_spake2_state e = Some st \<and> sp_finish sp st m = Some k
    \<and> confirmation cr k (other_role (pe_role e)) (pe_handshake_hash e) (pake_ids (pe_role e) (pe_local_id e) (pe_peer_id e)) = Inr mac)"
proof -
  have m: "length m = 33"
  proof (rule ccontr)
    assume "length m \<noteq> 33"
    then have "length m < 33 \<or> length m > 33" by arith
    then show False using assms by (simp add: read_peer_msg_def)
  qed
  moreover obtain st where st: "pe_spake2_state e = Some st" using assms m by (cases "pe_spake2_state e") (auto simp: read_peer_msg_def)
  ultimately show ?thesis
    using assms unfolding read_peer_msg_exact [OF m st]
    by (auto simp: confirmation_def derive_confirmation_key_def split: sum.splits prod.splits)
qed

lemma start_fields:
  assumes "start_with_rng sp rng role code l p h = Inr e"
  shows "pe_peer_expected_mac e = None" and "pe_role e = role" and "pe_handshake_hash e = h" and "pe_local_id e = l" and "pe_peer_id e = p"
    and "pe_spake2_state e \<noteq> None"
  using assms by (auto simp: start_with_rng_def split: prod.splits)

text \<open>
  C14. The exchange confirms a peer only if the peer's message gave a key and the peer's tag is the
  confirmation of the other role under that key, for this handshake and these two identities. The
  string under the tag determines role, handshake and identities, so a tag sent back to its sender,
  from another handshake or for another pair of devices is over another string. What is confirmed is
  the identity the handshake verified.
\<close>

theorem pake_confirms_binding:
  assumes "start_with_rng sp rng role code l p h = Inr e" and "read_peer_msg cr sp e m = (e', r)" and "pake_finish e' mac = Inr c"
  shows "pf_authorizes_pin c = p
    \<and> (\<exists>st k. pe_spake2_state e = Some st \<and> sp_finish sp st m = Some k \<and> confirmation cr k (other_role role) h (pake_ids role l p) = Inr mac)
    \<and> (\<forall>role2 h2 ids2. length h2 = length h \<longrightarrow> length (fst ids2) = length (fst (pake_ids role l p)) \<longrightarrow>
        (confirm_info (label_of role2) h2 ids2 = confirm_info (label_of (other_role role)) h (pake_ids role l p)
          \<longleftrightarrow> role2 = other_role role \<and> h2 = h \<and> ids2 = pake_ids role l p))"
proof -
  note s = start_fields [OF assms(1)]
  have f: "pe_peer_expected_mac e' = Some mac" "pf_authorizes_pin c = pe_peer_id e'"
    using assms(3) by (auto simp: pake_finish_def split: if_splits)
  show ?thesis using read_peer_msg_expects [OF s(1) assms(2) f(1)] f(2) s confirm_info_inj by auto
qed

lemma pake_meets:
  assumes "hkdf_total cr" and "spake_correct sp" and "start_with_rng sp ra PakeInitiator code a b h = Inr ei"
    and "start_with_rng sp rb PakeResponder code b a h = Inr er"
  shows "\<exists>ei' er' mi mr. read_peer_msg cr sp ei (pe_outbound er) = (ei', Inr ()) \<and> read_peer_msg cr sp er (pe_outbound ei) = (er', Inr ())
    \<and> local_confirmation_mac ei' = Inr mi \<and> local_confirmation_mac er' = Inr mr
    \<and> pake_finish ei' mr = Inr \<lparr>pf_authorizes_pin = b\<rparr> \<and> pake_finish er' mi = Inr \<lparr>pf_authorizes_pin = a\<rparr>"
proof -
  note si = start_fields [OF assms(3)] and sr = start_fields [OF assms(4)]
  let ?pw = "ascii (valid_code_str code)" and ?ids = "(ascii (di_fingerprint a), ascii (di_fingerprint b))"
  obtain k where k: "length (pe_outbound ei) = 33" "length (pe_outbound er) = 33"
      "sp_finish sp (the (pe_spake2_state ei)) (pe_outbound er) = Some k" "sp_finish sp (the (pe_spake2_state er)) (pe_outbound ei) = Some k"
    using assms(2) [unfolded spake_correct_def, rule_format, of ?pw "fst ?ids" "snd ?ids" ra rb] assms(3,4)
    by (auto simp: start_with_rng_def pake_ids_def split: prod.splits)
  obtain mi mr where m: "confirmation cr k PakeInitiator h ?ids = Inr mi" "length mi = 32" "confirmation cr k PakeResponder h ?ids = Inr mr" "length mr = 32"
    using confirmation_total [OF assms(1)] by metis
  have ri: "read_peer_msg cr sp ei (pe_outbound er) = (ei\<lparr>pe_spake2_state := None, pe_local_confirmation := Some mi, pe_peer_expected_mac := Some mr\<rparr>, Inr ())"
    using si m k by (intro read_peer_msg_Ok [where st = "the (pe_spake2_state ei)" and k = k]) (auto simp: pake_ids_def other_role_def)
  have rr: "read_peer_msg cr sp er (pe_outbound ei) = (er\<lparr>pe_spake2_state := None, pe_local_confirmation := Some mr, pe_peer_expected_mac := Some mi\<rparr>, Inr ())"
    using sr m k by (intro read_peer_msg_Ok [where st = "the (pe_spake2_state er)" and k = k]) (auto simp: pake_ids_def other_role_def)
  show ?thesis using si sr m by (simp add: ri rr local_confirmation_mac_def pake_finish_def del: and_then_eq_Ok)
qed

text \<open>
  C15. Two devices that run the exchange with the same code, over the same handshake and with each
  other's identities, confirm each other.
\<close>

theorem pake_pairs:
  assumes "hkdf_total cr" and "spake_correct sp" and "start_with_rng sp ra PakeInitiator code a b h = Inr ei"
    and "start_with_rng sp rb PakeResponder code b a h = Inr er"
  shows "\<exists>ei' er' mi mr. read_peer_msg cr sp ei (pe_outbound er) = (ei', Inr ()) \<and> read_peer_msg cr sp er (pe_outbound ei) = (er', Inr ())
    \<and> local_confirmation_mac ei' = Inr mi \<and> local_confirmation_mac er' = Inr mr
    \<and> pake_finish ei' mr = Inr \<lparr>pf_authorizes_pin = b\<rparr> \<and> pake_finish er' mi = Inr \<lparr>pf_authorizes_pin = a\<rparr>"
  by (rule pake_meets [OF assms])

text \<open>An instance of the parameter: the key is the password with both identities.\<close>

definition plain_spake :: "bytes spake" where
  "plain_spake = \<lparr>sp_start_a = (\<lambda>pw a b r. (pw @ a @ b, pad_to 33 r)), sp_start_b = (\<lambda>pw a b r. (pw @ a @ b, pad_to 33 r)),
     sp_finish = (\<lambda>st m. Some st)\<rparr>"

lemma plain_spake_correct: "spake_correct plain_spake"
  by (simp add: spake_correct_def plain_spake_def)

definition demo_id :: "u8 \<Rightarrow> device_identity" where
  "demo_id k = from_verifying_key plain_suite (s_public plain_suite [k])"

definition demo_code :: valid_pairing_code where
  "demo_code = ValidPairingCode \<lparr>pc_value = ''01234567'', pc_not_after = 2000, pc_format = CodeEightDigit\<rparr>"

lemma start_total: "\<exists>e. start_with_rng sp rng role code l p h = Inr e"
  by (simp add: start_with_rng_def split: prod.splits pake_role.splits)

theorem pake_pairs_witness:
  "\<exists>ei er ei' er' mi mr. start_with_rng plain_spake [1] PakeInitiator demo_code (demo_id 5) (demo_id 6) (replicate 32 7) = Inr ei
    \<and> start_with_rng plain_spake [2] PakeResponder demo_code (demo_id 6) (demo_id 5) (replicate 32 7) = Inr er
    \<and> read_peer_msg plain_crypto plain_spake ei (pe_outbound er) = (ei', Inr ()) \<and> read_peer_msg plain_crypto plain_spake er (pe_outbound ei) = (er', Inr ())
    \<and> local_confirmation_mac ei' = Inr mi \<and> local_confirmation_mac er' = Inr mr
    \<and> pake_finish ei' mr = Inr \<lparr>pf_authorizes_pin = demo_id 6\<rparr> \<and> pake_finish er' mi = Inr \<lparr>pf_authorizes_pin = demo_id 5\<rparr>"
proof -
  obtain ei er where e: "start_with_rng plain_spake [1] PakeInitiator demo_code (demo_id 5) (demo_id 6) (replicate 32 7) = Inr ei"
      "start_with_rng plain_spake [2] PakeResponder demo_code (demo_id 6) (demo_id 5) (replicate 32 7) = Inr er"
    using start_total by metis
  from pake_pairs [OF plain_crypto_total plain_spake_correct e] e show ?thesis by blast
qed

theorem pake_confirms_binding_witness:
  "\<exists>e e' r mac c k. start_with_rng plain_spake [1] PakeInitiator demo_code (demo_id 5) (demo_id 6) (replicate 32 7) = Inr e
    \<and> read_peer_msg plain_crypto plain_spake e (replicate 33 1) = (e', r) \<and> pake_finish e' mac = Inr c
    \<and> pf_authorizes_pin c = demo_id 6
    \<and> confirmation plain_crypto k PakeResponder (replicate 32 7) (pake_ids PakeInitiator (demo_id 5) (demo_id 6)) = Inr mac"
proof -
  obtain e where e: "start_with_rng plain_spake [1] PakeInitiator demo_code (demo_id 5) (demo_id 6) (replicate 32 7) = Inr e" using start_total by blast
  note s = start_fields [OF e]
  obtain st where st: "pe_spake2_state e = Some st" using s(6) by blast
  obtain lm pm where m: "confirmation plain_crypto st PakeInitiator (replicate 32 7) (pake_ids PakeInitiator (demo_id 5) (demo_id 6)) = Inr lm"
      "confirmation plain_crypto st PakeResponder (replicate 32 7) (pake_ids PakeInitiator (demo_id 5) (demo_id 6)) = Inr pm" "length pm = 32"
    using confirmation_total [OF plain_crypto_total] by metis
  have r: "read_peer_msg plain_crypto plain_spake e (replicate 33 1) =
      (e\<lparr>pe_spake2_state := None, pe_local_confirmation := Some lm, pe_peer_expected_mac := Some pm\<rparr>, Inr ())"
    using m s st by (intro read_peer_msg_Ok [where st = st and k = st]) (simp_all add: plain_spake_def other_role_def)
  have f: "pake_finish (e\<lparr>pe_spake2_state := None, pe_local_confirmation := Some lm, pe_peer_expected_mac := Some pm\<rparr>) pm = Inr \<lparr>pf_authorizes_pin = pe_peer_id e\<rparr>"
    using m(3) by (simp add: pake_finish_def del: and_then_eq_Ok)
  from pake_confirms_binding [OF e r f] have "pf_authorizes_pin \<lparr>pf_authorizes_pin = pe_peer_id e\<rparr> = demo_id 6"
      "\<exists>k. confirmation plain_crypto k PakeResponder (replicate 32 7) (pake_ids PakeInitiator (demo_id 5) (demo_id 6)) = Inr pm"
    by (auto simp: other_role_def)
  then show ?thesis using e r f by blast
qed

subsection \<open>What pairing pins\<close>

datatype 'p pair_event = Attended sas device_identity bool | Unattended "'p pake_exchange" bytes

definition pair_step :: "keystore \<Rightarrow> 'p pair_event \<Rightarrow> keystore" where
  "pair_step ks ev = (case ev of
     Attended s d yes \<Rightarrow> (case sas_confirm s d yes of None \<Rightarrow> ks | Some c \<Rightarrow> fst (pair_attended c ks))
   | Unattended e mac \<Rightarrow> (case pake_finish e mac of Inl _ \<Rightarrow> ks | Inr c \<Rightarrow> fst (pair_unattended c ks)))"

definition confirms :: "'p pair_event \<Rightarrow> device_identity option" where
  "confirms ev = (case ev of
     Attended s d yes \<Rightarrow> if yes then Some d else None
   | Unattended e mac \<Rightarrow> (case pake_finish e mac of Inl _ \<Rightarrow> None | Inr c \<Rightarrow> Some (pf_authorizes_pin c)))"

lemma pin_confirmed_store: "fst (pin_confirmed ks d) = fst (trust_peer_if_not_revoked ks d)"
  by (auto simp: pin_confirmed_def split: prod.split sum.split trust_outcome.split)

lemma pair_step_store: "pair_step ks ev = (case confirms ev of None \<Rightarrow> ks | Some d \<Rightarrow> fst (trust_peer_if_not_revoked ks d))"
  by (auto simp: pair_step_def confirms_def sas_confirm_def pair_attended_def pair_unattended_def pin_confirmed_store split: pair_event.split sum.split)

lemma pair_step_trust:
  assumes "\<not> ks_poisoned ks"
  shows "\<not> ks_poisoned (pair_step ks ev)" and "ks_revoked (pair_step ks ev) d \<longleftrightarrow> ks_revoked ks d"
    and "ks_trusted (pair_step ks ev) d \<longleftrightarrow> ks_trusted ks d \<or> \<not> ks_revoked ks d \<and> (\<exists>c. confirms ev = Some c \<and> ks_fp c = ks_fp d)"
  using assms
  by (auto simp: pair_step_store trust_peer_if_not_revoked_def ks_trusted_def ks_revoked_def split: option.split trust_state.split)

text \<open>
  C16. Over any sequence of attended and unattended pairings, a device is trusted afterwards exactly
  if it was trusted before, or if it had not been revoked and a human or a key confirmation has
  confirmed an identity with its fingerprint. No pairing revokes anyone or trusts a revoked device.
\<close>

theorem pairing_pins_confirmed:
  assumes "\<not> ks_poisoned ks"
  shows "is_trusted (foldl pair_step ks evs) d =
    Inr (ks_trusted ks d \<or> \<not> ks_revoked ks d \<and> (\<exists>ev \<in> set evs. \<exists>c. confirms ev = Some c \<and> ks_fp c = ks_fp d))"
proof -
  have "\<not> ks_poisoned (foldl pair_step ks evs) \<and> (ks_revoked (foldl pair_step ks evs) d \<longleftrightarrow> ks_revoked ks d)
      \<and> (ks_trusted (foldl pair_step ks evs) d \<longleftrightarrow>
          ks_trusted ks d \<or> \<not> ks_revoked ks d \<and> (\<exists>ev \<in> set evs. \<exists>c. confirms ev = Some c \<and> ks_fp c = ks_fp d))"
    using assms
  proof (induction evs arbitrary: ks)
    case (Cons ev evs)
    then show ?case using pair_step_trust [OF Cons.prems, of ev] Cons.IH [of "pair_step ks ev"] by auto
  qed simp
  then show ?thesis by (simp add: is_trusted_def ks_trusted_def)
qed

theorem pairing_pins_confirmed_witness:
  "is_trusted (foldl pair_step (from_signing_key plain_suite [1])
     [Attended \<lparr>sas_digits = ''000000'', sas_format = SixDigit\<rparr> (demo_id 5) True, Attended \<lparr>sas_digits = ''000001'', sas_format = SixDigit\<rparr> (demo_id 6) False :: bytes pair_event]) (demo_id 5)
   = Inr True"
proof -
  have "\<not> ks_poisoned (from_signing_key plain_suite [1])" by (simp add: from_signing_key_def)
  then show ?thesis by (subst pairing_pins_confirmed) (simp_all add: ks_trusted_def ks_revoked_def from_signing_key_def confirms_def)
qed

end
