(* ===== verification/Web_Video.thy ===== *)
theory Web_Video
  imports Packetize
begin

text \<open>
  Video from the WebRTC host to the browser. The sending half is
  \<open>src/bins/streamhaul-webrtc-host/src/lib.rs\<close>: an access unit is cut into fragments
  (\<open>build_shp_video_fragments\<close>) and the send loop writes them to a data channel. The receiving half
  is TypeScript: \<open>src/clients/web/src/protocol/frame.ts\<close> parses a message through the header getters
  of \<open>src/crates/sh-wasm/src/lib.rs\<close>, and \<open>reassembler.ts\<close> puts the access unit together.

  The frame source is a trait of the host: its two methods are the fields of a record over an
  abstract source state. A data channel is reliable and ordered; it keeps the messages sent and how
  many more the peer takes before it closes. JavaScript numbers that come from the header getters are
  small integers and are modelled as \<open>nat\<close>, so the guard \<open>Number.isInteger\<close> always holds.
\<close>

subsection \<open>Fragments of an access unit\<close>

datatype host_error =
    PayloadLenOverflow
  | TooManyShpFragments
  | FragIndexOverflow
  | HeaderEncode protocol_error
  | FragmentCountOverflow
  | SourceFailed string

definition build_one_fragment ::
  "u16 \<Rightarrow> u32 \<Rightarrow> u64 \<Rightarrow> frame_type \<Rightarrow> bytes \<Rightarrow> u8 \<Rightarrow> u8 \<Rightarrow> host_error + bytes" where
  "build_one_fragment seq fid ts ftype chunk fi total_n =
     (if \<not> length chunk < 2 ^ 16 then Err PayloadLenOverflow
      else let is_multi = (total_n > 1);
               is_last = (total_n \<noteq> 0 \<and> total_n - 1 = fi);
               common = common_encode
                 \<lparr>channel = Video, flags = \<lparr>fragment = is_multi, last_fragment = (is_multi \<and> is_last)\<rparr>,
                  sequence = seq, timestamp_us = ts, payload_len = of_nat (length chunk)\<rparr>
        in and_then (map_err HeaderEncode (video_encode
             \<lparr>frame_id = ucast fid, frag_index = fi, total_frags = total_n, vcodec = H264,
              vframe_type = ftype, vpriority = High, monitor_id = 0, marker = is_last,
              encode_ts_us = ts\<rparr>)) (\<lambda>video. Ok (common @ video @ chunk)))"

definition build_shp_video_frame :: "u16 \<Rightarrow> u32 \<Rightarrow> u64 \<Rightarrow> frame_type \<Rightarrow> bytes \<Rightarrow> host_error + bytes" where
  "build_shp_video_frame seq fid ts ftype payload = build_one_fragment seq fid ts ftype payload 0 1"

text \<open>\<open>slice::chunks\<close>.\<close>

function chunks_of :: "nat \<Rightarrow> 'a list \<Rightarrow> 'a list list" where
  "chunks_of n xs = (if n = 0 \<or> xs = [] then [] else take n xs # chunks_of n (drop n xs))"
  by auto
termination by (relation "measure (\<lambda>(n, xs). length xs)") auto

declare chunks_of.simps [simp del]

definition build_shp_video_fragments ::
  "u16 \<Rightarrow> u32 \<Rightarrow> u64 \<Rightarrow> frame_type \<Rightarrow> bytes \<Rightarrow> nat \<Rightarrow> host_error + bytes list" where
  "build_shp_video_fragments seq_start fid ts ftype payload max_fragment_bytes =
     (let chunk_size = min (max max_fragment_bytes 1) 65535;
          num = max (div_ceil (length payload) chunk_size) 1
      in if \<not> num < 256 then Err TooManyShpFragments
         else let total_n = (of_nat num :: u8) in
           if payload = []
           then and_then (build_one_fragment seq_start fid ts ftype [] 0 total_n) (\<lambda>f. Ok [f])
           else try_map (\<lambda>(i, chunk).
             if \<not> i < 256 then Err FragIndexOverflow
             else build_one_fragment (seq_start + ucast (of_nat i :: u8)) fid ts ftype chunk (of_nat i) total_n)
             (enumerate 0 (chunks_of chunk_size payload)))"

subsection \<open>The send loop\<close>

record 's video_source =
  next_frame :: "'s \<Rightarrow> 's \<times> (host_error + (frame_type \<times> bytes))"
  request_keyframe :: "'s \<Rightarrow> 's"

record data_channel =
  dc_sent :: "bytes list"
  dc_takes :: "nat option"

definition dc_send :: "data_channel \<Rightarrow> bytes \<Rightarrow> data_channel \<times> bool" where
  "dc_send c m =
     (case dc_takes c of
        None \<Rightarrow> (c\<lparr>dc_sent := dc_sent c @ [m]\<rparr>, True)
      | Some 0 \<Rightarrow> (c, False)
      | Some (Suc k) \<Rightarrow> (c\<lparr>dc_sent := dc_sent c @ [m], dc_takes := Some k\<rparr>, True))"

fun dc_send_all :: "data_channel \<Rightarrow> bytes list \<Rightarrow> data_channel \<times> bool" where
  "dc_send_all c [] = (c, True)"
| "dc_send_all c (m # ms) =
     (case dc_send c m of (c', ok) \<Rightarrow> if ok then dc_send_all c' ms else (c', False))"

datatype frame_step = Sent u16 | Skipped | PeerClosed | Failed host_error

definition send_one_frame ::
  "'s video_source \<Rightarrow> data_channel \<Rightarrow> 's \<Rightarrow> u64 \<Rightarrow> u64 \<Rightarrow> u16 \<Rightarrow> nat
     \<Rightarrow> data_channel \<times> 's \<times> frame_step" where
  "send_one_frame vs c s sent_index per_us seq max_fragment_bytes =
     (case next_frame vs s of
        (s1, Inl e) \<Rightarrow> (c, s1, Failed e)
      | (s1, Inr (ftype, payload)) \<Rightarrow>
        let masked = sent_index AND ucast MAX_FRAME_ID;
            fid = (if unat masked < 2 ^ 32 then ucast masked else 0) :: u32;
            ts = sent_index * per_us
        in case build_shp_video_fragments seq fid ts ftype payload max_fragment_bytes of
             Inl _ \<Rightarrow> (c, request_keyframe vs s1, Skipped)
           | Inr frags \<Rightarrow>
             if \<not> length frags < 2 ^ 16 then (c, s1, Failed FragmentCountOverflow)
             else (case dc_send_all c frags of
                     (c', ok) \<Rightarrow> (c', s1, if ok then Sent (of_nat (length frags)) else PeerClosed)))"

text \<open>
  The loop sends until \<open>frames_to_send\<close> frames went out. A frame that does not fit is dropped without
  being counted, so a source of such frames keeps the loop running: the fuel bounds its iterations,
  and \<open>None\<close> means it has not returned. The counter \<open>sent\<close> is a \<open>usize\<close>, its cast to \<open>u64\<close> lossless.
\<close>

fun video_send_loop ::
  "nat \<Rightarrow> 's video_source \<Rightarrow> u64 \<Rightarrow> nat \<Rightarrow> nat \<Rightarrow> data_channel \<Rightarrow> 's \<Rightarrow> nat \<Rightarrow> u16
     \<Rightarrow> (data_channel \<times> 's \<times> nat \<times> (host_error + unit)) option" where
  "video_send_loop 0 vs per_us mfb frames_to_send c s sent seq = None"
| "video_send_loop (Suc fuel) vs per_us mfb frames_to_send c s sent seq =
     (if \<not> sent < frames_to_send then Some (c, s, sent, Ok ())
      else case send_one_frame vs c s (of_nat sent) per_us seq mfb of
        (c', s', Sent n) \<Rightarrow> video_send_loop fuel vs per_us mfb frames_to_send c' s' (usz_add sent 1) (seq + n)
      | (c', s', Skipped) \<Rightarrow> video_send_loop fuel vs per_us mfb frames_to_send c' s' sent seq
      | (c', s', PeerClosed) \<Rightarrow> Some (c', s', sent, Ok ())
      | (c', s', Failed e) \<Rightarrow> Some (c', s', sent, Err e))"

definition run_video_send_loop ::
  "nat \<Rightarrow> 's video_source \<Rightarrow> u64 \<Rightarrow> nat \<Rightarrow> nat \<Rightarrow> data_channel \<Rightarrow> 's
     \<Rightarrow> (data_channel \<times> 's \<times> nat \<times> (host_error + unit)) option" where
  "run_video_send_loop fuel vs per_us mfb frames_to_send c s =
     video_send_loop fuel vs per_us mfb frames_to_send c s 0 0"

text \<open>The clip the binary replays: parsed from the fixture, then cycled.\<close>

definition from_le32 :: "bytes \<Rightarrow> u32" where
  "from_le32 b = from_be (rev b)"

function parse_baked_frames :: "bytes \<Rightarrow> (frame_type \<times> bytes) list" where
  "parse_baked_frames data =
     (case get_range 0 4 data of
        None \<Rightarrow> []
      | Some len_bytes \<Rightarrow>
        let len = unat (from_le32 len_bytes) in
        (case get_at data 4 of
           None \<Rightarrow> []
         | Some b \<Rightarrow>
           let ftype = (if b = 1 then Idr else if b = 2 then IntraRefresh else Predicted);
               rest = drop 5 data
           in (case get_range 0 len rest of
                 None \<Rightarrow> []
               | Some payload \<Rightarrow> (ftype, payload) # parse_baked_frames (drop len rest))))"
  by auto
termination
  by (relation "measure length") (auto simp: get_range_def split: if_splits)

declare parse_baked_frames.simps [simp del]

record baked_source =
  bs_frames :: "(frame_type \<times> bytes) list"
  bs_index :: u64

definition baked_new :: "bytes \<Rightarrow> baked_source" where
  "baked_new fixture = \<lparr>bs_frames = parse_baked_frames fixture, bs_index = 0\<rparr>"

definition baked_next :: "baked_source \<Rightarrow> baked_source \<times> (host_error + (frame_type \<times> bytes))" where
  "baked_next b =
     (if bs_frames b = [] then (b, Err (SourceFailed ''baked H.264 fixture is empty''))
      else let idx = unat (bs_index b) mod length (bs_frames b) in
        case get_at (bs_frames b) idx of
          None \<Rightarrow> (b, Err (SourceFailed ''baked frame index out of bounds (internal error)''))
        | Some f \<Rightarrow> (b\<lparr>bs_index := bs_index b + 1\<rparr>, Ok f))"

definition baked :: "baked_source video_source" where
  "baked = \<lparr>next_frame = baked_next, request_keyframe = (\<lambda>b. b)\<rparr>"

subsection \<open>Parsing in the browser\<close>

record wasm_video_header =
  wv_frame_id :: nat
  wv_frag_index :: nat
  wv_total_frags :: nat
  wv_codec :: nat
  wv_frame_type :: nat
  wv_marker :: bool

text \<open>The getters of \<open>WasmVideoHeader\<close> that the browser reads.\<close>

definition wasm_video_getters :: "video_header \<Rightarrow> wasm_video_header" where
  "wasm_video_getters h =
     \<lparr>wv_frame_id = unat (ucast (frame_id h) :: u32), wv_frag_index = unat (frag_index h),
      wv_total_frags = unat (total_frags h),
      wv_codec = (case vcodec h of H264 \<Rightarrow> 0 | H265 \<Rightarrow> 1 | Av1 \<Rightarrow> 2 | Raw \<Rightarrow> 3),
      wv_frame_type = (case vframe_type h of Predicted \<Rightarrow> 0 | Idr \<Rightarrow> 1 | IntraRefresh \<Rightarrow> 2),
      wv_marker = marker h\<rparr>"

type_synonym parsed_frame = "wasm_video_header \<times> bytes"

definition CHANNEL_VIDEO :: u8 where "CHANNEL_VIDEO = 0"

definition parseVideoFrame :: "bytes \<Rightarrow> parsed_frame option" where
  "parseVideoFrame frame =
     (if length frame < COMMON_HEADER_LEN + VIDEO_HEADER_LEN then None
      else case common_decode (take COMMON_HEADER_LEN frame) of
        Inl _ \<Rightarrow> None
      | Inr common \<Rightarrow>
        if u8_of_channel (channel common) \<noteq> CHANNEL_VIDEO then None
        else (case video_decode (take VIDEO_HEADER_LEN (drop COMMON_HEADER_LEN frame)) of
          Inl _ \<Rightarrow> None
        | Inr h \<Rightarrow> Some (wasm_video_getters h, drop (COMMON_HEADER_LEN + VIDEO_HEADER_LEN) frame)))"

subsection \<open>Reassembly in the browser\<close>

record access_unit =
  au_frame_type :: nat
  au_codec :: nat
  au_payload :: bytes

definition isKeyframe :: "access_unit \<Rightarrow> bool" where
  "isKeyframe u \<longleftrightarrow> au_codec u = 0 \<and> au_frame_type u = 1"

definition MAX_FRAGMENTS :: nat where "MAX_FRAGMENTS = 4096"
definition MAX_BUFFERED_BYTES :: nat where "MAX_BUFFERED_BYTES = 16 * 1024 * 1024"

record web_reassembler =
  wr_current :: "nat option"
  wr_expected :: nat
  wr_next :: nat
  wr_codec :: nat
  wr_frame_type :: nat
  wr_chunks :: "bytes list"
  wr_bytes :: nat

definition wr_reset :: web_reassembler where
  "wr_reset = \<lparr>wr_current = None, wr_expected = 0, wr_next = 0, wr_codec = 0, wr_frame_type = 0,
     wr_chunks = [], wr_bytes = 0\<rparr>"

definition wr_begin :: "wasm_video_header \<Rightarrow> web_reassembler" where
  "wr_begin h = \<lparr>wr_current = Some (wv_frame_id h), wr_expected = wv_total_frags h, wr_next = 0,
     wr_codec = wv_codec h, wr_frame_type = wv_frame_type h, wr_chunks = [], wr_bytes = 0\<rparr>"

text \<open>\<open>concatChunks\<close> copies the chunks one after the other into a zeroed buffer.\<close>

definition concatChunks :: "web_reassembler \<Rightarrow> bytes" where
  "concatChunks r = fst (foldl (\<lambda>(out, offset) chunk.
       (take offset out @ chunk @ drop (offset + length chunk) out, offset + length chunk))
     (replicate (wr_bytes r) 0, 0) (wr_chunks r))"

text \<open>The part of \<open>push\<close> from the copy of the payload on.\<close>

definition wr_append :: "web_reassembler \<Rightarrow> parsed_frame \<Rightarrow> web_reassembler \<times> access_unit option" where
  "wr_append r f =
     (let bytes_n = wr_bytes r + length (snd f) in
      if bytes_n > MAX_BUFFERED_BYTES then (wr_reset, None)
      else let r' = r\<lparr>wr_bytes := bytes_n, wr_chunks := wr_chunks r @ [snd f], wr_next := wr_next r + 1\<rparr> in
        if wv_marker (fst f) then
          (if wr_next r' \<noteq> wr_expected r' then (wr_reset, None)
           else (wr_reset, Some \<lparr>au_frame_type = wr_frame_type r', au_codec = wr_codec r',
                   au_payload = concatChunks r'\<rparr>))
        else if wr_next r' \<ge> wr_expected r' then (wr_reset, None)
        else (r', None))"

definition wr_push :: "web_reassembler \<Rightarrow> parsed_frame \<Rightarrow> web_reassembler \<times> access_unit option" where
  "wr_push r f =
     (let h = fst f in
      if wv_total_frags h \<le> 1
      then (wr_reset, Some \<lparr>au_frame_type = wv_frame_type h, au_codec = wv_codec h, au_payload = snd f\<rparr>)
      else if wv_total_frags h > MAX_FRAGMENTS then (wr_reset, None)
      else if wr_current r = None then
        (if wv_frag_index h \<noteq> 0 then (r, None) else wr_append (wr_begin h) f)
      else if Some (wv_frame_id h) = wr_current r \<and> wv_total_frags h = wr_expected r
              \<and> wv_frag_index h = wr_next r
      then wr_append r f
      else if wv_frag_index h = 0 then wr_append (wr_begin h) f
      else (wr_reset, None))"

text \<open>The message handler of \<open>app.ts\<close>: a message that does not parse is dropped.\<close>

definition on_video_message :: "web_reassembler \<Rightarrow> bytes \<Rightarrow> web_reassembler \<times> access_unit option" where
  "on_video_message r m =
     (case parseVideoFrame m of None \<Rightarrow> (r, None) | Some f \<Rightarrow> wr_push r f)"

fun browser_run :: "web_reassembler \<Rightarrow> bytes list \<Rightarrow> web_reassembler \<times> access_unit option list" where
  "browser_run r [] = (r, [])"
| "browser_run r (m # ms) =
     (case on_video_message r m of (r1, out) \<Rightarrow>
      case browser_run r1 ms of (r2, outs) \<Rightarrow> (r2, out # outs))"


subsection \<open>What a fragment holds\<close>

lemma concat_chunks_of [simp]: "0 < n \<Longrightarrow> concat (chunks_of n xs) = xs"
  by (induction n xs rule: chunks_of.induct) (subst chunks_of.simps, auto)

lemma length_chunks_of: "0 < n \<Longrightarrow> length (chunks_of n xs) = div_ceil (length xs) n"
proof (induction n xs rule: chunks_of.induct)
  case (1 n xs)
  show ?case
  proof (cases "length xs \<le> n")
    case True
    then show ?thesis using "1.prems"
      by (subst chunks_of.simps) (auto simp: chunks_of.simps [of n "[]"] div_ceil_def le_less)
  next
    case False
    then have l: "length xs = (length xs - n) + n" and ne: "xs \<noteq> []" by auto
    have "div_ceil (length xs) n = Suc (div_ceil (length xs - n) n)"
      using "1.prems" False unfolding div_ceil_def by (auto simp: le_div_geq le_mod_geq)
    then show ?thesis using 1 ne by (subst chunks_of.simps) auto
  qed
qed

lemma chunks_of_le: "c \<in> set (chunks_of n xs) \<Longrightarrow> length c \<le> n"
  by (induction n xs rule: chunks_of.induct) (subst (asm) (2) chunks_of.simps, auto split: if_splits)

lemma try_map_cong: "(\<And>x. x \<in> set xs \<Longrightarrow> f x = g x) \<Longrightarrow> try_map f xs = try_map g xs"
  by (induction xs) auto

lemma try_map_ex_Ok: "(\<And>x. x \<in> set xs \<Longrightarrow> \<exists>y. f x = Inr y) \<Longrightarrow> \<exists>ys. try_map f xs = Inr ys"
  by (induction xs) auto

definition host_header :: "u32 \<Rightarrow> frame_type \<Rightarrow> nat \<Rightarrow> nat \<Rightarrow> wasm_video_header" where
  "host_header fid ftype i n =
     \<lparr>wv_frame_id = unat fid, wv_frag_index = i, wv_total_frags = n, wv_codec = 0,
      wv_frame_type = (case ftype of Predicted \<Rightarrow> 0 | Idr \<Rightarrow> 1 | IntraRefresh \<Rightarrow> 2),
      wv_marker = (i + 1 = n)\<rparr>"

lemma parse_one_fragment:
  assumes "build_one_fragment seq fid ts ftype chunk (of_nat i) (of_nat n) = Inr m" and "i < n" and "n < 256"
  shows "parseVideoFrame m = Some (host_header fid ftype i n, chunk)"
proof -
  define c where "c = \<lparr>channel = Video, flags = \<lparr>fragment = ((of_nat n :: u8) > 1),
      last_fragment = ((of_nat n :: u8) > 1 \<and> (of_nat n :: u8) \<noteq> 0 \<and> (of_nat n :: u8) - 1 = of_nat i)\<rparr>,
      sequence = seq, timestamp_us = ts, payload_len = of_nat (length chunk)\<rparr>"
  define v where "v = \<lparr>frame_id = ucast fid, frag_index = of_nat i, total_frags = (of_nat n :: u8), vcodec = H264,
      vframe_type = ftype, vpriority = High, monitor_id = 0,
      marker = ((of_nat n :: u8) \<noteq> 0 \<and> (of_nat n :: u8) - 1 = of_nat i), encode_ts_us = ts\<rparr>"
  obtain vb where vb: "video_encode v = Inr vb" and m: "m = common_encode c @ vb @ chunk"
    using assms(1) by (auto simp: build_one_fragment_def Let_def c_def v_def split: if_splits)
  have lc: "length (common_encode c) = COMMON_HEADER_LEN" using common_wire.enc_length [OF refl] by simp
  have lv: "length vb = VIDEO_HEADER_LEN" by (rule video_wire.enc_length [OF vb])
  have "common_decode (common_encode c) = Inr (common_norm c)"
    using common_wire.dec_enc [of c, OF refl, of "[]"] by simp
  moreover have "video_decode vb = Inr (video_norm v)" using video_wire.dec_enc [OF vb, of "[]"] by simp
  moreover have "u8_of_channel (channel (common_norm c)) = CHANNEL_VIDEO"
    by (simp add: common_norm_def c_def u8_of_channel_def CHANNEL_VIDEO_def)
  ultimately have p: "parseVideoFrame m = Some (wasm_video_getters (video_norm v), chunk)"
    using lc lv by (simp add: parseVideoFrame_def m)
  have un: "unat (of_nat i :: u8) = i" "unat (of_nat n :: u8) = n" using assms(2,3) by (simp_all add: unat_of_nat_u8)
  have "((of_nat n :: u8) - 1 = of_nat i) = (i + 1 = n)"
  proof -
    have "unat ((of_nat n :: u8) - 1) = n - 1"
      using assms(2) un by (subst unat_sub) (auto simp: word_le_nat_alt)
    then show ?thesis using assms(2) un by (auto simp: word_unat_eq_iff)
  qed
  moreover have "(of_nat n :: u8) \<noteq> 0" using assms(2) un by (auto simp: word_unat_eq_iff)
  moreover have "(ucast (ucast fid :: u64) :: u32) = fid" by (rule bit_word_eqI) (auto simp: bit_simps)
  ultimately show ?thesis
    by (simp add: p wasm_video_getters_def video_norm_def v_def host_header_def un)
qed


definition frame_chunks :: "nat \<Rightarrow> bytes \<Rightarrow> bytes list" where
  "frame_chunks mfb payload = (if payload = [] then [[]] else chunks_of (min (max mfb 1) 65535) payload)"

text \<open>The frames that fit the 8-bit fragment count.\<close>

definition fits :: "nat \<Rightarrow> bytes \<Rightarrow> bool" where
  "fits mfb payload \<longleftrightarrow> length (frame_chunks mfb payload) < 256"

lemma frame_chunks_props:
  "concat (frame_chunks mfb payload) = payload"
  "length (frame_chunks mfb payload) = max (div_ceil (length payload) (min (max mfb 1) 65535)) 1"
  "\<forall>c \<in> set (frame_chunks mfb payload). length c \<le> 65535"
proof -
  let ?cs = "min (max mfb 1) 65535"
  have cs: "0 < ?cs" by simp
  show "concat (frame_chunks mfb payload) = payload" using cs by (simp add: frame_chunks_def)
  have "0 < div_ceil (length payload) ?cs" if "payload \<noteq> []"
    using that div_ceil_bounds(1) [OF cs, of "length payload"] by (cases "div_ceil (length payload) ?cs") auto
  moreover have "div_ceil 0 ?cs = 0" by (simp add: div_ceil_def)
  ultimately show "length (frame_chunks mfb payload) = max (div_ceil (length payload) ?cs) 1"
    using length_chunks_of [OF cs, of payload] unfolding frame_chunks_def by (cases "payload = []") (simp_all del: One_nat_def)
  show "\<forall>c \<in> set (frame_chunks mfb payload). length c \<le> 65535"
    by (auto simp: frame_chunks_def dest!: chunks_of_le)
qed

lemma build_fragments_eq:
  "build_shp_video_fragments seq fid ts ftype payload mfb =
     (let cks = frame_chunks mfb payload; n = length cks in
      if \<not> n < 256 then Inl TooManyShpFragments
      else try_map (\<lambda>(i, chunk). build_one_fragment (seq + ucast (of_nat i :: u8)) fid ts ftype chunk
             (of_nat i) (of_nat n)) (enumerate 0 cks))"
proof -
  let ?n = "length (frame_chunks mfb payload)"
  have eq: "try_map (\<lambda>(i, chunk). if \<not> i < 256 then Inl FragIndexOverflow else f i chunk) (enumerate 0 cks) =
      try_map (\<lambda>(i, chunk). f i chunk) (enumerate 0 cks)"
    if "length cks < 256" for f :: "nat \<Rightarrow> bytes \<Rightarrow> host_error + bytes" and cks :: "bytes list"
    by (rule try_map_cong) (use that in \<open>auto simp: in_set_enumerate_eq\<close>)
  show ?thesis
  proof (cases "payload = []")
    case True
    then show ?thesis
      by (simp add: build_shp_video_fragments_def frame_chunks_def Let_def div_ceil_def enumerate_simps
          and_then_def split: sum.splits)
  next
    case False
    then show ?thesis
      using eq [of "chunks_of (min (max mfb 1) 65535) payload"] frame_chunks_props(2) [of mfb payload]
      by (simp add: build_shp_video_fragments_def Let_def frame_chunks_def)
  qed
qed

lemma build_one_fragment_total:
  "length chunk \<le> 65535 \<Longrightarrow> fid \<le> MAX_FRAME_ID \<Longrightarrow> \<exists>m. build_one_fragment seq fid ts ftype chunk fi n = Inr m"
  by (auto simp: build_one_fragment_def Let_def video_encode_def MAX_FRAME_ID_def MAX_MONITOR_ID_def
      word_less_nat_alt word_le_nat_alt unat_ucast_up)

text \<open>A frame fits exactly when it is cut into fragments, and the browser parses each one.\<close>

lemma build_fragments_iff:
  assumes "fid \<le> MAX_FRAME_ID"
  shows "(\<exists>ms. build_shp_video_fragments seq fid ts ftype payload mfb = Inr ms) \<longleftrightarrow> fits mfb payload"
proof
  assume "fits mfb payload"
  let ?cks = "frame_chunks mfb payload"
  have "\<forall>x \<in> set (enumerate 0 ?cks). length (snd x) \<le> 65535"
    using frame_chunks_props(3) [of mfb payload] by (auto simp: in_set_enumerate_eq)
  then have "\<exists>ms. try_map (\<lambda>(i, chunk). build_one_fragment (seq + ucast (of_nat i :: u8)) fid ts ftype chunk
             (of_nat i) (of_nat (length ?cks))) (enumerate 0 ?cks) = Inr ms"
    using build_one_fragment_total [OF _ assms] by (intro try_map_ex_Ok) auto
  then show "\<exists>ms. build_shp_video_fragments seq fid ts ftype payload mfb = Inr ms"
    using \<open>fits mfb payload\<close> by (simp add: build_fragments_eq fits_def Let_def)
qed (auto simp: build_fragments_eq fits_def Let_def split: if_splits)

lemma parse_fragments:
  assumes "build_shp_video_fragments seq fid ts ftype payload mfb = Inr ms"
  defines "cks \<equiv> frame_chunks mfb payload"
  shows "map parseVideoFrame ms =
    map (\<lambda>(i, c). Some (host_header fid ftype i (length cks), c)) (enumerate 0 cks)"
    and "length cks < 256" and "length ms = length cks"
proof -
  let ?f = "\<lambda>(i, chunk). build_one_fragment (seq + ucast (of_nat i :: u8)) fid ts ftype chunk
             (of_nat i) (of_nat (length cks))"
  from assms(1) show n: "length cks < 256"
    by (auto simp: build_fragments_eq Let_def cks_def split: if_splits)
  from assms(1) n have tm: "try_map ?f (enumerate 0 cks) = Inr ms"
    by (auto simp: build_fragments_eq Let_def cks_def)
  from try_map_Ok_nth [OF tm] show l: "length ms = length cks" by simp
  show "map parseVideoFrame ms =
    map (\<lambda>(i, c). Some (host_header fid ftype i (length cks), c)) (enumerate 0 cks)"
  proof (rule nth_equalityI)
    fix j assume "j < length (map parseVideoFrame ms)"
    then have j: "j < length cks" using l by simp
    then have "?f (enumerate 0 cks ! j) = Inr (ms ! j)" using try_map_Ok_nth [OF tm] by simp
    then have "build_one_fragment (seq + ucast (of_nat j :: u8)) fid ts ftype (cks ! j) (of_nat j) (of_nat (length cks)) = Inr (ms ! j)"
      using j by (simp add: nth_enumerate_eq)
    from parse_one_fragment [OF this j n]
    show "map parseVideoFrame ms ! j = map (\<lambda>(i, c). Some (host_header fid ftype i (length cks), c)) (enumerate 0 cks) ! j"
      using j l by (simp add: nth_enumerate_eq)
  qed (use l in simp)
qed


subsection \<open>What the browser holds\<close>

lemma concatChunks_eq:
  assumes "wr_bytes r = length (concat (wr_chunks r))"
  shows "concatChunks r = concat (wr_chunks r)"
proof -
  have "foldl (\<lambda>(out, offset) chunk.
       (take offset out @ chunk @ drop (offset + length chunk) out, offset + length chunk))
     (pre @ replicate (length (concat cs)) 0, length pre) cs = (pre @ concat cs, length (pre @ concat cs))"
    for pre :: bytes and cs
  proof (induction cs arbitrary: pre)
    case (Cons c cs)
    then show ?case using Cons.IH [of "pre @ c"] by simp
  qed simp
  from this [of "[]" "wr_chunks r"] show ?thesis by (simp add: concatChunks_def assms)
qed

text \<open>The frames a partial stands for: consecutive fragments of one frame, from its head.\<close>

definition partial_of :: "web_reassembler \<Rightarrow> parsed_frame list \<Rightarrow> bool" where
  "partial_of r fs \<longleftrightarrow> length fs = wr_next r \<and> wr_next r < wr_expected r \<and> wr_expected r \<le> MAX_FRAGMENTS
     \<and> wr_chunks r = map snd fs \<and> wr_bytes r = length (concat (map snd fs)) \<and> wr_bytes r \<le> MAX_BUFFERED_BYTES
     \<and> (\<forall>j < length fs. wv_frag_index (fst (fs ! j)) = j \<and> Some (wv_frame_id (fst (fs ! j))) = wr_current r
          \<and> wv_total_frags (fst (fs ! j)) = wr_expected r \<and> \<not> wv_marker (fst (fs ! j)))"

definition head_of :: "web_reassembler \<Rightarrow> parsed_frame list \<Rightarrow> bool" where
  "head_of r fs \<longleftrightarrow> fs \<noteq> [] \<and> wr_codec r = wv_codec (fst (hd fs)) \<and> wr_frame_type r = wv_frame_type (fst (hd fs))"

definition unit_of :: "parsed_frame list \<Rightarrow> access_unit \<Rightarrow> bool" where
  "unit_of fs u \<longleftrightarrow> fs \<noteq> [] \<and> au_payload u = concat (map snd fs)
     \<and> au_codec u = wv_codec (fst (hd fs)) \<and> au_frame_type u = wv_frame_type (fst (hd fs))
     \<and> (if length fs = 1 then wv_total_frags (fst (hd fs)) \<le> 1
        else \<forall>j < length fs. wv_frag_index (fst (fs ! j)) = j
          \<and> wv_frame_id (fst (fs ! j)) = wv_frame_id (fst (hd fs))
          \<and> wv_total_frags (fst (fs ! j)) = length fs \<and> wv_marker (fst (fs ! j)) = (j + 1 = length fs))"

definition wr_inv :: "parsed_frame list \<Rightarrow> web_reassembler \<Rightarrow> bool" where
  "wr_inv hist r \<longleftrightarrow> r = wr_reset \<or>
     (wr_current r \<noteq> None \<and> (\<exists>fs. suffix fs hist \<and> partial_of r fs \<and> head_of r fs))"

lemma wr_append_step:
  assumes "partial_of r fs" and "head_of r (fs @ [f])" and "2 \<le> wr_expected r"
    and "wv_frag_index (fst f) = wr_next r" and "Some (wv_frame_id (fst f)) = wr_current r"
    and "wv_total_frags (fst f) = wr_expected r"
    and "suffix (fs @ [f]) hist"
  shows "wr_inv hist (fst (wr_append r f)) \<and> (\<forall>u. snd (wr_append r f) = Some u \<longrightarrow> unit_of (fs @ [f]) u)"
proof (cases "wr_bytes r + length (snd f) > MAX_BUFFERED_BYTES")
  case True
  then show ?thesis by (simp add: wr_append_def wr_inv_def)
next
  case False
  define r' where "r' = r\<lparr>wr_bytes := wr_bytes r + length (snd f), wr_chunks := wr_chunks r @ [snd f], wr_next := wr_next r + 1\<rparr>"
  have app: "wr_append r f = (if wv_marker (fst f) then
          (if wr_next r' \<noteq> wr_expected r' then (wr_reset, None)
           else (wr_reset, Some \<lparr>au_frame_type = wr_frame_type r', au_codec = wr_codec r',
                   au_payload = concatChunks r'\<rparr>))
        else if wr_next r' \<ge> wr_expected r' then (wr_reset, None) else (r', None))"
    using False by (simp add: wr_append_def Let_def r'_def)
  have at: "wv_frag_index (fst ((fs @ [f]) ! j)) = j \<and> Some (wv_frame_id (fst ((fs @ [f]) ! j))) = wr_current r
      \<and> wv_total_frags (fst ((fs @ [f]) ! j)) = wr_expected r
      \<and> wv_marker (fst ((fs @ [f]) ! j)) = (j = length fs \<and> wv_marker (fst f))" if "j < length (fs @ [f])" for j
    using assms(1,4-6) that by (auto simp: partial_of_def nth_append less_Suc_eq)
  have cc: "concatChunks r' = concat (map snd (fs @ [f]))"
    using assms(1) by (subst concatChunks_eq) (auto simp: r'_def partial_of_def)
  show ?thesis
  proof (cases "wv_marker (fst f)")
    case True
    have "unit_of (fs @ [f]) \<lparr>au_frame_type = wr_frame_type r', au_codec = wr_codec r', au_payload = concatChunks r'\<rparr>"
      if "wr_next r' = wr_expected r'"
    proof -
      have n: "length (fs @ [f]) = wr_expected r" using that assms(1) by (simp add: r'_def partial_of_def)
      have "wv_frame_id (fst ((fs @ [f]) ! j)) = wv_frame_id (fst (hd (fs @ [f])))" if "j < length (fs @ [f])" for j
        using at [OF that] at [of 0] by (simp add: hd_conv_nth) (metis option.inject)
      then show ?thesis
        using at n True assms(2,3) unfolding unit_of_def cc by (auto simp: head_of_def r'_def)
    qed
    then show ?thesis using True by (simp add: app wr_inv_def)
  next
    case False
    have "wr_inv hist r'" if "wr_next r' < wr_expected r'"
    proof -
      have "partial_of r' (fs @ [f])"
        using assms(1) at False that \<open>\<not> wr_bytes r + length (snd f) > MAX_BUFFERED_BYTES\<close>
        by (auto simp: partial_of_def r'_def)
      moreover have "head_of r' (fs @ [f])" using assms(2) by (simp add: head_of_def r'_def)
      moreover have "wr_current r' \<noteq> None" using assms(5) by (cases "wr_current r") (simp_all add: r'_def)
      ultimately show ?thesis using assms(7) by (auto simp: wr_inv_def)
    qed
    then show ?thesis using False by (simp add: app wr_inv_def)
  qed
qed

lemma wr_push_step:
  assumes "wr_inv hist r"
  shows "wr_inv (hist @ [f]) (fst (wr_push r f))
    \<and> (\<forall>u. snd (wr_push r f) = Some u \<longrightarrow> (\<exists>fs. suffix fs (hist @ [f]) \<and> unit_of fs u))"
proof -
  let ?h = "fst f"
  have reset: "wr_inv hist' wr_reset" for hist' by (simp add: wr_inv_def)
  have start: "wr_inv (hist @ [f]) (fst (wr_append (wr_begin ?h) f))
    \<and> (\<forall>u. snd (wr_append (wr_begin ?h) f) = Some u \<longrightarrow> (\<exists>fs. suffix fs (hist @ [f]) \<and> unit_of fs u))"
    if "\<not> wv_total_frags ?h \<le> 1" "\<not> wv_total_frags ?h > MAX_FRAGMENTS" "wv_frag_index ?h = 0"
  proof -
    have p: "partial_of (wr_begin ?h) []" "head_of (wr_begin ?h) ([] @ [f])" "2 \<le> wr_expected (wr_begin ?h)"
      "wv_frag_index ?h = wr_next (wr_begin ?h)" "Some (wv_frame_id ?h) = wr_current (wr_begin ?h)"
      "wv_total_frags ?h = wr_expected (wr_begin ?h)"
      using that by (simp_all add: wr_begin_def partial_of_def head_of_def)
    have s: "suffix ([] @ [f]) (hist @ [f])" by (simp add: suffix_def)
    from wr_append_step [OF p s] s show ?thesis by blast
  qed
  consider (single) "wv_total_frags ?h \<le> 1" | (big) "\<not> wv_total_frags ?h \<le> 1" "wv_total_frags ?h > MAX_FRAGMENTS"
    | (idle) "\<not> wv_total_frags ?h \<le> 1" "\<not> wv_total_frags ?h > MAX_FRAGMENTS" "wr_current r = None"
    | (cont) "\<not> wv_total_frags ?h \<le> 1" "\<not> wv_total_frags ?h > MAX_FRAGMENTS" "wr_current r \<noteq> None"
        "Some (wv_frame_id ?h) = wr_current r \<and> wv_total_frags ?h = wr_expected r \<and> wv_frag_index ?h = wr_next r"
    | (other) "\<not> wv_total_frags ?h \<le> 1" "\<not> wv_total_frags ?h > MAX_FRAGMENTS" "wr_current r \<noteq> None"
        "\<not> (Some (wv_frame_id ?h) = wr_current r \<and> wv_total_frags ?h = wr_expected r \<and> wv_frag_index ?h = wr_next r)"
    by blast
  then show ?thesis
  proof cases
    case single
    have "suffix [f] (hist @ [f])" by (simp add: suffix_def)
    moreover have "unit_of [f] \<lparr>au_frame_type = wv_frame_type ?h, au_codec = wv_codec ?h, au_payload = snd f\<rparr>"
      using single by (simp add: unit_of_def)
    moreover have "wr_push r f = (wr_reset, Some \<lparr>au_frame_type = wv_frame_type ?h, au_codec = wv_codec ?h, au_payload = snd f\<rparr>)"
      using single by (simp add: wr_push_def Let_def)
    ultimately show ?thesis using reset by (metis fst_conv option.inject snd_conv)
  next
    case big
    then show ?thesis using reset by (simp add: wr_push_def)
  next
    case idle
    then have "r = wr_reset" using assms by (auto simp: wr_inv_def)
    with idle have "wr_push r f = (if wv_frag_index ?h \<noteq> 0 then (wr_reset, None) else wr_append (wr_begin ?h) f)"
      by (simp add: wr_push_def)
    then show ?thesis using start [OF idle(1,2)] reset by (cases "wv_frag_index ?h = 0") simp_all
  next
    case cont
    then obtain fs where fs: "suffix fs hist" "partial_of r fs" "head_of r fs"
      using assms by (auto simp: wr_inv_def wr_reset_def)
    have hs: "head_of r (fs @ [f])" "suffix (fs @ [f]) (hist @ [f])" using fs by (auto simp: head_of_def suffix_def)
    have e: "2 \<le> wr_expected r" "wv_frag_index ?h = wr_next r" "Some (wv_frame_id ?h) = wr_current r"
      "wv_total_frags ?h = wr_expected r"
      using cont by auto
    have "wr_push r f = wr_append r f" using cont(1-3) e by (cases "wr_current r") (simp_all add: wr_push_def Let_def)
    with wr_append_step [OF fs(2) hs(1) e hs(2)] hs(2) show ?thesis by auto
  next
    case other
    then have "wr_push r f = (if wv_frag_index ?h = 0 then wr_append (wr_begin ?h) f else (wr_reset, None))"
      unfolding wr_push_def Let_def by (auto simp del: not_None_eq)
    then show ?thesis using start [OF other(1,2)] reset by (cases "wv_frag_index ?h = 0") simp_all
  qed
qed

definition video_messages :: "bytes list \<Rightarrow> parsed_frame list" where
  "video_messages ms = List.map_filter parseVideoFrame ms"

lemma on_video_message_step:
  assumes "wr_inv (video_messages hist) r"
  shows "wr_inv (video_messages (hist @ [m])) (fst (on_video_message r m))
    \<and> (\<forall>u. snd (on_video_message r m) = Some u \<longrightarrow> (\<exists>fs. suffix fs (video_messages (hist @ [m])) \<and> unit_of fs u))"
proof (cases "parseVideoFrame m")
  case None
  then show ?thesis using assms by (simp add: on_video_message_def video_messages_def List.map_filter_def)
next
  case (Some f)
  then show ?thesis using wr_push_step [OF assms, of f]
    by (simp add: on_video_message_def video_messages_def List.map_filter_def)
qed

lemma browser_run_append:
  "browser_run r (ms @ ns) =
     (case browser_run r ms of (r1, outs1) \<Rightarrow> case browser_run r1 ns of (r2, outs2) \<Rightarrow> (r2, outs1 @ outs2))"
  by (induction ms arbitrary: r) (auto split: prod.splits)

lemma length_browser_run: "length (snd (browser_run r ms)) = length ms"
  by (induction ms arbitrary: r) (auto split: prod.splits, metis snd_conv)

lemma browser_run_inv:
  "wr_inv (video_messages ms) (fst (browser_run wr_reset ms)) \<and>
   (\<forall>i < length ms. \<forall>u. snd (browser_run wr_reset ms) ! i = Some u \<longrightarrow>
      (\<exists>fs. suffix fs (video_messages (take (Suc i) ms)) \<and> unit_of fs u))"
proof (induction ms rule: rev_induct)
  case Nil
  then show ?case by (simp add: wr_inv_def)
next
  case (snoc m ms)
  let ?r = "fst (browser_run wr_reset ms)" and ?o = "snd (browser_run wr_reset ms)"
  note st = on_video_message_step [OF conjunct1 [OF snoc.IH], of m]
  have run: "browser_run wr_reset (ms @ [m]) = (fst (on_video_message ?r m), ?o @ [snd (on_video_message ?r m)])"
    by (simp add: browser_run_append split: prod.splits)
  have lo: "length ?o = length ms" by (rule length_browser_run)
  show ?case
    using st snoc.IH unfolding run by (auto simp: nth_append lo less_Suc_eq)
qed


subsection \<open>One frame across the channel\<close>

definition unit_for :: "frame_type \<times> bytes \<Rightarrow> access_unit" where
  "unit_for f = \<lparr>au_frame_type = (case fst f of Predicted \<Rightarrow> 0 | Idr \<Rightarrow> 1 | IntraRefresh \<Rightarrow> 2),
     au_codec = 0, au_payload = snd f\<rparr>"

definition host_part :: "u32 \<Rightarrow> frame_type \<Rightarrow> bytes list \<Rightarrow> nat \<Rightarrow> web_reassembler" where
  "host_part fid ftype cks k = \<lparr>wr_current = Some (unat fid), wr_expected = length cks, wr_next = k, wr_codec = 0,
     wr_frame_type = au_frame_type (unit_for (ftype, [])), wr_chunks = take k cks,
     wr_bytes = length (concat (take k cks))\<rparr>"

lemma length_concat_bound: "\<forall>c \<in> set cks. length c \<le> b \<Longrightarrow> length (concat cks) \<le> length cks * (b :: nat)"
  by (induction cks) auto

lemma append_part:
  assumes "k < length cks" and "length cks < 256" and "\<forall>c \<in> set cks. length c \<le> 65535"
  shows "wr_append (host_part fid ftype cks k) (host_header fid ftype k (length cks), cks ! k) =
    (if Suc k = length cks then (wr_reset, Some (unit_for (ftype, concat cks))) else (host_part fid ftype cks (Suc k), None))"
proof -
  have tk: "take (Suc k) cks = take k cks @ [cks ! k]" using assms(1) by (simp add: take_Suc_conv_app_nth)
  have "length (concat (take (Suc k) cks)) \<le> Suc k * 65535"
    using length_concat_bound [of "take (Suc k) cks" 65535] assms(1,3) by (auto dest!: in_set_takeD)
  also have "\<dots> \<le> MAX_BUFFERED_BYTES" using assms(1,2) by (simp add: MAX_BUFFERED_BYTES_def)
  finally have small: "\<not> length (concat (take k cks)) + length (cks ! k) > MAX_BUFFERED_BYTES" by (simp add: tk)
  let ?r = "host_part fid ftype cks k"
  have r': "?r\<lparr>wr_bytes := wr_bytes ?r + length (cks ! k), wr_chunks := wr_chunks ?r @ [cks ! k], wr_next := wr_next ?r + 1\<rparr>
      = host_part fid ftype cks (Suc k)"
    by (simp add: host_part_def tk)
  have "concatChunks (host_part fid ftype cks (Suc k)) = concat (take (Suc k) cks)"
    by (subst concatChunks_eq) (simp_all add: host_part_def)
  moreover have "\<not> wr_bytes ?r + length (cks ! k) > MAX_BUFFERED_BYTES" using small by (simp add: host_part_def)
  ultimately show ?thesis
    using assms(1) unfolding wr_append_def Let_def fst_conv snd_conv r'
    by (auto simp: host_header_def host_part_def unit_for_def)
qed

lemma push_first:
  assumes "wr_inv hist r" and "2 \<le> n" and "n < 256"
  shows "wr_push r (host_header fid ftype 0 n, c) = wr_append (wr_begin (host_header fid ftype 0 n)) (host_header fid ftype 0 n, c)"
proof -
  have "wr_current r \<noteq> None \<Longrightarrow> wr_next r \<noteq> 0"
    using assms(1) unfolding wr_inv_def partial_of_def head_of_def by (metis length_0_conv select_convs(1) wr_reset_def)
  then show ?thesis using assms(2,3) by (auto simp: wr_push_def Let_def host_header_def MAX_FRAGMENTS_def)
qed

lemma browser_frame:
  assumes "map parseVideoFrame ms = map (\<lambda>(i, c). Some (host_header fid ftype i (length cks), c)) (enumerate 0 cks)"
    and "cks \<noteq> []" and "length cks < 256" and "\<forall>c \<in> set cks. length c \<le> 65535" and "wr_inv hist r"
  shows "browser_run r ms = (wr_reset, replicate (length ms - 1) None @ [Some (unit_for (ftype, concat cks))])"
proof -
  let ?n = "length cks"
  have l: "length ms = ?n" using arg_cong [OF assms(1), of length] by simp
  have p: "parseVideoFrame (ms ! i) = Some (host_header fid ftype i ?n, cks ! i)" if "i < ?n" for i
    using arg_cong [OF assms(1), of "\<lambda>x. x ! i"] that l by (simp add: nth_enumerate_eq)
  show ?thesis
  proof (cases "?n = 1")
    case True
    then obtain m c where mc: "ms = [m]" "cks = [c]" using l by (metis One_nat_def length_0_conv length_Suc_conv)
    then have "parseVideoFrame m = Some (host_header fid ftype 0 1, c)" using p [of 0] by simp
    then show ?thesis using mc by (simp add: on_video_message_def wr_push_def host_header_def unit_for_def)
  next
    case False
    moreover have "?n \<noteq> 0" using assms(2) by simp
    ultimately have n2: "2 \<le> ?n" by linarith
    have rest: "browser_run (host_part fid ftype cks k) (drop k ms) =
        (wr_reset, replicate (?n - k - 1) None @ [Some (unit_for (ftype, concat cks))])" if "k < ?n" "0 < k" for k
      using that
    proof (induction "?n - k" arbitrary: k)
      case (Suc d)
      have dk: "drop k ms = ms ! k # drop (Suc k) ms" using Suc.prems l by (simp add: Cons_nth_drop_Suc)
      have "wr_push (host_part fid ftype cks k) (host_header fid ftype k ?n, cks ! k) =
          wr_append (host_part fid ftype cks k) (host_header fid ftype k ?n, cks ! k)"
        using n2 assms(3) by (simp add: wr_push_def host_header_def host_part_def MAX_FRAGMENTS_def)
      then have om: "on_video_message (host_part fid ftype cks k) (ms ! k) =
          (if Suc k = ?n then (wr_reset, Some (unit_for (ftype, concat cks))) else (host_part fid ftype cks (Suc k), None))"
        using append_part [OF Suc.prems(1) assms(3,4)] p [OF Suc.prems(1)] by (simp add: on_video_message_def)
      show ?case
      proof (cases "Suc k = ?n")
        case True
        then show ?thesis using om dk l by simp
      next
        case False
        then have "Suc k < ?n" using Suc.prems by simp
        moreover from this have "?n - k - 1 = Suc (?n - Suc k - 1)" by simp
        ultimately show ?thesis using Suc.hyps om dk by simp
      qed
    qed simp
    obtain m ms' where ms: "ms = m # ms'" using l assms(2) by (cases ms) auto
    have "wr_begin (host_header fid ftype 0 ?n) = host_part fid ftype cks 0"
      by (simp add: wr_begin_def host_header_def host_part_def unit_for_def)
    then have "on_video_message r m = (host_part fid ftype cks 1, None)"
      using append_part [of 0 cks] n2 assms(2-4) p [of 0] ms push_first [OF assms(5) n2 assms(3)]
      by (simp add: on_video_message_def)
    then show ?thesis using rest [of 1] n2 ms l by (simp add: replicate_Suc [symmetric] Suc_diff_Suc del: replicate_Suc)
  qed
qed


lemma browser_fragments:
  assumes "build_shp_video_fragments seq fid ts ftype payload mfb = Inr ms" and "wr_inv hist r"
  shows "browser_run r ms = (wr_reset, replicate (length ms - 1) None @ [Some (unit_for (ftype, payload))])"
proof -
  have "length (frame_chunks mfb payload) \<noteq> 0" unfolding frame_chunks_props(2) by simp
  then have "frame_chunks mfb payload \<noteq> []" by simp
  from browser_frame [OF parse_fragments(1) [OF assms(1)] this parse_fragments(2) [OF assms(1)] frame_chunks_props(3) assms(2)]
  show ?thesis by (simp only: frame_chunks_props(1))
qed

subsection \<open>A stream of frames\<close>

text \<open>
  What a stream should deliver: the first \<open>n\<close> frames of the source that fit, and the error that ended
  it early, if any.
\<close>

fun stream_spec ::
  "nat \<Rightarrow> 's video_source \<Rightarrow> nat \<Rightarrow> 's \<Rightarrow> nat \<Rightarrow> ((frame_type \<times> bytes) list \<times> host_error option) option" where
  "stream_spec 0 vs mfb s n = None"
| "stream_spec (Suc fuel) vs mfb s n =
     (if n = 0 then Some ([], None)
      else case next_frame vs s of
        (s1, Inl e) \<Rightarrow> Some ([], Some e)
      | (s1, Inr f) \<Rightarrow>
          if fits mfb (snd f) then map_option (\<lambda>(fs, e). (f # fs, e)) (stream_spec fuel vs mfb s1 (n - 1))
          else stream_spec fuel vs mfb (request_keyframe vs s1) n)"

fun somes :: "'a option list \<Rightarrow> 'a list" where
  "somes [] = []"
| "somes (None # xs) = somes xs"
| "somes (Some x # xs) = x # somes xs"

lemma somes_append [simp]: "somes (xs @ ys) = somes xs @ somes ys"
  by (induction xs rule: somes.induct) simp_all

lemma somes_None [simp]: "somes (replicate n None) = []"
  by (induction n) simp_all

definition delivered :: "bytes list \<Rightarrow> access_unit list" where
  "delivered ms = somes (snd (browser_run wr_reset ms))"

lemma dc_send_all_open:
  "dc_takes c = None \<Longrightarrow> dc_send_all c ms = (c\<lparr>dc_sent := dc_sent c @ ms\<rparr>, True)"
  by (induction ms arbitrary: c) (simp_all add: dc_send_def)

lemma masked_frame_id:
  fixes i :: u64
  shows "unat (i AND ucast MAX_FRAME_ID) < 2 ^ 32" "(ucast (i AND ucast MAX_FRAME_ID) :: u32) \<le> MAX_FRAME_ID"
proof -
  have m: "unat (take_bit 24 i) < 2 ^ 24" using take_bit_eq_self_unat [of 24 "take_bit 24 i"] by simp
  then show "unat (i AND ucast MAX_FRAME_ID) < 2 ^ 32" by (simp add: and_mask_24)
  have "unat (ucast (take_bit 24 i) :: u32) = unat (take_bit 24 i)"
    using m by (simp add: unsigned_ucast_eq take_bit_nat_eq_self)
  then show "(ucast (i AND ucast MAX_FRAME_ID) :: u32) \<le> MAX_FRAME_ID"
    using m unfolding and_mask_24 word_le_nat_alt by (simp add: MAX_FRAME_ID_def)
qed

lemma send_one_frame_eq:
  assumes "next_frame vs s = (s1, Inr f)" and "dc_takes c = None"
  shows "fits mfb (snd f) \<Longrightarrow> \<exists>ms. send_one_frame vs c s i per_us seq mfb =
      (c\<lparr>dc_sent := dc_sent c @ ms\<rparr>, s1, Sent (of_nat (length ms)))
      \<and> (\<forall>hist r. wr_inv hist r \<longrightarrow>
           browser_run r ms = (wr_reset, replicate (length ms - 1) None @ [Some (unit_for f)]))"
    and "\<not> fits mfb (snd f) \<Longrightarrow>
      send_one_frame vs c s i per_us seq mfb = (c, request_keyframe vs s1, Skipped)"
proof -
  obtain t p where f: "f = (t, p)" by fastforce
  let ?fid = "ucast (i AND ucast MAX_FRAME_ID) :: u32"
  note iff = build_fragments_iff [OF masked_frame_id(2), of seq i "i * per_us" t p mfb]
  have sof: "send_one_frame vs c s i per_us seq mfb =
      (case build_shp_video_fragments seq ?fid (i * per_us) t p mfb of
         Inl _ \<Rightarrow> (c, request_keyframe vs s1, Skipped)
       | Inr frags \<Rightarrow> if \<not> length frags < 2 ^ 16 then (c, s1, Failed FragmentCountOverflow)
           else (c\<lparr>dc_sent := dc_sent c @ frags\<rparr>, s1, Sent (of_nat (length frags))))"
    using assms masked_frame_id(1) [of i] by (simp add: send_one_frame_def f Let_def dc_send_all_open split: sum.splits)
  show "\<exists>ms. send_one_frame vs c s i per_us seq mfb = (c\<lparr>dc_sent := dc_sent c @ ms\<rparr>, s1, Sent (of_nat (length ms)))
      \<and> (\<forall>hist r. wr_inv hist r \<longrightarrow>
           browser_run r ms = (wr_reset, replicate (length ms - 1) None @ [Some (unit_for f)]))"
    if "fits mfb (snd f)"
  proof -
    from that iff obtain ms where ms: "build_shp_video_fragments seq ?fid (i * per_us) t p mfb = Inr ms"
      by (auto simp: f)
    have "length ms < 2 ^ 16" using parse_fragments(2,3) [OF ms] by simp
    with ms browser_fragments [OF ms] show ?thesis by (auto simp: sof f)
  qed
  show "send_one_frame vs c s i per_us seq mfb = (c, request_keyframe vs s1, Skipped)" if "\<not> fits mfb (snd f)"
    using that iff by (auto simp: sof f split: sum.splits)
qed

lemma video_send_loop_delivers:
  assumes "stream_spec fuel vs mfb s n = Some (fs, e)" and "dc_takes c = None" and "sent + n < 2 ^ 64"
    and "browser_run wr_reset (dc_sent c) = (wr_reset, outs)"
  shows "\<exists>c' s' outs'. video_send_loop fuel vs per_us mfb (sent + n) c s sent seq =
      Some (c', s', sent + length fs, case e of None \<Rightarrow> Inr () | Some x \<Rightarrow> Inl x)
    \<and> browser_run wr_reset (dc_sent c') = (wr_reset, outs @ outs')
    \<and> somes outs' = map unit_for fs"
  using assms
proof (induction fuel arbitrary: s n fs c sent seq outs)
  case 0
  then show ?case by simp
next
  case (Suc fuel)
  show ?case
  proof (cases "n = 0")
    case True
    then show ?thesis using Suc.prems by (auto intro!: exI [of _ "[]"])
  next
    case False
    obtain s1 res where nf: "next_frame vs s = (s1, res)" by fastforce
    show ?thesis
    proof (cases res)
      case (Inl x)
      then show ?thesis using Suc.prems False nf
        by (auto simp: send_one_frame_def intro!: exI [of _ "[]"])
    next
      case (Inr f)
      note step = send_one_frame_eq [OF nf [unfolded Inr] Suc.prems(2)]
      show ?thesis
      proof (cases "fits mfb (snd f)")
        case True
        from step(1) [OF True, of "of_nat sent" per_us seq] obtain ms where
          sof: "send_one_frame vs c s (of_nat sent) per_us seq mfb = (c\<lparr>dc_sent := dc_sent c @ ms\<rparr>, s1, Sent (of_nat (length ms)))"
          and br: "\<forall>hist r. wr_inv hist r \<longrightarrow>
             browser_run r ms = (wr_reset, replicate (length ms - 1) None @ [Some (unit_for f)])"
          by blast
        obtain fs' where fs: "fs = f # fs'" and sp: "stream_spec fuel vs mfb s1 (n - 1) = Some (fs', e)"
          using Suc.prems(1) False nf Inr True by auto
        let ?c = "c\<lparr>dc_sent := dc_sent c @ ms\<rparr>" and ?o = "outs @ replicate (length ms - 1) None @ [Some (unit_for f)]"
        have "browser_run wr_reset (dc_sent ?c) = (wr_reset, ?o)"
          using br Suc.prems(4) by (simp add: browser_run_append wr_inv_def)
        from Suc.IH [OF sp, of ?c "Suc sent" ?o "seq + of_nat (length ms)"] this Suc.prems(2,3) False
        obtain c' s' outs' where IH: "video_send_loop fuel vs per_us mfb (Suc sent + (n - 1)) ?c s1 (Suc sent) (seq + of_nat (length ms)) =
            Some (c', s', Suc sent + length fs', case e of None \<Rightarrow> Inr () | Some x \<Rightarrow> Inl x)"
          "browser_run wr_reset (dc_sent c') = (wr_reset, ?o @ outs')" "somes outs' = map unit_for fs'"
          by auto
        have us: "usz_add sent 1 = Suc sent" using Suc.prems(3) False by (simp add: usz_add_def usize_max_def)
        have "video_send_loop (Suc fuel) vs per_us mfb (sent + n) c s sent seq =
            Some (c', s', sent + length fs, case e of None \<Rightarrow> Inr () | Some x \<Rightarrow> Inl x)"
          using IH(1) False sof us by (simp add: fs)
        moreover have "somes (replicate (length ms - 1) None @ [Some (unit_for f)] @ outs') = map unit_for fs"
          using IH(3) by (simp add: fs)
        ultimately show ?thesis using IH(2) by (metis append_assoc)
      next
        case F: False
        then show ?thesis using Suc.IH [of "request_keyframe vs s1" n fs c sent outs seq] Suc.prems False nf Inr step(2) [OF F]
          by simp
      qed
    qed
  qed
qed


lemma baked_next_at:
  assumes "bs_frames b = frames" and "frames \<noteq> []" and "bs_index b = of_nat k" and "k < 2 ^ 64"
  shows "next_frame baked b = (b\<lparr>bs_index := of_nat (Suc k)\<rparr>, Inr (frames ! (k mod length frames)))"
  using assms by (simp add: baked_def baked_next_def get_at_def unat_of_nat_u64)

lemma baked_spec:
  assumes "bs_frames b = frames" and "frames \<noteq> []" and "bs_index b = of_nat k" and "k + m < 2 ^ 64"
    and "n \<le> length (filter (\<lambda>f. fits mfb (snd f)) (map (\<lambda>i. frames ! (i mod length frames)) [k..<k + m]))"
    and "m < fuel"
  shows "stream_spec fuel baked mfb b n =
    Some (take n (filter (\<lambda>f. fits mfb (snd f)) (map (\<lambda>i. frames ! (i mod length frames)) [k..<k + m])), None)"
  using assms
proof (induction fuel arbitrary: b k m n)
  case 0
  then show ?case by simp
next
  case (Suc fuel)
  show ?case
  proof (cases n)
    case (Suc n')
    then obtain m' where m: "m = Suc m'" using Suc.prems(5) by (cases m) auto
    let ?b = "b\<lparr>bs_index := of_nat (Suc k)\<rparr>"
    have nf: "next_frame baked b = (?b, Inr (frames ! (k mod length frames)))"
      by (rule baked_next_at) (use Suc.prems in auto)
    have up: "[k..<Suc (k + m')] = k # [Suc k..<Suc (k + m')]" by (simp add: upt_conv_Cons del: upt_Suc)
    have kf: "request_keyframe baked x = x" for x by (simp add: baked_def)
    show ?thesis
    proof (cases "fits mfb (snd (frames ! (k mod length frames)))")
      case True
      from Suc.prems(5) True have "n' \<le> length (filter (\<lambda>f. fits mfb (snd f)) (map (\<lambda>i. frames ! (i mod length frames)) [Suc k..<Suc k + m']))"
        by (simp add: up m Suc del: upt_Suc)
      with Suc.IH [of ?b "Suc k" m' n'] Suc.prems True show ?thesis
        by (simp add: nf up Suc m del: upt_Suc)
    next
      case False
      from Suc.prems(5) False have "n \<le> length (filter (\<lambda>f. fits mfb (snd f)) (map (\<lambda>i. frames ! (i mod length frames)) [Suc k..<Suc k + m']))"
        by (simp add: up m del: upt_Suc)
      with Suc.IH [of ?b "Suc k" m' n] Suc.prems False show ?thesis
        by (simp add: nf kf up Suc m del: upt_Suc)
    qed
  qed simp
qed

lemma cycle_eq: "map (\<lambda>i. xs ! (i mod length xs)) [0..<n * length xs] = concat (replicate n xs)"
proof (induction n)
  case (Suc n)
  have "[0..<Suc n * length xs] = [0..<n * length xs] @ map (\<lambda>i. i + n * length xs) [0..<length xs]"
    using upt_add_eq_append [of 0 "n * length xs" "length xs"] by (simp add: map_add_upt add.commute)
  moreover have "map (\<lambda>i. xs ! ((i + n * length xs) mod length xs)) [0..<length xs] = xs"
    by (rule nth_equalityI) simp_all
  ultimately have "map (\<lambda>i. xs ! (i mod length xs)) [0..<Suc n * length xs] = concat (replicate n xs) @ xs"
    using Suc by (simp add: o_def)
  also have "\<dots> = concat (replicate (Suc n) xs)" by (induction n) simp_all
  finally show ?case .
qed simp

lemma filter_replicate_length:
  "\<exists>x \<in> set xs. P x \<Longrightarrow> n \<le> length (filter P (concat (replicate n xs)))"
proof (induction n)
  case (Suc n)
  then have "filter P xs \<noteq> []" by (auto simp: filter_empty_conv)
  then have "1 \<le> length (filter P xs)" by (cases "filter P xs") auto
  with Suc show ?case by simp
qed simp

lemma parsed_total: "parseVideoFrame m = Some f \<Longrightarrow> wv_total_frags (fst f) < 256"
  by (auto simp: parseVideoFrame_def wasm_video_getters_def unat_u8_less split: if_splits sum.splits)

lemma video_messages_parsed: "f \<in> set (video_messages ms) \<Longrightarrow> \<exists>m. parseVideoFrame m = Some f"
  by (auto simp: video_messages_def List.map_filter_def)

subsection \<open>Properties\<close>

text \<open>
  Whatever the frame source produces, the browser gets the stream the host sends. Over an open
  channel the send loop ends with the result that the source dictates, and the access units the browser
  hands to its decoder are exactly the first \<open>n\<close> frames of the source that fit 255 fragments, in
  order, each with its bytes and its frame type; the 16 MiB cap of the browser never cuts one.
\<close>

theorem stream_delivered:
  assumes "stream_spec fuel vs mfb s n = Some (fs, e)" and "n < 2 ^ 64"
  shows "\<exists>c s'. run_video_send_loop fuel vs per_us mfb n \<lparr>dc_sent = [], dc_takes = None\<rparr> s =
      Some (c, s', length fs, case e of None \<Rightarrow> Inr () | Some x \<Rightarrow> Inl x)
    \<and> delivered (dc_sent c) = map unit_for fs"
proof -
  from video_send_loop_delivers [OF assms(1), of "\<lparr>dc_sent = [], dc_takes = None\<rparr>" 0 "[]" per_us 0] assms(2)
  obtain c s' outs' where "video_send_loop fuel vs per_us mfb n \<lparr>dc_sent = [], dc_takes = None\<rparr> s 0 0 =
      Some (c, s', length fs, case e of None \<Rightarrow> Inr () | Some x \<Rightarrow> Inl x)"
    and "browser_run wr_reset (dc_sent c) = (wr_reset, outs')" and "somes outs' = map unit_for fs"
    by auto
  then show ?thesis by (auto simp: run_video_send_loop_def delivered_def)
qed

theorem stream_delivered_witness:
  "\<exists>c s'. run_video_send_loop 4 baked 33333 2 2 \<lparr>dc_sent = [], dc_takes = None\<rparr>
       \<lparr>bs_frames = [(Idr, [0, 0, 1, 0x65, 7]), (Predicted, [])], bs_index = 0\<rparr> = Some (c, s', 2, Inr ())
     \<and> delivered (dc_sent c) = [\<lparr>au_frame_type = 1, au_codec = 0, au_payload = [0, 0, 1, 0x65, 7]\<rparr>,
          \<lparr>au_frame_type = 0, au_codec = 0, au_payload = []\<rparr>]"
proof -
  let ?s = "\<lparr>bs_frames = [(Idr, [0, 0, 1, 0x65, 7]), (Predicted, [])], bs_index = 0\<rparr>"
  have "stream_spec 4 baked 2 ?s 2 = Some ([(Idr, [0, 0, 1, 0x65, 7]), (Predicted, [])], None)"
    by (simp add: eval_nat_numeral baked_def baked_next_def get_at_def fits_def frame_chunks_def chunks_of.simps)
  from stream_delivered [OF this, of 33333] show ?thesis by (simp add: unit_for_def numeral_2_eq_2 [symmetric])
qed

text \<open>
  C9. Streaming the baked clip always finishes. If one frame of the clip fits, the loop returns
  after at most \<open>n\<close> rounds of the clip, without error, and the browser has received \<open>n\<close> frames: the
  fitting frames of the clip, repeated in order.
\<close>

theorem baked_stream_finishes:
  assumes "\<exists>f \<in> set (parse_baked_frames fixture). fits mfb (snd f)"
    and "n * length (parse_baked_frames fixture) < 2 ^ 64"
  shows "\<exists>c s'. run_video_send_loop (Suc (n * length (parse_baked_frames fixture))) baked per_us mfb n
        \<lparr>dc_sent = [], dc_takes = None\<rparr> (baked_new fixture) = Some (c, s', n, Inr ())
    \<and> delivered (dc_sent c) =
        map unit_for (take n (filter (\<lambda>f. fits mfb (snd f)) (concat (replicate n (parse_baked_frames fixture)))))"
proof -
  let ?fs = "parse_baked_frames fixture"
  let ?good = "filter (\<lambda>f. fits mfb (snd f)) (concat (replicate n ?fs))"
  define fuel where "fuel = Suc (n * length ?fs)"
  have ne: "?fs \<noteq> []" using assms(1) by auto
  have len: "n \<le> length ?good" by (rule filter_replicate_length [OF assms(1)])
  have sp: "stream_spec fuel baked mfb (baked_new fixture) n = Some (take n ?good, None)"
    using baked_spec [of "baked_new fixture" ?fs 0 "n * length ?fs" n mfb fuel] ne len assms(2)
    by (simp add: cycle_eq baked_new_def fuel_def)
  have "n * 1 \<le> n * length ?fs" using ne by (intro mult_le_mono2) (simp add: Suc_le_eq)
  then have "0 + n < 2 ^ 64" using assms(2) by linarith
  from video_send_loop_delivers [OF sp _ this, of "\<lparr>dc_sent = [], dc_takes = None\<rparr>" "[]" per_us 0]
  obtain c s' outs' where "video_send_loop fuel baked per_us mfb n \<lparr>dc_sent = [], dc_takes = None\<rparr> (baked_new fixture) 0 0 =
      Some (c, s', length (take n ?good), Inr ())"
    and "browser_run wr_reset (dc_sent c) = (wr_reset, outs')" and "somes outs' = map unit_for (take n ?good)"
    by auto
  then show ?thesis using len unfolding fuel_def [symmetric] by (simp add: run_video_send_loop_def delivered_def min_def)
qed

theorem baked_stream_finishes_witness:
  "\<exists>c s'. run_video_send_loop 6 baked 33333 65000 5 \<lparr>dc_sent = [], dc_takes = None\<rparr>
       (baked_new [2, 0, 0, 0, 1, 0x65, 9]) = Some (c, s', 5, Inr ())
     \<and> delivered (dc_sent c) = replicate 5 \<lparr>au_frame_type = 1, au_codec = 0, au_payload = [0x65, 9]\<rparr>"
proof -
  have p: "parse_baked_frames [2, 0, 0, 0, 1, 0x65, 9] = [(Idr, [0x65, 9])]"
    by code_simp
  have f: "fits 65000 [0x65, 9]" by (simp add: fits_def frame_chunks_def chunks_of.simps)
  have c: "concat (replicate n [x]) = replicate n x" for n and x :: "frame_type \<times> bytes" by (induction n) simp_all
  from baked_stream_finishes [of "[2, 0, 0, 0, 1, 0x65, 9]" 65000 5 33333] f show ?thesis
    by (simp add: p unit_for_def c filter_replicate)
qed

text \<open>
  The browser never hands over a frame nobody sent. For any sequence of messages, hostile ones
  included, an access unit that comes out at some message is the concatenation of the payloads of
  the last video messages up to that one: either a single unfragmented message, or one fragment for
  each index from 0 to the declared count, all of one frame, the marker on the last only; its type
  and codec are those of the first.
\<close>

theorem browser_unit_exact:
  assumes "i < length ms" and "snd (browser_run wr_reset ms) ! i = Some u"
  shows "\<exists>fs. suffix fs (video_messages (take (Suc i) ms)) \<and> unit_of fs u"
  using browser_run_inv [of ms] assms by blast

theorem browser_unit_exact_witness:
  "\<exists>m u fs. build_shp_video_frame 0 3 0 Idr [1, 2] = Inr m \<and> snd (browser_run wr_reset [[9], m]) ! 1 = Some u
     \<and> suffix fs (video_messages [[9], m]) \<and> unit_of fs u"
proof -
  obtain m where m: "build_one_fragment 0 3 0 Idr [1, 2] 0 1 = Inr m"
    by (simp add: build_one_fragment_def video_encode_def MAX_FRAME_ID_def MAX_MONITOR_ID_def Let_def)
  have "parseVideoFrame m = Some (host_header 3 Idr 0 1, [1, 2])"
    using parse_one_fragment [of 0 3 0 Idr "[1, 2]" 0 1 m] m by simp
  moreover have "parseVideoFrame [9] = None" by (simp add: parseVideoFrame_def COMMON_HEADER_LEN_def)
  ultimately have r: "snd (browser_run wr_reset [[9], m]) ! 1 =
      Some \<lparr>au_frame_type = 1, au_codec = 0, au_payload = [1, 2]\<rparr>"
    by (simp add: on_video_message_def wr_push_def host_header_def)
  from browser_unit_exact [OF _ r] obtain fs where "suffix fs (video_messages [[9], m])"
    and "unit_of fs \<lparr>au_frame_type = 1, au_codec = 0, au_payload = [1, 2]\<rparr>" by auto
  with m r show ?thesis unfolding build_shp_video_frame_def by blast
qed

text \<open>
  The browser's buffer is bounded whatever arrives: it holds fewer than 255 chunks and at most
  16 MiB, its byte counter is the size of what it holds, and without a frame under way it is empty.
\<close>

theorem web_buffer_bounded:
  "length (wr_chunks (fst (browser_run wr_reset ms))) < 255
   \<and> wr_bytes (fst (browser_run wr_reset ms)) = length (concat (wr_chunks (fst (browser_run wr_reset ms))))
   \<and> wr_bytes (fst (browser_run wr_reset ms)) \<le> MAX_BUFFERED_BYTES
   \<and> (wr_current (fst (browser_run wr_reset ms)) = None \<longrightarrow> fst (browser_run wr_reset ms) = wr_reset)"
proof -
  let ?r = "fst (browser_run wr_reset ms)"
  have "wr_inv (video_messages ms) ?r" using browser_run_inv by blast
  then consider "?r = wr_reset" | fs where "wr_current ?r \<noteq> None" "suffix fs (video_messages ms)"
      "partial_of ?r fs" "head_of ?r fs"
    by (auto simp: wr_inv_def)
  then show ?thesis
  proof cases
    case 1
    then show ?thesis by (simp add: wr_reset_def)
  next
    case 2
    have "fs ! 0 \<in> set (video_messages ms)"
      using 2(2,4) set_mono_suffix [OF 2(2)] by (auto simp: head_of_def)
    then have "wv_total_frags (fst (fs ! 0)) < 256" using video_messages_parsed parsed_total by blast
    then show ?thesis using 2 unfolding partial_of_def head_of_def by auto
  qed
qed

end
