(* ===== verification/Spec2Isabelle.thy ===== *)
theory Spec2Isabelle
  imports Wire_Headers Wire_Control File_Transfer Packetize Channel_Delivery Bind_Cert Peer_Auth Authorizer
    Ice_Checks Ice_Relay Turn_Client Steering Sig_Client
    Allocator Loss_Recovery Paste_Sanitize Coord_Map Av_Sync Noise_Handshake Pairing Web_Video
begin

text \<open>
  \<^bold>\<open>Streamhaul\<close> is a remote-desktop system: a host captures and encodes its screen, splits the
  frames into datagrams and sends them, encrypted end to end, to a client that reassembles and
  decodes them and sends back input, files and clipboard text. The two ends find each other through
  a signalling relay, connect through ICE, STUN and TURN, prove their identities with device keys
  and certificates, and let grants and an authoriser decide what a session may do. This library
  models the parts of that system that compute, and proves what makes them correct.

  \<^bold>\<open>How the program is modelled.\<close> A struct is a record, an enum a datatype with the constructors of
  the source, a method with \<open>&mut self\<close> a function from the state to the new state and the result.
  \<open>Result\<close> is a sum (\<open>Ok\<close>, \<open>Err\<close>), every early return a branch, and a panic \<open>None\<close>. Machine integers
  are words of their width with the wrapping, saturating or checked operation that the code calls
  (\<open>Shp_Prelude\<close>); \<open>usize\<close> is a natural number with its bound of \<open>2 ^ 64\<close> written out where a sum could
  pass it. A \<open>BTreeMap\<close> is a key-ordered association list (\<open>Ord_Map\<close>), a \<open>HashMap\<close> an association
  list, a \<open>str\<close> a list of Unicode scalars with its UTF-8 form (\<open>Utf8\<close>). Clocks and random numbers are
  arguments. Third-party code is a parameter record with named hypotheses that say what its
  documentation promises, and every property with such a hypothesis has a witness on a concrete
  instance: \<open>crypto\<close> (AEAD, HKDF; \<open>Ratchet\<close>), \<open>suite\<close> (Ed25519, SHA-256; \<open>Device_Identity\<close>),
  \<open>snow\<close> (the Noise state machine; \<open>Noise_Handshake\<close>), \<open>spake\<close> (SPAKE2; \<open>Pairing\<close>), \<open>stun_hash\<close>
  (HMAC-SHA1, CRC-32; \<open>Stun_Mac\<close>), \<open>ice_env\<close> (datagram transport and random numbers; \<open>Ice_Agent\<close>) and
  \<open>md5\<close> (\<open>Turn_Client\<close>), \<open>sig_env\<close> (the authenticator; \<open>Sig_Server\<close>) and \<open>ws_env\<close> (WebSocket; \<open>Sig_Client\<close>).

  \<^bold>\<open>Wire formats\<close> (\<open>crates/sh-protocol\<close>, \<open>crates/sh-types\<close>).
  \<^item> \<open>Shp_Types\<close>: channel identifiers and saturating bit rates of \<open>sh-types\<close>.
  \<^item> \<open>Wire_Codec\<close>: the errors of \<open>sh-protocol\<close> and the locales \<open>wire_codec\<close> and \<open>strict_codec\<close> of a
    fixed-length message: what is encoded decodes to the same value, a decoder never reads past its
    length, and everything it accepts is the encoding of its result.
  \<^item> \<open>Wire_Headers\<close>, \<open>Wire_Control\<close>, \<open>Wire_File\<close>: common, video, input and feedback headers;
    control frames, codec and transport capabilities, clipboard messages; file messages. Each is an
    interpretation of these locales.

  \<^bold>\<open>Media path\<close> (\<open>crates/sh-core\<close>, \<open>sh-media\<close>, \<open>sh-adaptive\<close>, \<open>sh-input\<close>, \<open>sh-clipboard\<close>).
  \<^item> \<open>Packetize\<close> (\<open>packetize.rs\<close>): the fragments of a frame, in any order, reassemble to the frame, which
    is returned once; the buffer stays within its bound whatever arrives.
  \<^item> \<open>Web_Video\<close> (\<open>bins/streamhaul-webrtc-host\<close>, \<open>clients/web/src/protocol\<close>): the send loop of the WebRTC
    host and the reassembler of the browser, composed: the clip that the host replays arrives frame by
    frame; the browser hands over no frame that was not sent and buffers at most 16 MiB.
  \<^item> \<open>File_Transfer\<close> (\<open>file.rs\<close>): sender and receiver state machines; a transfer delivers the offered
    bytes, and no sequence of messages makes the receiver write past the offer.
  \<^item> \<open>Loss_Recovery\<close>, \<open>Allocator\<close>, \<open>Av_Sync\<close>, \<open>Coord_Map\<close>, \<open>Paste_Sanitize\<close>: gap reports and keyframe
    requests, the split of the session rate, the common playout clock, the pointer mapping and the
    paste sanitiser.

  \<^bold>\<open>End-to-end encryption\<close> (\<open>crates/sh-crypto/src/channel_crypto.rs\<close>).
  \<^item> \<open>Ratchet\<close>, \<open>Replay_Window\<close>, \<open>Channel_Crypto\<close>: the key chain per channel and direction, the
    1024-number window, and \<open>seal\<close>, \<open>open\<close> and rekeying. The window refines a set of seen numbers
    (locale \<open>replay_filter\<close>).
  \<^item> \<open>Channel_Security\<close>: over any run no nonce is used twice and no frame is opened twice (locale
    \<open>slot_ledger\<close>, interpreted for both directions). \<open>Channel_Delivery\<close>: what one peer seals the other
    opens, in the order it was sealed and across rekeying; a refused frame changes nothing.

  \<^bold>\<open>Identity and authorisation\<close> (\<open>crates/sh-crypto\<close>, \<open>crates/sh-core/src/authz\<close>).
  \<^item> \<open>Device_Identity\<close>, \<open>Bind_Cert\<close>, \<open>Peer_Auth\<close>, \<open>Ugc\<close>: keys and keystore (locale \<open>trust_store\<close>), and
    three signed structures (the layouts of certificate and grant share the locale \<open>tbs_codec\<close>): what is built is accepted, and
    what is accepted was signed by the named key over exactly these fields.
  \<^item> \<open>Noise_Handshake\<close> (\<open>noise.rs\<close>), \<open>Pairing\<close> (\<open>pairing.rs\<close>, \<open>sas.rs\<close>): the handshake with its certificates
    and the outcome, which exists only for a pinned peer whose certificate verifies; pairing codes,
    the password-authenticated exchange with key confirmation, and the functions that pin a peer. The
    last section of this theory composes both with \<open>Channel_Delivery\<close> (\<open>paired_peers_converse\<close>).
  \<^item> \<open>Caps_Mask\<close>, \<open>Authorizer\<close>: capability sets, the epoch store (locale \<open>min_epoch_store\<close>) and the session
    authoriser with presence, elevation and kill; every run is characterised by what was granted.

  \<^bold>\<open>Connectivity\<close> (\<open>crates/sh-ice\<close>).
  \<^item> \<open>Ice_Wire\<close>, \<open>Stun_Mac\<close>, \<open>Stun\<close>, \<open>Turn_Wire\<close>: attributes (locale \<open>attr_codec\<close>), the integrity
    envelope, and both message codecs.
  \<^item> \<open>Ice_Candidate\<close>, \<open>Ice_Agent\<close>, \<open>Ice_Invariant\<close>, \<open>Ice_Checks\<close>, \<open>Ice_Relay\<close>: candidates and pairs, the
    agent with one function per method, its invariant over every sequence of calls, connectivity
    checks between two agents, and relay candidates added while checks run.
  \<^item> \<open>Turn_Client\<close>, \<open>Steering\<close>: the allocation state machine against any server, and the choice of a
    relay by both ends.

  \<^bold>\<open>Signalling\<close> (\<open>crates/sh-signaling\<close>).
  \<^item> \<open>Show_Num\<close>, \<open>Sig_Envelope\<close>, \<open>Sig_Server\<close>, \<open>Sig_Client\<close>: envelopes, the handlers of the relay, the client
    with its retries. \<open>Sig_Relay\<close>: the relay as a transition system in which connections interleave,
    with an invariant of all reachable states; \<open>Sig_Client.client_registers\<close> composes client and relay.

  \<^bold>\<open>Bounds and fuel.\<close> Loops over data are structural or have a measure. A loop that waits for
  messages is a \<open>partial_function (option)\<close> whose value \<open>None\<close> means that it does not return. The
  waits of one connection attempt have no timeout in the code and may not return; \<open>retry_terminates\<close>
  shows that this is the only way in which connecting can fail to return, and \<open>client_registers\<close> that an
  attempt against the relay does. The video send loop has fuel, since it does not count frames that
  it drops; \<open>baked_stream_finishes\<close> gives the fuel that is enough. Counters that could pass their width carry the bound
  as a hypothesis of the property (a session of fewer than \<open>2 ^ 64\<close> frames, a file shorter than
  \<open>2 ^ 64\<close> bytes), and the witness shows a run within it.

  \<^bold>\<open>Not modelled.\<close> Code that only performs input and output or drives an operating system, a
  browser or a third-party library has no behaviour that a definition could compute: the sockets
  and tasks of \<open>sh-transport\<close> and of the binaries, the platform crates, the OpenH264 binding, the
  wasm bridges apart from the video header getters, and the DOM code of the web client; nor are the
  codec negotiation of \<open>sh-codec-hw\<close>, the file transfer of the web client and the input path of the WebRTC host. The estimators of \<open>sh-adaptive\<close> (\<open>gcc\<close>, \<open>scream\<close>,
  \<open>classifier\<close>, \<open>pacer\<close>, \<open>stats\<close>) and the input rate limiter compute with IEEE doubles; over the reals
  or rationals they would be a different program. Memory zeroisation and timing are outside the
  model, and so is secrecy: the theorems say what is accepted and delivered, not what an
  eavesdropper learns. \<open>PROJECT.json\<close> lists every part with its status; single-line constants are
  translated beside the operation that uses them.
\<close>

section \<open>From pairing to conversation\<close>

text \<open>Both sides of an unattended pairing: the messages and tags cross, and each side pins what it confirmed.\<close>

definition pair_both :: "crypto \<Rightarrow> 'p spake \<Rightarrow> 'p pake_exchange \<Rightarrow> 'p pake_exchange \<Rightarrow> keystore \<Rightarrow> keystore \<Rightarrow> crypto_error + keystore \<times> keystore" where
  "pair_both cr sp ei er ksi ksr =
     (case read_peer_msg cr sp ei (pe_outbound er) of (ei', _) \<Rightarrow>
      case read_peer_msg cr sp er (pe_outbound ei) of (er', _) \<Rightarrow>
      and_then (local_confirmation_mac ei') (\<lambda>mi. and_then (local_confirmation_mac er') (\<lambda>mr.
      and_then (pake_finish ei' mr) (\<lambda>ci. and_then (pake_finish er' mi) (\<lambda>cr'.
      Ok (fst (pair_unattended ci ksi), fst (pair_unattended cr' ksr)))))))"

lemma pair_unattended_trusts:
  assumes "\<not> ks_poisoned ks" and "\<not> ks_revoked ks d" and "holds_key su sk ks"
  shows "is_trusted (fst (pair_unattended \<lparr>pf_authorizes_pin = d\<rparr> ks)) d = Inr True"
    and "holds_key su sk (fst (pair_unattended \<lparr>pf_authorizes_pin = d\<rparr> ks))"
  using assms
  by (auto simp: pair_unattended_def pin_confirmed_store trust_peer_if_not_revoked_def ks_revoked_def is_trusted_def holds_key_def
      split: option.splits trust_state.splits)

lemma pair_both_Ok:
  assumes "hkdf_total cr" and "spake_correct sp" and "start_with_rng sp ra PakeInitiator code a b h = Inr ei"
    and "start_with_rng sp rb PakeResponder code b a h = Inr er"
  shows "pair_both cr sp ei er ksi ksr = Inr (fst (pair_unattended \<lparr>pf_authorizes_pin = b\<rparr> ksi), fst (pair_unattended \<lparr>pf_authorizes_pin = a\<rparr> ksr))"
  using pake_meets [OF assms] by (auto simp: pair_both_def simp del: and_then_eq_Ok)

text \<open>
  C1. Two devices that share a pairing code and have not revoked each other end up with the other's
  identity in their trust stores; a handshake of either pattern that they start afterwards completes
  on both sides, both derive the session keys, and every message of a conversation on any channel in
  either direction, with rekeying at any point, is delivered as it was sent.
\<close>

theorem paired_peers_converse:
  assumes "hkdf_total cr" and "aead_correct cr" and "sha_total su" and "sign_correct su" and "noise_correct sn" and "spake_correct sp"
    and "holds_key su ski ksi" and "holds_key su skr ksr" and "\<not> ks_poisoned ksi" and "\<not> ks_poisoned ksr"
    and "\<not> ks_revoked ksi (ks_identity ksr)" and "\<not> ks_revoked ksr (ks_identity ksi)"
    and "start_with_rng sp ra PakeInitiator code (ks_identity ksi) (ks_identity ksr) h = Inr ei"
    and "start_with_rng sp rb PakeResponder code (ks_identity ksr) (ks_identity ksi) h = Inr er"
  shows "\<exists>ksi' ksr'. pair_both cr sp ei er ksi ksr = Inr (ksi', ksr') \<and>
    (\<forall>hi hr. honest su sn p Initiator ski ksi' si (Some (sn_public sn sr)) ctx ci ti now hi \<longrightarrow>
      honest su sn p Responder skr ksr' sr None ctx cr' tr now hr \<longrightarrow>
      length ms < 2 ^ 31 - 2 \<longrightarrow> (\<forall>(_, _, _, pt) \<in> set ms. length pt \<le> AEAD_P_MAX) \<longrightarrow>
      (\<exists>hi' hr' oi or' ki kr. run_handshake su sn now p hi hr = Inr (hi', hr')
        \<and> complete cr sn hi' ksi' = Inr oi \<and> complete cr sn hr' ksr' = Inr or'
        \<and> ho_peer_identity oi = ks_identity ksr \<and> ho_peer_identity or' = ks_identity ksi
        \<and> from_outcome cr (ns_prk (ho_transport oi)) (ho_role oi) now = Inr ki \<and> from_outcome cr (ns_prk (ho_transport or')) (ho_role or') now = Inr kr
        \<and> converse cr later ki kr ms = map (\<lambda>(_, _, _, pt). Inr pt) ms))"
proof -
  define i where "i = fst (pair_unattended \<lparr>pf_authorizes_pin = ks_identity ksr\<rparr> ksi)"
  define r where "r = fst (pair_unattended \<lparr>pf_authorizes_pin = ks_identity ksi\<rparr> ksr)"
  have id: "ks_identity ksi = from_verifying_key su (s_public su ski)" "ks_identity ksr = from_verifying_key su (s_public su skr)"
    using assms(7,8) by (simp_all add: holds_key_def)
  note ti = pair_unattended_trusts [OF assms(9,11,7), folded i_def] and tr = pair_unattended_trusts [OF assms(10,12,8), folded r_def]
  show ?thesis
  proof (rule exI [of _ i], rule exI [of _ r], intro conjI allI impI)
    show "pair_both cr sp ei er ksi ksr = Inr (i, r)" unfolding i_def r_def by (rule pair_both_Ok [OF assms(1,6,13,14)])
    fix hi hr
    assume hi: "honest su sn p Initiator ski i si (Some (sn_public sn sr)) ctx ci ti now hi"
      and hr: "honest su sn p Responder skr r sr None ctx cr' tr now hr"
      and ms: "length ms < 2 ^ 31 - 2" "\<forall>(_, _, _, pt) \<in> set ms. length pt \<le> AEAD_P_MAX"
    obtain hi' hr' oi or' where o: "run_handshake su sn now p hi hr = Inr (hi', hr')" "complete cr sn hi' i = Inr oi" "complete cr sn hr' r = Inr or'"
        "ho_peer_identity oi = ks_identity ksr" "ho_peer_identity or' = ks_identity ksi" "ns_prk (ho_transport oi) = ns_prk (ho_transport or')"
        "ns_prk (ho_transport oi) = noise_session_prk cr (ho_handshake_hash oi)" "ho_role oi = Initiator" "ho_role or' = Responder"
      using handshake_outcomes [OF assms(3-5) hi hr ti(1) [unfolded id] tr(1) [unfolded id], of cr] by (auto simp: id)
    have l: "length (ns_prk (ho_transport oi)) = 32" using assms(1) by (simp add: o(7) noise_session_prk_def hkdf_total_def)
    obtain ki kr where k: "from_outcome cr (ns_prk (ho_transport oi)) Initiator now = Inr ki" "from_outcome cr (ns_prk (ho_transport oi)) Responder now = Inr kr"
      using from_outcome_Ok [OF assms(1) l] by blast
    have "converse cr later ki kr ms = map (\<lambda>(_, _, _, pt). Inr pt) ms"
      using converse_delivers [OF assms(1,2) from_outcome_in_step [OF assms(1) l k] _ ms(2)] ms(1) by simp
    then show "\<exists>hi' hr' oi or' ki kr. run_handshake su sn now p hi hr = Inr (hi', hr')
        \<and> complete cr sn hi' i = Inr oi \<and> complete cr sn hr' r = Inr or'
        \<and> ho_peer_identity oi = ks_identity ksr \<and> ho_peer_identity or' = ks_identity ksi
        \<and> from_outcome cr (ns_prk (ho_transport oi)) (ho_role oi) now = Inr ki \<and> from_outcome cr (ns_prk (ho_transport or')) (ho_role or') now = Inr kr
        \<and> converse cr later ki kr ms = map (\<lambda>(_, _, _, pt). Inr pt) ms"
      using o k by (intro exI conjI) (assumption | simp)+
  qed
qed

theorem paired_peers_converse_witness:
  "\<exists>ei er ksi' ksr' hi hr hi' hr' oi or' ki kr.
     start_with_rng plain_spake [1] PakeInitiator demo_code (demo_id 5) (demo_id 6) (replicate 32 7) = Inr ei
   \<and> start_with_rng plain_spake [2] PakeResponder demo_code (demo_id 6) (demo_id 5) (replicate 32 7) = Inr er
   \<and> pair_both plain_crypto plain_spake ei er (from_signing_key plain_suite [5]) (from_signing_key plain_suite [6]) = Inr (ksi', ksr')
   \<and> honest plain_suite plain_snow Ik Initiator [5] ksi' [1] (Some (sn_public plain_snow [2])) [9] None 1000 1500 hi
   \<and> honest plain_suite plain_snow Ik Responder [6] ksr' [2] None [9] None 1000 1500 hr
   \<and> run_handshake plain_suite plain_snow 1500 Ik hi hr = Inr (hi', hr')
   \<and> complete plain_crypto plain_snow hi' ksi' = Inr oi \<and> complete plain_crypto plain_snow hr' ksr' = Inr or'
   \<and> from_outcome plain_crypto (ns_prk (ho_transport oi)) (ho_role oi) 1500 = Inr ki
   \<and> from_outcome plain_crypto (ns_prk (ho_transport or')) (ho_role or') 1500 = Inr kr
   \<and> converse plain_crypto 1600 ki kr [(Initiator, None, Control, [1, 2]), (Responder, Some 1550, Video, [3])] = [Inr [1, 2], Inr [3]]"
proof -
  let ?ksi = "from_signing_key plain_suite [5]" and ?ksr = "from_signing_key plain_suite [6]"
  let ?ms = "[(Initiator, None, Control, [1, 2]), (Responder, Some 1550, Video, [3])] :: (handshake_role \<times> i64 option \<times> channel_id \<times> bytes) list"
  obtain ei er where e: "start_with_rng plain_spake [1] PakeInitiator demo_code (demo_id 5) (demo_id 6) (replicate 32 7) = Inr ei"
      "start_with_rng plain_spake [2] PakeResponder demo_code (demo_id 6) (demo_id 5) (replicate 32 7) = Inr er"
    using start_total by metis
  have k: "holds_key plain_suite [5] ?ksi" "holds_key plain_suite [6] ?ksr" "\<not> ks_poisoned ?ksi" "\<not> ks_poisoned ?ksr"
      "\<not> ks_revoked ?ksi (ks_identity ?ksr)" "\<not> ks_revoked ?ksr (ks_identity ?ksi)" "ks_identity ?ksi = demo_id 5" "ks_identity ?ksr = demo_id 6"
    by (simp_all add: holds_key_def from_signing_key_def ks_revoked_def demo_id_def)
  have ks: "fst (pair_unattended \<lparr>pf_authorizes_pin = demo_id 6\<rparr> ?ksi) = demo_keystore 5 6" "fst (pair_unattended \<lparr>pf_authorizes_pin = demo_id 5\<rparr> ?ksr) = demo_keystore 6 5"
    by (simp_all add: pair_unattended_def pin_confirmed_store trust_peer_if_not_revoked_def demo_keystore_def trust_peer_def from_signing_key_def demo_id_def)
  have p: "pair_both plain_crypto plain_spake ei er ?ksi ?ksr = Inr (demo_keystore 5 6, demo_keystore 6 5)"
    using pair_both_Ok [OF plain_crypto_total plain_spake_correct e] by (simp add: ks)
  obtain hi where hi: "honest plain_suite plain_snow Ik Initiator [5] (demo_keystore 5 6) [1] (Some (sn_public plain_snow [2])) [9] None 1000 1500 hi"
    by (rule demo_honest)
  obtain hr where hr: "honest plain_suite plain_snow Ik Responder [6] (demo_keystore 6 5) [2] None [9] None 1000 1500 hr" by (rule demo_honest)
  have ms: "length ?ms < 2147483646" "\<And>m. m \<in> set ?ms \<Longrightarrow> case m of (_, _, _, pt) \<Rightarrow> length pt \<le> AEAD_P_MAX"
    by (auto simp: AEAD_P_MAX_def)
  note c = paired_peers_converse [OF plain_crypto_total plain_crypto_correct plain_suite_total plain_suite_correct plain_snow_correct plain_spake_correct
      k(1-6) e [folded k(7,8)], unfolded p, simplified, rule_format, OF hi hr ms, of 1600]
  obtain hi' hr' oi or' ki kr where o: "run_handshake plain_suite plain_snow 1500 Ik hi hr = Inr (hi', hr')"
      "complete plain_crypto plain_snow hi' (demo_keystore 5 6) = Inr oi" "complete plain_crypto plain_snow hr' (demo_keystore 6 5) = Inr or'"
      "from_outcome plain_crypto (ns_prk (ho_transport oi)) (ho_role oi) 1500 = Inr ki"
      "from_outcome plain_crypto (ns_prk (ho_transport or')) (ho_role or') 1500 = Inr kr"
      "converse plain_crypto 1600 ki kr ?ms = [Inr [1, 2], Inr [3]]"
    using c by (auto simp del: converse.simps)
  show ?thesis by (intro exI conjI) (rule e p hi hr o)+
qed

end
